(* ===== verification/Prelude.thy ===== *)
theory Prelude
  imports Main
begin

text \<open>
  What every component of the model shares: JavaScript values as the source uses them
  (JSON values, truthiness, the nullish operator), the collections of facts that carry the
  component proofs, and the two interfaces under which a component with state is proved
  correct: \<open>invariant_system\<close> (a step function that keeps an invariant) and
  \<open>logging_system\<close> (a step function that only ever extends its observable trace).
\<close>

named_theorems inv_intros \<open>preservation lemmas of component invariants\<close>

section \<open>JavaScript values\<close>

text \<open>
  The values that JSON carries. The numbers the program puts into JSON are integers (ports,
  time stamps, counters), so a number is an \<open>int\<close>. An absent property is \<open>None\<close> of the
  option type around it.
\<close>

datatype json =
    JNull
  | JBool bool
  | JNum int
  | JStr string
  | JArr "json list"
  | JObj "(string \<times> json) list"

text \<open>The conversion to a boolean in an \<open>if\<close>, for a property that may be absent.\<close>

fun js_truthy :: "json option \<Rightarrow> bool" where
  "js_truthy None = False"
| "js_truthy (Some JNull) = False"
| "js_truthy (Some (JBool b)) = b"
| "js_truthy (Some (JNum n)) = (n \<noteq> 0)"
| "js_truthy (Some (JStr s)) = (s \<noteq> [])"
| "js_truthy (Some (JArr xs)) = True"
| "js_truthy (Some (JObj fs)) = True"

lemma js_truthy_Some: "js_truthy v \<Longrightarrow> \<exists>j. v = Some j"
  by (cases v) simp_all

text \<open>A string property that may be absent: the empty string is falsy as well.\<close>

definition str_truthy :: "string option \<Rightarrow> bool" where
  "str_truthy s = (case s of None \<Rightarrow> False | Some t \<Rightarrow> t \<noteq> [])"

lemma str_truthy_simps [simp]:
  "str_truthy None = False"
  "str_truthy (Some t) = (t \<noteq> [])"
  by (simp_all add: str_truthy_def)

text \<open>The operator \<open>??\<close>: the left operand unless it is null or undefined.\<close>

fun nullish :: "'a option \<Rightarrow> 'a option \<Rightarrow> 'a option" where
  "nullish (Some x) y = Some x"
| "nullish None y = y"

lemma nullish_None_right [simp]: "nullish x None = x"
  by (cases x) simp_all

lemma nullish_assoc: "nullish (nullish x y) z = nullish x (nullish y z)"
  by (cases x) simp_all

lemma nullish_eq_None [simp]: "nullish x y = None \<longleftrightarrow> x = None \<and> y = None"
  by (cases x) simp_all

text \<open>Numbers in template strings, and \<open>join\<close> of an array of strings.\<close>

fun nat_digits :: "nat \<Rightarrow> string" where
  "nat_digits n =
     (if n < 10 then [char_of (48 + n)] else nat_digits (n div 10) @ [char_of (48 + n mod 10)])"

declare nat_digits.simps [simp del]

definition int_string :: "int \<Rightarrow> string" where
  "int_string i = (if i < 0 then ''-'' @ nat_digits (nat (- i)) else nat_digits (nat i))"

fun join_with :: "string \<Rightarrow> string list \<Rightarrow> string" where
  "join_with sep [] = []"
| "join_with sep [x] = x"
| "join_with sep (x # y # xs) = x @ sep @ join_with sep (y # xs)"

section \<open>Lists\<close>

lemma find_append:
  "find P (xs @ ys) = (case find P xs of None \<Rightarrow> find P ys | Some x \<Rightarrow> Some x)"
  by (induction xs) auto

lemma find_SomeD: "find P xs = Some x \<Longrightarrow> x \<in> set xs \<and> P x"
  by (induction xs) (auto split: if_splits)

lemma find_Some_ex: "x \<in> set xs \<Longrightarrow> P x \<Longrightarrow> \<exists>y. find P xs = Some y"
  by (induction xs) auto

lemma find_filter_other:
  "(\<And>x. P x \<Longrightarrow> Q x) \<Longrightarrow> find P (filter Q xs) = find P xs"
  by (induction xs) auto

lemma find_map_pres:
  "(\<And>x. P (f x) = P x) \<Longrightarrow> find P (map f xs) = map_option f (find P xs)"
  by (induction xs) auto

lemma find_map: "find P (map f xs) = map_option f (find (\<lambda>x. P (f x)) xs)"
  by (induction xs) auto

text \<open>Counting the elements of a list with a property.\<close>

definition tally :: "('a \<Rightarrow> bool) \<Rightarrow> 'a list \<Rightarrow> nat" where
  "tally P xs = length (filter P xs)"

lemma tally_simps [simp]:
  "tally P [] = 0"
  "tally P (x # xs) = (if P x then Suc (tally P xs) else tally P xs)"
  "tally P (xs @ ys) = tally P xs + tally P ys"
  by (simp_all add: tally_def)

lemma tally_pos: "0 < tally P xs \<longleftrightarrow> (\<exists>x \<in> set xs. P x)"
  by (auto simp: tally_def filter_empty_conv)

lemma tally_zero: "(\<And>x. x \<in> set xs \<Longrightarrow> \<not> P x) \<Longrightarrow> tally P xs = 0"
  by (simp add: tally_def filter_empty_conv)

lemma tally_filter_le: "tally P (filter Q xs) \<le> tally P xs"
  by (induction xs) auto

text \<open>Dropping the entry of a key drops at least what that entry contributed.\<close>

lemma tally_drop_key:
  assumes "(k, v) \<in> set xs"
  shows "tally P (filter (\<lambda>x. fst x \<noteq> k) xs) + of_bool (P (k, v)) \<le> tally P xs"
  using assms
proof (induction xs)
  case (Cons x xs)
  have "tally P (filter (\<lambda>x. fst x \<noteq> k) xs) \<le> tally P xs"
    by (rule tally_filter_le)
  with Cons show ?case
    by (cases "x = (k, v)") (auto split: if_splits)
qed simp

section \<open>Components with state\<close>

text \<open>
  A component is a step function over the events that reach it; a run is the fold of the
  step function over a list of events. \<open>ok\<close> is what the component's environment
  guarantees of an event in a state.
\<close>

fun ok_run :: "('s \<Rightarrow> 'e \<Rightarrow> 's) \<Rightarrow> ('s \<Rightarrow> 'e \<Rightarrow> bool) \<Rightarrow> 's \<Rightarrow> 'e list \<Rightarrow> bool" where
  "ok_run step ok s [] = True"
| "ok_run step ok s (e # es) = (ok s e \<and> ok_run step ok (step s e) es)"

lemma ok_run_append:
  "ok_run step ok s (es @ fs) \<longleftrightarrow> ok_run step ok s es \<and> ok_run step ok (foldl step s es) fs"
  by (induction es arbitrary: s) auto

locale invariant_system =
  fixes step :: "'s \<Rightarrow> 'e \<Rightarrow> 's"
    and ok :: "'s \<Rightarrow> 'e \<Rightarrow> bool"
    and inv :: "'s \<Rightarrow> bool"
  assumes step_inv: "inv s \<Longrightarrow> ok s e \<Longrightarrow> inv (step s e)"
begin

lemma run_inv: "inv s \<Longrightarrow> ok_run step ok s es \<Longrightarrow> inv (foldl step s es)"
  by (induction es arbitrary: s) (auto intro: step_inv)

end

text \<open>The events of a run are all acceptable when acceptability does not depend on the state.\<close>

locale free_invariant_system =
  fixes step :: "'s \<Rightarrow> 'e \<Rightarrow> 's"
    and inv :: "'s \<Rightarrow> bool"
  assumes free_step_inv: "inv s \<Longrightarrow> inv (step s e)"
begin

lemma free_run_inv: "inv s \<Longrightarrow> inv (foldl step s es)"
  by (induction es arbitrary: s) (auto intro: free_step_inv)

end

sublocale free_invariant_system \<subseteq> invariant_system step "\<lambda>_ _. True" inv
  by unfold_locales (rule free_step_inv)

text \<open>A component that only ever extends its trace of observable actions.\<close>

locale logging_system = free_invariant_system step inv
  for step :: "'s \<Rightarrow> 'e \<Rightarrow> 's" and inv :: "'s \<Rightarrow> bool" +
  fixes trace :: "'s \<Rightarrow> 'o list"
  assumes step_trace: "inv s \<Longrightarrow> \<exists>os. trace (step s e) = trace s @ os"
begin

lemma run_trace: "inv s \<Longrightarrow> \<exists>os. trace (foldl step s es) = trace s @ os"
proof (induction es arbitrary: s)
  case Nil
  then show ?case by simp
next
  case (Cons e es)
  obtain os where "trace (step s e) = trace s @ os"
    using step_trace[OF Cons.prems] by blast
  moreover obtain os' where "trace (foldl step (step s e) es) = trace (step s e) @ os'"
    using Cons.IH[OF free_step_inv[OF Cons.prems]] by blast
  ultimately show ?case by simp
qed

lemma traced_stays: "inv s \<Longrightarrow> x \<in> set (trace s) \<Longrightarrow> x \<in> set (trace (foldl step s es))"
  using run_trace[of s es] by auto

end

end
