(* ===== verification/JsMap.thy ===== *)
theory JsMap
  imports Prelude
begin

text \<open>
  The ECMAScript \<open>Map\<close>: a keyed collection that remembers the order of insertion and whose
  iterators are live. \<open>for (const k of m.keys())\<close> with an \<open>await\<close> in its body
  visits the entries that are added behind the iterator's position while the loop is
  suspended and skips the ones that are deleted. Each entry therefore carries the stamp at
  which its key was inserted: an iterator is a position (a stamp), and what it still has to
  visit are the entries whose stamp is not below it. Setting a key that is present keeps the
  entry's place; deleting a key and setting it again moves it to the end.
\<close>

section \<open>The map and its operations\<close>

record ('k, 'v) jsmap =
  m_entries :: "(nat \<times> 'k \<times> 'v) list"
  m_next :: nat

definition map_new :: "('k, 'v) jsmap" where
  "map_new = \<lparr>m_entries = [], m_next = 0\<rparr>"

definition map_get :: "('k, 'v) jsmap \<Rightarrow> 'k \<Rightarrow> 'v option" where
  "map_get m k = map_option (\<lambda>e. snd (snd e)) (find (\<lambda>e. fst (snd e) = k) (m_entries m))"

definition map_has :: "('k, 'v) jsmap \<Rightarrow> 'k \<Rightarrow> bool" where
  "map_has m k = (k \<in> set (map (\<lambda>e. fst (snd e)) (m_entries m)))"

definition map_set :: "('k, 'v) jsmap \<Rightarrow> 'k \<Rightarrow> 'v \<Rightarrow> ('k, 'v) jsmap" where
  "map_set m k v =
     (if map_has m k
      then m\<lparr>m_entries := map (\<lambda>(i, k', v'). (i, k', if k' = k then v else v')) (m_entries m)\<rparr>
      else m\<lparr>m_entries := m_entries m @ [(m_next m, k, v)], m_next := Suc (m_next m)\<rparr>)"

definition map_delete :: "('k, 'v) jsmap \<Rightarrow> 'k \<Rightarrow> ('k, 'v) jsmap" where
  "map_delete m k = m\<lparr>m_entries := filter (\<lambda>e. fst (snd e) \<noteq> k) (m_entries m)\<rparr>"

definition map_clear :: "('k, 'v) jsmap \<Rightarrow> ('k, 'v) jsmap" where
  "map_clear m = m\<lparr>m_entries := []\<rparr>"

definition map_size :: "('k, 'v) jsmap \<Rightarrow> nat" where
  "map_size m = length (m_entries m)"

definition map_keys :: "('k, 'v) jsmap \<Rightarrow> 'k list" where
  "map_keys m = map (\<lambda>e. fst (snd e)) (m_entries m)"

definition map_values :: "('k, 'v) jsmap \<Rightarrow> 'v list" where
  "map_values m = map (\<lambda>e. snd (snd e)) (m_entries m)"

text \<open>What an iterator at position \<open>i\<close> still has to visit.\<close>

definition map_from :: "('k, 'v) jsmap \<Rightarrow> nat \<Rightarrow> (nat \<times> 'k \<times> 'v) list" where
  "map_from m i = filter (\<lambda>e. i \<le> fst e) (m_entries m)"

definition map_wf :: "('k, 'v) jsmap \<Rightarrow> bool" where
  "map_wf m \<longleftrightarrow>
     sorted_wrt (<) (map fst (m_entries m)) \<and>
     (\<forall>e \<in> set (m_entries m). fst e < m_next m) \<and>
     distinct (map_keys m)"

section \<open>Laws\<close>

lemma map_get_new [simp]: "map_get map_new k = None"
  by (simp add: map_get_def map_new_def)

lemma map_has_get: "map_has m k \<longleftrightarrow> map_get m k \<noteq> None"
  by (force simp: map_has_def map_get_def find_None_iff image_iff)

lemma map_get_set: "map_get (map_set m k v) k' = (if k' = k then Some v else map_get m k')"
proof (cases "map_has m k")
  case True
  then obtain e where e: "find (\<lambda>e. fst (snd e) = k) (m_entries m) = Some e"
    by (auto simp: map_has_get map_get_def)
  have "fst (snd e) = k"
    using e find_SomeD by fastforce
  with e True show ?thesis
    by (auto simp: map_set_def map_get_def find_map_pres split_beta option.map_comp o_def
        dest!: find_SomeD intro!: option.map_cong)
next
  case False
  then have "find (\<lambda>e. fst (snd e) = k) (m_entries m) = None"
    unfolding map_has_get map_get_def by (metis not_None_eq option.map(2))
  with False show ?thesis
    by (auto simp: map_set_def map_get_def find_append split: option.splits)
qed

lemma map_get_delete: "map_get (map_delete m k) k' = (if k' = k then None else map_get m k')"
proof (cases "k' = k")
  case True
  then show ?thesis
    by (simp add: map_delete_def map_get_def find_None_iff)
next
  case False
  then have "find (\<lambda>e. fst (snd e) = k') (filter (\<lambda>e. fst (snd e) \<noteq> k) (m_entries m)) =
      find (\<lambda>e. fst (snd e) = k') (m_entries m)"
    by (intro find_filter_other) auto
  with False show ?thesis
    by (simp add: map_delete_def map_get_def)
qed

lemma map_get_clear [simp]: "map_get (map_clear m) k = None"
  by (simp add: map_clear_def map_get_def)

lemma map_keys_set: "map_keys (map_set m k v) = (if map_has m k then map_keys m else map_keys m @ [k])"
  by (auto simp: map_set_def map_keys_def split_beta comp_def)

lemma map_keys_set_set: "set (map_keys (map_set m k v)) = insert k (set (map_keys m))"
proof (cases "map_has m k")
  case True
  then have "k \<in> set (map_keys m)"
    by (simp add: map_has_def map_keys_def)
  with True show ?thesis
    by (auto simp: map_keys_set)
qed (simp add: map_keys_set)

lemma map_keys_delete: "map_keys (map_delete m k) = filter (\<lambda>k'. k' \<noteq> k) (map_keys m)"
  by (simp add: map_delete_def map_keys_def filter_map comp_def)

lemma map_keys_get: "k \<in> set (map_keys m) \<longleftrightarrow> map_get m k \<noteq> None"
  unfolding map_has_get[symmetric] by (simp add: map_keys_def map_has_def)

lemma map_size_keys: "map_size m = length (map_keys m)"
  by (simp add: map_size_def map_keys_def)

lemma map_size_zero: "map_size m = 0 \<longleftrightarrow> (\<forall>k. map_get m k = None)"
proof -
  have "map_size m = 0 \<longleftrightarrow> set (map_keys m) = {}"
    by (simp add: map_size_keys)
  also have "\<dots> \<longleftrightarrow> (\<forall>k. map_get m k = None)"
    using map_keys_get[of _ m] by (metis empty_iff equals0I)
  finally show ?thesis .
qed

lemma map_delete_entries: "m_entries (map_delete m k) = filter (\<lambda>e. fst (snd e) \<noteq> k) (m_entries m)"
  by (simp add: map_delete_def)

lemma map_wf_new [simp]: "map_wf map_new"
  by (simp add: map_wf_def map_new_def map_keys_def)

lemma map_fst_set_present:
  "map_has m k \<Longrightarrow> map fst (m_entries (map_set m k v)) = map fst (m_entries m)"
  by (simp add: map_set_def split_beta comp_def)

lemma map_wf_set: "map_wf m \<Longrightarrow> map_wf (map_set m k v)"
proof (cases "map_has m k")
  case True
  assume wf: "map_wf m"
  have "\<forall>e \<in> set (m_entries (map_set m k v)). fst e < m_next m"
    using True wf by (auto simp: map_set_def map_wf_def)
  moreover have "m_next (map_set m k v) = m_next m"
    using True by (simp add: map_set_def)
  ultimately show ?thesis
    using wf map_fst_set_present[OF True] map_keys_set[of m k v] True
    unfolding map_wf_def by metis
next
  case False
  assume wf: "map_wf m"
  have "distinct (map_keys (map_set m k v))"
    using wf False by (simp add: map_keys_set map_wf_def) (simp add: map_has_def map_keys_def)
  with wf False show ?thesis
    by (auto simp: map_wf_def map_set_def sorted_wrt_append)
qed

lemma sorted_wrt_filter_map: "sorted_wrt (<) (map f xs) \<Longrightarrow> sorted_wrt (<) (map f (filter P xs))"
  for f :: "'a \<Rightarrow> nat"
  by (induction xs) auto

lemma map_wf_delete: "map_wf m \<Longrightarrow> map_wf (map_delete m k)"
  by (auto simp: map_wf_def map_delete_def map_keys_def sorted_wrt_filter_map
      intro: distinct_map_filter)

lemma map_wf_clear: "map_wf m \<Longrightarrow> map_wf (map_clear m)"
  by (simp add: map_wf_def map_clear_def map_keys_def)

text \<open>The entry of a key, with the stamp that orders the iteration.\<close>

lemma map_get_entry:
  "map_get m k = Some v \<Longrightarrow> \<exists>i. (i, k, v) \<in> set (m_entries m)"
  by (fastforce simp: map_get_def dest!: find_SomeD)

lemma entry_map_get:
  assumes wf: "map_wf m" and e: "(i, k, v) \<in> set (m_entries m)"
  shows "map_get m k = Some v"
proof -
  have d: "distinct (map (\<lambda>e. fst (snd e)) (m_entries m))"
    using wf by (simp add: map_wf_def map_keys_def)
  obtain e' where e': "find (\<lambda>e. fst (snd e) = k) (m_entries m) = Some e'"
    using find_Some_ex[OF e, of "\<lambda>e. fst (snd e) = k"] by auto
  then have "e' \<in> set (m_entries m)" "fst (snd e') = k"
    using find_SomeD by fastforce+
  with d e have "e' = (i, k, v)"
    by (metis (mono_tags, lifting) distinct_map fst_conv inj_onD snd_conv)
  with e' show ?thesis
    by (simp add: map_get_def)
qed

lemma map_from_new [simp]: "map_from map_new i = []"
  by (simp add: map_from_def map_new_def)

lemma map_from_zero [simp]: "map_from m 0 = m_entries m"
  by (simp add: map_from_def)

text \<open>A key that is set while an iterator is suspended is in front of the iterator.\<close>

lemma map_from_set_fresh:
  "map_wf m \<Longrightarrow> \<not> map_has m k \<Longrightarrow> i \<le> m_next m \<Longrightarrow>
   map_from (map_set m k v) i = map_from m i @ [(m_next m, k, v)]"
  by (simp add: map_from_def map_set_def)

lemma map_from_delete:
  "map_from (map_delete m k) i = filter (\<lambda>e. fst (snd e) \<noteq> k) (map_from m i)"
  by (simp add: map_from_def map_delete_def conj_commute)

section \<open>The interface the components rely on\<close>

text \<open>
  The components use a \<open>Map\<close> through this contract only; what they need beyond the laws is
  derived once from them.
\<close>

locale keyed_store =
  fixes get :: "'m \<Rightarrow> 'k \<Rightarrow> 'v option"
    and put :: "'m \<Rightarrow> 'k \<Rightarrow> 'v \<Rightarrow> 'm"
    and del :: "'m \<Rightarrow> 'k \<Rightarrow> 'm"
    and keys :: "'m \<Rightarrow> 'k list"
  assumes get_put: "get (put m k v) k' = (if k' = k then Some v else get m k')"
    and get_del: "get (del m k) k' = (if k' = k then None else get m k')"
    and keys_get: "k \<in> set (keys m) \<longleftrightarrow> get m k \<noteq> None"
begin

lemma get_put_same: "get (put m k v) k = Some v"
  by (simp add: get_put)

lemma get_put_other: "k' \<noteq> k \<Longrightarrow> get (put m k v) k' = get m k'"
  by (simp add: get_put)

lemma get_del_same: "get (del m k) k = None"
  by (simp add: get_del)

lemma get_del_other: "k' \<noteq> k \<Longrightarrow> get (del m k) k' = get m k'"
  by (simp add: get_del)

lemma get_foldl_del: "get (foldl del m ks) k = (if k \<in> set ks then None else get m k)"
  by (induction ks arbitrary: m) (auto simp: get_del)

lemma set_keys_put: "set (keys (put m k v)) = insert k (set (keys m))"
  by (auto simp: keys_get get_put split: if_splits)

lemma set_keys_del: "set (keys (del m k)) = set (keys m) - {k}"
  by (auto simp: keys_get get_del split: if_splits)

lemma keys_foldl_del: "set (keys (foldl del m ks)) = set (keys m) - set ks"
  by (induction ks arbitrary: m) (auto simp: set_keys_del)

end

interpretation js: keyed_store map_get map_set map_delete map_keys
  by unfold_locales (simp_all add: map_get_set map_get_delete map_keys_get)

section \<open>Mapping the values\<close>

definition map_mapv :: "('v \<Rightarrow> 'w) \<Rightarrow> ('k, 'v) jsmap \<Rightarrow> ('k, 'w) jsmap" where
  "map_mapv f m =
     \<lparr>m_entries = map (\<lambda>e. (fst e, fst (snd e), f (snd (snd e)))) (m_entries m), m_next = m_next m\<rparr>"

lemma map_get_mapv: "map_get (map_mapv f m) k = map_option f (map_get m k)"
  by (simp add: map_get_def map_mapv_def find_map option.map_comp comp_def)

lemma map_has_mapv: "map_has (map_mapv f m) k = map_has m k"
  by (simp add: map_has_get map_get_mapv)

lemma map_mapv_set: "map_mapv f (map_set m k v) = map_set (map_mapv f m) k (f v)"
  unfolding map_set_def map_has_mapv by (auto simp: map_mapv_def)

lemma map_mapv_delete: "map_mapv f (map_delete m k) = map_delete (map_mapv f m) k"
  by (simp add: map_mapv_def map_delete_def filter_map comp_def)

lemma map_mapv_clear: "map_mapv f (map_clear m) = map_clear (map_mapv f m)"
  by (simp add: map_mapv_def map_clear_def)

lemma map_mapv_keys: "map_keys (map_mapv f m) = map_keys m"
  by (simp add: map_mapv_def map_keys_def comp_def)

lemma map_mapv_values: "map_values (map_mapv f m) = map f (map_values m)"
  by (simp add: map_mapv_def map_values_def comp_def)

lemmas mapv_simps = map_mapv_set map_mapv_delete map_mapv_clear

lemmas map_simps = map_get_set map_get_delete map_keys_set map_keys_delete

end
