(* ===== verification/Protocol.thy ===== *)
theory Protocol
  imports Prelude
begin

text \<open>
  The messages that the web application and the SFU exchange over their web socket
  (\<^verbatim>\<open>sfu/src/media/MessageProtocol.ts\<close>): one constructor per message class, grouped as the
  union types \<open>Request\<close>, \<open>Response\<close>, \<open>Notification\<close> and \<open>Message\<close> of the source. The
  parameters that belong to mediasoup (RTP, ICE and DTLS parameters) are plain JSON values
  that the program only hands on. A user id comes from the query string of the connection
  and may be absent.
\<close>

section \<open>Message classes\<close>

record remote_client =
  rc_userId :: "string option"
  rc_clientId :: string

record transport_info =
  ti_id :: string
  ti_iceParameters :: json
  ti_iceCandidates :: json
  ti_dtlsParameters :: json

datatype notification =
    ConsumerCreatedNotification string string string json remote_client
  | TransportConnectedNotification string string json
  | ClientRtpCapabilitiesNotification json
  | ConsumerClosedNotification string

datatype request =
    JoinCallRequest string
  | GetRouterCapabilitiesRequest string
  | CreateProducerRequest string string json string
  | ResumeProducerRequest string string
  | PauseProducerRequest string string
  | CreateTransportRequest string string
  | GetClientStatsRequest string string

datatype response =
    JoinCallResponse string string string
  | GetRouterCapabilitiesResponse string json
  | CreateProducerResponse string string
  | ResumeProducerResponse string
  | PauseProducerResponse string
  | CreateTransportResponse string transport_info
  | GetClientStatsResponse string "string list"

datatype message =
    Req request
  | Rsp response
  | Ntf notification

section \<open>The type tags\<close>

text \<open>The value of the property \<open>type\<close> of each class; it names the event a listener is registered for.\<close>

fun notification_type :: "notification \<Rightarrow> string" where
  "notification_type (ConsumerCreatedNotification _ _ _ _ _) = ''consumer-created-notification''"
| "notification_type (TransportConnectedNotification _ _ _) = ''transport-connected-notification''"
| "notification_type (ClientRtpCapabilitiesNotification _) = ''client-rtp-capabilities''"
| "notification_type (ConsumerClosedNotification _) = ''consumer-closed-notification''"

fun request_type :: "request \<Rightarrow> string" where
  "request_type (JoinCallRequest _) = ''join-call-request''"
| "request_type (GetRouterCapabilitiesRequest _) = ''get-router-capabilities-request''"
| "request_type (CreateProducerRequest _ _ _ _) = ''create-producer-request''"
| "request_type (ResumeProducerRequest _ _) = ''resume-producer-request''"
| "request_type (PauseProducerRequest _ _) = ''pause-producer-request''"
| "request_type (CreateTransportRequest _ _) = ''create-transport-request''"
| "request_type (GetClientStatsRequest _ _) = ''get-client-stats-request''"

fun response_type :: "response \<Rightarrow> string" where
  "response_type (JoinCallResponse _ _ _) = ''join-call-response''"
| "response_type (GetRouterCapabilitiesResponse _ _) = ''get-router-capabilities-response''"
| "response_type (CreateProducerResponse _ _) = ''create-producer-response''"
| "response_type (ResumeProducerResponse _) = ''resume-producer-response''"
| "response_type (PauseProducerResponse _) = ''pause-producer-response''"
| "response_type (CreateTransportResponse _ _) = ''create-transport-response''"
| "response_type (GetClientStatsResponse _ _) = ''get-client-stats-response''"

fun message_type :: "message \<Rightarrow> string" where
  "message_type (Req r) = request_type r"
| "message_type (Rsp r) = response_type r"
| "message_type (Ntf n) = notification_type n"

section \<open>The request id\<close>

fun request_id :: "request \<Rightarrow> string" where
  "request_id (JoinCallRequest i) = i"
| "request_id (GetRouterCapabilitiesRequest i) = i"
| "request_id (CreateProducerRequest i _ _ _) = i"
| "request_id (ResumeProducerRequest i _) = i"
| "request_id (PauseProducerRequest i _) = i"
| "request_id (CreateTransportRequest i _) = i"
| "request_id (GetClientStatsRequest i _) = i"

fun response_id :: "response \<Rightarrow> string" where
  "response_id (JoinCallResponse i _ _) = i"
| "response_id (GetRouterCapabilitiesResponse i _) = i"
| "response_id (CreateProducerResponse i _) = i"
| "response_id (ResumeProducerResponse i) = i"
| "response_id (PauseProducerResponse i) = i"
| "response_id (CreateTransportResponse i _) = i"
| "response_id (GetClientStatsResponse i _) = i"

section \<open>The JSON object of a message\<close>

text \<open>
  What \<open>JSON.stringify\<close> serialises: the own properties of the object in the order in which
  the compiled constructor assigns them (the parameters first, then \<open>type\<close>; for a
  \<open>CreateTransportResponse\<close> those of its super class \<open>TransportInfo\<close> before its own). A property
  whose value is undefined is left out.
\<close>

definition opt_field :: "string \<Rightarrow> string option \<Rightarrow> (string \<times> json) list" where
  "opt_field k v = (case v of None \<Rightarrow> [] | Some s \<Rightarrow> [(k, JStr s)])"

definition remote_client_json :: "remote_client \<Rightarrow> json" where
  "remote_client_json c =
     JObj (opt_field ''userId'' (rc_userId c) @ [(''clientId'', JStr (rc_clientId c))])"

definition transport_info_fields :: "transport_info \<Rightarrow> (string \<times> json) list" where
  "transport_info_fields t =
     [(''id'', JStr (ti_id t)), (''iceParameters'', ti_iceParameters t),
      (''iceCandidates'', ti_iceCandidates t), (''dtlsParameters'', ti_dtlsParameters t)]"

fun notification_fields :: "notification \<Rightarrow> (string \<times> json) list" where
  "notification_fields (ConsumerCreatedNotification c p k rtp rc) =
     [(''consumerId'', JStr c), (''remoteProducerId'', JStr p), (''kind'', JStr k),
      (''rtpParameters'', rtp), (''remoteClient'', remote_client_json rc)]"
| "notification_fields (TransportConnectedNotification i r d) =
     [(''requestId'', JStr i), (''role'', JStr r), (''dtlsParameters'', d)]"
| "notification_fields (ClientRtpCapabilitiesNotification caps) = [(''rtpCapabilities'', caps)]"
| "notification_fields (ConsumerClosedNotification c) = [(''consumerId'', JStr c)]"

fun request_fields :: "request \<Rightarrow> (string \<times> json) list" where
  "request_fields (JoinCallRequest i) = [(''requestId'', JStr i)]"
| "request_fields (GetRouterCapabilitiesRequest i) = [(''requestId'', JStr i)]"
| "request_fields (CreateProducerRequest i k rtp u) =
     [(''requestId'', JStr i), (''kind'', JStr k), (''rtpParameters'', rtp), (''userId'', JStr u)]"
| "request_fields (ResumeProducerRequest i p) = [(''requestId'', JStr i), (''producerId'', JStr p)]"
| "request_fields (PauseProducerRequest i p) = [(''requestId'', JStr i), (''producerId'', JStr p)]"
| "request_fields (CreateTransportRequest i r) = [(''requestId'', JStr i), (''role'', JStr r)]"
| "request_fields (GetClientStatsRequest i c) =
     [(''requestId'', JStr i), (''remoteClientId'', JStr c)]"

fun response_fields :: "response \<Rightarrow> (string \<times> json) list" where
  "response_fields (JoinCallResponse i c t) =
     [(''requestId'', JStr i), (''callId'', JStr c), (''observerAccessToken'', JStr t)]"
| "response_fields (GetRouterCapabilitiesResponse i caps) =
     [(''requestId'', JStr i), (''rtpCapabilities'', caps)]"
| "response_fields (CreateProducerResponse i p) =
     [(''requestId'', JStr i), (''producerId'', JStr p)]"
| "response_fields (ResumeProducerResponse i) = [(''requestId'', JStr i)]"
| "response_fields (PauseProducerResponse i) = [(''requestId'', JStr i)]"
| "response_fields (CreateTransportResponse i t) =
     transport_info_fields t @ [(''requestId'', JStr i)]"
| "response_fields (GetClientStatsResponse i ks) =
     [(''requestId'', JStr i), (''tracks'', JArr (map (\<lambda>k. JObj [(''kind'', JStr k)]) ks))]"

fun message_fields :: "message \<Rightarrow> (string \<times> json) list" where
  "message_fields (Req r) = request_fields r"
| "message_fields (Rsp r) = response_fields r"
| "message_fields (Ntf n) = notification_fields n"

definition message_json :: "message \<Rightarrow> json" where
  "message_json m = JObj (message_fields m @ [(''type'', JStr (message_type m))])"

text \<open>Reading a property of a parsed object; absent (undefined) where there is none.\<close>

fun js_field :: "json \<Rightarrow> string \<Rightarrow> json option" where
  "js_field (JObj fs) k = map_of fs k"
| "js_field _ k = None"

section \<open>Facts about the wire format\<close>

lemma no_type_field:
  "map_of (request_fields r) ''type'' = None"
  "map_of (response_fields p) ''type'' = None"
  "map_of (notification_fields n) ''type'' = None"
proof -
  show "map_of (request_fields r) ''type'' = None"
    by (cases r) simp_all
  show "map_of (response_fields p) ''type'' = None"
    by (cases p) (simp_all add: transport_info_fields_def)
  show "map_of (notification_fields n) ''type'' = None"
    by (cases n) simp_all
qed

lemma json_type: "js_field (message_json m) ''type'' = Some (JStr (message_type m))"
  by (cases m) (simp_all add: message_json_def map_add_def no_type_field)

lemma request_json_id: "js_field (message_json (Req r)) ''requestId'' = Some (JStr (request_id r))"
  by (cases r) (simp_all add: message_json_def)

lemma response_json_id: "js_field (message_json (Rsp r)) ''requestId'' = Some (JStr (response_id r))"
  by (cases r) (simp_all add: message_json_def transport_info_fields_def)

lemma request_type_inj_fields:
  "request_type r = request_type r' \<Longrightarrow> request_fields r = request_fields r' \<Longrightarrow> r = r'"
  by (cases r; cases r') simp_all

lemma track_list_inj:
  "map (\<lambda>k. JObj [(''kind'', JStr k)]) ks = map (\<lambda>k. JObj [(''kind'', JStr k)]) ks' \<Longrightarrow> ks = ks'"
  by (erule map_injective) (simp add: inj_on_def)

lemma transport_fields_append_inj:
  "transport_info_fields t @ xs = transport_info_fields t' @ ys \<Longrightarrow> t = t' \<and> xs = ys"
  by (cases t; cases t') (simp add: transport_info_fields_def)

lemma response_type_inj_fields:
  "response_type r = response_type r' \<Longrightarrow> response_fields r = response_fields r' \<Longrightarrow> r = r'"
  by (cases r; cases r') (auto dest!: track_list_inj
      dest: transport_fields_append_inj[of _ "[]" _ "[]", simplified])

lemma remote_client_json_inj: "remote_client_json c = remote_client_json c' \<Longrightarrow> c = c'"
  by (cases c; cases c') (auto simp: remote_client_json_def opt_field_def split: option.splits)

lemma notification_type_inj_fields:
  "notification_type n = notification_type n' \<Longrightarrow>
   notification_fields n = notification_fields n' \<Longrightarrow> n = n'"
  by (cases n; cases n') (auto dest: remote_client_json_inj)

lemma type_class_distinct:
  "request_type r \<noteq> response_type p"
  "request_type r \<noteq> notification_type n"
  "response_type p \<noteq> notification_type n"
proof -
  show "request_type r \<noteq> response_type p"
    by (cases r; cases p) simp_all
  show "request_type r \<noteq> notification_type n"
    by (cases r; cases n) simp_all
  show "response_type p \<noteq> notification_type n"
    by (cases p; cases n) simp_all
qed

text \<open>
  C30. The wire format loses nothing: two messages with the same JSON object (which holds the
  tag \<open>type\<close> by which the receiver dispatches) are the same message, so a receiver can
  recover every field of what was sent.
\<close>

theorem message_json_injective: "inj message_json"
proof (rule injI)
  fix m m'
  assume "message_json m = message_json m'"
  then have eq: "message_fields m = message_fields m'" "message_type m = message_type m'"
    by (auto simp: message_json_def)
  then show "m = m'"
    by (cases m; cases m')
      (auto dest: request_type_inj_fields response_type_inj_fields notification_type_inj_fields
        simp: type_class_distinct type_class_distinct[symmetric])
qed

end
