(* ===== verification/ClientEvents.thy ===== *)
theory ClientEvents
  imports Protocol
begin

text \<open>
  The wrapper of a client's web socket, \<^verbatim>\<open>sfu/src/media/ClientEvents.ts\<close>: it parses what the
  socket receives and hands it to the listeners of its type, and it drops what is sent after
  it was closed. Node's \<open>EventEmitter\<close> is modelled as far as the source uses it, with the
  listeners as values of a type \<open>'l\<close>: emitting an event returns the listeners that run, in
  order. \<open>JSON.parse\<close> is the argument \<open>parse\<close> (\<open>None\<close> where it throws).
\<close>

section \<open>EventEmitter\<close>

text \<open>The registrations in order: the event, the listener, and whether it was made by \<open>once\<close>.\<close>

type_synonym 'l emitter = "(string \<times> 'l \<times> bool) list"

definition em_on :: "'l emitter \<Rightarrow> string \<Rightarrow> 'l \<Rightarrow> 'l emitter" where
  "em_on em ev l = em @ [(ev, l, False)]"

definition em_once :: "'l emitter \<Rightarrow> string \<Rightarrow> 'l \<Rightarrow> 'l emitter" where
  "em_once em ev l = em @ [(ev, l, True)]"

text \<open>\<open>off\<close> removes at most one registration of the listener, the most recent one.\<close>

fun remove_first :: "('a \<Rightarrow> bool) \<Rightarrow> 'a list \<Rightarrow> 'a list" where
  "remove_first P [] = []"
| "remove_first P (x # xs) = (if P x then xs else x # remove_first P xs)"

definition em_off :: "'l emitter \<Rightarrow> string \<Rightarrow> 'l \<Rightarrow> 'l emitter" where
  "em_off em ev l = rev (remove_first (\<lambda>(ev', l', _). ev' = ev \<and> l' = l) (rev em))"

definition em_listeners :: "'l emitter \<Rightarrow> string \<Rightarrow> 'l list" where
  "em_listeners em ev = map (\<lambda>r. fst (snd r)) (filter (\<lambda>r. fst r = ev) em)"

definition em_count :: "'l emitter \<Rightarrow> string \<Rightarrow> nat" where
  "em_count em ev = length (em_listeners em ev)"

text \<open>\<open>emit\<close>: the listeners that run, and the registrations that are left.\<close>

definition em_emit :: "'l emitter \<Rightarrow> string \<Rightarrow> 'l emitter \<times> 'l list" where
  "em_emit em ev = (filter (\<lambda>(ev', _, once). \<not> (ev' = ev \<and> once)) em, em_listeners em ev)"

definition em_names :: "'l emitter \<Rightarrow> string list" where
  "em_names em = remdups (map fst em)"

definition em_remove_all :: "'l emitter \<Rightarrow> string \<Rightarrow> 'l emitter" where
  "em_remove_all em ev = filter (\<lambda>r. fst r \<noteq> ev) em"

section \<open>Property keys\<close>

text \<open>
  An event name is used as a property key, so a tag that is no string is converted to one:
  an array to its elements separated by commas, an object to \<open>[object Object]\<close>.
\<close>

fun js_key :: "json \<Rightarrow> string" where
  "js_key JNull = ''null''"
| "js_key (JBool b) = (if b then ''true'' else ''false'')"
| "js_key (JNum n) = int_string n"
| "js_key (JStr s) = s"
| "js_key (JArr xs) = join_with '','' (map (\<lambda>x. if x = JNull then [] else js_key x) xs)"
| "js_key (JObj fs) = ''[object Object]''"

section \<open>The class\<close>

record 'l client_events =
  ce_closed :: bool
  ce_emitter :: "'l emitter"
  ce_sent :: "json list"

definition ce_new :: "'l client_events" where
  "ce_new = \<lparr>ce_closed = False, ce_emitter = [], ce_sent = []\<rparr>"

text \<open>\<open>send\<close>: the object that \<open>JSON.stringify\<close> and then \<open>ws.send\<close> get, unless closed.\<close>

definition ce_send :: "'l client_events \<Rightarrow> message \<Rightarrow> 'l client_events" where
  "ce_send c m = (if ce_closed c then c else c\<lparr>ce_sent := ce_sent c @ [message_json m]\<rparr>)"

definition ce_on :: "'l client_events \<Rightarrow> string \<Rightarrow> 'l \<Rightarrow> 'l client_events" where
  "ce_on c ev l = c\<lparr>ce_emitter := em_on (ce_emitter c) ev l\<rparr>"

definition ce_once :: "'l client_events \<Rightarrow> string \<Rightarrow> 'l \<Rightarrow> 'l client_events" where
  "ce_once c ev l = c\<lparr>ce_emitter := em_once (ce_emitter c) ev l\<rparr>"

definition ce_off :: "'l client_events \<Rightarrow> string \<Rightarrow> 'l \<Rightarrow> 'l client_events" where
  "ce_off c ev l = c\<lparr>ce_emitter := em_off (ce_emitter c) ev l\<rparr>"

definition ce_emit :: "'l client_events \<Rightarrow> string \<Rightarrow> 'l client_events \<times> 'l list" where
  "ce_emit c ev = (let (em, ls) = em_emit (ce_emitter c) ev in (c\<lparr>ce_emitter := em\<rparr>, ls))"

text \<open>
  \<open>_receive\<close>: what a frame leads to. Destructuring the property \<open>type\<close> of \<open>null\<close> throws
  outside the \<open>try\<close> block, which is the outcome \<open>TypeErrorThrown\<close>.
\<close>

datatype 'l received =
    CannotParse
  | TypeErrorThrown
  | UndefinedType
  | NoListener string
  | Dispatched json "'l list"

definition ce_receive ::
  "(string \<Rightarrow> json option) \<Rightarrow> 'l client_events \<Rightarrow> string \<Rightarrow> 'l client_events \<times> 'l received"
where
  "ce_receive parse c data =
     (case parse data of
        None \<Rightarrow> (c, CannotParse)
      | Some j \<Rightarrow>
          if j = JNull then (c, TypeErrorThrown)
          else if \<not> js_truthy (js_field j ''type'') then (c, UndefinedType)
          else
            (let ev = js_key (the (js_field j ''type'')) in
             if 0 < em_count (ce_emitter c) ev
             then (let (c', ls) = ce_emit c ev in (c', Dispatched j ls))
             else (c, NoListener ev)))"

text \<open>
  \<open>close\<close>: the flag first, then the listeners of \<open>close\<close>, then every registration goes.
\<close>

definition ce_close :: "'l client_events \<Rightarrow> 'l client_events \<times> 'l list" where
  "ce_close c =
     (if ce_closed c then (c, [])
      else
        (let (c', ls) = ce_emit (c\<lparr>ce_closed := True\<rparr>) ''close'' in
         (c'\<lparr>ce_emitter := foldl em_remove_all (ce_emitter c') (em_names (ce_emitter c'))\<rparr>, ls)))"

section \<open>Facts\<close>

lemma em_listeners_on: "em_listeners (em_on em ev l) ev' = em_listeners em ev' @ (if ev' = ev then [l] else [])"
  by (simp add: em_listeners_def em_on_def)

lemma em_listeners_once: "em_listeners (em_once em ev l) ev' = em_listeners em ev' @ (if ev' = ev then [l] else [])"
  by (simp add: em_listeners_def em_once_def)

lemma em_listeners_emit_other: "ev' \<noteq> ev \<Longrightarrow> em_listeners (fst (em_emit em ev)) ev' = em_listeners em ev'"
  by (auto simp: em_emit_def em_listeners_def intro!: arg_cong[where f = "map _"] filter_cong)

lemma foldl_remove_all: "foldl em_remove_all em evs = filter (\<lambda>r. fst r \<notin> set evs) em"
  by (induction evs arbitrary: em) (auto simp: em_remove_all_def intro!: filter_cong)

lemma remove_all_names: "foldl em_remove_all em (em_names em) = []"
  by (auto simp: foldl_remove_all em_names_def filter_empty_conv)

lemma ce_close_closed [simp]: "ce_closed (fst (ce_close c))"
  by (simp add: ce_close_def Let_def split_beta ce_emit_def)

lemma ce_close_emitter: "\<not> ce_closed c \<Longrightarrow> ce_emitter (fst (ce_close c)) = []"
  by (simp add: ce_close_def Let_def split_beta remove_all_names)

lemma ce_close_sent [simp]: "ce_sent (fst (ce_close c)) = ce_sent c"
  by (simp add: ce_close_def Let_def split_beta ce_emit_def)

lemma receive_object:
  assumes "parse data = Some (JObj fs)" and "js_field (JObj fs) ''type'' = Some (JStr ty)" and "ty \<noteq> []"
  shows "ce_receive parse c data =
    (if em_listeners (ce_emitter c) ty = [] then (c, NoListener ty)
     else (c\<lparr>ce_emitter := fst (em_emit (ce_emitter c) ty)\<rparr>,
           Dispatched (JObj fs) (em_listeners (ce_emitter c) ty)))"
  using assms by (simp add: ce_receive_def em_count_def ce_emit_def em_emit_def Let_def)

lemma message_type_nonempty [simp]: "message_type m \<noteq> []"
  by (cases m; rename_tac x; case_tac x) simp_all

lemma receive_message:
  assumes "parse data = Some (message_json m)"
  shows "ce_receive parse c data =
    (if em_listeners (ce_emitter c) (message_type m) = [] then (c, NoListener (message_type m))
     else (c\<lparr>ce_emitter := fst (em_emit (ce_emitter c) (message_type m))\<rparr>,
           Dispatched (message_json m) (em_listeners (ce_emitter c) (message_type m))))"
  unfolding message_json_def
  by (rule receive_object[of parse data, OF assms[unfolded message_json_def]
        json_type[unfolded message_json_def] message_type_nonempty])

text \<open>
  C29. Dispatch: a frame whose text parses to the JSON object of a message runs exactly the
  listeners that are registered for the message's type, in the order of registration, and
  hands them that object; a registration made by \<open>once\<close> is gone afterwards, those of other types
  stay. A frame with no such listener changes nothing.
\<close>

theorem receive_dispatches:
  assumes "parse data = Some (message_json m)"
  shows "let ls = em_listeners (ce_emitter c) (message_type m); (c', out) = ce_receive parse c data in
    (if ls = [] then out = NoListener (message_type m) \<and> c' = c
     else out = Dispatched (message_json m) ls) \<and>
    (\<forall>ty. ty \<noteq> message_type m \<longrightarrow> em_listeners (ce_emitter c') ty = em_listeners (ce_emitter c) ty) \<and>
    (\<forall>l. (message_type m, l, True) \<notin> set (ce_emitter c')) \<and> ce_closed c' = ce_closed c"
proof (cases "em_listeners (ce_emitter c) (message_type m) = []")
  case True
  then have "(message_type m, l, True) \<notin> set (ce_emitter c)" for l
    by (force simp: em_listeners_def filter_empty_conv)
  with True show ?thesis
    by (simp add: receive_message[of parse data, OF assms])
next
  case False
  then show ?thesis
    by (simp add: receive_message[of parse data, OF assms] em_listeners_emit_other) (simp add: em_emit_def)
qed

lemma receive_dispatches_witness:
  "snd (ce_receive (\<lambda>_. Some (message_json (Req (JoinCallRequest ''1''))))
     (ce_on ce_new ''join-call-request'' (0::nat)) ''frame'') =
   Dispatched (message_json (Req (JoinCallRequest ''1''))) [0]"
  using receive_dispatches[of "\<lambda>_. Some (message_json (Req (JoinCallRequest ''1'')))" "''frame''"
      "Req (JoinCallRequest ''1'')" "ce_on ce_new ''join-call-request'' (0::nat)"]
  by (simp add: Let_def split_beta ce_on_def ce_new_def em_on_def em_listeners_def)

text \<open>
  Closing is final and runs the close listeners once: \<open>close\<close> of an open wrapper runs exactly the
  listeners of \<open>close\<close>; afterwards no registration is left, a second \<open>close\<close> runs nothing, no
  message is sent and no frame, whatever it contains, reaches a listener.
\<close>

theorem close_is_final:
  assumes "\<not> ce_closed c"
  shows "let (c', ls) = ce_close c in
    ls = em_listeners (ce_emitter c) ''close'' \<and> ce_close c' = (c', []) \<and> ce_send c' m = c' \<and>
    ce_sent c' = ce_sent c \<and>
    (\<forall>parse data j ks. snd (ce_receive parse c' data) \<noteq> Dispatched j ks)"
proof -
  let ?c = "fst (ce_close c)"
  have "snd (ce_close c) = em_listeners (ce_emitter c) ''close''"
    using assms by (simp add: ce_close_def ce_emit_def em_emit_def Let_def)
  moreover have "ce_close ?c = (?c, [])"
    using ce_close_closed[of c] by (simp add: ce_close_def[of ?c])
  moreover have "ce_send ?c m = ?c"
    by (simp add: ce_send_def)
  moreover have "snd (ce_receive parse ?c data) \<noteq> Dispatched j ks" for parse data j ks
    using ce_close_emitter[OF assms]
    by (simp add: ce_receive_def em_count_def em_listeners_def Let_def split: option.splits)
  ultimately show ?thesis
    by (simp add: split_beta)
qed

lemma close_is_final_witness:
  "snd (ce_close (ce_once ce_new ''close'' (0::nat))) = [0] \<and>
   ce_close (fst (ce_close (ce_once ce_new ''close'' (0::nat)))) =
     (fst (ce_close (ce_once ce_new ''close'' (0::nat))), [])"
  using close_is_final[of "ce_once ce_new ''close'' (0::nat)"]
  by (simp add: split_beta ce_once_def ce_new_def em_once_def em_listeners_def)

text \<open>
  Two frames that every client can send: the text \<open>null\<close> makes the handler throw outside its
  \<open>try\<close> block, and an object whose \<open>type\<close> is \<open>close\<close> runs the wrapper's own close listeners while
  the wrapper stays open.
\<close>

theorem hostile_frames:
  assumes "parse ''null'' = Some JNull" and "parse data = Some (JObj [(''type'', JStr ''close'')])"
    and "em_listeners (ce_emitter c) ''close'' \<noteq> []"
  shows "ce_receive parse c ''null'' = (c, TypeErrorThrown) \<and>
    snd (ce_receive parse c data) =
      Dispatched (JObj [(''type'', JStr ''close'')]) (em_listeners (ce_emitter c) ''close'') \<and>
    ce_closed (fst (ce_receive parse c data)) = ce_closed c"
  using assms receive_object[of parse data, OF assms(2), of "''close''" c] by (simp add: ce_receive_def js_field.simps)

lemma hostile_frames_witness:
  "snd (ce_receive (\<lambda>d. if d = ''null'' then Some JNull else Some (JObj [(''type'', JStr ''close'')]))
     (ce_once ce_new ''close'' (0::nat)) ''frame'') = Dispatched (JObj [(''type'', JStr ''close'')]) [0]"
  using hostile_frames[of "\<lambda>d. if d = ''null'' then Some JNull else Some (JObj [(''type'', JStr ''close'')])"
      "''frame''" "ce_once ce_new ''close'' (0::nat)"]
  by (simp add: ce_once_def ce_new_def em_once_def em_listeners_def)

end
