(* ===== verification/Room.thy ===== *)
theory Room
  imports JsMap Protocol ClientEvents
begin

text \<open>
  The conference room of the SFU, \<^verbatim>\<open>sfu/src/media/Room.ts\<close>. A room is an object on which
  asynchronous handlers run: each runs without interruption up to its next \<open>await\<close> and leaves
  a continuation behind, and other handlers run before it is resumed. A continuation is a
  \<open>task\<close>; the answer of the awaited promise (and the closing of a socket, a producer, a
  consumer or the router) is an event of the environment, so the mediasoup library is the
  source of events and receives the calls that the observable trace records. Client objects
  live in a store and are referred to by number, because handlers keep the object they were
  created with while \<open>_clients\<close> may already hold another one under the same id.
\<close>

section \<open>Data\<close>

record producer =
  p_id :: string

record consumer =
  co_id :: string
  co_producerId :: string
  co_kind :: string
  co_rtpParameters :: json

text \<open>
  A client and the state of its \<open>ClientEvents\<close> that the room depends on: \<open>closed\<close>, and
  whether the \<open>once('close')\<close> registration is still there.
\<close>

record client =
  c_clientId :: string
  c_userId :: "string option"
  c_closed :: bool
  c_onclose :: bool
  c_rtpCapabilities :: "json option"
  c_sndTransport :: "transport_info option"
  c_rcvTransport :: "transport_info option"
  c_producers :: "(string, producer) jsmap"
  c_consumers :: "(string, consumer) jsmap"

text \<open>
  Continuations. The loops of \<open>join-call-request\<close> and \<open>create-producer-request\<close> over
  \<open>_clients.keys()\<close> are suspended at an iterator position (\<open>outer\<close>); \<open>TConsume\<close> is
  \<open>_consumeClient\<close> suspended in its call of \<open>consume\<close> and \<open>TConsumed\<close> is the handler
  suspended on the finished \<open>_consumeClient\<close>.
\<close>

datatype outer =
    JoinLoop nat string nat
  | ProduceLoop nat nat

datatype task =
    TCreate nat string string
  | TConnect nat string
  | TProduce nat string
  | TPause nat string
  | TResume nat string
  | TConsume outer nat nat string nat producer
  | TConsumed outer

text \<open>What the room does that can be seen from outside: messages, library calls, \<open>onClosed\<close>.\<close>

datatype obs =
    ORecv nat message
  | OSend nat message
  | OCreateTransport nat string string
  | OConnect nat string json
  | OProduce nat string string json
  | OPause nat string
  | OResume nat string
  | OConsume nat string string json
  | OCloseTransport string
  | OCloseRouter
  | OOnClosed
  | ORejected

record room =
  r_roomId :: string
  r_callId :: string
  r_routerCaps :: json
  r_ip :: string
  r_announcedIp :: string
  r_closed :: bool
  r_clients :: "(string, nat) jsmap"
  r_objs :: "nat \<Rightarrow> client option"
  r_nobjs :: nat
  r_tasks :: "(nat \<times> task) list"
  r_ntask :: nat
  r_trace :: "obs list"

definition room_new :: "string \<Rightarrow> string \<Rightarrow> json \<Rightarrow> string \<Rightarrow> string \<Rightarrow> room" where
  "room_new roomId routerId caps ip announcedIp =
     \<lparr>r_roomId = roomId, r_callId = routerId, r_routerCaps = caps, r_ip = ip,
      r_announcedIp = announcedIp, r_closed = False, r_clients = map_new, r_objs = (\<lambda>_. None),
      r_nobjs = 0, r_tasks = [], r_ntask = 0, r_trace = []\<rparr>"

section \<open>Primitive updates\<close>

definition r_log :: "room \<Rightarrow> obs \<Rightarrow> room" where
  "r_log r x = r\<lparr>r_trace := r_trace r @ [x]\<rparr>"

definition r_upd :: "room \<Rightarrow> nat \<Rightarrow> (client \<Rightarrow> client) \<Rightarrow> room" where
  "r_upd r ref f = r\<lparr>r_objs := (r_objs r)(ref := map_option f (r_objs r ref))\<rparr>"

definition r_add_task :: "room \<Rightarrow> task \<Rightarrow> room" where
  "r_add_task r t = r\<lparr>r_tasks := r_tasks r @ [(r_ntask r, t)], r_ntask := Suc (r_ntask r)\<rparr>"

definition r_del_task :: "room \<Rightarrow> nat \<Rightarrow> room" where
  "r_del_task r k = r\<lparr>r_tasks := filter (\<lambda>x. fst x \<noteq> k) (r_tasks r)\<rparr>"

text \<open>\<open>clientEvents.send\<close>: dropped when the wrapper was closed.\<close>

definition r_send :: "room \<Rightarrow> nat \<Rightarrow> message \<Rightarrow> room" where
  "r_send r ref m =
     (case r_objs r ref of
        None \<Rightarrow> r
      | Some c \<Rightarrow> if c_closed c then r else r_log r (OSend ref m))"

section \<open>Adding a client\<close>

definition client_new :: "string \<Rightarrow> string option \<Rightarrow> client" where
  "client_new clientId userId =
     \<lparr>c_clientId = clientId, c_userId = userId, c_closed = False, c_onclose = True,
      c_rtpCapabilities = None, c_sndTransport = None, c_rcvTransport = None,
      c_producers = map_new, c_consumers = map_new\<rparr>"

definition room_add :: "room \<Rightarrow> string \<Rightarrow> string option \<Rightarrow> room" where
  "room_add r clientId userId =
     r\<lparr>r_clients := map_set (r_clients r) clientId (r_nobjs r),
       r_objs := (r_objs r)(r_nobjs r \<mapsto> client_new clientId userId),
       r_nobjs := Suc (r_nobjs r)\<rparr>"

text \<open>The registrations that \<open>add\<close> makes, in their order.\<close>

datatype listener =
    OnGetRouterCapabilities
  | OnClientRtpCapabilities
  | OnCreateTransport
  | OnJoinCall
  | OnTransportConnected
  | OnCreateProducer
  | OnPauseProducer
  | OnResumeProducer
  | OnClose

definition room_listeners :: "listener client_events" where
  "room_listeners =
     ce_once (ce_on (ce_on (ce_on (ce_on (ce_on (ce_on (ce_on (ce_on ce_new
       ''get-router-capabilities-request'' OnGetRouterCapabilities)
       ''client-rtp-capabilities'' OnClientRtpCapabilities)
       ''create-transport-request'' OnCreateTransport)
       ''join-call-request'' OnJoinCall)
       ''transport-connected-notification'' OnTransportConnected)
       ''create-producer-request'' OnCreateProducer)
       ''pause-producer-request'' OnPauseProducer)
       ''resume-producer-request'' OnResumeProducer)
       ''close'' OnClose"

section \<open>Consuming\<close>

definition is_consumed :: "client \<Rightarrow> string \<Rightarrow> bool" where
  "is_consumed c producerId =
     list_ex (\<lambda>co. co_producerId co = producerId) (map_values (c_consumers c))"

text \<open>
  The body of \<open>_consumeClient\<close>'s loop up to its \<open>await\<close>: the first producer in front of the
  iterator that is not consumed yet, if the consuming client has capabilities and a transport.
\<close>

fun consume_scan ::
  "client \<Rightarrow> (nat \<times> string \<times> producer) list \<Rightarrow> (nat \<times> producer \<times> json \<times> transport_info) option"
where
  "consume_scan c [] = None"
| "consume_scan c ((i, _, p) # es) =
     (if is_consumed c (p_id p) then consume_scan c es
      else if \<not> js_truthy (c_rtpCapabilities c) then consume_scan c es
      else
        (case c_rcvTransport c of
           None \<Rightarrow> consume_scan c es
         | Some t \<Rightarrow> Some (Suc i, p, the (c_rtpCapabilities c), t)))"

text \<open>The loop from an iterator position: it ends, or it waits for the library.\<close>

definition consume_run :: "room \<Rightarrow> outer \<Rightarrow> nat \<Rightarrow> nat \<Rightarrow> string \<Rightarrow> nat \<Rightarrow> room" where
  "consume_run r k pref cref producingClientId pos =
     (case (r_objs r pref, r_objs r cref) of
        (Some pc, Some cc) \<Rightarrow>
          (case consume_scan cc (map_from (c_producers pc) pos) of
             None \<Rightarrow> r_add_task r (TConsumed k)
           | Some (pos', p, caps, t) \<Rightarrow>
               r_add_task (r_log r (OConsume (r_ntask r) (ti_id t) (p_id p) caps))
                 (TConsume k pref cref producingClientId pos' p))
      | _ \<Rightarrow> r_add_task r (TConsumed k))"

definition consume_client :: "room \<Rightarrow> outer \<Rightarrow> string \<Rightarrow> string \<Rightarrow> room" where
  "consume_client r k producingClientId consumingClientId =
     (case (map_get (r_clients r) producingClientId, map_get (r_clients r) consumingClientId) of
        (Some pref, Some cref) \<Rightarrow> consume_run r k pref cref producingClientId 0
      | _ \<Rightarrow> r_add_task r (TConsumed k))"

text \<open>A consumer was created: it is registered and announced, and the loop goes on.\<close>

definition consumer_created ::
  "room \<Rightarrow> outer \<Rightarrow> nat \<Rightarrow> nat \<Rightarrow> string \<Rightarrow> nat \<Rightarrow> producer \<Rightarrow> consumer \<Rightarrow> room"
where
  "consumer_created r k pref cref producingClientId pos p co =
     (let r1 = r_upd r cref (\<lambda>c. c\<lparr>c_consumers := map_set (c_consumers c) (co_id co) co\<rparr>);
          r2 = r_send r1 cref (Ntf (ConsumerCreatedNotification (co_id co) (p_id p) (co_kind co)
                 (co_rtpParameters co)
                 \<lparr>rc_userId = (case r_objs r1 pref of None \<Rightarrow> None | Some pc \<Rightarrow> c_userId pc),
                  rc_clientId = producingClientId\<rparr>))
      in consume_run r2 k pref cref producingClientId pos)"

section \<open>The loops over the other clients\<close>

fun next_other :: "string \<Rightarrow> (nat \<times> string \<times> nat) list \<Rightarrow> (nat \<times> string) option" where
  "next_other clientId [] = None"
| "next_other clientId ((i, k, _) # es) =
     (if clientId = k then next_other clientId es else Some (Suc i, k))"

definition access_token :: "(json \<Rightarrow> string \<Rightarrow> string) \<Rightarrow> int \<Rightarrow> room \<Rightarrow> string \<Rightarrow> string" where
  "access_token jwt now r clientId =
     jwt (JObj [(''roomId'', JStr (r_roomId r)), (''clientId'', JStr clientId),
                (''callId'', JStr (r_callId r)), (''expires'', JNum (now + 4 * 60 * 1000))])
       ''no-client-secret''"

definition join_loop ::
  "(json \<Rightarrow> string \<Rightarrow> string) \<Rightarrow> int \<Rightarrow> room \<Rightarrow> nat \<Rightarrow> string \<Rightarrow> string \<Rightarrow> nat \<Rightarrow> room"
where
  "join_loop jwt now r ref clientId requestId pos =
     (case next_other clientId (map_from (r_clients r) pos) of
        Some (pos', producingClientId) \<Rightarrow>
          consume_client r (JoinLoop ref requestId pos') producingClientId clientId
      | None \<Rightarrow>
          r_send r ref (Rsp (JoinCallResponse requestId (r_callId r) (access_token jwt now r clientId))))"

definition produce_loop :: "room \<Rightarrow> nat \<Rightarrow> string \<Rightarrow> nat \<Rightarrow> room" where
  "produce_loop r ref clientId pos =
     (case next_other clientId (map_from (r_clients r) pos) of
        Some (pos', consumingClientId) \<Rightarrow>
          consume_client r (ProduceLoop ref pos') clientId consumingClientId
      | None \<Rightarrow> r)"

fun resume_outer :: "(json \<Rightarrow> string \<Rightarrow> string) \<Rightarrow> int \<Rightarrow> room \<Rightarrow> outer \<Rightarrow> room" where
  "resume_outer jwt now r (JoinLoop ref requestId pos) =
     (case r_objs r ref of
        None \<Rightarrow> r
      | Some c \<Rightarrow> join_loop jwt now r ref (c_clientId c) requestId pos)"
| "resume_outer jwt now r (ProduceLoop ref pos) =
     (case r_objs r ref of
        None \<Rightarrow> r
      | Some c \<Rightarrow> produce_loop r ref (c_clientId c) pos)"

section \<open>The handlers of incoming messages\<close>

definition on_get_router_capabilities :: "room \<Rightarrow> nat \<Rightarrow> string \<Rightarrow> room" where
  "on_get_router_capabilities r ref requestId =
     r_send r ref (Rsp (GetRouterCapabilitiesResponse requestId (r_routerCaps r)))"

definition on_client_rtp_capabilities :: "room \<Rightarrow> nat \<Rightarrow> json \<Rightarrow> room" where
  "on_client_rtp_capabilities r ref caps = r_upd r ref (\<lambda>c. c\<lparr>c_rtpCapabilities := Some caps\<rparr>)"

definition on_create_transport :: "room \<Rightarrow> nat \<Rightarrow> client \<Rightarrow> string \<Rightarrow> string \<Rightarrow> room" where
  "on_create_transport r ref c requestId role =
     (if (role = ''producing'' \<and> c_sndTransport c \<noteq> None) \<or>
         (role = ''consuming'' \<and> c_rcvTransport c \<noteq> None)
      then r
      else r_add_task (r_log r (OCreateTransport (r_ntask r) (r_ip r) (r_announcedIp r)))
             (TCreate ref requestId role))"

definition on_transport_connected :: "room \<Rightarrow> nat \<Rightarrow> client \<Rightarrow> string \<Rightarrow> json \<Rightarrow> room" where
  "on_transport_connected r ref c role dtls =
     (case (if role = ''consuming'' then c_rcvTransport c else c_sndTransport c) of
        None \<Rightarrow> r
      | Some t \<Rightarrow> r_add_task (r_log r (OConnect (r_ntask r) (ti_id t) dtls)) (TConnect ref role))"

definition on_create_producer ::
  "room \<Rightarrow> nat \<Rightarrow> client \<Rightarrow> string \<Rightarrow> string \<Rightarrow> json \<Rightarrow> room"
where
  "on_create_producer r ref c requestId kind rtp =
     (case c_sndTransport c of
        None \<Rightarrow> r
      | Some t \<Rightarrow> r_add_task (r_log r (OProduce (r_ntask r) (ti_id t) kind rtp)) (TProduce ref requestId))"

definition on_pause_producer :: "room \<Rightarrow> nat \<Rightarrow> client \<Rightarrow> string \<Rightarrow> string \<Rightarrow> room" where
  "on_pause_producer r ref c requestId producerId =
     (case map_get (c_producers c) producerId of
        None \<Rightarrow> r
      | Some p \<Rightarrow> r_add_task (r_log r (OPause (r_ntask r) (p_id p))) (TPause ref requestId))"

definition on_resume_producer :: "room \<Rightarrow> nat \<Rightarrow> client \<Rightarrow> string \<Rightarrow> string \<Rightarrow> room" where
  "on_resume_producer r ref c requestId producerId =
     (case map_get (c_producers c) producerId of
        None \<Rightarrow> r
      | Some p \<Rightarrow> r_add_task (r_log r (OResume (r_ntask r) (p_id p))) (TResume ref requestId))"

lemmas handler_defs =
  on_get_router_capabilities_def on_client_rtp_capabilities_def on_create_transport_def
  on_transport_connected_def on_create_producer_def on_pause_producer_def on_resume_producer_def

text \<open>The listener of a message's type; the other types have none.\<close>

fun room_handle ::
  "(json \<Rightarrow> string \<Rightarrow> string) \<Rightarrow> int \<Rightarrow> room \<Rightarrow> nat \<Rightarrow> client \<Rightarrow> message \<Rightarrow> room"
where
  "room_handle jwt now r ref c (Req (GetRouterCapabilitiesRequest i)) = on_get_router_capabilities r ref i"
| "room_handle jwt now r ref c (Ntf (ClientRtpCapabilitiesNotification caps)) =
     on_client_rtp_capabilities r ref caps"
| "room_handle jwt now r ref c (Req (CreateTransportRequest i role)) = on_create_transport r ref c i role"
| "room_handle jwt now r ref c (Req (JoinCallRequest i)) = join_loop jwt now r ref (c_clientId c) i 0"
| "room_handle jwt now r ref c (Ntf (TransportConnectedNotification i role d)) =
     on_transport_connected r ref c role d"
| "room_handle jwt now r ref c (Req (CreateProducerRequest i kind rtp u)) =
     on_create_producer r ref c i kind rtp"
| "room_handle jwt now r ref c (Req (PauseProducerRequest i p)) = on_pause_producer r ref c i p"
| "room_handle jwt now r ref c (Req (ResumeProducerRequest i p)) = on_resume_producer r ref c i p"
| "room_handle jwt now r ref c _ = r"

text \<open>A frame of an open client; after \<open>close\<close> no listener is left.\<close>

definition room_receive :: "(json \<Rightarrow> string \<Rightarrow> string) \<Rightarrow> int \<Rightarrow> room \<Rightarrow> nat \<Rightarrow> message \<Rightarrow> room" where
  "room_receive jwt now r ref m =
     (case r_objs r ref of
        None \<Rightarrow> r
      | Some c \<Rightarrow> if c_closed c then r else room_handle jwt now (r_log r (ORecv ref m)) ref c m)"

section \<open>Continuations\<close>

datatype answer =
    AOk
  | ATransport transport_info
  | AProducer producer
  | AConsumer consumer
  | AFail

text \<open>The answers that the promise a task waits for can settle with.\<close>

fun task_answers :: "task \<Rightarrow> answer \<Rightarrow> bool" where
  "task_answers (TCreate _ _ _) (ATransport _) = True"
| "task_answers (TCreate _ _ _) AFail = True"
| "task_answers (TConnect _ _) AOk = True"
| "task_answers (TConnect _ _) AFail = True"
| "task_answers (TProduce _ _) (AProducer _) = True"
| "task_answers (TProduce _ _) AFail = True"
| "task_answers (TPause _ _) AOk = True"
| "task_answers (TPause _ _) AFail = True"
| "task_answers (TResume _ _) AOk = True"
| "task_answers (TResume _ _) AFail = True"
| "task_answers (TConsume _ _ _ _ _ _) (AConsumer _) = True"
| "task_answers (TConsume _ _ _ _ _ _) AFail = True"
| "task_answers (TConsumed _) AOk = True"
| "task_answers _ _ = False"

definition transport_created :: "room \<Rightarrow> nat \<Rightarrow> string \<Rightarrow> string \<Rightarrow> transport_info \<Rightarrow> room" where
  "transport_created r ref requestId role t =
     r_send
       (if role = ''producing'' then r_upd r ref (\<lambda>c. c\<lparr>c_sndTransport := Some t\<rparr>)
        else if role = ''consuming'' then r_upd r ref (\<lambda>c. c\<lparr>c_rcvTransport := Some t\<rparr>)
        else r)
       ref (Rsp (CreateTransportResponse requestId t))"

definition producer_created :: "room \<Rightarrow> nat \<Rightarrow> string \<Rightarrow> producer \<Rightarrow> room" where
  "producer_created r ref requestId p =
     (let r1 = r_upd r ref (\<lambda>c. c\<lparr>c_producers := map_set (c_producers c) (p_id p) p\<rparr>);
          r2 = r_send r1 ref (Rsp (CreateProducerResponse requestId (p_id p)))
      in (case r_objs r2 ref of
            None \<Rightarrow> r2
          | Some c \<Rightarrow> produce_loop r2 ref (c_clientId c) 0))"

text \<open>
  Both \<open>pause\<close> and \<open>resume\<close> are answered with a \<open>PauseProducerResponse\<close>, whether the library
  call failed or not. A failing \<open>createWebRtcTransport\<close> or \<open>consume\<close> is not caught: the
  handler's promise is rejected and the handler ends (\<open>ORejected\<close>).
\<close>

fun room_continue ::
  "(json \<Rightarrow> string \<Rightarrow> string) \<Rightarrow> int \<Rightarrow> room \<Rightarrow> task \<Rightarrow> answer \<Rightarrow> room"
where
  "room_continue jwt now r (TCreate ref i role) a =
     (case a of ATransport t \<Rightarrow> transport_created r ref i role t | _ \<Rightarrow> r_log r ORejected)"
| "room_continue jwt now r (TConnect ref role) a = r"
| "room_continue jwt now r (TProduce ref i) a =
     (case a of AProducer p \<Rightarrow> producer_created r ref i p | _ \<Rightarrow> r)"
| "room_continue jwt now r (TPause ref i) a = r_send r ref (Rsp (PauseProducerResponse i))"
| "room_continue jwt now r (TResume ref i) a = r_send r ref (Rsp (PauseProducerResponse i))"
| "room_continue jwt now r (TConsume k pref cref pid pos p) a =
     (case a of AConsumer co \<Rightarrow> consumer_created r k pref cref pid pos p co | _ \<Rightarrow> r_log r ORejected)"
| "room_continue jwt now r (TConsumed k) a = resume_outer jwt now r k"

definition room_resume :: "(json \<Rightarrow> string \<Rightarrow> string) \<Rightarrow> int \<Rightarrow> room \<Rightarrow> nat \<Rightarrow> answer \<Rightarrow> room" where
  "room_resume jwt now r k a =
     (case map_of (r_tasks r) k of
        None \<Rightarrow> r
      | Some t \<Rightarrow> if task_answers t a then room_continue jwt now (r_del_task r k) t a else r)"

section \<open>Closing\<close>

text \<open>
  The \<open>close\<close> observers. The one of a consumer is registered when the consumer enters the
  client's map and runs once, so it is there as long as the entry is.
\<close>

datatype callback =
    ProducerClosed nat string
  | ConsumerClosed nat string

fun run_callback :: "room \<Rightarrow> callback \<Rightarrow> room" where
  "run_callback r (ProducerClosed ref p) =
     r_upd r ref (\<lambda>c. c\<lparr>c_producers := map_delete (c_producers c) p\<rparr>)"
| "run_callback r (ConsumerClosed ref k) =
     (case r_objs r ref of
        None \<Rightarrow> r
      | Some c \<Rightarrow>
          if map_has (c_consumers c) k
          then r_send (r_upd r ref (\<lambda>c. c\<lparr>c_consumers := map_delete (c_consumers c) k\<rparr>)) ref
                 (Ntf (ConsumerClosedNotification k))
          else r)"

text \<open>\<open>close\<close> of the room, with the callbacks that \<open>router.close()\<close> runs before it returns.\<close>

definition room_close :: "room \<Rightarrow> callback list \<Rightarrow> room" where
  "room_close r cbs =
     (if r_closed r then r
      else r_log (foldl run_callback (r_log (r\<lparr>r_closed := True\<rparr>) OCloseRouter) cbs) OOnClosed)"

definition close_transport :: "room \<Rightarrow> transport_info option \<Rightarrow> callback list \<Rightarrow> room" where
  "close_transport r t cbs =
     (case t of
        None \<Rightarrow> r
      | Some t \<Rightarrow> foldl run_callback (r_log r (OCloseTransport (ti_id t))) cbs)"

definition on_close ::
  "room \<Rightarrow> nat \<Rightarrow> client \<Rightarrow> callback list \<Rightarrow> callback list \<Rightarrow> callback list \<Rightarrow> room"
where
  "on_close r ref c snds rcvs routers =
     (let r1 = close_transport r (c_sndTransport c) snds;
          r2 = close_transport r1 (c_rcvTransport c) rcvs;
          r3 = r2\<lparr>r_clients := map_delete (r_clients r2) (c_clientId c)\<rparr>
      in if map_size (r_clients r3) < 1 then room_close r3 routers else r3)"

text \<open>The socket closed: \<open>ClientEvents.close\<close> sets the flag and emits \<open>close\<close>.\<close>

definition socket_closed ::
  "room \<Rightarrow> nat \<Rightarrow> callback list \<Rightarrow> callback list \<Rightarrow> callback list \<Rightarrow> room"
where
  "socket_closed r ref snds rcvs routers =
     (case r_objs r ref of
        None \<Rightarrow> r
      | Some c \<Rightarrow>
          if c_closed c then r
          else
            (let r1 = r_upd r ref (\<lambda>c. c\<lparr>c_closed := True, c_onclose := False\<rparr>)
             in if c_onclose c then on_close r1 ref c snds rcvs routers else r1))"

text \<open>
  A frame whose \<open>type\<close> is \<open>close\<close> reaches the same listener, because the events of the wrapper
  and the message types share one emitter; the wrapper stays open.
\<close>

definition close_frame ::
  "room \<Rightarrow> nat \<Rightarrow> callback list \<Rightarrow> callback list \<Rightarrow> callback list \<Rightarrow> room"
where
  "close_frame r ref snds rcvs routers =
     (case r_objs r ref of
        None \<Rightarrow> r
      | Some c \<Rightarrow>
          if c_closed c \<or> \<not> c_onclose c then r
          else on_close (r_upd r ref (\<lambda>c. c\<lparr>c_onclose := False\<rparr>)) ref c snds rcvs routers)"

text \<open>
  The router was closed by the library (its worker died): the observer calls \<open>close\<close>, which
  returns at once because the router is closed already.
\<close>

definition router_closed :: "room \<Rightarrow> callback list \<Rightarrow> room" where
  "router_closed r cbs =
     (if r_closed r then r else room_close (foldl run_callback (r\<lparr>r_closed := True\<rparr>) cbs) [])"

section \<open>Events and runs\<close>

datatype event =
    Add string "string option"
  | Receive int nat message
  | Resume int nat answer
  | SocketClosed nat "callback list" "callback list" "callback list"
  | CloseFrame nat "callback list" "callback list" "callback list"
  | Callback callback
  | RouterClosed "callback list"

fun room_step :: "(json \<Rightarrow> string \<Rightarrow> string) \<Rightarrow> room \<Rightarrow> event \<Rightarrow> room" where
  "room_step jwt r (Add clientId userId) = room_add r clientId userId"
| "room_step jwt r (Receive now ref m) = room_receive jwt now r ref m"
| "room_step jwt r (Resume now k a) = room_resume jwt now r k a"
| "room_step jwt r (SocketClosed ref snds rcvs routers) = socket_closed r ref snds rcvs routers"
| "room_step jwt r (CloseFrame ref snds rcvs routers) = close_frame r ref snds rcvs routers"
| "room_step jwt r (Callback cb) = run_callback r cb"
| "room_step jwt r (RouterClosed cbs) = router_closed r cbs"

end
