(* ===== verification/RoomInv.thy ===== *)
theory RoomInv
  imports Room
begin

text \<open>
  The structural invariants of the room. Every handler is a sequence of primitive moves
  (\<open>micro\<close>): an invariant is proved once per move and each handler is shown to consist of
  moves, so it holds for every handler at every interleaving.
\<close>

section \<open>What the primitive updates leave alone\<close>

lemma r_log_simps [simp]:
  "r_clients (r_log r x) = r_clients r" "r_objs (r_log r x) = r_objs r"
  "r_nobjs (r_log r x) = r_nobjs r" "r_tasks (r_log r x) = r_tasks r"
  "r_ntask (r_log r x) = r_ntask r" "r_closed (r_log r x) = r_closed r"
  "r_trace (r_log r x) = r_trace r @ [x]"
  by (simp_all add: r_log_def)

lemma r_upd_simps [simp]:
  "r_clients (r_upd r ref f) = r_clients r" "r_nobjs (r_upd r ref f) = r_nobjs r"
  "r_tasks (r_upd r ref f) = r_tasks r" "r_ntask (r_upd r ref f) = r_ntask r"
  "r_closed (r_upd r ref f) = r_closed r" "r_trace (r_upd r ref f) = r_trace r"
  "r_objs (r_upd r ref f) = (r_objs r)(ref := map_option f (r_objs r ref))"
  by (simp_all add: r_upd_def)

lemma r_add_task_simps [simp]:
  "r_clients (r_add_task r t) = r_clients r" "r_objs (r_add_task r t) = r_objs r"
  "r_nobjs (r_add_task r t) = r_nobjs r" "r_ntask (r_add_task r t) = Suc (r_ntask r)"
  "r_closed (r_add_task r t) = r_closed r" "r_trace (r_add_task r t) = r_trace r"
  "r_tasks (r_add_task r t) = r_tasks r @ [(r_ntask r, t)]"
  by (simp_all add: r_add_task_def)

lemma r_del_task_simps [simp]:
  "r_clients (r_del_task r k) = r_clients r" "r_objs (r_del_task r k) = r_objs r"
  "r_nobjs (r_del_task r k) = r_nobjs r" "r_ntask (r_del_task r k) = r_ntask r"
  "r_closed (r_del_task r k) = r_closed r" "r_trace (r_del_task r k) = r_trace r"
  "r_tasks (r_del_task r k) = filter (\<lambda>x. fst x \<noteq> k) (r_tasks r)"
  by (simp_all add: r_del_task_def)

definition is_open :: "room \<Rightarrow> nat \<Rightarrow> bool" where
  "is_open r ref = (case r_objs r ref of None \<Rightarrow> False | Some c \<Rightarrow> \<not> c_closed c)"

lemma r_send_open: "r_send r ref m = (if is_open r ref then r_log r (OSend ref m) else r)"
  by (simp add: r_send_def is_open_def split: option.splits)

lemma r_send_simps [simp]:
  "r_clients (r_send r ref m) = r_clients r" "r_objs (r_send r ref m) = r_objs r"
  "r_nobjs (r_send r ref m) = r_nobjs r" "r_tasks (r_send r ref m) = r_tasks r"
  "r_ntask (r_send r ref m) = r_ntask r" "r_closed (r_send r ref m) = r_closed r"
  by (simp_all add: r_send_open)

lemma r_send_trace: "r_trace (r_send r ref m) = r_trace r @ (if is_open r ref then [OSend ref m] else [])"
  by (simp add: r_send_open)

section \<open>Well-formed rooms\<close>

text \<open>
  The ids of a \<open>_consumeClient\<close> that waits for the library: the object it consumes from has
  the id under which it was looked up, and the consuming object has another one.
\<close>

fun task_wf :: "room \<Rightarrow> task \<Rightarrow> bool" where
  "task_wf r (TConsume k pref cref pid pos p) =
     (\<exists>pc cc. r_objs r pref = Some pc \<and> r_objs r cref = Some cc \<and>
        c_clientId pc = pid \<and> c_clientId cc \<noteq> pid)"
| "task_wf r _ = True"

definition registered :: "room \<Rightarrow> nat \<Rightarrow> bool" where
  "registered r ref =
     (\<exists>c. r_objs r ref = Some c \<and> map_get (r_clients r) (c_clientId c) = Some ref)"

definition client_wf :: "client \<Rightarrow> bool" where
  "client_wf c \<longleftrightarrow> map_wf (c_producers c) \<and> map_wf (c_consumers c) \<and>
     (\<forall>k p. map_get (c_producers c) k = Some p \<longrightarrow> p_id p = k)"

definition room_wf :: "room \<Rightarrow> bool" where
  "room_wf r \<longleftrightarrow>
     map_wf (r_clients r) \<and>
     (\<forall>k ref. map_get (r_clients r) k = Some ref \<longrightarrow>
        (\<exists>c. r_objs r ref = Some c \<and> c_clientId c = k)) \<and>
     (\<forall>ref c. r_objs r ref = Some c \<longrightarrow> ref < r_nobjs r \<and> client_wf c) \<and>
     (\<forall>x \<in> set (r_tasks r). task_wf r (snd x))"

lemma room_wf_new: "room_wf (room_new i k caps ip a)"
  by (simp add: room_wf_def room_new_def)

section \<open>Primitive moves\<close>

fun is_announcement :: "message \<Rightarrow> bool" where
  "is_announcement (Ntf (ConsumerCreatedNotification _ _ _ _ _)) = True"
| "is_announcement _ = False"

text \<open>The actions that may be recorded in any state.\<close>

fun is_plain :: "obs \<Rightarrow> bool" where
  "is_plain (OSend _ _) = False"
| "is_plain (ORecv _ _) = False"
| "is_plain OOnClosed = False"
| "is_plain _ = True"

definition announce :: "room \<Rightarrow> nat \<Rightarrow> consumer \<Rightarrow> string \<Rightarrow> remote_client \<Rightarrow> room" where
  "announce r cref co p rc =
     r_send (r_upd r cref (\<lambda>c. c\<lparr>c_consumers := map_set (c_consumers c) (co_id co) co\<rparr>)) cref
       (Ntf (ConsumerCreatedNotification (co_id co) p (co_kind co) (co_rtpParameters co) rc))"

text \<open>
  The calm moves leave the table of clients, the flags of a client's wrapper and its
  capabilities alone; everything but receiving, adding and closing is made of them.
\<close>

inductive calm :: "room \<Rightarrow> room \<Rightarrow> bool" where
  calm_log: "is_plain x \<Longrightarrow> calm r (r_log r x)"
| calm_send: "\<not> is_announcement m \<Longrightarrow> calm r (r_send r ref m)"
| calm_snd: "calm r (r_upd r ref (\<lambda>c. c\<lparr>c_sndTransport := Some t\<rparr>))"
| calm_rcv: "calm r (r_upd r ref (\<lambda>c. c\<lparr>c_rcvTransport := Some t\<rparr>))"
| calm_pset: "calm r (r_upd r ref (\<lambda>c. c\<lparr>c_producers := map_set (c_producers c) (p_id p) p\<rparr>))"
| calm_pdel: "calm r (r_upd r ref (\<lambda>c. c\<lparr>c_producers := map_delete (c_producers c) q\<rparr>))"
| calm_cdel: "calm r (r_upd r ref (\<lambda>c. c\<lparr>c_consumers := map_delete (c_consumers c) q\<rparr>))"
| calm_announce: "r_objs r cref = Some cc \<Longrightarrow> c_clientId cc \<noteq> rc_clientId rc \<Longrightarrow>
    calm r (announce r cref co p rc)"
| calm_task: "task_wf r t \<Longrightarrow> calm r (r_add_task r t)"
| calm_done: "calm r (r_del_task r k)"

inductive micro :: "room \<Rightarrow> room \<Rightarrow> bool" where
  micro_calm: "calm r r' \<Longrightarrow> micro r r'"
| micro_recv: "is_open r ref \<Longrightarrow> micro r (r_log r (ORecv ref m))"
| micro_caps: "micro r (r_upd r ref (\<lambda>c. c\<lparr>c_rtpCapabilities := v\<rparr>))"
| micro_add: "micro r (room_add r cid uid)"
| micro_unregister: "micro r (r\<lparr>r_clients := map_delete (r_clients r) cid\<rparr>)"
| micro_unlisten: "micro r (r_upd r ref (\<lambda>c. c\<lparr>c_onclose := False\<rparr>))"
| micro_shut: "micro r (r_upd r ref (\<lambda>c. c\<lparr>c_closed := True, c_onclose := False\<rparr>))"
| micro_close: "micro r (r\<lparr>r_closed := True\<rparr>)"
| micro_onclosed: "r_closed r \<Longrightarrow> OOnClosed \<notin> set (r_trace r) \<Longrightarrow> micro r (r_log r OOnClosed)"

abbreviation calms :: "room \<Rightarrow> room \<Rightarrow> bool" where
  "calms \<equiv> calm\<^sup>*\<^sup>*"

abbreviation micros :: "room \<Rightarrow> room \<Rightarrow> bool" where
  "micros \<equiv> micro\<^sup>*\<^sup>*"

text \<open>An update of a client object that keeps its id keeps what refers to it.\<close>

lemma task_wf_upd:
  assumes "task_wf r t" and "\<And>c. c_clientId (f c) = c_clientId c"
  shows "task_wf (r_upd r ref f) t"
  using assms by (cases t) auto

lemma room_wf_upd:
  assumes wf: "room_wf r"
    and id: "\<And>c. c_clientId (f c) = c_clientId c"
    and cw: "\<And>c. client_wf c \<Longrightarrow> client_wf (f c)"
  shows "room_wf (r_upd r ref f)"
proof -
  have "\<forall>k ref'. map_get (r_clients r) k = Some ref' \<longrightarrow>
      (\<exists>c. r_objs (r_upd r ref f) ref' = Some c \<and> c_clientId c = k)"
  proof (intro allI impI)
    fix k ref'
    assume "map_get (r_clients r) k = Some ref'"
    then obtain c where "r_objs r ref' = Some c" "c_clientId c = k"
      using wf unfolding room_wf_def by blast
    with id show "\<exists>c. r_objs (r_upd r ref f) ref' = Some c \<and> c_clientId c = k"
      by auto
  qed
  moreover have "\<forall>x \<in> set (r_tasks r). task_wf (r_upd r ref f) (snd x)"
    using wf id by (auto simp: room_wf_def intro: task_wf_upd)
  moreover have "\<forall>ref' c. r_objs (r_upd r ref f) ref' = Some c \<longrightarrow> ref' < r_nobjs r \<and> client_wf c"
    using wf cw by (auto simp: room_wf_def split: if_splits)
  ultimately show ?thesis
    using wf unfolding room_wf_def by simp
qed

lemma task_wf_cong: "r_objs r' = r_objs r \<Longrightarrow> task_wf r' t = task_wf r t"
  by (cases t) auto

lemma room_wf_cong:
  assumes "room_wf r" "r_objs r' = r_objs r" "r_clients r' = r_clients r"
    "r_nobjs r' = r_nobjs r" "set (r_tasks r') \<subseteq> set (r_tasks r) \<union> {x. task_wf r (snd x)}"
  shows "room_wf r'"
  using assms task_wf_cong[OF assms(2)] unfolding room_wf_def by (auto; blast)

lemma client_wf_set_producer:
  "client_wf c \<Longrightarrow> client_wf (c\<lparr>c_producers := map_set (c_producers c) (p_id p) p\<rparr>)"
  by (auto simp: client_wf_def map_wf_set map_get_set split: if_splits)

lemma client_wf_del_producer:
  "client_wf c \<Longrightarrow> client_wf (c\<lparr>c_producers := map_delete (c_producers c) q\<rparr>)"
  by (auto simp: client_wf_def map_wf_delete map_get_delete split: if_splits)

lemma room_wfD:
  assumes "room_wf r"
  shows "map_wf (r_clients r)"
    and "map_get (r_clients r) k = Some ref \<Longrightarrow> \<exists>c. r_objs r ref = Some c \<and> c_clientId c = k"
    and "r_objs r ref = Some c \<Longrightarrow> ref < r_nobjs r"
    and "r_objs r ref = Some c \<Longrightarrow> client_wf c"
    and "x \<in> set (r_tasks r) \<Longrightarrow> task_wf r (snd x)"
  using assms unfolding room_wf_def by blast+

lemma room_wf_fresh: "room_wf r \<Longrightarrow> r_objs r (r_nobjs r) = None"
  using room_wfD(3)[of r "r_nobjs r"] by (cases "r_objs r (r_nobjs r)") auto

lemma client_wf_new [simp]: "client_wf (client_new cid uid)"
  by (simp add: client_wf_def client_new_def)

lemma room_add_simps [simp]:
  "r_clients (room_add r cid uid) = map_set (r_clients r) cid (r_nobjs r)"
  "r_objs (room_add r cid uid) = (r_objs r)(r_nobjs r \<mapsto> client_new cid uid)"
  "r_nobjs (room_add r cid uid) = Suc (r_nobjs r)" "r_tasks (room_add r cid uid) = r_tasks r"
  "r_ntask (room_add r cid uid) = r_ntask r" "r_closed (room_add r cid uid) = r_closed r"
  "r_trace (room_add r cid uid) = r_trace r"
  by (simp_all add: room_add_def)

lemma client_new_id [simp]: "c_clientId (client_new cid uid) = cid"
  by (simp add: client_new_def)

lemma room_wf_add:
  assumes wf: "room_wf r"
  shows "room_wf (room_add r cid uid)"
  unfolding room_wf_def
proof (intro conjI allI impI ballI)
  show "map_wf (r_clients (room_add r cid uid))"
    using room_wfD(1)[OF wf] by (simp add: map_wf_set)
next
  fix k ref
  assume "map_get (r_clients (room_add r cid uid)) k = Some ref"
  then consider "k = cid" "ref = r_nobjs r" | "map_get (r_clients r) k = Some ref"
    by (cases "k = cid") (simp_all add: map_get_set)
  then show "\<exists>c. r_objs (room_add r cid uid) ref = Some c \<and> c_clientId c = k"
  proof cases
    case 1
    then show ?thesis by simp
  next
    case 2
    then obtain c where "r_objs r ref = Some c" "c_clientId c = k"
      using room_wfD(2)[OF wf] by blast
    with room_wf_fresh[OF wf] have "ref \<noteq> r_nobjs r" by (metis option.distinct(1))
    with \<open>r_objs r ref = Some c\<close> \<open>c_clientId c = k\<close> show ?thesis by simp
  qed
next
  fix ref c
  assume c: "r_objs (room_add r cid uid) ref = Some c"
  then show "ref < r_nobjs (room_add r cid uid)"
    using room_wfD(3)[OF wf, of ref] by (cases "ref = r_nobjs r") (simp_all add: less_Suc_eq)
  show "client_wf c"
    using c room_wfD(4)[OF wf, of ref] by (cases "ref = r_nobjs r") auto
next
  fix x
  assume "x \<in> set (r_tasks (room_add r cid uid))"
  then have "task_wf r (snd x)"
    using room_wfD(5)[OF wf] by simp
  then show "task_wf (room_add r cid uid) (snd x)"
    using room_wf_fresh[OF wf] by (cases "snd x") auto
qed

lemma room_wf_unregister:
  assumes wf: "room_wf r"
  shows "room_wf (r\<lparr>r_clients := map_delete (r_clients r) cid\<rparr>)" (is "room_wf ?r")
proof -
  have tasks: "task_wf ?r t = task_wf r t" for t
    by (rule task_wf_cong) simp
  show ?thesis
    unfolding room_wf_def
    using room_wfD[OF wf] by (auto simp: tasks map_wf_delete map_get_delete split: if_splits)
qed

lemma room_wf_announce: "room_wf r \<Longrightarrow> room_wf (announce r cref co p rc)"
proof -
  assume "room_wf r"
  then have "room_wf (r_upd r cref (\<lambda>c. c\<lparr>c_consumers := map_set (c_consumers c) (co_id co) co\<rparr>))"
    by (rule room_wf_upd) (simp_all add: client_wf_def map_wf_set)
  then show ?thesis
    by (rule room_wf_cong) (auto simp: announce_def)
qed

lemma calm_wf: "calm r r' \<Longrightarrow> room_wf r \<Longrightarrow> room_wf r'"
proof (induction rule: calm.induct)
  case (calm_log x r)
  then show ?case by (elim room_wf_cong) auto
next
  case (calm_send m r ref)
  then show ?case by (elim room_wf_cong) auto
next
  case (calm_snd r ref t)
  then show ?case by (rule room_wf_upd) (simp_all add: client_wf_def)
next
  case (calm_rcv r ref t)
  then show ?case by (rule room_wf_upd) (simp_all add: client_wf_def)
next
  case (calm_pset r ref p)
  then show ?case by (rule room_wf_upd) (simp_all add: client_wf_set_producer)
next
  case (calm_pdel r ref q)
  then show ?case by (rule room_wf_upd) (simp_all add: client_wf_del_producer)
next
  case (calm_cdel r ref q)
  then show ?case by (rule room_wf_upd) (simp_all add: client_wf_def map_wf_delete)
next
  case (calm_announce r cref cc rc co p)
  then show ?case by (intro room_wf_announce)
next
  case (calm_task r t)
  from calm_task.prems show ?case
    by (rule room_wf_cong) (use calm_task.hyps in auto)
next
  case (calm_done r k)
  then show ?case by (rule room_wf_cong) auto
qed

lemma micro_wf: "micro r r' \<Longrightarrow> room_wf r \<Longrightarrow> room_wf r'"
proof (induction rule: micro.induct)
  case (micro_calm r r')
  then show ?case by (rule calm_wf)
next
  case (micro_recv r ref m)
  then show ?case by (elim room_wf_cong) auto
next
  case (micro_caps r ref v)
  then show ?case by (rule room_wf_upd) (simp_all add: client_wf_def)
next
  case (micro_add r cid uid)
  then show ?case by (rule room_wf_add)
next
  case (micro_unregister r cid)
  then show ?case by (rule room_wf_unregister)
next
  case (micro_unlisten r ref)
  then show ?case by (rule room_wf_upd) (simp_all add: client_wf_def)
next
  case (micro_shut r ref)
  then show ?case by (rule room_wf_upd) (simp_all add: client_wf_def)
next
  case (micro_close r)
  then show ?case by (rule room_wf_cong) auto
next
  case (micro_onclosed r)
  then show ?case by (elim room_wf_cong) auto
qed

lemma calms_wf: "calms r r' \<Longrightarrow> room_wf r \<Longrightarrow> room_wf r'"
  by (induction rule: rtranclp_induct) (auto intro: calm_wf)

lemma micros_wf: "micros r r' \<Longrightarrow> room_wf r \<Longrightarrow> room_wf r'"
  by (induction rule: rtranclp_induct) (auto intro: micro_wf)

lemma calms_micros: "calms r r' \<Longrightarrow> micros r r'"
  by (induction rule: rtranclp_induct) (auto intro: micro_calm rtranclp.rtrancl_into_rtrancl)

section \<open>Every handler is a sequence of moves\<close>

lemma micros_step [intro]: "micro r r' \<Longrightarrow> micros r r'"
  by (rule r_into_rtranclp)

lemma micros_trans: "micros r r' \<Longrightarrow> micros r' r'' \<Longrightarrow> micros r r''"
  by (rule rtranclp_trans)

lemma calms_step [intro]: "calm r r' \<Longrightarrow> calms r r'"
  by (rule r_into_rtranclp)

lemma calms_trans: "calms r r' \<Longrightarrow> calms r' r'' \<Longrightarrow> calms r r''"
  by (rule rtranclp_trans)

lemma calms_send: "\<not> is_announcement m \<Longrightarrow> calms r (r_send r ref m)"
  by (auto intro: calm_send)

lemma calms_log: "is_plain x \<Longrightarrow> calms r (r_log r x)"
  by (auto intro: calm_log)

lemma calms_task: "task_wf r t \<Longrightarrow> calms r (r_add_task r t)"
  by (auto intro: calm_task)

lemma calms_log_task:
  "is_plain x \<Longrightarrow> task_wf r t \<Longrightarrow> calms r (r_add_task (r_log r x) t)"
  by (rule calms_trans[OF calms_log calms_task]) (simp_all add: task_wf_cong[of "r_log r x" r])

lemma calms_consume_run:
  assumes "r_objs r pref = Some pc" "r_objs r cref = Some cc"
    "c_clientId pc = pid" "c_clientId cc \<noteq> pid"
  shows "calms r (consume_run r k pref cref pid pos)"
  using assms unfolding consume_run_def
  by (auto simp: task_wf_cong split: option.splits intro!: calms_task calms_log_task)

lemma calms_consume_client:
  assumes wf: "room_wf r" and ne: "pid \<noteq> cid"
  shows "calms r (consume_client r k pid cid)"
proof (cases "map_get (r_clients r) pid = None \<or> map_get (r_clients r) cid = None")
  case True
  then show ?thesis
    unfolding consume_client_def by (auto split: option.splits intro!: calms_task)
next
  case False
  then obtain pref cref where "map_get (r_clients r) pid = Some pref"
      "map_get (r_clients r) cid = Some cref"
    by auto
  moreover obtain pc where "r_objs r pref = Some pc" "c_clientId pc = pid"
    using room_wfD(2)[OF wf calculation(1)] by blast
  moreover obtain cc where "r_objs r cref = Some cc" "c_clientId cc = cid"
    using room_wfD(2)[OF wf calculation(2)] by blast
  ultimately show ?thesis
    using ne by (auto simp: consume_client_def intro!: calms_consume_run)
qed

lemma next_other_neq: "next_other cid es = Some (pos, k) \<Longrightarrow> k \<noteq> cid"
  by (induction cid es rule: next_other.induct) (auto split: if_splits)

lemma calms_join_loop:
  "room_wf r \<Longrightarrow> calms r (join_loop jwt now r ref cid i pos)"
  unfolding join_loop_def
  by (auto split: option.splits intro!: calms_send calms_consume_client dest: next_other_neq)

lemma calms_produce_loop: "room_wf r \<Longrightarrow> calms r (produce_loop r ref cid pos)"
  unfolding produce_loop_def
  by (auto split: option.splits intro!: calms_consume_client dest: next_other_neq)

lemma calms_resume_outer: "room_wf r \<Longrightarrow> calms r (resume_outer jwt now r k)"
  by (cases k) (auto split: option.splits intro!: calms_join_loop calms_produce_loop)

lemma calms_room_handle:
  assumes "room_wf r" "\<And>caps. m \<noteq> Ntf (ClientRtpCapabilitiesNotification caps)"
  shows "calms r (room_handle jwt now r ref c m)"
  using assms
  by (cases "(jwt, now, r, ref, c, m)" rule: room_handle.cases)
    (auto simp: handler_defs simp del: r_upd_simps
      split: option.splits intro!: calms_send calms_join_loop calms_log_task)

lemma micros_room_handle: "room_wf r \<Longrightarrow> micros r (room_handle jwt now r ref c m)"
  by (cases "(jwt, now, r, ref, c, m)" rule: room_handle.cases)
    (auto simp: handler_defs
      split: option.splits
      intro!: calms_send[THEN calms_micros] calms_join_loop[THEN calms_micros] calms_log_task[THEN calms_micros] intro: micro_caps)

lemma micros_room_receive: "room_wf r \<Longrightarrow> micros r (room_receive jwt now r ref m)"
proof (cases "is_open r ref")
  case True
  assume wf: "room_wf r"
  have l: "micros r (r_log r (ORecv ref m))"
    using True by (intro micros_step micro_recv)
  from micros_trans[OF l micros_room_handle[OF micros_wf[OF l wf]]] show ?thesis
    by (auto simp: room_receive_def split: option.splits)
next
  case False
  then show ?thesis
    by (simp add: room_receive_def is_open_def split: option.splits)
qed

lemma calms_consumer_created:
  assumes wf: "room_wf r" and pc: "r_objs r pref = Some pc" and cc: "r_objs r cref = Some cc"
    and "c_clientId pc = pid" "c_clientId cc \<noteq> pid"
  shows "calms r (consumer_created r k pref cref pid pos p co)"
proof -
  define rc where "rc = \<lparr>rc_userId = (case r_objs (r_upd r cref (\<lambda>c. c\<lparr>c_consumers :=
      map_set (c_consumers c) (co_id co) co\<rparr>)) pref of None \<Rightarrow> None | Some pc \<Rightarrow> c_userId pc),
    rc_clientId = pid\<rparr>"
  have eq: "consumer_created r k pref cref pid pos p co =
      consume_run (announce r cref co (p_id p) rc) k pref cref pid pos"
    by (simp add: consumer_created_def announce_def rc_def Let_def)
  have a: "calms r (announce r cref co (p_id p) rc)"
    using assms by (intro calms_step calm_announce) (auto simp: rc_def)
  obtain pc' cc' where "r_objs (announce r cref co (p_id p) rc) pref = Some pc'" "c_clientId pc' = pid"
      "r_objs (announce r cref co (p_id p) rc) cref = Some cc'" "c_clientId cc' \<noteq> pid"
    using assms by (cases "pref = cref") (auto simp: announce_def)
  then have "calms (announce r cref co (p_id p) rc) (consumer_created r k pref cref pid pos p co)"
    unfolding eq by (intro calms_consume_run) auto
  with a show ?thesis
    by (rule calms_trans)
qed

lemma calms_transport_created: "calms r (transport_created r ref i role t)"
  unfolding transport_created_def
  by (auto intro!: calms_trans[OF calms_step[OF calm_snd] calms_send]
      calms_trans[OF calms_step[OF calm_rcv] calms_send] calms_send)

lemma calms_producer_created: "room_wf r \<Longrightarrow> calms r (producer_created r ref i p)"
proof -
  assume wf: "room_wf r"
  let ?r1 = "r_upd r ref (\<lambda>c. c\<lparr>c_producers := map_set (c_producers c) (p_id p) p\<rparr>)"
  let ?r2 = "r_send ?r1 ref (Rsp (CreateProducerResponse i (p_id p)))"
  have m: "calms r ?r2"
    by (rule calms_trans[OF calms_step[OF calm_pset] calms_send]) simp
  have "calms ?r2 (produce_loop ?r2 ref cid 0)" for cid
    by (rule calms_produce_loop[OF calms_wf[OF m wf]])
  with m show ?thesis
    unfolding producer_created_def Let_def
    by (auto split: option.splits simp del: r_upd_simps intro: calms_trans)
qed

lemma calms_room_continue:
  assumes wf: "room_wf r" and t: "task_wf r t"
  shows "calms r (room_continue jwt now r t a)"
proof (cases t)
  case (TConsume k pref cref pid pos p)
  with t obtain pc cc where "r_objs r pref = Some pc" "r_objs r cref = Some cc"
      "c_clientId pc = pid" "c_clientId cc \<noteq> pid"
    by auto
  with wf TConsume show ?thesis
    by (auto split: answer.splits intro!: calms_consumer_created calms_log)
qed (use wf in \<open>auto split: answer.splits intro!: calms_transport_created calms_log
    calms_producer_created calms_send calms_resume_outer\<close>)

lemma calms_room_resume: "room_wf r \<Longrightarrow> calms r (room_resume jwt now r k a)"
proof -
  assume wf: "room_wf r"
  have d: "calms r (r_del_task r k)"
    by (intro calms_step calm_done)
  have "task_wf (r_del_task r k) t" if "map_of (r_tasks r) k = Some t" for t
    using room_wfD(5)[OF wf map_of_SomeD[OF that]] by (simp add: task_wf_cong[of "r_del_task r k" r])
  then have "calms (r_del_task r k) (room_continue jwt now (r_del_task r k) t a)"
    if "map_of (r_tasks r) k = Some t" for t
    using that by (intro calms_room_continue calms_wf[OF d wf])
  with d show ?thesis
    by (auto simp: room_resume_def split: option.splits intro: calms_trans)
qed

lemma calms_run_callback: "calms r (run_callback r cb)"
proof (cases cb)
  case (ProducerClosed ref q)
  then show ?thesis
    by (auto intro: calm_pdel)
next
  case (ConsumerClosed ref q)
  then show ?thesis
    by (auto split: option.splits intro: calms_trans[OF calms_step[OF calm_cdel] calms_send])
qed

lemma calms_run_callbacks: "calms r (foldl run_callback r cbs)"
  by (induction cbs arbitrary: r) (auto intro: calms_trans[OF calms_run_callback])

text \<open>Callbacks only send notifications and only touch the maps of client objects.\<close>

lemma run_callback_frame:
  "r_clients (run_callback r cb) = r_clients r" "r_closed (run_callback r cb) = r_closed r"
  "r_tasks (run_callback r cb) = r_tasks r" "r_nobjs (run_callback r cb) = r_nobjs r"
  "OOnClosed \<in> set (r_trace (run_callback r cb)) \<longleftrightarrow> OOnClosed \<in> set (r_trace r)"
  by (cases cb; auto split: option.splits simp: r_send_trace)+

lemma run_callbacks_frame:
  "r_clients (foldl run_callback r cbs) = r_clients r"
  "r_closed (foldl run_callback r cbs) = r_closed r"
  "r_tasks (foldl run_callback r cbs) = r_tasks r"
  "r_nobjs (foldl run_callback r cbs) = r_nobjs r"
  "OOnClosed \<in> set (r_trace (foldl run_callback r cbs)) \<longleftrightarrow> OOnClosed \<in> set (r_trace r)"
  by (induction cbs arbitrary: r) (simp_all add: run_callback_frame)

definition close_wf :: "room \<Rightarrow> bool" where
  "close_wf r \<longleftrightarrow> (OOnClosed \<in> set (r_trace r) \<longrightarrow> r_closed r)"

lemma micros_room_close: "close_wf r \<Longrightarrow> micros r (room_close r cbs)"
proof (cases "r_closed r")
  case True
  then show ?thesis by (simp add: room_close_def)
next
  case False
  assume "close_wf r"
  with False have no: "OOnClosed \<notin> set (r_trace r)"
    by (simp add: close_wf_def)
  let ?r1 = "r_log (r\<lparr>r_closed := True\<rparr>) OCloseRouter"
  have "micros r ?r1"
    by (rule micros_trans[OF micros_step[OF micro_close] calms_log[THEN calms_micros]]) simp_all
  also have "micros ?r1 (foldl run_callback ?r1 cbs)"
    by (rule calms_run_callbacks[THEN calms_micros])
  also have "micro (foldl run_callback ?r1 cbs) (room_close r cbs)"
    using False no by (simp add: room_close_def micro_onclosed run_callbacks_frame)
  finally show ?thesis by simp
qed

lemma calms_close_transport: "calms r (close_transport r t cbs)"
  unfolding close_transport_def
  by (auto split: option.splits intro: calms_trans[OF calms_log calms_run_callbacks])

lemma close_transport_frame:
  "r_clients (close_transport r t cbs) = r_clients r"
  "r_closed (close_transport r t cbs) = r_closed r"
  "OOnClosed \<in> set (r_trace (close_transport r t cbs)) \<longleftrightarrow> OOnClosed \<in> set (r_trace r)"
  by (simp_all add: close_transport_def run_callbacks_frame split: option.splits)

lemma room_close_clients [simp]: "r_clients (room_close r cbs) = r_clients r"
  by (simp add: room_close_def run_callbacks_frame)

lemma on_close_clients: "r_clients (on_close r ref c snds rcvs routers) = map_delete (r_clients r) (c_clientId c)"
  by (simp add: on_close_def Let_def close_transport_frame)

lemma micros_on_close:
  assumes "close_wf r"
  shows "micros r (on_close r ref c snds rcvs routers)"
proof -
  let ?r1 = "close_transport r (c_sndTransport c) snds"
  let ?r2 = "close_transport ?r1 (c_rcvTransport c) rcvs"
  let ?r3 = "?r2\<lparr>r_clients := map_delete (r_clients ?r2) (c_clientId c)\<rparr>"
  have "micros r ?r2"
    by (rule micros_trans[OF calms_close_transport[THEN calms_micros] calms_close_transport[THEN calms_micros]])
  then have "micros r ?r3"
    by (rule micros_trans) (rule micros_step[OF micro_unregister])
  moreover have "close_wf ?r3"
    using assms by (simp add: close_wf_def close_transport_frame)
  then have "micros ?r3 (room_close ?r3 routers)"
    by (rule micros_room_close)
  ultimately have "micros r (room_close ?r3 routers)"
    by (rule micros_trans)
  with \<open>micros r ?r3\<close> show ?thesis
    unfolding on_close_def Let_def by simp
qed

lemma close_wf_upd [simp]: "close_wf (r_upd r ref f) = close_wf r"
  by (simp add: close_wf_def)

lemma micros_shut_close:
  "close_wf r \<Longrightarrow> micros r (on_close (r_upd r ref (\<lambda>c. c\<lparr>c_closed := True, c_onclose := False\<rparr>))
     ref c snds rcvs routers)"
  by (rule micros_trans[OF micros_step[OF micro_shut] micros_on_close]) simp

lemma micros_unlisten_close:
  "close_wf r \<Longrightarrow> micros r (on_close (r_upd r ref (\<lambda>c. c\<lparr>c_onclose := False\<rparr>))
     ref c snds rcvs routers)"
  by (rule micros_trans[OF micros_step[OF micro_unlisten] micros_on_close]) simp

lemma micros_socket_closed:
  "close_wf r \<Longrightarrow> micros r (socket_closed r ref snds rcvs routers)"
  by (cases "r_objs r ref")
    (simp_all add: socket_closed_def Let_def micros_shut_close micros_step[OF micro_shut]
      del: r_upd_simps)

lemma micros_close_frame:
  "close_wf r \<Longrightarrow> micros r (close_frame r ref snds rcvs routers)"
  by (cases "r_objs r ref")
    (simp_all add: close_frame_def micros_unlisten_close del: r_upd_simps)

lemma micros_router_closed: "micros r (router_closed r cbs)"
proof -
  have "micros r (foldl run_callback (r\<lparr>r_closed := True\<rparr>) cbs)"
    by (rule micros_trans[OF micros_step[OF micro_close] calms_run_callbacks[THEN calms_micros]])
  then show ?thesis
    by (simp add: router_closed_def room_close_def run_callbacks_frame)
qed

lemma micros_room_step:
  assumes "room_wf r" "close_wf r"
  shows "micros r (room_step jwt r e)"
  using assms
  by (cases e) (auto intro: micro_add micros_room_receive calms_room_resume[THEN calms_micros] micros_socket_closed
      micros_close_frame calms_run_callback[THEN calms_micros] micros_router_closed)

end
