(* ===== verification/RoomSafety.thy ===== *)
theory RoomSafety
  imports RoomInv
begin

text \<open>
  What holds of a room in every reachable state, whatever the order in which messages,
  answers of the media library and closings arrive: well-formedness, no client consumes its
  own media, nothing is sent to a client that is closed, and the room closes once.
\<close>

section \<open>Moves and client objects\<close>

lemma micro_objs:
  assumes "micro r r'" "room_wf r" "r_objs r ref = Some c"
  shows "\<exists>c'. r_objs r' ref = Some c' \<and> c_clientId c' = c_clientId c \<and>
           (c_closed c \<longrightarrow> c_closed c') \<and> (\<not> c_onclose c \<longrightarrow> \<not> c_onclose c')"
  using assms
proof (induction rule: micro.induct)
  case (micro_add r cid uid)
  then show ?case
    using room_wf_fresh[of r] by auto
next
  case (micro_calm r r')
  then show ?case
    by (auto simp: announce_def elim!: calm.cases)
qed auto

lemma micros_objs:
  "micros r r' \<Longrightarrow> room_wf r \<Longrightarrow> r_objs r ref = Some c \<Longrightarrow> \<exists>c'. r_objs r' ref = Some c' \<and> c_clientId c' = c_clientId c"
proof (induction rule: rtranclp_induct)
  case (step y z)
  then obtain cy where "r_objs y ref = Some cy" "c_clientId cy = c_clientId c"
    by blast
  with micro_objs[OF step(2) micros_wf[OF step(1)]] step.prems(1) show ?case
    by fastforce
qed blast

lemma calm_trace_grows: "calm r r' \<Longrightarrow> \<exists>os. r_trace r' = r_trace r @ os"
  by (induction rule: calm.induct) (auto simp: r_send_trace announce_def)

lemma micro_trace_grows: "micro r r' \<Longrightarrow> \<exists>os. r_trace r' = r_trace r @ os"
  by (induction rule: micro.induct) (auto simp: calm_trace_grows)

lemma micros_trace_grows: "micros r r' \<Longrightarrow> \<exists>os. r_trace r' = r_trace r @ os"
proof (induction rule: rtranclp_induct)
  case base
  then show ?case by simp
next
  case (step r' r'')
  then show ?case
    using micro_trace_grows[of r' r''] by auto
qed

definition silent :: "nat \<Rightarrow> obs list \<Rightarrow> bool" where
  "silent ref os \<longleftrightarrow> (\<forall>m. OSend ref m \<notin> set os \<and> ORecv ref m \<notin> set os)"

definition is_closed :: "room \<Rightarrow> nat \<Rightarrow> bool" where
  "is_closed r ref = (case r_objs r ref of None \<Rightarrow> False | Some c \<Rightarrow> c_closed c)"

lemma closed_not_open: "is_closed r ref \<Longrightarrow> \<not> is_open r ref"
  by (simp add: is_closed_def is_open_def split: option.splits)

lemma micro_closed:
  assumes "micro r r'" "room_wf r" "is_closed r ref"
  shows "is_closed r' ref"
proof -
  obtain c where "r_objs r ref = Some c" "c_closed c"
    using assms(3) by (auto simp: is_closed_def split: option.splits)
  with micro_objs[OF assms(1,2)] show ?thesis
    by (fastforce simp: is_closed_def)
qed

lemma calm_silent:
  assumes "calm r r'" "is_closed r ref"
  shows "\<exists>os. r_trace r' = r_trace r @ os \<and> silent ref os"
  using assms
proof (induction rule: calm.induct)
  case (calm_log x r)
  then show ?case by (cases x) (auto simp: silent_def)
next
  case (calm_send m r ref')
  then show ?case using closed_not_open[of r ref] by (auto simp: silent_def r_send_trace)
next
  case (calm_announce r cref cc rc co p)
  then have "\<not> is_open (r_upd r cref (\<lambda>c. c\<lparr>c_consumers := map_set (c_consumers c) (co_id co) co\<rparr>)) ref"
    by (auto simp: is_open_def is_closed_def split: option.splits)
  then show ?case
    by (auto simp: silent_def announce_def r_send_trace)
qed (auto simp: silent_def)

lemma micro_silent:
  assumes "micro r r'" "is_closed r ref"
  shows "\<exists>os. r_trace r' = r_trace r @ os \<and> silent ref os"
  using assms
proof (induction rule: micro.induct)
  case (micro_calm r r')
  then show ?case by (intro calm_silent)
next
  case (micro_recv r ref' m)
  then show ?case using closed_not_open[of r ref] by (auto simp: silent_def)
qed (auto simp: silent_def)

lemma micros_silent:
  assumes "micros r r'" "room_wf r" "is_closed r ref"
  shows "is_closed r' ref \<and> (\<exists>os. r_trace r' = r_trace r @ os \<and> silent ref os)"
  using assms
proof (induction rule: rtranclp_induct)
  case base
  then show ?case by (simp add: silent_def)
next
  case (step r' r'')
  then have wf: "room_wf r'" and cl: "is_closed r' ref"
    by (auto intro: micros_wf)
  obtain os os' where "r_trace r' = r_trace r @ os" "silent ref os"
      "r_trace r'' = r_trace r' @ os'" "silent ref os'"
    using step micro_silent[OF step(2) cl] by blast
  then have "r_trace r'' = r_trace r @ (os @ os')" "silent ref (os @ os')"
    by (auto simp: silent_def)
  moreover have "is_closed r'' ref"
    by (rule micro_closed[OF step(2) wf cl])
  ultimately show ?case by blast
qed

section \<open>The invariant of reachable rooms\<close>

definition announced_wf :: "room \<Rightarrow> bool" where
  "announced_wf r \<longleftrightarrow>
     (\<forall>ref k p kind rtp rc.
        OSend ref (Ntf (ConsumerCreatedNotification k p kind rtp rc)) \<in> set (r_trace r) \<longrightarrow>
        (\<exists>c. r_objs r ref = Some c \<and> c_clientId c \<noteq> rc_clientId rc))"

definition room_inv :: "room \<Rightarrow> bool" where
  "room_inv r \<longleftrightarrow> room_wf r \<and> close_wf r \<and> announced_wf r \<and>
     tally (\<lambda>x. x = OOnClosed) (r_trace r) \<le> 1"

lemma announced_wf_step:
  assumes "announced_wf r" "micro r r'" "room_wf r"
    and "\<And>ref k p kind rtp rc. OSend ref (Ntf (ConsumerCreatedNotification k p kind rtp rc)) \<in> set (r_trace r') \<Longrightarrow>
      OSend ref (Ntf (ConsumerCreatedNotification k p kind rtp rc)) \<in> set (r_trace r) \<or>
      (\<exists>c. r_objs r ref = Some c \<and> c_clientId c \<noteq> rc_clientId rc)"
  shows "announced_wf r'"
  unfolding announced_wf_def
proof (intro allI impI)
  fix ref k p kind rtp rc
  assume "OSend ref (Ntf (ConsumerCreatedNotification k p kind rtp rc)) \<in> set (r_trace r')"
  with assms(1,4) obtain c where "r_objs r ref = Some c" "c_clientId c \<noteq> rc_clientId rc"
    unfolding announced_wf_def by blast
  with micro_objs[OF assms(2,3)] show "\<exists>c. r_objs r' ref = Some c \<and> c_clientId c \<noteq> rc_clientId rc"
    by fastforce
qed

lemma micro_new_announcement:
  assumes "micro r r'"
    and "OSend ref (Ntf (ConsumerCreatedNotification k p kind rtp rc)) \<in> set (r_trace r')"
  shows "OSend ref (Ntf (ConsumerCreatedNotification k p kind rtp rc)) \<in> set (r_trace r) \<or>
    (\<exists>c. r_objs r ref = Some c \<and> c_clientId c \<noteq> rc_clientId rc)"
  using assms
proof (induction rule: micro.induct)
  case (micro_calm r r')
  then show ?case
    by (induction rule: calm.induct) (auto simp: r_send_trace announce_def split: if_splits)
qed (auto split: if_splits)

lemma calm_frame:
  assumes "calm r r'"
  shows "r_clients r' = r_clients r" "r_nobjs r' = r_nobjs r" "r_closed r' = r_closed r"
    and "OOnClosed \<in> set (r_trace r') \<longleftrightarrow> OOnClosed \<in> set (r_trace r)"
    and "tally (\<lambda>x. x = OOnClosed) (r_trace r') = tally (\<lambda>x. x = OOnClosed) (r_trace r)"
    and "ORecv ref m \<in> set (r_trace r') \<longleftrightarrow> ORecv ref m \<in> set (r_trace r)"
  using assms by (cases rule: calm.cases; auto simp: r_send_trace announce_def)+

lemma micro_close_wf: "micro r r' \<Longrightarrow> close_wf r \<Longrightarrow> close_wf r'"
  by (induction rule: micro.induct) (auto simp: close_wf_def calm_frame)

lemma micro_onclosed_once:
  "micro r r' \<Longrightarrow> tally (\<lambda>x. x = OOnClosed) (r_trace r) \<le> 1 \<Longrightarrow>
   tally (\<lambda>x. x = OOnClosed) (r_trace r') \<le> 1"
proof (induction rule: micro.induct)
  case (micro_onclosed r)
  then have "tally (\<lambda>x. x = OOnClosed) (r_trace r) = 0"
    by (intro tally_zero) auto
  then show ?case by simp
qed (auto simp: calm_frame)

lemma micro_inv: "micro r r' \<Longrightarrow> room_inv r \<Longrightarrow> room_inv r'"
  unfolding room_inv_def
  using micro_wf micro_close_wf micro_onclosed_once
    announced_wf_step[of r r'] micro_new_announcement[of r r'] by blast

lemma micros_inv: "micros r r' \<Longrightarrow> room_inv r \<Longrightarrow> room_inv r'"
  by (induction rule: rtranclp_induct) (auto intro: micro_inv)

lemma room_inv_new: "room_inv (room_new i k caps ip a)"
  by (simp add: room_inv_def room_wf_new close_wf_def announced_wf_def) (simp add: room_new_def)

lemma room_inv_step: "room_inv r \<Longrightarrow> room_inv (room_step jwt r e)"
  using micros_inv micros_room_step unfolding room_inv_def by metis

interpretation room: logging_system "room_step jwt" room_inv r_trace for jwt
  by unfold_locales
    (use room_inv_step micros_trace_grows micros_room_step in \<open>auto simp: room_inv_def\<close>)

text \<open>A run of the room from its creation.\<close>

definition room_run ::
  "(json \<Rightarrow> string \<Rightarrow> string) \<Rightarrow> room \<Rightarrow> event list \<Rightarrow> room"
where
  "room_run jwt r es = foldl (room_step jwt) r es"

lemma room_run_inv: "room_inv r \<Longrightarrow> room_inv (room_run jwt r es)"
  unfolding room_run_def by (rule room.free_run_inv)

lemma room_run_new_inv: "room_inv (room_run jwt (room_new i k caps ip a) es)"
  by (rule room_run_inv[OF room_inv_new])

lemma room_run_micros: "room_inv r \<Longrightarrow> micros r (room_run jwt r es)"
proof (induction es arbitrary: r)
  case Nil
  then show ?case by (simp add: room_run_def)
next
  case (Cons e es)
  have "micros r (room_step jwt r e)"
    using Cons.prems by (intro micros_room_step) (auto simp: room_inv_def)
  moreover have "micros (room_step jwt r e) (room_run jwt (room_step jwt r e) es)"
    using Cons.prems by (intro Cons.IH room_inv_step)
  ultimately show ?case
    unfolding room_run_def by simp
qed

section \<open>Properties\<close>

text \<open>
  C11. No client is ever announced its own media: in every reachable state, every
  \<open>ConsumerCreatedNotification\<close> that was sent went to a client whose id differs from the id
  of the client it names as the producing one.
\<close>

theorem no_self_consumption:
  assumes "OSend ref (Ntf (ConsumerCreatedNotification k p kind rtp rc))
             \<in> set (r_trace (room_run jwt (room_new i key caps ip a) es))"
  shows "\<exists>c. r_objs (room_run jwt (room_new i key caps ip a) es) ref = Some c \<and>
           c_clientId c \<noteq> rc_clientId rc"
  using assms room_run_new_inv unfolding room_inv_def announced_wf_def by blast

text \<open>
  C14. A closed client is final: from any reachable state in which the wrapper of a connection is
  closed, no event sequence sends anything to it or accepts a message from it, and it stays
  closed, although handlers of that client may still be suspended and are resumed later.
\<close>

theorem closed_client_is_silent:
  assumes "is_closed (room_run jwt (room_new i key caps ip a) es) ref"
  shows "is_closed (room_run jwt (room_new i key caps ip a) (es @ fs)) ref \<and>
    (\<exists>os. r_trace (room_run jwt (room_new i key caps ip a) (es @ fs)) =
       r_trace (room_run jwt (room_new i key caps ip a) es) @ os \<and> silent ref os)"
proof -
  let ?r = "room_run jwt (room_new i key caps ip a) es"
  have "micros ?r (room_run jwt ?r fs)" and "room_wf ?r"
    using room_run_micros room_run_new_inv by (auto simp: room_inv_def)
  moreover have "room_run jwt (room_new i key caps ip a) (es @ fs) = room_run jwt ?r fs"
    by (simp add: room_run_def)
  ultimately show ?thesis
    using micros_silent[OF _ _ assms] by simp
qed

text \<open>
  \<open>onClosed\<close>, which takes the room out of the SFU's table, runs at most once in any run, and
  only for a room whose router is closed.
\<close>

theorem on_closed_at_most_once:
  "tally (\<lambda>x. x = OOnClosed) (r_trace (room_run jwt (room_new i key caps ip a) es)) \<le>
   of_bool (r_closed (room_run jwt (room_new i key caps ip a) es))"
proof (cases "OOnClosed \<in> set (r_trace (room_run jwt (room_new i key caps ip a) es))")
  case True
  then show ?thesis
    using room_run_new_inv[of jwt i key caps ip a es] unfolding room_inv_def close_wf_def by simp
next
  case False
  then have "tally (\<lambda>x. x = OOnClosed) (r_trace (room_run jwt (room_new i key caps ip a) es)) = 0"
    by (intro tally_zero) auto
  then show ?thesis by simp
qed

end
