(* ===== verification/RoomMesh.thy ===== *)
theory RoomMesh
  imports RoomSafety
begin

text \<open>
  The purpose of the room: every client that joined the call gets the media of every other
  client. The two loops that bring this about (a joining client consumes the others, a new
  producer is offered to the others) are suspended at every \<open>await\<close> and overlap in any order.
  The proof keeps track of who still has to deliver what: for every joined client and every
  producer of another client either the announcement was sent, or a suspended loop still
  has the pair in front of its iterators.
\<close>

section \<open>Deliveries and who is responsible for them\<close>

definition ready :: "client \<Rightarrow> bool" where
  "ready c \<longleftrightarrow> js_truthy (c_rtpCapabilities c) \<and> c_rcvTransport c \<noteq> None"

definition joined :: "room \<Rightarrow> nat \<Rightarrow> bool" where
  "joined r j \<longleftrightarrow> (\<exists>i. ORecv j (Req (JoinCallRequest i)) \<in> set (r_trace r))"

definition told :: "room \<Rightarrow> nat \<Rightarrow> string \<Rightarrow> bool" where
  "told r j q \<longleftrightarrow> (\<exists>k kind rtp rc.
     OSend j (Ntf (ConsumerCreatedNotification k q kind rtp rc)) \<in> set (r_trace r))"

definition seat :: "room \<Rightarrow> nat \<Rightarrow> nat \<Rightarrow> bool" where
  "seat r ref s \<longleftrightarrow> (\<exists>k. (s, k, ref) \<in> set (m_entries (r_clients r)))"

fun outer_covers :: "room \<Rightarrow> outer \<Rightarrow> nat \<Rightarrow> nat \<Rightarrow> bool" where
  "outer_covers r (JoinLoop ref _ pos) i j = (ref = j \<and> (\<exists>s. seat r i s \<and> pos \<le> s))"
| "outer_covers r (ProduceLoop ref pos) i j = (ref = i \<and> (\<exists>s. seat r j s \<and> pos \<le> s))"

text \<open>The producer of \<open>i\<close> with the stamp \<open>s\<close> and the id \<open>q\<close> is still to be delivered to \<open>j\<close>.\<close>

fun task_covers :: "room \<Rightarrow> task \<Rightarrow> nat \<Rightarrow> nat \<Rightarrow> nat \<Rightarrow> string \<Rightarrow> bool" where
  "task_covers r (TConsume k pref cref _ pos p) i j s q =
     (pref = i \<and> cref = j \<and> (p_id p = q \<or> pos \<le> s) \<or> outer_covers r k i j)"
| "task_covers r (TConsumed k) i j s q = outer_covers r k i j"
| "task_covers r _ i j s q = False"

definition settled :: "room \<Rightarrow> nat \<Rightarrow> nat \<Rightarrow> nat \<Rightarrow> string \<Rightarrow> bool" where
  "settled r i j s q \<longleftrightarrow> told r j q \<or> ORejected \<in> set (r_trace r) \<or>
     (\<exists>x \<in> set (r_tasks r). task_covers r (snd x) i j s q)"

definition obliged :: "room \<Rightarrow> nat \<Rightarrow> nat \<Rightarrow> nat \<Rightarrow> string \<Rightarrow> bool" where
  "obliged r i j s q \<longleftrightarrow> registered r i \<and> registered r j \<and> i \<noteq> j \<and> joined r j \<and>
     (\<exists>c p. r_objs r i = Some c \<and> (s, q, p) \<in> set (m_entries (c_producers c)))"

definition mesh_inv :: "room \<Rightarrow> bool" where
  "mesh_inv r \<longleftrightarrow> (\<forall>i j s q. obliged r i j s q \<longrightarrow> settled r i j s q)"

text \<open>What the state keeps besides: the flags, the announcements and the task numbers.\<close>

definition flags_wf :: "room \<Rightarrow> bool" where
  "flags_wf r \<longleftrightarrow> (\<forall>ref c. registered r ref \<longrightarrow> r_objs r ref = Some c \<longrightarrow> \<not> c_closed c \<and> c_onclose c)"

definition told_wf :: "room \<Rightarrow> bool" where
  "told_wf r \<longleftrightarrow> (\<forall>j c k co. r_objs r j = Some c \<longrightarrow> \<not> c_closed c \<longrightarrow>
     map_get (c_consumers c) k = Some co \<longrightarrow> told r j (co_producerId co))"

definition joined_wf :: "room \<Rightarrow> bool" where
  "joined_wf r \<longleftrightarrow> (\<forall>j. joined r j \<longrightarrow> (\<exists>c. r_objs r j = Some c \<and> ready c))"

definition tasks_wf :: "room \<Rightarrow> bool" where
  "tasks_wf r \<longleftrightarrow> distinct (map fst (r_tasks r)) \<and> (\<forall>x \<in> set (r_tasks r). fst x < r_ntask r)"

section \<open>Changes that create no new duty\<close>

definition client_le :: "client \<Rightarrow> client \<Rightarrow> bool" where
  "client_le c c' \<longleftrightarrow> c_clientId c' = c_clientId c \<and> (c_closed c \<longrightarrow> c_closed c') \<and>
     (\<forall>s q p'. (s, q, p') \<in> set (m_entries (c_producers c')) \<longrightarrow>
        (\<exists>p. (s, q, p) \<in> set (m_entries (c_producers c)))) \<and>
     (\<forall>k co. map_get (c_consumers c') k = Some co \<longrightarrow> map_get (c_consumers c) k = Some co) \<and>
     (ready c \<longrightarrow> ready c')"

lemma client_le_refl [simp]: "client_le c c"
  by (auto simp: client_le_def)

lemma client_le_trans: "client_le c c' \<Longrightarrow> client_le c' c'' \<Longrightarrow> client_le c c''"
  unfolding client_le_def by (metis (no_types))

definition tame :: "room \<Rightarrow> room \<Rightarrow> bool" where
  "tame r r' \<longleftrightarrow> set (r_tasks r) \<subseteq> set (r_tasks r') \<and>
     (\<exists>os. r_trace r' = r_trace r @ os) \<and>
     (\<forall>ref c'. r_objs r' ref = Some c' \<longrightarrow> (\<exists>c. r_objs r ref = Some c \<and> client_le c c')) \<and>
     (\<forall>ref c. r_objs r ref = Some c \<longrightarrow> (\<exists>c'. r_objs r' ref = Some c')) \<and>
     (\<forall>k v. map_get (r_clients r') k = Some v \<longrightarrow> map_get (r_clients r) k = Some v) \<and>
     (\<forall>e \<in> set (m_entries (r_clients r)). map_get (r_clients r') (fst (snd e)) \<noteq> None \<longrightarrow>
        e \<in> set (m_entries (r_clients r')))"

lemma tame_refl [simp]: "tame r r"
  by (auto simp: tame_def)

lemma tameD:
  assumes "tame r r'"
  shows "x \<in> set (r_tasks r) \<Longrightarrow> x \<in> set (r_tasks r')"
    and "\<exists>os. r_trace r' = r_trace r @ os"
    and "r_objs r' ref = Some c' \<Longrightarrow> \<exists>c. r_objs r ref = Some c \<and> client_le c c'"
    and "r_objs r ref = Some c \<Longrightarrow> \<exists>c'. r_objs r' ref = Some c'"
    and "map_get (r_clients r') k = Some v \<Longrightarrow> map_get (r_clients r) k = Some v"
    and "e \<in> set (m_entries (r_clients r)) \<Longrightarrow>
      map_get (r_clients r') (fst (snd e)) = Some v \<Longrightarrow> e \<in> set (m_entries (r_clients r'))"
  using assms unfolding tame_def by auto

lemma tame_trans:
  assumes "tame r r'" "tame r' r''"
  shows "tame r r''"
  unfolding tame_def
proof (intro conjI allI impI ballI subsetI)
  fix x
  assume "x \<in> set (r_tasks r)"
  then show "x \<in> set (r_tasks r'')"
    using tameD(1)[OF assms(1)] tameD(1)[OF assms(2)] by blast
next
  show "\<exists>os. r_trace r'' = r_trace r @ os"
    using tameD(2)[OF assms(1)] tameD(2)[OF assms(2)] by auto
next
  fix ref c''
  assume "r_objs r'' ref = Some c''"
  then obtain c' where "r_objs r' ref = Some c'" "client_le c' c''"
    using tameD(3)[OF assms(2)] by blast
  moreover then obtain c where "r_objs r ref = Some c" "client_le c c'"
    using tameD(3)[OF assms(1)] by blast
  ultimately show "\<exists>c. r_objs r ref = Some c \<and> client_le c c''"
    using client_le_trans by blast
next
  fix ref c
  assume "r_objs r ref = Some c"
  then show "\<exists>c'. r_objs r'' ref = Some c'"
    using tameD(4)[OF assms(1)] tameD(4)[OF assms(2)] by blast
next
  fix k v
  assume "map_get (r_clients r'') k = Some v"
  then show "map_get (r_clients r) k = Some v"
    using tameD(5)[OF assms(1)] tameD(5)[OF assms(2)] by blast
next
  fix e
  assume e: "e \<in> set (m_entries (r_clients r))" "map_get (r_clients r'') (fst (snd e)) \<noteq> None"
  then obtain v where v: "map_get (r_clients r'') (fst (snd e)) = Some v"
    by blast
  then have "map_get (r_clients r') (fst (snd e)) = Some v"
    by (rule tameD(5)[OF assms(2)])
  then show "e \<in> set (m_entries (r_clients r''))"
    using v tameD(6)[OF assms(1) e(1)] tameD(6)[OF assms(2)] by blast
qed

lemma tame_same:
  assumes "set (r_tasks r) \<subseteq> set (r_tasks r')" "\<exists>os. r_trace r' = r_trace r @ os"
    "r_objs r' = r_objs r" "r_clients r' = r_clients r"
  shows "tame r r'"
  using assms unfolding tame_def by auto

lemma tame_log [simp]: "tame r (r_log r x)"
  by (rule tame_same) auto

lemma tame_send [simp]: "tame r (r_send r ref m)"
  by (simp add: r_send_open)

lemma tame_task [simp]: "tame r (r_add_task r t)"
  by (rule tame_same) auto

lemma tame_log_task [simp]: "tame r (r_add_task (r_log r x) t)"
  by (rule tame_same) auto

lemma tame_closed [simp]: "tame r (r\<lparr>r_closed := b\<rparr>)"
  by (rule tame_same) auto

lemma tame_upd:
  assumes "\<And>c. r_objs r ref = Some c \<Longrightarrow> client_le c (f c)"
  shows "tame r (r_upd r ref f)"
  using assms by (auto simp: tame_def)

lemma tame_unregister:
  "tame r (r\<lparr>r_clients := map_delete (r_clients r) cid\<rparr>)"
  unfolding tame_def by (auto simp: map_get_delete map_delete_entries split: if_splits)

lemma client_le_simps [simp]:
  "client_le c (c\<lparr>c_sndTransport := t\<rparr>)"
  "client_le c (c\<lparr>c_rcvTransport := Some u\<rparr>)"
  "client_le c (c\<lparr>c_closed := True, c_onclose := b\<rparr>)"
  "client_le c (c\<lparr>c_onclose := b\<rparr>)"
  "client_le c (c\<lparr>c_producers := map_delete (c_producers c) q\<rparr>)"
  "client_le c (c\<lparr>c_consumers := map_delete (c_consumers c) q\<rparr>)"
  "js_truthy (Some v) \<Longrightarrow> client_le c (c\<lparr>c_rtpCapabilities := Some v\<rparr>)"
  by (auto simp: client_le_def ready_def map_get_delete map_delete_entries split: if_splits)

lemma tame_consume_run [simp]: "tame r (consume_run r k pref cref pid pos)"
  by (auto simp: consume_run_def split: option.splits)

lemma tame_consume_client [simp]: "tame r (consume_client r k pid cid)"
  by (auto simp: consume_client_def split: option.splits)

lemma tame_join_loop [simp]: "tame r (join_loop jwt now r ref cid i pos)"
  by (auto simp: join_loop_def split: option.splits)

lemma tame_produce_loop [simp]: "tame r (produce_loop r ref cid pos)"
  by (auto simp: produce_loop_def split: option.splits)

lemma tame_resume_outer [simp]: "tame r (resume_outer jwt now r k)"
  by (cases k) (auto split: option.splits)

lemma tame_transport_created [simp]: "tame r (transport_created r ref i role t)"
  by (auto simp: transport_created_def simp del: r_upd_simps intro!: tame_trans[OF tame_upd tame_send])

lemma tame_run_callback [simp]: "tame r (run_callback r cb)"
  by (cases cb)
    (auto split: option.splits simp del: r_upd_simps intro: tame_upd tame_trans[OF tame_upd tame_send])

lemma tame_run_callbacks [simp]: "tame r (foldl run_callback r cbs)"
  by (induction cbs arbitrary: r) (auto intro: tame_trans[OF tame_run_callback])

lemma tame_room_close [simp]: "tame r (room_close r cbs)"
proof -
  have "tame r (r_log (r\<lparr>r_closed := True\<rparr>) OCloseRouter)"
    by (rule tame_trans[OF tame_closed tame_log])
  then have "tame r (foldl run_callback (r_log (r\<lparr>r_closed := True\<rparr>) OCloseRouter) cbs)"
    using tame_run_callbacks by (rule tame_trans)
  then have "tame r (r_log (foldl run_callback (r_log (r\<lparr>r_closed := True\<rparr>) OCloseRouter) cbs) OOnClosed)"
    using tame_log by (rule tame_trans)
  then show ?thesis
    by (simp add: room_close_def)
qed

lemma tame_close_transport [simp]: "tame r (close_transport r t cbs)"
  unfolding close_transport_def
  by (auto split: option.splits intro: tame_trans[OF tame_log tame_run_callbacks])

lemma tame_on_close: "tame r (on_close r ref c snds rcvs routers)"
proof -
  let ?r2 = "close_transport (close_transport r (c_sndTransport c) snds) (c_rcvTransport c) rcvs"
  let ?r3 = "?r2\<lparr>r_clients := map_delete (r_clients ?r2) (c_clientId c)\<rparr>"
  have "tame r ?r2"
    by (rule tame_trans[OF tame_close_transport tame_close_transport])
  then have "tame r ?r3"
    using tame_unregister by (rule tame_trans)
  moreover have "tame r (room_close ?r3 routers)"
    using calculation tame_room_close by (rule tame_trans)
  ultimately show ?thesis
    unfolding on_close_def Let_def by simp
qed

text \<open>Such a change keeps what is settled and adds no obligation but that of a new join.\<close>

lemma tame_registered:
  assumes "tame r r'" "registered r' i"
  shows "registered r i"
  using assms unfolding tame_def registered_def client_le_def by metis

lemma tame_told: "tame r r' \<Longrightarrow> told r j q \<Longrightarrow> told r' j q"
  unfolding tame_def told_def by (metis Un_iff set_append)

lemma tame_seat:
  assumes t: "tame r r'" and wf: "room_wf r" and i: "registered r' i" and s: "seat r i s"
  shows "seat r' i s"
proof -
  obtain k where e: "(s, k, i) \<in> set (m_entries (r_clients r))"
    using s by (auto simp: seat_def)
  have "map_get (r_clients r) k = Some i"
    using e by (rule entry_map_get[OF room_wfD(1)[OF wf]])
  then obtain c where c: "r_objs r i = Some c" "c_clientId c = k"
    using room_wfD(2)[OF wf] by blast
  obtain c' where c': "r_objs r' i = Some c'" "map_get (r_clients r') (c_clientId c') = Some i"
    using i by (auto simp: registered_def)
  then have "c_clientId c' = k"
    using t c unfolding tame_def client_le_def by (metis option.inject)
  with c' have "map_get (r_clients r') (fst (snd (s, k, i))) \<noteq> None"
    by simp
  then have "(s, k, i) \<in> set (m_entries (r_clients r'))"
    using t e unfolding tame_def by blast
  then show ?thesis
    by (auto simp: seat_def)
qed

lemma tame_outer_covers:
  assumes "tame r r'" "room_wf r" "registered r' i" "registered r' j" "outer_covers r k i j"
  shows "outer_covers r' k i j"
  using assms by (cases k) (auto dest: tame_seat[OF assms(1,2)])

lemma tame_task_covers:
  assumes "tame r r'" "room_wf r" "registered r' i" "registered r' j" "task_covers r t i j s q"
  shows "task_covers r' t i j s q"
  using assms tame_outer_covers by (cases t) auto

lemma tame_settled:
  assumes "tame r r'" "room_wf r" "registered r' i" "registered r' j" "settled r i j s q"
  shows "settled r' i j s q"
proof -
  consider "told r j q" | "ORejected \<in> set (r_trace r)"
    | x where "x \<in> set (r_tasks r)" "task_covers r (snd x) i j s q"
    using assms(5) unfolding settled_def by blast
  then show ?thesis
  proof cases
    case 1
    then show ?thesis using tame_told[OF assms(1)] by (simp add: settled_def)
  next
    case 2
    then show ?thesis using assms(1) by (auto simp: settled_def tame_def)
  next
    case 3
    then have "x \<in> set (r_tasks r')"
      using assms(1) by (auto simp: tame_def)
    with 3 show ?thesis
      using tame_task_covers[OF assms(1-4)] by (auto simp: settled_def)
  qed
qed

lemma tame_obliged:
  assumes t: "tame r r'" and o: "obliged r' i j s q" and j: "joined r' j \<Longrightarrow> joined r j"
  shows "obliged r i j s q"
proof -
  obtain c' p' where "r_objs r' i = Some c'" "(s, q, p') \<in> set (m_entries (c_producers c'))"
    using o by (auto simp: obliged_def)
  then obtain c p where "r_objs r i = Some c" "(s, q, p) \<in> set (m_entries (c_producers c))"
    using t unfolding tame_def client_le_def by metis
  with o j tame_registered[OF t] show ?thesis
    by (auto simp: obliged_def)
qed

lemma tame_mesh:
  assumes "tame r r'" "room_wf r" "mesh_inv r" "\<And>j. joined r' j \<Longrightarrow> joined r j"
  shows "mesh_inv r'"
  unfolding mesh_inv_def
proof (intro allI impI)
  fix i j s q
  assume o: "obliged r' i j s q"
  then have "settled r i j s q"
    using assms(3) tame_obliged[OF assms(1) o assms(4)] by (simp add: mesh_inv_def)
  with o show "settled r' i j s q"
    using tame_settled[OF assms(1,2)] by (auto simp: obliged_def)
qed

lemma tame_told_wf: "tame r r' \<Longrightarrow> told_wf r \<Longrightarrow> told_wf r'"
  unfolding told_wf_def
proof (intro allI impI)
  fix j c' k co
  assume t: "tame r r'" and wf: "\<forall>j c k co. r_objs r j = Some c \<longrightarrow> \<not> c_closed c \<longrightarrow>
      map_get (c_consumers c) k = Some co \<longrightarrow> told r j (co_producerId co)"
    and c': "r_objs r' j = Some c'" "\<not> c_closed c'" "map_get (c_consumers c') k = Some co"
  then obtain c where "r_objs r j = Some c" "client_le c c'"
    unfolding tame_def by blast
  with wf c' have "told r j (co_producerId co)"
    unfolding client_le_def by blast
  with t show "told r' j (co_producerId co)"
    by (rule tame_told)
qed

lemma tame_joined_wf:
  assumes "tame r r'" "joined_wf r" "\<And>j. joined r' j \<Longrightarrow> joined r j"
  shows "joined_wf r'"
  using assms unfolding joined_wf_def tame_def client_le_def by (metis option.inject)

end
