(* ===== verification/RoomDelivery.thy ===== *)
theory RoomDelivery
  imports RoomMesh
begin

text \<open>
  The delivery theorem of the room: each loop settles the pairs in front of its iterator,
  each step keeps every obligation settled, and so in a reachable room without suspended
  handlers every joined client was told of every producer of every other client.
\<close>

section \<open>The loops settle what is in front of them\<close>

lemma outer_covers_cong: "r_clients r' = r_clients r \<Longrightarrow> outer_covers r' k i j = outer_covers r k i j"
  by (cases k) (simp_all add: seat_def)

lemma task_covers_cong: "r_clients r' = r_clients r \<Longrightarrow> task_covers r' t i j s q = task_covers r t i j s q"
  by (cases t) (simp_all add: outer_covers_cong[of r' r])

lemma settled_cong:
  "r_clients r' = r_clients r \<Longrightarrow> r_tasks r' = r_tasks r \<Longrightarrow> r_trace r' = r_trace r \<Longrightarrow>
   settled r' i j s q = settled r i j s q"
  by (simp add: settled_def told_def task_covers_cong[of r' r])

lemma settled_task: "task_covers r t i j s q \<Longrightarrow> settled (r_add_task r t) i j s q"
  using task_covers_cong[of "r_add_task r t" r] by (auto simp: settled_def)

lemma settled_log_task: "task_covers r t i j s q \<Longrightarrow> settled (r_add_task (r_log r x) t) i j s q"
  by (rule settled_task) (simp add: task_covers_cong[of "r_log r x" r])

lemma told_settled: "told r j q \<Longrightarrow> settled r i j s q"
  by (simp add: settled_def)

lemma told_log: "told r j q \<Longrightarrow> told (r_log r x) j q"
  by (rule tame_told[OF tame_log])

lemma is_consumed_told:
  assumes wf: "room_wf r" and tw: "told_wf r" and c: "r_objs r j = Some c" "\<not> c_closed c"
    and "is_consumed c q"
  shows "told r j q"
proof -
  obtain e where e: "e \<in> set (m_entries (c_consumers c))" "co_producerId (snd (snd e)) = q"
    using assms(5) by (auto simp: is_consumed_def map_values_def list_ex_iff)
  have "map_wf (c_consumers c)"
    using room_wfD(4)[OF wf c(1)] by (simp add: client_wf_def)
  then have "map_get (c_consumers c) (fst (snd e)) = Some (snd (snd e))"
    using e(1) entry_map_get[of "c_consumers c" "fst e"] by simp
  with tw c e(2) show ?thesis
    unfolding told_wf_def by blast
qed

lemma consume_scan_None:
  "consume_scan c es = None \<Longrightarrow> ready c \<Longrightarrow> e \<in> set es \<Longrightarrow> is_consumed c (p_id (snd (snd e)))"
  by (induction c es rule: consume_scan.induct) (auto simp: ready_def split: if_splits option.splits)

lemma consume_scan_Some:
  "consume_scan c es = Some (pos, p, caps, t) \<Longrightarrow> sorted_wrt (<) (map fst es) \<Longrightarrow> ready c \<Longrightarrow>
   e \<in> set es \<Longrightarrow> is_consumed c (p_id (snd (snd e))) \<or> snd (snd e) = p \<or> pos \<le> fst e"
proof (induction c es rule: consume_scan.induct)
  case (2 c i k p' es)
  then show ?case
    by (auto simp: ready_def Suc_le_eq split: if_splits option.splits)
qed simp

lemma next_other_None: "next_other cid es = None \<Longrightarrow> e \<in> set es \<Longrightarrow> fst (snd e) = cid"
  by (induction cid es rule: next_other.induct) (auto split: if_splits)

lemma next_other_Some:
  "next_other cid es = Some (pos, k) \<Longrightarrow> sorted_wrt (<) (map fst es) \<Longrightarrow> e \<in> set es \<Longrightarrow>
   fst (snd e) = cid \<or> fst (snd e) = k \<or> pos \<le> fst e"
  by (induction cid es rule: next_other.induct) (auto simp: Suc_le_eq split: if_splits)

lemma map_from_sorted: "map_wf m \<Longrightarrow> sorted_wrt (<) (map fst (map_from m i))"
  by (simp add: map_wf_def map_from_def sorted_wrt_filter_map)

lemma settle_consume_run:
  assumes wf: "room_wf r" and tw: "told_wf r"
    and ci: "r_objs r i = Some ci" and cj: "r_objs r j = Some cj" "\<not> c_closed cj" "ready cj"
    and e: "(s, q, pr) \<in> set (m_entries (c_producers ci))" and pos: "pos \<le> s"
  shows "settled (consume_run r k i j pid pos) i j s q"
proof -
  have cw: "client_wf ci"
    by (rule room_wfD(4)[OF wf ci])
  then have pw: "map_wf (c_producers ci)" and q: "p_id pr = q"
    using entry_map_get[OF _ e] by (auto simp: client_wf_def)
  have e': "(s, q, pr) \<in> set (map_from (c_producers ci) pos)"
    using e pos by (simp add: map_from_def)
  show ?thesis
  proof (cases "consume_scan cj (map_from (c_producers ci) pos)")
    case None
    then have "is_consumed cj q"
      using consume_scan_None[OF None cj(3) e'] q by simp
    then have "told r j q"
      by (rule is_consumed_told[OF wf tw cj(1,2)])
    then show ?thesis
      using tame_told[OF tame_consume_run] told_settled by blast
  next
    case (Some x)
    obtain pos' p caps t where x: "x = (pos', p, caps, t)"
      by (cases x)
    have run: "consume_run r k i j pid pos =
        r_add_task (r_log r (OConsume (r_ntask r) (ti_id t) (p_id p) caps)) (TConsume k i j pid pos' p)"
      using ci cj Some x by (simp add: consume_run_def)
    consider "is_consumed cj q" | "pr = p" | "pos' \<le> s"
      using consume_scan_Some[OF Some[unfolded x] map_from_sorted[OF pw] cj(3) e'] q by auto
    then show ?thesis
    proof cases
      case 1
      then have "told r j q"
        by (rule is_consumed_told[OF wf tw cj(1,2)])
      then show ?thesis
        using tame_told[OF tame_consume_run] told_settled by blast
    next
      case 2
      then show ?thesis
        unfolding run using q by (intro settled_log_task) simp
    next
      case 3
      then show ?thesis
        unfolding run by (intro settled_log_task) simp
    qed
  qed
qed

lemma settle_run_outer:
  "outer_covers r k i j \<Longrightarrow> settled (consume_run r k a b pid pos) i j s q"
  by (auto simp: consume_run_def intro: settled_task settled_log_task split: option.splits)

lemma settle_client_outer:
  "outer_covers r k i j \<Longrightarrow> settled (consume_client r k pid cid) i j s q"
  by (auto simp: consume_client_def intro: settled_task settle_run_outer split: option.splits)

lemma registered_entry:
  assumes "room_wf r" "registered r i" "r_objs r i = Some c" "(s, k, i) \<in> set (m_entries (r_clients r))"
  shows "k = c_clientId c"
  using entry_map_get[OF room_wfD(1)[OF assms(1)] assms(4)] room_wfD(2)[OF assms(1)] assms(3) by fastforce

lemma registered_ids:
  assumes "registered r i" "registered r j" "i \<noteq> j" "r_objs r i = Some ci" "r_objs r j = Some cj"
  shows "c_clientId ci \<noteq> c_clientId cj"
  using assms by (auto simp: registered_def)

lemma registered_seat: "registered r i \<Longrightarrow> \<exists>s. seat r i s"
  unfolding registered_def seat_def using map_get_entry by fast

lemma registered_get: "registered r i \<Longrightarrow> r_objs r i = Some c \<Longrightarrow> map_get (r_clients r) (c_clientId c) = Some i"
  by (auto simp: registered_def)

lemma settle_join_loop:
  assumes wf: "room_wf r" and tw: "told_wf r"
    and ri: "registered r i" "r_objs r i = Some ci"
    and rj: "registered r j" "r_objs r j = Some cj" "\<not> c_closed cj" "ready cj"
    and ne: "i \<noteq> j" and st: "seat r i s'" "pos \<le> s'"
    and e: "(s, q, pr) \<in> set (m_entries (c_producers ci))"
  shows "settled (join_loop jwt now r j (c_clientId cj) n pos) i j s q"
proof -
  obtain k where k: "(s', k, i) \<in> set (m_entries (r_clients r))"
    using st(1) by (auto simp: seat_def)
  then have kid: "k = c_clientId ci"
    by (rule registered_entry[OF wf ri])
  have me: "(s', k, i) \<in> set (map_from (r_clients r) pos)"
    using k st(2) by (simp add: map_from_def)
  have idne: "k \<noteq> c_clientId cj"
    using registered_ids[OF ri(1) rj(1) ne ri(2) rj(2)] kid by simp
  show ?thesis
  proof (cases "next_other (c_clientId cj) (map_from (r_clients r) pos)")
    case None
    then show ?thesis
      using next_other_None[OF None me] idne by simp
  next
    case (Some x)
    obtain pos' k' where x: "x = (pos', k')"
      by (cases x)
    have loop: "join_loop jwt now r j (c_clientId cj) n pos =
        consume_client r (JoinLoop j n pos') k' (c_clientId cj)"
      using Some x by (simp add: join_loop_def)
    consider "k = k'" | "pos' \<le> s'"
      using next_other_Some[OF Some[unfolded x] map_from_sorted[OF room_wfD(1)[OF wf]] me] idne by auto
    then show ?thesis
    proof cases
      case 1
      then have "consume_client r (JoinLoop j n pos') k' (c_clientId cj) =
          consume_run r (JoinLoop j n pos') i j k' 0"
        using registered_get[OF ri] registered_get[OF rj(1,2)] kid by (simp add: consume_client_def)
      then show ?thesis
        unfolding loop using settle_consume_run[OF wf tw ri(2) rj(2-4) e, of 0] by simp
    next
      case 2
      then show ?thesis
        unfolding loop using st(1) by (intro settle_client_outer) auto
    qed
  qed
qed

lemma settle_produce_loop:
  assumes wf: "room_wf r" and tw: "told_wf r"
    and ri: "registered r i" "r_objs r i = Some ci"
    and rj: "registered r j" "r_objs r j = Some cj" "\<not> c_closed cj" "ready cj"
    and ne: "i \<noteq> j" and st: "seat r j s'" "pos \<le> s'"
    and e: "(s, q, pr) \<in> set (m_entries (c_producers ci))"
  shows "settled (produce_loop r i (c_clientId ci) pos) i j s q"
proof -
  obtain k where k: "(s', k, j) \<in> set (m_entries (r_clients r))"
    using st(1) by (auto simp: seat_def)
  then have kid: "k = c_clientId cj"
    by (rule registered_entry[OF wf rj(1,2)])
  have me: "(s', k, j) \<in> set (map_from (r_clients r) pos)"
    using k st(2) by (simp add: map_from_def)
  have idne: "k \<noteq> c_clientId ci"
    using registered_ids[OF ri(1) rj(1) ne ri(2) rj(2)] kid by simp
  show ?thesis
  proof (cases "next_other (c_clientId ci) (map_from (r_clients r) pos)")
    case None
    then show ?thesis
      using next_other_None[OF None me] idne by simp
  next
    case (Some x)
    obtain pos' k' where x: "x = (pos', k')"
      by (cases x)
    have loop: "produce_loop r i (c_clientId ci) pos =
        consume_client r (ProduceLoop i pos') (c_clientId ci) k'"
      using Some x by (simp add: produce_loop_def)
    consider "k = k'" | "pos' \<le> s'"
      using next_other_Some[OF Some[unfolded x] map_from_sorted[OF room_wfD(1)[OF wf]] me] idne by auto
    then show ?thesis
    proof cases
      case 1
      then have "consume_client r (ProduceLoop i pos') (c_clientId ci) k' =
          consume_run r (ProduceLoop i pos') i j (c_clientId ci) 0"
        using registered_get[OF ri] registered_get[OF rj(1,2)] kid by (simp add: consume_client_def)
      then show ?thesis
        unfolding loop using settle_consume_run[OF wf tw ri(2) rj(2-4) e, of 0] by simp
    next
      case 2
      then show ?thesis
        unfolding loop using st(1) by (intro settle_client_outer) auto
    qed
  qed
qed

section \<open>What the moves keep\<close>

lemma calm_objs:
  assumes "calm r r'" "r_objs r ref = Some c"
  shows "\<exists>c'. r_objs r' ref = Some c' \<and> c_clientId c' = c_clientId c \<and>
           c_closed c' = c_closed c \<and> c_onclose c' = c_onclose c"
  using assms by (cases rule: calm.cases) (auto simp: announce_def)

lemma calm_objs_None: "calm r r' \<Longrightarrow> r_objs r ref = None \<Longrightarrow> r_objs r' ref = None"
  by (cases rule: calm.cases) (auto simp: announce_def)

lemma calm_registered:
  assumes "calm r r'"
  shows "registered r' ref = registered r ref"
proof (cases "r_objs r ref")
  case None
  then show ?thesis
    using calm_objs_None[OF assms] by (simp add: registered_def)
next
  case (Some c)
  then show ?thesis
    using calm_objs[OF assms Some] calm_frame(1)[OF assms] by (auto simp: registered_def)
qed

lemma calm_flags: "calm r r' \<Longrightarrow> flags_wf r \<Longrightarrow> flags_wf r'"
  unfolding flags_wf_def
proof (intro allI impI)
  fix ref c'
  assume c: "calm r r'" and f: "\<forall>ref c. registered r ref \<longrightarrow> r_objs r ref = Some c \<longrightarrow> \<not> c_closed c \<and> c_onclose c"
    and ref: "registered r' ref" "r_objs r' ref = Some c'"
  then have r: "registered r ref"
    using calm_registered by simp
  then obtain c0 where "r_objs r ref = Some c0"
    by (auto simp: registered_def)
  with calm_objs[OF c this] f r ref(2) show "\<not> c_closed c' \<and> c_onclose c'"
    by fastforce
qed

lemma calms_flags: "calms r r' \<Longrightarrow> flags_wf r \<Longrightarrow> flags_wf r'"
  by (induction rule: rtranclp_induct) (auto intro: calm_flags)

lemma calms_joined: "calms r r' \<Longrightarrow> joined r' j = joined r j"
  by (induction rule: rtranclp_induct) (auto simp: joined_def calm_frame)

lemma calm_tasks: "calm r r' \<Longrightarrow> tasks_wf r \<Longrightarrow> tasks_wf r'"
proof (induction rule: calm.induct)
  case (calm_task r t)
  then show ?case by (auto simp: tasks_wf_def less_Suc_eq)
next
  case (calm_done r k)
  then show ?case by (auto simp: tasks_wf_def intro: distinct_map_filter)
qed (auto simp: tasks_wf_def announce_def)

lemma micro_tasks: "micro r r' \<Longrightarrow> tasks_wf r \<Longrightarrow> tasks_wf r'"
proof (induction rule: micro.induct)
  case (micro_calm r r')
  then show ?case by (rule calm_tasks)
qed (auto simp: tasks_wf_def)

lemma micros_tasks: "micros r r' \<Longrightarrow> tasks_wf r \<Longrightarrow> tasks_wf r'"
  by (induction rule: rtranclp_induct) (auto intro: micro_tasks)

lemma task_covers_done:
  assumes tw: "tasks_wf r" and t: "map_of (r_tasks r) k = Some t" and s: "settled r i j s q"
  shows "settled (r_del_task r k) i j s q \<or> task_covers r t i j s q"
proof -
  consider "told r j q" | "ORejected \<in> set (r_trace r)"
    | x where "x \<in> set (r_tasks r)" "task_covers r (snd x) i j s q"
    using s unfolding settled_def by blast
  then show ?thesis
  proof cases
    case 3
    show ?thesis
    proof (cases "fst x = k")
      case True
      then have "snd x = t"
        using 3(1) t tw by (cases x) (simp add: tasks_wf_def)
      with 3(2) show ?thesis by simp
    next
      case False
      with 3 have "x \<in> set (r_tasks (r_del_task r k))" "task_covers (r_del_task r k) (snd x) i j s q"
        using task_covers_cong[of "r_del_task r k" r] by simp_all
      then show ?thesis
        unfolding settled_def by blast
    qed
  qed (auto simp: settled_def told_def)
qed

section \<open>The environment\<close>

text \<open>
  What a web client does (\<^verbatim>\<open>webapp/src/contexts/MediasoupService.tsx\<close> announces capabilities
  and waits for its transports before it asks to join) and what mediasoup documents (a
  consumer consumes the producer it was created for).
\<close>

definition mesh_ok :: "room \<Rightarrow> event \<Rightarrow> bool" where
  "mesh_ok r e =
     (case e of
        Receive _ ref (Ntf (ClientRtpCapabilitiesNotification caps)) \<Rightarrow> js_truthy (Some caps)
      | Receive _ ref (Req (JoinCallRequest _)) \<Rightarrow>
          (case r_objs r ref of None \<Rightarrow> True | Some c \<Rightarrow> ready c)
      | Resume _ k (AConsumer co) \<Rightarrow>
          (case map_of (r_tasks r) k of
             Some (TConsume _ _ _ _ _ p) \<Rightarrow> co_producerId co = p_id p
           | _ \<Rightarrow> True)
      | _ \<Rightarrow> True)"

definition mesh_state :: "room \<Rightarrow> bool" where
  "mesh_state r \<longleftrightarrow> room_inv r \<and> mesh_inv r \<and> flags_wf r \<and> told_wf r \<and> joined_wf r \<and> tasks_wf r"

lemma mesh_state_tame:
  assumes ms: "mesh_state r" and t: "tame r r'" and m: "micros r r'"
    and j: "\<And>j. joined r' j \<Longrightarrow> joined r j" and f: "flags_wf r'"
  shows "mesh_state r'"
  unfolding mesh_state_def
  using ms t f j tame_mesh tame_joined_wf tame_told_wf micros_inv[OF m] micros_tasks[OF m]
  by (auto simp: mesh_state_def room_inv_def)

text \<open>A tame, calm step needs no argument of its own.\<close>

lemma mesh_state_calm: "mesh_state r \<Longrightarrow> tame r r' \<Longrightarrow> calms r r' \<Longrightarrow> mesh_state r'"
  by (rule mesh_state_tame)
    (auto simp: mesh_state_def calms_joined intro: calms_micros calms_flags)

section \<open>Closing\<close>

definition keeps :: "room \<Rightarrow> room \<Rightarrow> bool" where
  "keeps r r' \<longleftrightarrow> (\<forall>x c. r_objs r x = Some c \<longrightarrow>
     (\<exists>c'. r_objs r' x = Some c' \<and> c_clientId c' = c_clientId c \<and>
        c_closed c' = c_closed c \<and> c_onclose c' = c_onclose c))"

lemma keeps_trans: "keeps r r' \<Longrightarrow> keeps r' r'' \<Longrightarrow> keeps r r''"
  unfolding keeps_def by metis

lemma keeps_same: "r_objs r' = r_objs r \<Longrightarrow> keeps r r'"
  by (simp add: keeps_def)

lemma calms_keeps: "calms r r' \<Longrightarrow> keeps r r'"
proof (induction rule: rtranclp_induct)
  case base
  then show ?case by (simp add: keeps_def)
next
  case (step r' r'')
  then show ?case
    using calm_objs by (intro keeps_trans[of r r' r'']) (simp_all add: keeps_def)
qed

lemma keeps_room_close: "keeps r (room_close r cbs)"
proof -
  have "keeps r (r_log (r\<lparr>r_closed := True\<rparr>) OCloseRouter)"
    by (rule keeps_same) simp
  from keeps_trans[OF this calms_keeps[OF calms_run_callbacks]] show ?thesis
    by (auto simp: room_close_def keeps_def)
qed

lemma keeps_on_close: "keeps r (on_close r ref c snds rcvs routers)"
proof -
  let ?r2 = "close_transport (close_transport r (c_sndTransport c) snds) (c_rcvTransport c) rcvs"
  have "keeps r ?r2"
    by (intro calms_keeps calms_trans[OF calms_close_transport calms_close_transport])
  then have k: "keeps r (?r2\<lparr>r_clients := map_delete (r_clients ?r2) (c_clientId c)\<rparr>)"
    by (simp add: keeps_def)
  then show ?thesis
    unfolding on_close_def Let_def using keeps_trans[OF k keeps_room_close] by simp
qed

lemma joined_frame [simp]:
  "joined (r\<lparr>r_closed := b\<rparr>) j = joined r j" "joined (r\<lparr>r_clients := m\<rparr>) j = joined r j"
  "joined (r_upd r ref f) j = joined r j" "joined (r_log r OCloseRouter) j = joined r j"
  "joined (r_log r OOnClosed) j = joined r j" "joined (room_add r cid uid) j = joined r j"
  by (auto simp: joined_def)

lemma joined_callbacks [simp]: "joined (foldl run_callback r cbs) j = joined r j"
  by (rule calms_joined[OF calms_run_callbacks])

lemma joined_close [simp]:
  "joined (room_close r cbs) j = joined r j"
  "joined (close_transport r t cbs) j = joined r j"
  "joined (on_close r ref c snds rcvs routers) j = joined r j"
  by (simp_all add: room_close_def on_close_def Let_def calms_joined[OF calms_close_transport])

text \<open>
  Both ways into the \<open>close\<close> listener: the flags of the connection change and its id leaves the
  table, so no registered client has a changed flag.
\<close>

lemma mesh_state_leave:
  assumes ms: "mesh_state r" and c: "r_objs r ref = Some c" "c_onclose c"
    and f: "\<And>c. c_clientId (f c) = c_clientId c" "\<And>c. client_le c (f c)"
    and m: "micros r (on_close (r_upd r ref f) ref c snds rcvs routers)" (is "micros r ?r'")
  shows "mesh_state ?r'"
proof (rule mesh_state_tame[OF ms _ m])
  show t: "tame r ?r'"
    using f(2) by (intro tame_trans[OF tame_upd tame_on_close]) simp
  show "joined r j" if "joined ?r' j" for j
    using that by simp
  show "flags_wf ?r'"
    unfolding flags_wf_def
  proof (intro allI impI)
    fix x cx
    assume x: "registered ?r' x" "r_objs ?r' x = Some cx"
    then have rx: "registered r x"
      using tame_registered[OF t] by simp
    then obtain c0 where c0: "r_objs r x = Some c0"
      by (auto simp: registered_def)
    have "x \<noteq> ref"
    proof
      assume "x = ref"
      then have c1: "r_objs (r_upd r ref f) x = Some (f c)"
        using c by simp
      obtain c2 where "r_objs ?r' x = Some c2" "c_clientId c2 = c_clientId (f c)"
        using keeps_on_close[unfolded keeps_def, rule_format, OF c1] by blast
      then have "c_clientId cx = c_clientId c"
        using x(2) f(1) by simp
      then show False
        using x by (simp add: registered_def on_close_clients map_get_delete)
    qed
    then have "r_objs (r_upd r ref f) x = Some c0"
      using c0 by simp
    then show "\<not> c_closed cx \<and> c_onclose cx"
      using keeps_on_close x(2) rx c0 ms unfolding keeps_def mesh_state_def flags_wf_def
      by (metis option.inject)
  qed
qed

lemma mesh_state_close_wf: "mesh_state r \<Longrightarrow> close_wf r"
  by (simp add: mesh_state_def room_inv_def)

lemma mesh_state_socket_closed:
  assumes ms: "mesh_state r"
  shows "mesh_state (socket_closed r ref snds rcvs routers)"
proof (cases "is_open r ref")
  case True
  then obtain c where c: "r_objs r ref = Some c" "\<not> c_closed c"
    by (auto simp: is_open_def split: option.splits)
  let ?f = "\<lambda>c. c\<lparr>c_closed := True, c_onclose := False\<rparr>"
  note m = micros_socket_closed[OF mesh_state_close_wf[OF ms], of ref snds rcvs routers]
  show ?thesis
  proof (cases "c_onclose c")
    case True
    then have "socket_closed r ref snds rcvs routers = on_close (r_upd r ref ?f) ref c snds rcvs routers"
      using c by (simp add: socket_closed_def)
    then show ?thesis
      using m mesh_state_leave[OF ms c(1) True, of ?f] by simp
  next
    case False
    then have eq: "socket_closed r ref snds rcvs routers = r_upd r ref ?f"
      using c by (simp add: socket_closed_def)
    have t: "tame r (r_upd r ref ?f)"
      by (rule tame_upd) simp
    have "\<not> registered r ref"
      using False c ms by (auto simp: mesh_state_def flags_wf_def)
    then have "flags_wf (r_upd r ref ?f)"
      using ms tame_registered[OF t] by (auto simp: flags_wf_def mesh_state_def)
    then show ?thesis
      using mesh_state_tame[OF ms t] m eq by simp
  qed
next
  case False
  then show ?thesis
    using ms by (auto simp: socket_closed_def is_open_def split: option.splits)
qed

lemma mesh_state_close_frame:
  assumes ms: "mesh_state r"
  shows "mesh_state (close_frame r ref snds rcvs routers)"
proof (cases "r_objs r ref")
  case None
  then show ?thesis using ms by (simp add: close_frame_def)
next
  case (Some c)
  note m = micros_close_frame[OF mesh_state_close_wf[OF ms], of ref snds rcvs routers]
  show ?thesis
  proof (cases "c_closed c \<or> \<not> c_onclose c")
    case True
    then show ?thesis using ms Some by (simp add: close_frame_def)
  next
    case False
    then have eq: "close_frame r ref snds rcvs routers =
        on_close (r_upd r ref (\<lambda>c. c\<lparr>c_onclose := False\<rparr>)) ref c snds rcvs routers"
      using Some by (simp add: close_frame_def)
    show ?thesis
      using m False mesh_state_leave[OF ms Some, of "\<lambda>c. c\<lparr>c_onclose := False\<rparr>"]
      unfolding eq by simp
  qed
qed

lemma mesh_state_router_closed:
  assumes ms: "mesh_state r"
  shows "mesh_state (router_closed r cbs)"
proof (cases "r_closed r")
  case True
  then show ?thesis using ms by (simp add: router_closed_def)
next
  case False
  have "flags_wf (r\<lparr>r_closed := True\<rparr>)"
    using ms by (simp add: mesh_state_def flags_wf_def registered_def)
  then have "mesh_state (r\<lparr>r_closed := True\<rparr>)"
    using mesh_state_tame[OF ms tame_closed micros_step[OF micro_close]] by simp
  then have "mesh_state (foldl run_callback (r\<lparr>r_closed := True\<rparr>) cbs)"
    by (rule mesh_state_calm) (simp_all add: calms_run_callbacks)
  then show ?thesis
    using False by (simp add: router_closed_def room_close_def run_callbacks_frame)
qed

section \<open>Adding a client\<close>

lemma settled_mono:
  assumes "settled r i j s q" "set (r_trace r) \<subseteq> set (r_trace r')" "set (r_tasks r) \<subseteq> set (r_tasks r')"
    and "\<And>t. task_covers r t i j s q \<Longrightarrow> task_covers r' t i j s q"
  shows "settled r' i j s q"
  using assms unfolding settled_def told_def by blast

lemma map_set_other_entry:
  "(s, k, v) \<in> set (m_entries m) \<Longrightarrow> k \<noteq> k' \<Longrightarrow> (s, k, v) \<in> set (m_entries (map_set m k' w))"
  by (auto simp: map_set_def image_iff intro!: bexI[of _ "(s, k, v)"])

lemma mesh_state_add:
  assumes ms: "mesh_state r"
  shows "mesh_state (room_add r cid uid)" (is "mesh_state ?r'")
proof -
  let ?n = "r_nobjs r"
  have wf: "room_wf r"
    using ms by (simp add: mesh_state_def room_inv_def)
  have fresh: "r_objs r ?n = None"
    by (rule room_wf_fresh[OF wf])
  have m: "micros r ?r'"
    by (intro micros_step micro_add)
  have told: "told ?r' j q = told r j q" for j q
    by (simp add: told_def)
  have old: "registered r x" "r_objs r x = r_objs ?r' x" if "registered ?r' x" "x \<noteq> ?n" for x
    using that by (auto simp: registered_def map_get_set split: if_splits)
  have nj: "\<not> joined r ?n"
    using ms fresh by (auto simp: mesh_state_def joined_wf_def)
  have seats: "seat ?r' x s" if st: "seat r x s" and x: "registered ?r' x" and n: "x \<noteq> ?n" for x s
  proof -
    obtain k where k: "(s, k, x) \<in> set (m_entries (r_clients r))"
      using st by (auto simp: seat_def)
    obtain c where c: "r_objs ?r' x = Some c" "map_get (r_clients ?r') (c_clientId c) = Some x"
      using x by (auto simp: registered_def)
    then have "k = c_clientId c"
      using registered_entry[OF wf old(1)[OF x n] _ k] old(2)[OF x n] by simp
    then have "k \<noteq> cid"
      using c(2) n by (auto simp: map_get_set)
    then show ?thesis
      using map_set_other_entry[OF k] unfolding seat_def room_add_simps by blast
  qed
  have covers: "task_covers ?r' t i j s q"
    if tc: "task_covers r t i j s q" and i: "registered ?r' i" "i \<noteq> ?n"
      and j: "registered ?r' j" "j \<noteq> ?n" for t i j s q
  proof -
    have "outer_covers ?r' k i j" if "outer_covers r k i j" for k
      using that seats[OF _ i] seats[OF _ j] by (cases k) (simp_all del: room_add_simps, blast+)
    then show ?thesis
      using tc by (cases t) (simp_all del: room_add_simps, blast+)
  qed
  have mesh: "mesh_inv ?r'"
    unfolding mesh_inv_def
  proof (intro allI impI)
    fix i j s q
    assume o: "obliged ?r' i j s q"
    then have j: "j \<noteq> ?n"
      using nj by (auto simp: obliged_def)
    have i: "i \<noteq> ?n"
      using o by (auto simp: obliged_def client_new_def map_new_def)
    have "obliged r i j s q"
      using o old i j by (auto simp: obliged_def)
    then have "settled r i j s q"
      using ms by (simp add: mesh_state_def mesh_inv_def)
    then show "settled ?r' i j s q"
      by (rule settled_mono) (use o i j in \<open>auto simp: obliged_def intro: covers\<close>)
  qed
  have flags: "flags_wf ?r'"
    unfolding flags_wf_def
  proof (intro allI impI)
    fix x c
    assume x: "registered ?r' x" "r_objs ?r' x = Some c"
    show "\<not> c_closed c \<and> c_onclose c"
    proof (cases "x = ?n")
      case True
      then show ?thesis using x by (auto simp: client_new_def)
    next
      case False
      then show ?thesis
        using old[OF x(1)] x(2) ms by (auto simp: mesh_state_def flags_wf_def)
    qed
  qed
  have "told_wf ?r'"
    using ms by (auto simp: mesh_state_def told_wf_def told client_new_def)
  moreover have "joined_wf ?r'"
    using ms nj by (auto simp: mesh_state_def joined_wf_def)
  ultimately show ?thesis
    using mesh flags micros_inv[OF m] micros_tasks[OF m] ms by (simp add: mesh_state_def)
qed

section \<open>Receiving a message\<close>

lemma joined_recv:
  "joined (r_log r (ORecv ref m)) j \<longleftrightarrow> joined r j \<or> ref = j \<and> (\<exists>i. m = Req (JoinCallRequest i))"
  by (auto simp: joined_def)

lemma flags_wf_log [simp]: "flags_wf (r_log r x) = flags_wf r"
  by (simp add: flags_wf_def registered_def)

text \<open>Every handler but that of \<open>join-call-request\<close>.\<close>

lemma tame_room_handle:
  assumes "\<And>caps. m = Ntf (ClientRtpCapabilitiesNotification caps) \<Longrightarrow> js_truthy (Some caps)"
  shows "tame r (room_handle jwt now r ref c m)"
  using assms
  by (cases "(jwt, now, r, ref, c, m)" rule: room_handle.cases)
    (auto simp: handler_defs simp del: r_upd_simps
      split: option.splits intro!: tame_upd)

lemma registered_upd:
  "(\<And>c. c_clientId (f c) = c_clientId c) \<Longrightarrow> registered (r_upd r ref f) x = registered r x"
  by (auto simp: registered_def)

lemma flags_wf_caps:
  assumes "flags_wf r"
  shows "flags_wf (r_upd r ref (\<lambda>c. c\<lparr>c_rtpCapabilities := Some caps\<rparr>))" (is "flags_wf ?r'")
  unfolding flags_wf_def
proof (intro allI impI)
  fix x c'
  assume "registered ?r' x" and c': "r_objs ?r' x = Some c'"
  then have x: "registered r x"
    by (simp add: registered_upd del: r_upd_simps)
  then obtain c where c: "r_objs r x = Some c"
    by (auto simp: registered_def)
  with assms x have "\<not> c_closed c \<and> c_onclose c"
    by (simp add: flags_wf_def)
  with c c' show "\<not> c_closed c' \<and> c_onclose c'"
    by (auto split: if_splits)
qed

lemma handle_joined_flags:
  assumes "room_wf r"
  shows "joined (room_handle jwt now r ref c m) j = joined r j"
    and "flags_wf r \<Longrightarrow> flags_wf (room_handle jwt now r ref c m)"
proof -
  consider caps where "m = Ntf (ClientRtpCapabilitiesNotification caps)"
    | "calms r (room_handle jwt now r ref c m)"
    using calms_room_handle[OF assms] by blast
  note cs = this
  show "joined (room_handle jwt now r ref c m) j = joined r j"
    using cs by cases (simp_all add: on_client_rtp_capabilities_def calms_joined del: r_upd_simps)
  show "flags_wf r \<Longrightarrow> flags_wf (room_handle jwt now r ref c m)"
    using cs by cases (simp_all add: on_client_rtp_capabilities_def calms_flags flags_wf_caps del: r_upd_simps)
qed

lemma tame_producer:
  assumes t: "tame r r'" and o: "obliged r' i j s q" and c: "r_objs r i = Some c"
  shows "\<exists>p. (s, q, p) \<in> set (m_entries (c_producers c))"
proof -
  obtain c' p' where c': "r_objs r' i = Some c'" "(s, q, p') \<in> set (m_entries (c_producers c'))"
    using o by (auto simp: obliged_def)
  then have "client_le c c'"
    using tameD(3)[OF t c'(1)] c by simp
  with c'(2) show ?thesis
    unfolding client_le_def by blast
qed

lemma mesh_join:
  assumes ms: "mesh_state r" and c: "r_objs r ref = Some c" "\<not> c_closed c" "ready c"
  shows "mesh_inv (join_loop jwt now (r_log r (ORecv ref (Req (JoinCallRequest n)))) ref (c_clientId c) n 0)"
    (is "mesh_inv (join_loop _ _ ?r1 _ _ _ _)")
  unfolding mesh_inv_def
proof (intro allI impI)
  let ?r' = "join_loop jwt now ?r1 ref (c_clientId c) n 0"
  fix i j s q
  assume o: "obliged ?r' i j s q"
  have wf: "room_wf r"
    using ms by (simp add: mesh_state_def room_inv_def)
  have wf1: "room_wf ?r1"
    using micro_wf[OF micro_recv wf] c(1,2) by (simp add: is_open_def)
  have t: "tame r ?r'"
    by (rule tame_trans[OF tame_log tame_join_loop])
  have reg: "registered r i" "registered r j"
    using o tame_registered[OF t] by (auto simp: obliged_def)
  show "settled ?r' i j s q"
  proof (cases "j = ref")
    case False
    have "joined r j" if "joined ?r' j"
      using that False calms_joined[OF calms_join_loop[OF wf1]] by (simp add: joined_recv)
    then have "obliged r i j s q"
      using tame_obliged[OF t o] by simp
    then have "settled r i j s q"
      using ms by (simp add: mesh_state_def mesh_inv_def)
    then show ?thesis
      using o by (intro tame_settled[OF t wf]) (simp_all add: obliged_def)
  next
    case True
    obtain ci where ci: "r_objs r i = Some ci"
      using reg(1) by (auto simp: registered_def)
    obtain pr where pr: "(s, q, pr) \<in> set (m_entries (c_producers ci))"
      using tame_producer[OF t o ci] by blast
    obtain s' where s': "seat r i s'"
      using registered_seat[OF reg(1)] by blast
    have tw: "told_wf ?r1"
      using tame_told_wf[OF tame_log] ms by (simp add: mesh_state_def)
    have r1: "registered ?r1 i" "registered ?r1 j" "seat ?r1 i s'"
      using reg s' by (simp_all add: registered_def seat_def)
    have ne: "i \<noteq> j"
      using o by (simp add: obliged_def)
    show ?thesis
      unfolding True
      by (rule settle_join_loop[OF wf1 tw r1(1) _ r1(2)[unfolded True] _ c(2,3) ne[unfolded True] r1(3) _ pr])
        (simp_all add: ci c(1))
  qed
qed

lemma mesh_state_receive:
  assumes ms: "mesh_state r" and ok: "mesh_ok r (Receive now ref m)"
  shows "mesh_state (room_receive jwt now r ref m)"
proof (cases "is_open r ref")
  case False
  then show ?thesis
    using ms by (simp add: room_receive_def is_open_def split: option.splits)
next
  case True
  then obtain c where c: "r_objs r ref = Some c" "\<not> c_closed c"
    by (auto simp: is_open_def split: option.splits)
  let ?r1 = "r_log r (ORecv ref m)"
  have eq: "room_receive jwt now r ref m = room_handle jwt now ?r1 ref c m" (is "_ = ?r'")
    using c by (simp add: room_receive_def)
  have wf: "room_wf r" "room_wf ?r1"
    using ms micro_wf[OF micro_recv[OF True]] by (simp_all add: mesh_state_def room_inv_def)
  have t: "tame r ?r'"
    using ok by (intro tame_trans[OF tame_log tame_room_handle]) (simp add: mesh_ok_def)
  have m: "micros r ?r'"
    using micros_room_receive[OF wf(1)] eq by metis
  have f: "flags_wf ?r'"
    using handle_joined_flags(2)[OF wf(2)] ms by (simp add: mesh_state_def)
  have j: "joined ?r' j \<longleftrightarrow> joined r j \<or> ref = j \<and> (\<exists>i. m = Req (JoinCallRequest i))" for j
    unfolding handle_joined_flags(1)[OF wf(2)] joined_recv ..
  show ?thesis
  proof (cases "\<exists>n. m = Req (JoinCallRequest n)")
    case False
    then show ?thesis
      unfolding eq using j by (intro mesh_state_tame[OF ms t m _ f]) simp
  next
    case True
    then obtain n where n: "m = Req (JoinCallRequest n)"
      by blast
    have r: "ready c"
      using ok n c(1) by (simp add: mesh_ok_def)
    have "joined_wf ?r'"
      unfolding joined_wf_def
    proof (intro allI impI)
      fix x
      assume "joined ?r' x"
      then obtain cx where cx: "r_objs r x = Some cx" "ready cx"
        using j ms c r unfolding mesh_state_def joined_wf_def by metis
      then show "\<exists>cx. r_objs ?r' x = Some cx \<and> ready cx"
        using tameD(4)[OF t cx(1)] tameD(3)[OF t] unfolding client_le_def by (metis option.inject)
    qed
    moreover have "mesh_inv ?r'"
      using mesh_join[OF ms c r] n by simp
    ultimately show ?thesis
      unfolding eq using ms f tame_told_wf[OF t] micros_inv[OF m] micros_tasks[OF m]
      by (auto simp: mesh_state_def room_inv_def)
  qed
qed

section \<open>Resuming a handler\<close>

lemma calm_ready:
  assumes "calm r r'" "r_objs r x = Some c" "ready c"
  shows "\<exists>c'. r_objs r' x = Some c' \<and> ready c'"
  using assms by (cases rule: calm.cases) (auto simp: announce_def ready_def)

lemma calms_ready:
  assumes "calms r r'" "r_objs r x = Some c" "ready c"
  shows "\<exists>c'. r_objs r' x = Some c' \<and> ready c'"
  using assms by (induction rule: rtranclp_induct) (auto dest: calm_ready)

lemma calms_joined_wf: "calms r r' \<Longrightarrow> joined_wf r \<Longrightarrow> joined_wf r'"
  unfolding joined_wf_def using calms_joined calms_ready by metis

lemma calms_registered: "calms r r' \<Longrightarrow> registered r' ref = registered r ref"
  by (induction rule: rtranclp_induct) (auto simp: calm_registered)

text \<open>
  A continuation of the task \<open>k\<close>: it changes the room to \<open>r2\<close>, where the task is gone, and then
  only tamely. What is obliged was settled without the task or is settled by the continuation.
\<close>

lemma mesh_state_continue:
  assumes ms: "mesh_state r" and t: "map_of (r_tasks r) k = Some t"
    and c2: "calms r r2" "r_clients r2 = r_clients r" "r_tasks r2 = r_tasks (r_del_task r k)"
      "set (r_trace r) \<subseteq> set (r_trace r2)" "told_wf r2"
    and c': "calms r2 r'" "tame r2 r'"
    and duty: "\<And>i j s q. obliged r' i j s q \<Longrightarrow> obliged r2 i j s q \<Longrightarrow>
      obliged r i j s q \<and> \<not> task_covers (r_del_task r k) t i j s q \<or> settled r' i j s q"
  shows "mesh_state r'"
proof -
  have c: "calms r r'"
    by (rule calms_trans[OF c2(1) c'(1)])
  have wf2: "room_wf r2"
    using calms_wf[OF c2(1)] ms by (simp add: mesh_state_def room_inv_def)
  have "mesh_inv r'"
    unfolding mesh_inv_def
  proof (intro allI impI)
    fix i j s q
    assume o: "obliged r' i j s q"
    then have o2: "obliged r2 i j s q"
      using calms_joined[OF c'(1)] by (intro tame_obliged[OF c'(2)]) simp_all
    show "settled r' i j s q"
    proof (cases "settled r' i j s q")
      case False
      then have d: "obliged r i j s q" "\<not> task_covers (r_del_task r k) t i j s q"
        using duty[OF o o2] by simp_all
      have tw: "tasks_wf r" and s: "settled r i j s q"
        using ms d(1) by (simp_all add: mesh_state_def mesh_inv_def)
      have s0: "settled (r_del_task r k) i j s q"
        using task_covers_done[OF tw t s] d(2) task_covers_cong[of "r_del_task r k" r] by simp
      have "settled r2 i j s q"
        by (rule settled_mono[OF s0]) (use c2 in \<open>simp_all add: task_covers_cong[of r2 "r_del_task r k"]\<close>)
      then show ?thesis
        using o by (intro tame_settled[OF c'(2) wf2]) (simp_all add: obliged_def)
    qed
  qed
  moreover have "told_wf r'"
    by (rule tame_told_wf[OF c'(2) c2(5)])
  ultimately show ?thesis
    using ms calms_joined_wf[OF c] calms_flags[OF c] micros_inv[OF calms_micros[OF c]]
      micros_tasks[OF calms_micros[OF c]]
    by (auto simp: mesh_state_def room_inv_def)
qed

text \<open>What the theorems above need of a client that is registered in a room with the invariant.\<close>

lemma mesh_client:
  assumes "mesh_state r" "calms r r2" "registered r2 j"
  obtains c where "r_objs r2 j = Some c" "\<not> c_closed c" "joined r2 j \<Longrightarrow> ready c"
proof -
  have "flags_wf r2" "joined_wf r2"
    using assms calms_flags calms_joined_wf by (simp_all add: mesh_state_def)
  moreover obtain c where "r_objs r2 j = Some c"
    using assms(3) by (auto simp: registered_def)
  ultimately show ?thesis
    using that assms(3) unfolding flags_wf_def joined_wf_def by (metis option.inject)
qed

lemma mesh_state_del:
  assumes "mesh_state r"
  shows "calms r (r_del_task r k)" "room_wf (r_del_task r k)" "told_wf (r_del_task r k)"
proof -
  show "calms r (r_del_task r k)"
    by (intro calms_step calm_done)
  from calms_wf[OF this] assms show "room_wf (r_del_task r k)"
    by (simp add: mesh_state_def room_inv_def)
  show "told_wf (r_del_task r k)"
    using assms by (simp add: mesh_state_def told_wf_def told_def)
qed

lemma obliged_del [simp]: "obliged (r_del_task r k) i j s q = obliged r i j s q"
  by (simp add: obliged_def registered_def joined_def)

text \<open>The handlers whose continuation is tame.\<close>

lemma mesh_continue_tame:
  assumes ms: "mesh_state r" and t: "map_of (r_tasks r) k = Some t"
    and c: "calms (r_del_task r k) r'" "tame (r_del_task r k) r'"
    and duty: "\<And>i j s q. obliged r' i j s q \<Longrightarrow> obliged r i j s q \<Longrightarrow>
      task_covers (r_del_task r k) t i j s q \<Longrightarrow> settled r' i j s q"
  shows "mesh_state r'"
  using duty mesh_state_del[OF ms]
  by (intro mesh_state_continue[OF ms t _ _ _ _ _ c]) auto

lemma mesh_continue_outer:
  assumes ms: "mesh_state r" and t: "map_of (r_tasks r) k = Some (TConsumed out)"
  shows "mesh_state (resume_outer jwt now (r_del_task r k) out)" (is "mesh_state (resume_outer _ _ ?r0 _)")
proof (rule mesh_continue_tame[OF ms t calms_resume_outer tame_resume_outer])
  note d = mesh_state_del[OF ms, of k]
  show "room_wf ?r0" by (rule d(2))
  fix i j s q
  assume o: "obliged r i j s q" and cov: "task_covers ?r0 (TConsumed out) i j s q"
  then have o0: "registered ?r0 i" "registered ?r0 j" "joined ?r0 j" "i \<noteq> j"
    by (simp_all add: obliged_def registered_def joined_def)
  obtain ci pr where ci: "r_objs ?r0 i = Some ci" "(s, q, pr) \<in> set (m_entries (c_producers ci))"
    using o by (auto simp: obliged_def)
  obtain cj where cj: "r_objs ?r0 j = Some cj" "\<not> c_closed cj" "ready cj"
    using mesh_client[OF ms d(1) o0(2)] o0(3) by metis
  show "settled (resume_outer jwt now ?r0 out) i j s q"
  proof (cases out)
    case (JoinLoop ref n pos)
    then obtain s' where "ref = j" "seat ?r0 i s'" "pos \<le> s'"
      using cov by auto
    then show ?thesis
      using settle_join_loop[OF d(2,3) o0(1) ci(1) o0(2) cj o0(4) _ _ ci(2)] cj(1) JoinLoop by simp
  next
    case (ProduceLoop ref pos)
    then obtain s' where "ref = i" "seat ?r0 j s'" "pos \<le> s'"
      using cov by auto
    then show ?thesis
      using settle_produce_loop[OF d(2,3) o0(1) ci(1) o0(2) cj o0(4) _ _ ci(2)] ci(1) ProduceLoop by simp
  qed
qed

text \<open>A producer was created: the loop over the clients settles all that is owed of it.\<close>

lemma mesh_continue_produce:
  assumes ms: "mesh_state r" and t: "map_of (r_tasks r) k = Some (TProduce ref n)"
  shows "mesh_state (producer_created (r_del_task r k) ref n p)" (is "mesh_state ?r'")
proof -
  let ?r0 = "r_del_task r k"
  define r1 where "r1 = r_upd ?r0 ref (\<lambda>c. c\<lparr>c_producers := map_set (c_producers c) (p_id p) p\<rparr>)"
  define r2 where "r2 = r_send r1 ref (Rsp (CreateProducerResponse n (p_id p)))"
  have r': "?r' = (case r_objs r2 ref of None \<Rightarrow> r2 | Some c \<Rightarrow> produce_loop r2 ref (c_clientId c) 0)"
    unfolding producer_created_def Let_def r1_def r2_def by (rule refl)
  have "calms ?r0 r1"
    unfolding r1_def by (intro calms_step calm_pset)
  moreover have "calms r1 r2"
    unfolding r2_def by (intro calms_send) simp
  ultimately have c2: "calms r r2"
    using mesh_state_del(1)[OF ms] calms_trans by blast
  have wf2: "room_wf r2"
    using calms_wf[OF c2] ms by (simp add: mesh_state_def room_inv_def)
  have trace: "set (r_trace r) \<subseteq> set (r_trace r2)"
    by (simp add: r2_def r1_def r_send_trace)
  have tw2: "told_wf r2"
    unfolding told_wf_def
  proof (intro allI impI)
    fix j c kk co
    assume c: "r_objs r2 j = Some c" "\<not> c_closed c" "map_get (c_consumers c) kk = Some co"
    then obtain c0 where "r_objs r j = Some c0" "\<not> c_closed c0" "map_get (c_consumers c0) kk = Some co"
      by (auto simp: r2_def r1_def split: if_splits)
    then have "told r j (co_producerId co)"
      using ms unfolding mesh_state_def told_wf_def by blast
    then show "told r2 j (co_producerId co)"
      using trace unfolding told_def by blast
  qed
  have others: "r_objs r2 x = r_objs r x" if "x \<noteq> ref" for x
    using that by (simp add: r2_def r1_def)
  show ?thesis
  proof (rule mesh_state_continue[OF ms t c2 _ _ trace tw2])
    show "calms r2 ?r'" "tame r2 ?r'"
      unfolding r' using calms_produce_loop[OF wf2] by (auto split: option.splits)
    fix i j s q
    assume o': "obliged ?r' i j s q" and o: "obliged r2 i j s q"
    show "obliged r i j s q \<and> \<not> task_covers ?r0 (TProduce ref n) i j s q \<or> settled ?r' i j s q"
    proof (cases "i = ref")
      case False
      then show ?thesis
        using o others calms_registered[OF c2] calms_joined[OF c2] by (auto simp: obliged_def)
    next
      case True
      obtain ci pr where ci: "r_objs r2 i = Some ci" "(s, q, pr) \<in> set (m_entries (c_producers ci))"
        using o by (auto simp: obliged_def)
      have reg: "registered r2 i" "registered r2 j" "joined r2 j" "i \<noteq> j"
        using o by (simp_all add: obliged_def)
      obtain cj where cj: "r_objs r2 j = Some cj" "\<not> c_closed cj" "ready cj"
        using mesh_client[OF ms c2 reg(2)] reg(3) by metis
      obtain s' where s': "seat r2 j s'"
        using registered_seat[OF reg(2)] by blast
      have "settled (produce_loop r2 i (c_clientId ci) 0) i j s q"
        by (rule settle_produce_loop[OF wf2 tw2 reg(1) ci(1) reg(2) cj reg(4) s' _ ci(2)]) simp
      then show ?thesis
        unfolding r' using ci(1) True by simp
    qed
  qed (simp_all add: r2_def r1_def)
qed

text \<open>A consumer was created: it is announced, and the loop goes on behind its iterator.\<close>

lemma mesh_continue_consume:
  assumes ms: "mesh_state r" and t: "map_of (r_tasks r) k = Some (TConsume out pref cref pid pos p)"
    and co: "co_producerId co = p_id p"
  shows "mesh_state (consumer_created (r_del_task r k) out pref cref pid pos p co)" (is "mesh_state ?r'")
proof -
  let ?r0 = "r_del_task r k"
  have "task_wf r (TConsume out pref cref pid pos p)"
    using ms room_wfD(5)[OF _ map_of_SomeD[OF t]] by (simp add: mesh_state_def room_inv_def)
  then obtain pc cc where pc: "r_objs r pref = Some pc" "c_clientId pc = pid"
      and cc: "r_objs r cref = Some cc" "c_clientId cc \<noteq> pid"
    by auto
  define rc where "rc = \<lparr>rc_userId = (case r_objs (r_upd ?r0 cref (\<lambda>c. c\<lparr>c_consumers :=
      map_set (c_consumers c) (co_id co) co\<rparr>)) pref of None \<Rightarrow> None | Some pc \<Rightarrow> c_userId pc),
    rc_clientId = pid\<rparr>"
  define r2 where "r2 = announce ?r0 cref co (p_id p) rc"
  have r': "?r' = consume_run r2 out pref cref pid pos"
    by (simp add: consumer_created_def announce_def rc_def r2_def Let_def)
  have "calm ?r0 r2"
    unfolding r2_def using cc by (intro calm_announce[of _ _ cc]) (simp_all add: rc_def)
  then have c2: "calms r r2"
    using mesh_state_del(1)[OF ms] calms_step calms_trans by blast
  have wf2: "room_wf r2"
    using calms_wf[OF c2] ms by (simp add: mesh_state_def room_inv_def)
  have trace: "set (r_trace r) \<subseteq> set (r_trace r2)"
    by (simp add: r2_def announce_def r_send_trace)
  have told: "told r2 cref (p_id p)" if "r_objs r2 cref = Some c" "\<not> c_closed c" for c
    using that cc unfolding told_def
    by (fastforce simp: r2_def announce_def r_send_trace is_open_def)
  have tw2: "told_wf r2"
    unfolding told_wf_def
  proof (intro allI impI)
    fix j c kk co'
    assume c: "r_objs r2 j = Some c" "\<not> c_closed c" "map_get (c_consumers c) kk = Some co'"
    show "told r2 j (co_producerId co')"
    proof (cases "j = cref \<and> kk = co_id co")
      case True
      then have "co' = co"
        using c(1,3) cc by (auto simp: r2_def announce_def map_get_set)
      then show ?thesis
        using told c True co by simp
    next
      case False
      then obtain c0 where "r_objs r j = Some c0" "\<not> c_closed c0" "map_get (c_consumers c0) kk = Some co'"
        using c cc by (auto simp: r2_def announce_def map_get_set split: if_splits)
      then have "told r j (co_producerId co')"
        using ms unfolding mesh_state_def told_wf_def by blast
      then show ?thesis
        using trace unfolding told_def by blast
    qed
  qed
  have prods: "c_producers c2 = c_producers c" if "r_objs r2 x = Some c2" "r_objs r x = Some c" for x c c2
    using that by (auto simp: r2_def announce_def split: if_splits)
  obtain pc2 cc2 where two: "r_objs r2 pref = Some pc2" "c_clientId pc2 = pid"
      "r_objs r2 cref = Some cc2" "c_clientId cc2 \<noteq> pid"
    using pc cc by (cases "pref = cref") (auto simp: r2_def announce_def)
  show ?thesis
  proof (rule mesh_state_continue[OF ms t c2 _ _ trace tw2])
    show "calms r2 ?r'" "tame r2 ?r'"
      unfolding r' using calms_consume_run[OF two(1,3,2,4)] by simp_all
    fix i j s q
    assume o: "obliged r2 i j s q"
    obtain ci pr where ci: "r_objs r2 i = Some ci" "(s, q, pr) \<in> set (m_entries (c_producers ci))"
      using o by (auto simp: obliged_def)
    have reg: "registered r2 j" "joined r2 j"
      using o by (simp_all add: obliged_def)
    obtain cj where cj: "r_objs r2 j = Some cj" "\<not> c_closed cj" "ready cj"
      using mesh_client[OF ms c2 reg(1)] reg(2) by metis
    obtain c0 where c0: "r_objs r i = Some c0"
      using o calms_registered[OF c2] by (auto simp: obliged_def registered_def)
    have "obliged r i j s q"
      using o ci c0 prods[OF ci(1) c0] calms_registered[OF c2] calms_joined[OF c2]
      by (auto simp: obliged_def)
    moreover have "settled ?r' i j s q" if cov: "task_covers ?r0 (TConsume out pref cref pid pos p) i j s q"
    proof -
      consider "outer_covers ?r0 out i j" | "pref = i" "cref = j" "p_id p = q"
        | "pref = i" "cref = j" "pos \<le> s"
        using cov by auto
      then show ?thesis
      proof cases
        case 1
        then have "outer_covers r2 out i j"
          using outer_covers_cong[of r2 ?r0] by (simp add: r2_def announce_def)
        then show ?thesis
          unfolding r' by (rule settle_run_outer)
      next
        case 2
        then have "told r2 j q"
          using told cj by simp
        then show ?thesis
          unfolding r' by (intro told_settled tame_told[OF tame_consume_run])
      next
        case 3
        then show ?thesis
          unfolding r' using settle_consume_run[OF wf2 tw2 ci(1) cj ci(2)] by simp
      qed
    qed
    ultimately show "obliged r i j s q \<and> \<not> task_covers ?r0 (TConsume out pref cref pid pos p) i j s q \<or>
        settled ?r' i j s q"
      by blast
  qed (simp_all add: r2_def announce_def)
qed

lemma mesh_continue_rejected:
  assumes ms: "mesh_state r" and t: "map_of (r_tasks r) k = Some t"
  shows "mesh_state (r_log (r_del_task r k) ORejected)"
  by (rule mesh_continue_tame[OF ms t]) (auto simp: settled_def intro: calms_log)

lemma mesh_state_resume:
  assumes ms: "mesh_state r" and ok: "mesh_ok r (Resume now k a)"
  shows "mesh_state (room_resume jwt now r k a)"
proof (cases "\<exists>t. map_of (r_tasks r) k = Some t \<and> task_answers t a")
  case False
  then show ?thesis
    using ms by (auto simp: room_resume_def split: option.splits)
next
  case True
  then obtain t where t: "map_of (r_tasks r) k = Some t" and ans: "task_answers t a"
    by blast
  have eq: "room_resume jwt now r k a = room_continue jwt now (r_del_task r k) t a"
    using t ans by (simp add: room_resume_def)
  have rest: "mesh_state r'" if "calms (r_del_task r k) r'" "tame (r_del_task r k) r'"
    "\<And>i j s q. \<not> task_covers (r_del_task r k) t i j s q" for r'
    using that by (intro mesh_continue_tame[OF ms t]) auto
  show ?thesis
    unfolding eq
  proof (cases t)
    case (TCreate ref n role)
    then show "mesh_state (room_continue jwt now (r_del_task r k) t a)"
      by (intro rest) (auto split: answer.splits intro: calms_transport_created calms_log)
  next
    case (TConnect ref role)
    then show "mesh_state (room_continue jwt now (r_del_task r k) t a)"
      by (intro rest) auto
  next
    case (TProduce ref n)
    then show "mesh_state (room_continue jwt now (r_del_task r k) t a)"
      using mesh_continue_produce[OF ms] t rest[of "r_del_task r k"] by (auto split: answer.splits)
  next
    case (TPause ref n)
    then show "mesh_state (room_continue jwt now (r_del_task r k) t a)"
      by (intro rest) (auto intro: calms_send)
  next
    case (TResume ref n)
    then show "mesh_state (room_continue jwt now (r_del_task r k) t a)"
      by (intro rest) (auto intro: calms_send)
  next
    case (TConsume out pref cref pid pos p)
    then show "mesh_state (room_continue jwt now (r_del_task r k) t a)"
      using mesh_continue_consume[OF ms] mesh_continue_rejected[OF ms t] t ok
      by (auto simp: mesh_ok_def split: answer.splits)
  next
    case (TConsumed out)
    then show "mesh_state (room_continue jwt now (r_del_task r k) t a)"
      using mesh_continue_outer[OF ms] t by simp
  qed
qed

section \<open>Every step\<close>

lemma mesh_state_step:
  assumes ms: "mesh_state r" and ok: "mesh_ok r e"
  shows "mesh_state (room_step jwt r e)"
proof (cases e)
  case (Callback cb)
  then show ?thesis
    using mesh_state_calm[OF ms tame_run_callback calms_run_callback] by simp
qed (use ms ok in \<open>simp_all add: mesh_state_add mesh_state_receive mesh_state_resume
      mesh_state_socket_closed mesh_state_close_frame mesh_state_router_closed\<close>)

lemma mesh_state_new: "mesh_state (room_new i key caps ip a)"
  using room_inv_new
  by (simp add: mesh_state_def mesh_inv_def flags_wf_def told_wf_def joined_wf_def tasks_wf_def
      obliged_def joined_def registered_def room_new_def)

interpretation mesh: invariant_system "room_step jwt" mesh_ok mesh_state for jwt
  by unfold_locales (rule mesh_state_step)

section \<open>The property\<close>

lemma idle_told:
  assumes ms: "mesh_state r"
    and idle: "r_tasks r = []" "ORejected \<notin> set (r_trace r)"
    and clients: "map_get (r_clients r) x = Some u" "map_get (r_clients r) y = Some v" "x \<noteq> y"
    and joined: "ORecv v (Req (JoinCallRequest n)) \<in> set (r_trace r)"
    and producer: "r_objs r u = Some c" "map_get (c_producers c) q = Some p"
  shows "\<exists>k kind rtp rc. OSend v (Ntf (ConsumerCreatedNotification k q kind rtp rc)) \<in> set (r_trace r)"
proof -
  from ms have wf: "room_wf r"
    by (simp add: mesh_state_def room_inv_def)
  obtain cv where v: "r_objs r v = Some cv" "c_clientId cv = y"
    using room_wfD(2)[OF wf clients(2)] by blast
  have u: "c_clientId c = x"
    using room_wfD(2)[OF wf clients(1)] producer(1) by auto
  obtain s where "(s, q, p) \<in> set (m_entries (c_producers c))"
    using map_get_entry[OF producer(2)] by blast
  then have "obliged r u v s q"
    using clients joined producer(1) u v by (auto simp: obliged_def registered_def joined_def)
  then have "settled r u v s q"
    using ms by (simp add: mesh_state_def mesh_inv_def)
  then show ?thesis
    using idle by (simp add: settled_def told_def)
qed

text \<open>
  C1. Everyone gets everyone's media. In any run from an empty room, with any interleaving of
  messages, answers of the media library, closings and new clients, in which clients announce
  their capabilities and own a receiving transport before they join and in which a created
  consumer consumes the producer it was asked for: once no handler is suspended and no
  library call was rejected, every registered client that asked to join was sent a
  \<open>ConsumerCreatedNotification\<close> for every producer of every other registered client.
\<close>

theorem everyone_gets_everyones_media:
  assumes run: "ok_run (room_step jwt) mesh_ok (room_new i key caps ip a) es"
    and r: "r = room_run jwt (room_new i key caps ip a) es"
    and idle: "r_tasks r = []" "ORejected \<notin> set (r_trace r)"
    and clients: "map_get (r_clients r) x = Some u" "map_get (r_clients r) y = Some v" "x \<noteq> y"
    and joined: "ORecv v (Req (JoinCallRequest n)) \<in> set (r_trace r)"
    and producer: "r_objs r u = Some c" "map_get (c_producers c) q = Some p"
  shows "\<exists>k kind rtp rc. OSend v (Ntf (ConsumerCreatedNotification k q kind rtp rc)) \<in> set (r_trace r)"
proof -
  have "mesh_state r"
    unfolding r room_run_def by (rule mesh.run_inv[OF mesh_state_new run])
  then show ?thesis
    by (rule idle_told[OF _ idle clients joined producer])
qed

text \<open>Two clients: the second joins while the first is about to produce.\<close>

definition two_client_run :: "event list" where
  "two_client_run =
     [Add ''a'' None, Add ''b'' None,
      Receive 0 0 (Req (CreateTransportRequest ''1'' ''producing'')),
      Receive 0 1 (Req (CreateTransportRequest ''2'' ''consuming'')),
      Resume 0 1 (ATransport \<lparr>ti_id = ''t1'', ti_iceParameters = JNull, ti_iceCandidates = JArr [],
        ti_dtlsParameters = JNull\<rparr>),
      Resume 0 0 (ATransport \<lparr>ti_id = ''t0'', ti_iceParameters = JNull, ti_iceCandidates = JArr [],
        ti_dtlsParameters = JNull\<rparr>),
      Receive 0 1 (Ntf (ClientRtpCapabilitiesNotification (JStr ''caps''))),
      Receive 0 1 (Req (JoinCallRequest ''3'')),
      Receive 0 0 (Req (CreateProducerRequest ''4'' ''audio'' JNull ''u'')),
      Resume 0 3 (AProducer \<lparr>p_id = ''p''\<rparr>),
      Resume 0 2 AOk,
      Resume 0 4 (AConsumer \<lparr>co_id = ''k'', co_producerId = ''p'', co_kind = ''audio'', co_rtpParameters = JNull\<rparr>),
      Resume 0 5 AOk]"

definition two_client_room :: room where
  "two_client_room = room_run (\<lambda>_ _. ''token'') (room_new ''r'' ''call'' JNull ''ip'' ''aip'') two_client_run"

lemma everyone_gets_everyones_media_witness:
  "\<exists>k kind rtp rc. OSend 1 (Ntf (ConsumerCreatedNotification k ''p'' kind rtp rc)) \<in> set (r_trace two_client_room)"
proof (rule everyone_gets_everyones_media)
  show "ok_run (room_step (\<lambda>_ _. ''token'')) mesh_ok (room_new ''r'' ''call'' JNull ''ip'' ''aip'') two_client_run"
    by code_simp
  show "two_client_room = room_run (\<lambda>_ _. ''token'') (room_new ''r'' ''call'' JNull ''ip'' ''aip'') two_client_run"
    by (rule two_client_room_def)
  show "r_tasks two_client_room = []" "ORejected \<notin> set (r_trace two_client_room)"
    by code_simp+
  show "map_get (r_clients two_client_room) ''a'' = Some 0" "map_get (r_clients two_client_room) ''b'' = Some 1"
    "''a'' \<noteq> ''b''" "ORecv 1 (Req (JoinCallRequest ''3'')) \<in> set (r_trace two_client_room)"
    by code_simp+
  show "r_objs two_client_room 0 = Some (the (r_objs two_client_room 0))"
    by code_simp
  show "map_get (c_producers (the (r_objs two_client_room 0))) ''p'' = Some \<lparr>p_id = ''p''\<rparr>"
    by code_simp
qed

end
