(* ===== verification/RoomTypes.thy ===== *)
theory RoomTypes
  imports RoomDelivery
begin

text \<open>
  The types of the room's state. The model refers to client objects by number where the code holds the
  object itself, so every number that is held anywhere must be that of an object: in the table of
  clients, and in every handler that is suspended. Then the branches of the model for an absent object,
  which the code does not have, are never taken.
\<close>

section \<open>References of suspended handlers\<close>

fun outer_ref :: "outer \<Rightarrow> nat" where
  "outer_ref (JoinLoop ref _ _) = ref"
| "outer_ref (ProduceLoop ref _) = ref"

fun task_refs :: "task \<Rightarrow> nat list" where
  "task_refs (TCreate ref _ _) = [ref]"
| "task_refs (TConnect ref _) = [ref]"
| "task_refs (TProduce ref _) = [ref]"
| "task_refs (TPause ref _) = [ref]"
| "task_refs (TResume ref _) = [ref]"
| "task_refs (TConsume k pref cref _ _ _) = [outer_ref k, pref, cref]"
| "task_refs (TConsumed k) = [outer_ref k]"

definition exists_client :: "room \<Rightarrow> nat \<Rightarrow> bool" where
  "exists_client r ref \<longleftrightarrow> r_objs r ref \<noteq> None"

definition refs_exist :: "room \<Rightarrow> task \<Rightarrow> bool" where
  "refs_exist r t \<longleftrightarrow> list_all (exists_client r) (task_refs t)"

text \<open>A step that keeps the objects and whose new continuations refer to objects.\<close>

definition typed_step :: "room \<Rightarrow> room \<Rightarrow> bool" where
  "typed_step r r' \<longleftrightarrow>
     (\<forall>ref. exists_client r ref \<longrightarrow> exists_client r' ref) \<and>
     (\<forall>t \<in> snd ` set (r_tasks r'). t \<in> snd ` set (r_tasks r) \<or> refs_exist r' t)"

named_theorems typed_intros \<open>operations that keep references typed\<close>

lemma refs_exist_mono: "refs_exist r t \<Longrightarrow> (\<And>ref. exists_client r ref \<Longrightarrow> exists_client r' ref) \<Longrightarrow> refs_exist r' t"
  by (auto simp: refs_exist_def list_all_iff)

lemma typed_refl [simp, typed_intros]: "typed_step r r"
  by (simp add: typed_step_def)

lemma typed_trans: "typed_step r r' \<Longrightarrow> typed_step r' r'' \<Longrightarrow> typed_step r r''"
  unfolding typed_step_def using refs_exist_mono by meson

lemma typed_same: "r_tasks r' = r_tasks r \<Longrightarrow> (\<And>ref. exists_client r ref \<Longrightarrow> exists_client r' ref) \<Longrightarrow> typed_step r r'"
  by (simp add: typed_step_def)

lemma exists_simps [simp]:
  "exists_client (r_log r x) ref = exists_client r ref" "exists_client (r_upd r n f) ref = exists_client r ref"
  "exists_client (r_send r n m) ref = exists_client r ref" "exists_client (r_add_task r t) ref = exists_client r ref"
  "exists_client (r_del_task r k) ref = exists_client r ref" "exists_client (r\<lparr>r_closed := b\<rparr>) ref = exists_client r ref"
  "exists_client (r\<lparr>r_clients := tbl\<rparr>) ref = exists_client r ref"
  by (simp_all add: exists_client_def)

lemma refs_exist_simps [simp]:
  "refs_exist (r_log r x) t = refs_exist r t" "refs_exist (r_upd r n f) t = refs_exist r t"
  "refs_exist (r_del_task r k) t = refs_exist r t"
  by (simp_all add: refs_exist_def list_all_iff)

lemma typed_prims [typed_intros]:
  "typed_step r (r_log r x)" "typed_step r (r_upd r n f)" "typed_step r (r_send r n m)"
  "typed_step r (r\<lparr>r_closed := b\<rparr>)" "typed_step r (r\<lparr>r_clients := c\<rparr>)" "typed_step r (r_del_task r k)"
  "typed_step r (room_add r cid uid)"
  by (auto simp: typed_step_def exists_client_def)

lemma typed_task [typed_intros]: "refs_exist r t \<Longrightarrow> typed_step r (r_add_task r t)"
  by (auto simp: typed_step_def refs_exist_def list_all_iff)

lemma typed_log_task [typed_intros]: "refs_exist r t \<Longrightarrow> typed_step r (r_add_task (r_log r x) t)"
  by (rule typed_trans[OF typed_prims(1) typed_task]) simp

section \<open>The loops\<close>

text \<open>The table of clients refers to objects.\<close>

definition table_typed :: "room \<Rightarrow> bool" where
  "table_typed r \<longleftrightarrow> (\<forall>k ref. map_get (r_clients r) k = Some ref \<longrightarrow> exists_client r ref)"

lemma table_of_wf: "room_wf r \<Longrightarrow> table_typed r"
  unfolding table_typed_def exists_client_def using room_wfD(2) by fastforce

lemma typed_consume_run:
  "exists_client r (outer_ref k) \<Longrightarrow> exists_client r pref \<Longrightarrow> exists_client r cref \<Longrightarrow>
   typed_step r (consume_run r k pref cref pid pos)"
  by (auto simp: consume_run_def refs_exist_def intro!: typed_task typed_log_task split: option.split)

lemma typed_consume_client:
  "table_typed r \<Longrightarrow> exists_client r (outer_ref k) \<Longrightarrow> typed_step r (consume_client r k pid cid)"
  by (auto simp: consume_client_def table_typed_def refs_exist_def intro!: typed_task typed_consume_run split: option.split)

lemma typed_loops:
  assumes "table_typed r" "exists_client r ref"
  shows "typed_step r (join_loop jwt now r ref cid i pos)" "typed_step r (produce_loop r ref cid pos)"
  using assms by (auto simp: join_loop_def produce_loop_def intro!: typed_consume_client typed_prims split: option.split)

lemma typed_resume_outer: "table_typed r \<Longrightarrow> exists_client r (outer_ref k) \<Longrightarrow> typed_step r (resume_outer jwt now r k)"
  by (cases k) (auto intro!: typed_loops split: option.split)

lemma table_same: "table_typed r \<Longrightarrow> r_clients r' = r_clients r \<Longrightarrow> (\<And>ref. exists_client r ref \<Longrightarrow> exists_client r' ref) \<Longrightarrow> table_typed r'"
  by (simp add: table_typed_def)

lemma typed_consumer_created:
  assumes "exists_client r (outer_ref k)" "exists_client r pref" "exists_client r cref"
  shows "typed_step r (consumer_created r k pref cref pid pos p co)"
  unfolding consumer_created_def Let_def
  by (rule typed_trans[OF typed_trans[OF typed_prims(2,3)] typed_consume_run]) (use assms in simp_all)

lemma typed_producer_created:
  assumes "table_typed r" "exists_client r ref"
  shows "typed_step r (producer_created r ref i p)"
proof -
  let ?r2 = "r_send (r_upd r ref (\<lambda>c. c\<lparr>c_producers := map_set (c_producers c) (p_id p) p\<rparr>)) ref
    (Rsp (CreateProducerResponse i (p_id p)))"
  have s: "typed_step r ?r2"
    by (rule typed_trans[OF typed_prims(2,3)])
  have "table_typed ?r2" "exists_client ?r2 ref"
    using assms by (simp_all add: table_typed_def)
  then show ?thesis
    unfolding producer_created_def Let_def
    by (auto simp del: r_upd_simps r_send_simps intro: s typed_trans[OF s typed_loops(2)] split: option.split)
qed

section \<open>Every step\<close>

lemma typed_handle:
  assumes "table_typed r" "exists_client r ref"
  shows "typed_step r (room_handle jwt now r ref c m)"
  using assms
  by (cases "(jwt, now, r, ref, c, m)" rule: room_handle.cases)
    (auto simp: handler_defs refs_exist_def simp del: r_upd_simps intro!: typed_intros typed_loops split: option.split)

lemma typed_continue:
  assumes "table_typed r" "refs_exist r t"
  shows "typed_step r (room_continue jwt now r t a)"
  using assms
  by (cases t) (auto simp: refs_exist_def transport_created_def simp del: r_upd_simps split: answer.split
      intro!: typed_intros typed_resume_outer typed_producer_created typed_consumer_created
        typed_trans[OF typed_prims(2,3)])

lemma typed_callback [typed_intros]: "typed_step r (run_callback r cb)"
  by (cases cb) (auto simp del: r_upd_simps intro!: typed_prims typed_trans[OF typed_prims(2,3)] split: option.split)

lemma typed_callbacks [typed_intros]: "typed_step r (foldl run_callback r cbs)"
  by (induction cbs arbitrary: r) (auto intro: typed_trans[OF typed_callback])

lemma typed_room_close [typed_intros]: "typed_step r (room_close r cbs)"
  by (auto simp: room_close_def intro!: typed_trans[OF _ typed_prims(1)]
      intro: typed_trans[OF typed_trans[OF typed_prims(4) typed_prims(1)] typed_callbacks])

lemma typed_close_transport [typed_intros]: "typed_step r (close_transport r t cbs)"
  by (auto simp: close_transport_def intro: typed_trans[OF typed_prims(1) typed_callbacks] split: option.split)

lemma typed_on_close: "typed_step r (on_close r ref c snds rcvs routers)"
proof -
  have d: "typed_step r ((close_transport (close_transport r t1 a) t2 b)\<lparr>r_clients := m\<rparr>)" for t1 a t2 b m
    by (rule typed_trans[OF typed_trans[OF typed_close_transport typed_close_transport] typed_prims(5)])
  show ?thesis
    unfolding on_close_def Let_def by (auto intro: d typed_trans[OF d typed_room_close])
qed

lemma typed_room_step:
  assumes wf: "room_wf r" and refs: "\<forall>t \<in> snd ` set (r_tasks r). refs_exist r t"
  shows "typed_step r (room_step jwt r e)"
proof (cases e)
  case (Receive now ref m)
  let ?r1 = "r_log r (ORecv ref m)"
  have "typed_step ?r1 (room_handle jwt now ?r1 ref c m)" if "r_objs r ref = Some c" for c
    using table_of_wf[OF wf] that by (intro typed_handle) (simp_all add: table_typed_def, simp add: exists_client_def)
  then show ?thesis
    using Receive by (auto simp: room_receive_def intro: typed_trans[OF typed_prims(1)] split: option.split)
next
  case (Resume now k a)
  let ?r0 = "r_del_task r k"
  have "typed_step ?r0 (room_continue jwt now ?r0 t a)" if t: "map_of (r_tasks r) k = Some t" for t
  proof (rule typed_continue)
    show "table_typed ?r0"
      using table_of_wf[OF wf] by (simp add: table_typed_def)
    have "t \<in> snd ` set (r_tasks r)"
      using map_of_SomeD[OF t] by force
    then show "refs_exist ?r0 t"
      using refs by auto
  qed
  then show ?thesis
    using Resume by (auto simp: room_resume_def intro: typed_trans[OF typed_prims(6)] split: option.split)
next
  case (RouterClosed cbs)
  have "typed_step r (foldl run_callback (r\<lparr>r_closed := True\<rparr>) cbs)"
    by (rule typed_trans[OF typed_prims(4) typed_callbacks])
  then show ?thesis
    using RouterClosed by (auto simp: router_closed_def intro: typed_trans[OF _ typed_room_close])
qed (auto simp: socket_closed_def close_frame_def Let_def simp del: r_upd_simps
    intro: typed_intros typed_trans[OF typed_prims(2) typed_on_close] split: option.split)

section \<open>The tables of a client\<close>

definition consumers_keyed :: "room \<Rightarrow> bool" where
  "consumers_keyed r \<longleftrightarrow> (\<forall>ref c k co. r_objs r ref = Some c \<longrightarrow> map_get (c_consumers c) k = Some co \<longrightarrow> co_id co = k)"

lemma consumers_upd:
  assumes "consumers_keyed r"
    and "\<And>c k co. map_get (c_consumers (f c)) k = Some co \<Longrightarrow> map_get (c_consumers c) k = Some co \<or> co_id co = k"
  shows "consumers_keyed (r_upd r ref f)"
  using assms unfolding consumers_keyed_def by (fastforce split: if_splits)

lemma consumers_same: "consumers_keyed r \<Longrightarrow> r_objs r' = r_objs r \<Longrightarrow> consumers_keyed r'"
  by (simp add: consumers_keyed_def)

lemma consumers_keyed_simps [simp]:
  "consumers_keyed (r_log r x) = consumers_keyed r" "consumers_keyed (r_send r n m) = consumers_keyed r"
  "consumers_keyed (r_add_task r t) = consumers_keyed r" "consumers_keyed (r_del_task r k) = consumers_keyed r"
  by (simp_all add: consumers_keyed_def)

lemma calm_consumers: "calm r r' \<Longrightarrow> consumers_keyed r \<Longrightarrow> consumers_keyed r'"
  by (induction rule: calm.induct)
    (auto simp: announce_def map_get_set map_get_delete simp del: r_upd_simps
      intro!: consumers_upd split: if_splits)

lemma micro_consumers: "micro r r' \<Longrightarrow> consumers_keyed r \<Longrightarrow> consumers_keyed r'"
proof (induction rule: micro.induct)
  case (micro_add r cid uid)
  then show ?case
    by (auto simp: consumers_keyed_def client_new_def split: if_splits)
qed (auto simp del: r_upd_simps intro!: consumers_upd intro: calm_consumers consumers_same)

lemma micros_consumers: "micros r r' \<Longrightarrow> consumers_keyed r \<Longrightarrow> consumers_keyed r'"
  by (induction rule: rtranclp_induct) (auto intro: micro_consumers)

section \<open>Well-typed rooms\<close>

text \<open>
  What a reader of the code would give as the types of its fields: an entry of \<open>_clients\<close> is a client with
  that id; the producers and the consumers of a client are filed under their own ids; a suspended
  handler holds client objects; and no two suspended handlers are the same.
\<close>

definition well_typed :: "room \<Rightarrow> bool" where
  "well_typed r \<longleftrightarrow>
     (\<forall>x u. map_get (r_clients r) x = Some u \<longrightarrow> (\<exists>c. r_objs r u = Some c \<and> c_clientId c = x)) \<and>
     (\<forall>u c q p. r_objs r u = Some c \<longrightarrow> map_get (c_producers c) q = Some p \<longrightarrow> p_id p = q) \<and>
     (\<forall>u c k co. r_objs r u = Some c \<longrightarrow> map_get (c_consumers c) k = Some co \<longrightarrow> co_id co = k) \<and>
     (\<forall>t \<in> snd ` set (r_tasks r). refs_exist r t) \<and>
     distinct (map fst (r_tasks r))"

definition types_inv :: "room \<Rightarrow> bool" where
  "types_inv r \<longleftrightarrow> room_inv r \<and> tasks_wf r \<and> consumers_keyed r \<and> (\<forall>t \<in> snd ` set (r_tasks r). refs_exist r t)"

lemma types_well_typed: "types_inv r \<Longrightarrow> well_typed r"
proof -
  assume t: "types_inv r"
  then have wf: "room_wf r"
    by (simp add: types_inv_def room_inv_def)
  have "p_id p = q" if "r_objs r u = Some c" "map_get (c_producers c) q = Some p" for u c q p
    using room_wfD(4)[OF wf that(1)] that(2) unfolding client_wf_def by blast
  then show ?thesis
    using t room_wfD(2)[OF wf] unfolding well_typed_def types_inv_def tasks_wf_def consumers_keyed_def by blast
qed

lemma types_step:
  assumes "types_inv r"
  shows "types_inv (room_step jwt r e)"
proof -
  have r: "room_inv r" "room_wf r" "close_wf r" "tasks_wf r" "consumers_keyed r" "\<forall>t \<in> snd ` set (r_tasks r). refs_exist r t"
    using assms by (simp_all add: types_inv_def room_inv_def)
  have m: "micros r (room_step jwt r e)"
    by (rule micros_room_step[OF r(2,3)])
  have "typed_step r (room_step jwt r e)"
    by (rule typed_room_step[OF r(2,6)])
  then have "\<forall>t \<in> snd ` set (r_tasks (room_step jwt r e)). refs_exist (room_step jwt r e) t"
    unfolding typed_step_def using r(6) refs_exist_mono by meson
  then show ?thesis
    using room_inv_step[OF r(1)] micros_tasks[OF m r(4)] micros_consumers[OF m r(5)] by (simp add: types_inv_def)
qed

interpretation types: free_invariant_system "room_step jwt" types_inv for jwt
  by unfold_locales (rule types_step)

lemma types_new: "types_inv (room_new i k caps ip a)"
  by (simp add: types_inv_def room_inv_new consumers_keyed_def tasks_wf_def) (simp add: room_new_def)

text \<open>
  C19. Rooms are well-typed: in every reachable state the table of clients maps each id to a client with that
  id, producers and consumers are filed under their own ids, and every suspended handler holds
  existing client objects, so the model never falls into a branch for a missing object.
\<close>

theorem rooms_are_well_typed: "well_typed (room_run jwt (room_new i key caps ip a) es)"
  unfolding room_run_def by (rule types_well_typed[OF types.free_run_inv[OF types_new]])

end
