(* ===== verification/RoomReply.thy ===== *)
theory RoomReply
  imports RoomSafety
begin

text \<open>
  Requests and responses. A key is a connection, a response type and a request id. The
  handlers that are still suspended owe the response of their key; counting what was sent
  and what is owed against the requests that were received shows that no response is
  unsolicited and none is sent twice, at any interleaving.
\<close>

section \<open>Keys\<close>

type_synonym key = "nat \<times> string \<times> string"

text \<open>The response type that the room's handlers answer a request with.\<close>

fun answer_type :: "request \<Rightarrow> string option" where
  "answer_type (JoinCallRequest _) = Some ''join-call-response''"
| "answer_type (GetRouterCapabilitiesRequest _) = Some ''get-router-capabilities-response''"
| "answer_type (CreateProducerRequest _ _ _ _) = Some ''create-producer-response''"
| "answer_type (ResumeProducerRequest _ _) = Some ''pause-producer-response''"
| "answer_type (PauseProducerRequest _ _) = Some ''pause-producer-response''"
| "answer_type (CreateTransportRequest _ _) = Some ''create-transport-response''"
| "answer_type (GetClientStatsRequest _ _) = None"

fun outer_key :: "outer \<Rightarrow> key option" where
  "outer_key (JoinLoop ref i _) = Some (ref, ''join-call-response'', i)"
| "outer_key (ProduceLoop _ _) = None"

fun task_key :: "task \<Rightarrow> key option" where
  "task_key (TCreate ref i _) = Some (ref, ''create-transport-response'', i)"
| "task_key (TConnect _ _) = None"
| "task_key (TProduce ref i) = Some (ref, ''create-producer-response'', i)"
| "task_key (TPause ref i) = Some (ref, ''pause-producer-response'', i)"
| "task_key (TResume ref i) = Some (ref, ''pause-producer-response'', i)"
| "task_key (TConsume k _ _ _ _ _) = outer_key k"
| "task_key (TConsumed k) = outer_key k"

fun is_request :: "key \<Rightarrow> obs \<Rightarrow> bool" where
  "is_request (n, ty, i) (ORecv ref (Req q)) = (ref = n \<and> answer_type q = Some ty \<and> request_id q = i)"
| "is_request _ _ = False"

fun is_response :: "key \<Rightarrow> obs \<Rightarrow> bool" where
  "is_response (n, ty, i) (OSend ref (Rsp p)) = (ref = n \<and> response_type p = ty \<and> response_id p = i)"
| "is_response _ _ = False"

definition requested :: "key \<Rightarrow> room \<Rightarrow> nat" where
  "requested \<kappa> r = tally (is_request \<kappa>) (r_trace r)"

definition owed :: "key \<Rightarrow> room \<Rightarrow> nat" where
  "owed \<kappa> r = tally (is_response \<kappa>) (r_trace r) +
     tally (\<lambda>x. task_key (snd x) = Some \<kappa>) (r_tasks r)"

section \<open>What each operation adds to what is sent or owed\<close>

lemma is_response_other [simp]:
  "is_response \<kappa> (ORecv ref m) = False" "is_response \<kappa> (OCreateTransport k a b) = False"
  "is_response \<kappa> (OConnect k a d) = False" "is_response \<kappa> (OProduce k a b d) = False"
  "is_response \<kappa> (OPause k a) = False" "is_response \<kappa> (OResume k a) = False"
  "is_response \<kappa> (OConsume k a b d) = False" "is_response \<kappa> (OCloseTransport a) = False"
  "is_response \<kappa> OCloseRouter = False" "is_response \<kappa> OOnClosed = False"
  "is_response \<kappa> ORejected = False" "is_response \<kappa> (OSend ref (Ntf n)) = False"
  "is_response \<kappa> (OSend ref (Req q)) = False"
  "is_response \<kappa> (OSend ref (Rsp p)) = (\<kappa> = (ref, response_type p, response_id p))"
  by (cases \<kappa>; auto)+

lemma is_request_recv [simp]:
  "is_request \<kappa> (ORecv ref (Rsp p)) = False" "is_request \<kappa> (ORecv ref (Ntf n)) = False"
  "is_request \<kappa> (ORecv ref (Req q)) =
     (case answer_type q of None \<Rightarrow> False | Some ty \<Rightarrow> \<kappa> = (ref, ty, request_id q))"
  by (cases \<kappa>; auto split: option.splits)+

lemma owed_log [simp]: "owed \<kappa> (r_log r x) = owed \<kappa> r + of_bool (is_response \<kappa> x)"
  by (simp add: owed_def)

lemma owed_upd [simp]: "owed \<kappa> (r_upd r ref f) = owed \<kappa> r"
  by (simp add: owed_def)

lemma owed_task [simp]: "owed \<kappa> (r_add_task r t) = owed \<kappa> r + of_bool (task_key t = Some \<kappa>)"
  by (simp add: owed_def)

lemma owed_send: "owed \<kappa> (r_send r ref m) \<le> owed \<kappa> r + of_bool (is_response \<kappa> (OSend ref m))"
  by (simp add: r_send_open)

lemma owed_send_Ntf [simp]: "owed \<kappa> (r_send r ref (Ntf n)) = owed \<kappa> r"
  by (simp add: r_send_open)

lemma owed_done:
  assumes "map_of (r_tasks r) k = Some t"
  shows "owed \<kappa> (r_del_task r k) + of_bool (task_key t = Some \<kappa>) \<le> owed \<kappa> r"
  using tally_drop_key[OF map_of_SomeD[OF assms], of "\<lambda>x. task_key (snd x) = Some \<kappa>"]
  by (simp add: owed_def)

lemma owed_consume_run: "owed \<kappa> (consume_run r k pref cref pid pos) = owed \<kappa> r + of_bool (outer_key k = Some \<kappa>)"
  by (auto simp: consume_run_def split: option.splits)

lemma owed_consume_client:
  "owed \<kappa> (consume_client r k pid cid) = owed \<kappa> r + of_bool (outer_key k = Some \<kappa>)"
  by (auto simp: consume_client_def owed_consume_run split: option.splits)

lemma owed_join_loop:
  "owed \<kappa> (join_loop jwt now r ref cid i pos) \<le>
     owed \<kappa> r + of_bool (\<kappa> = (ref, ''join-call-response'', i))"
  using owed_send[of \<kappa> r ref "Rsp (JoinCallResponse i (r_callId r) (access_token jwt now r cid))"]
  by (auto simp: join_loop_def owed_consume_client split: option.splits)

lemma owed_produce_loop: "owed \<kappa> (produce_loop r ref cid pos) \<le> owed \<kappa> r"
  by (auto simp: produce_loop_def owed_consume_client split: option.splits)

lemma owed_resume_outer:
  "owed \<kappa> (resume_outer jwt now r k) \<le> owed \<kappa> r + of_bool (outer_key k = Some \<kappa>)"
proof (cases k)
  case (JoinLoop ref i pos)
  then show ?thesis
    using owed_join_loop[of \<kappa> jwt now r ref _ i pos] by (auto split: option.splits)
next
  case (ProduceLoop ref pos)
  then show ?thesis
    using owed_produce_loop[of \<kappa> r ref _ pos] by (auto split: option.splits)
qed

lemma owed_consumer_created:
  "owed \<kappa> (consumer_created r k pref cref pid pos p co) = owed \<kappa> r + of_bool (outer_key k = Some \<kappa>)"
  by (simp add: consumer_created_def Let_def owed_consume_run)

lemma owed_transport_created:
  "owed \<kappa> (transport_created r ref i role t) \<le>
     owed \<kappa> r + of_bool (\<kappa> = (ref, ''create-transport-response'', i))"
proof -
  have "owed \<kappa> (r_send r' ref (Rsp (CreateTransportResponse i t))) \<le>
      owed \<kappa> r' + of_bool (\<kappa> = (ref, ''create-transport-response'', i))" for r'
    using owed_send[of \<kappa> r' ref "Rsp (CreateTransportResponse i t)"] by simp
  from order_trans[OF this] show ?thesis
    unfolding transport_created_def by (simp split: if_split)
qed

lemma owed_producer_created:
  "owed \<kappa> (producer_created r ref i p) \<le>
     owed \<kappa> r + of_bool (\<kappa> = (ref, ''create-producer-response'', i))"
proof -
  let ?r1 = "r_upd r ref (\<lambda>c. c\<lparr>c_producers := map_set (c_producers c) (p_id p) p\<rparr>)"
  have "owed \<kappa> (r_send ?r1 ref (Rsp (CreateProducerResponse i (p_id p)))) \<le>
      owed \<kappa> r + of_bool (\<kappa> = (ref, ''create-producer-response'', i))"
    using owed_send[of \<kappa> ?r1 ref "Rsp (CreateProducerResponse i (p_id p))"] by simp
  then show ?thesis
    unfolding producer_created_def Let_def
    by (auto split: option.splits intro: order_trans[OF owed_produce_loop])
qed

lemma owed_room_continue:
  "owed \<kappa> (room_continue jwt now r t a) \<le> owed \<kappa> r + of_bool (task_key t = Some \<kappa>)"
proof (cases t)
  case (TCreate ref i role)
  then show ?thesis
    using owed_transport_created[of \<kappa> r ref i role] by (auto split: answer.splits)
next
  case (TProduce ref i)
  then show ?thesis
    using owed_producer_created[of \<kappa> r ref i] by (auto split: answer.splits)
next
  case (TPause ref i)
  then show ?thesis
    using owed_send[of \<kappa> r ref "Rsp (PauseProducerResponse i)"] by auto
next
  case (TResume ref i)
  then show ?thesis
    using owed_send[of \<kappa> r ref "Rsp (PauseProducerResponse i)"] by auto
next
  case (TConsumed k)
  then show ?thesis
    using owed_resume_outer by simp
qed (auto simp: owed_consumer_created split: answer.splits)

lemma owed_room_handle:
  "owed \<kappa> (room_handle jwt now r ref c m) \<le> owed \<kappa> r + of_bool (is_request \<kappa> (ORecv ref m))"
proof -
  have "owed \<kappa> (r_send r ref (Rsp (GetRouterCapabilitiesResponse i caps))) \<le>
      owed \<kappa> r + of_bool (\<kappa> = (ref, ''get-router-capabilities-response'', i))" for i caps
    using owed_send[of \<kappa> r ref "Rsp (GetRouterCapabilitiesResponse i caps)"] by simp
  then show ?thesis
    using owed_join_loop
    by (cases "(jwt, now, r, ref, c, m)" rule: room_handle.cases)
      (auto simp: handler_defs split: option.splits)
qed

lemma owed_run_callback [simp]: "owed \<kappa> (run_callback r cb) = owed \<kappa> r"
  by (cases cb) (auto split: option.splits simp del: r_upd_simps)

lemma owed_run_callbacks [simp]: "owed \<kappa> (foldl run_callback r cbs) = owed \<kappa> r"
  by (induction cbs arbitrary: r) simp_all

lemma owed_frame [simp]:
  "owed \<kappa> (r\<lparr>r_closed := b\<rparr>) = owed \<kappa> r" "owed \<kappa> (r\<lparr>r_clients := m\<rparr>) = owed \<kappa> r"
  "owed \<kappa> (room_add r cid uid) = owed \<kappa> r"
  by (simp_all add: owed_def)

lemma owed_room_close [simp]: "owed \<kappa> (room_close r cbs) = owed \<kappa> r"
  by (simp add: room_close_def)

lemma owed_close_transport [simp]: "owed \<kappa> (close_transport r t cbs) = owed \<kappa> r"
  by (simp add: close_transport_def split: option.splits)

lemma owed_on_close [simp]: "owed \<kappa> (on_close r ref c snds rcvs routers) = owed \<kappa> r"
  by (simp add: on_close_def Let_def)

section \<open>The invariant\<close>

definition reply_inv :: "room \<Rightarrow> bool" where
  "reply_inv r \<longleftrightarrow> (\<forall>\<kappa>. owed \<kappa> r \<le> requested \<kappa> r)"

lemma requested_log [simp]: "requested \<kappa> (r_log r x) = requested \<kappa> r + of_bool (is_request \<kappa> x)"
  by (simp add: requested_def)

lemma requested_grows: "r_trace r' = r_trace r @ os \<Longrightarrow> requested \<kappa> r \<le> requested \<kappa> r'"
  by (simp add: requested_def)

lemma requested_micros: "micros r r' \<Longrightarrow> requested \<kappa> r \<le> requested \<kappa> r'"
  using micros_trace_grows requested_grows by blast

lemma owed_room_step:
  assumes "room_inv r"
  shows "owed \<kappa> (room_step jwt r e) + requested \<kappa> r \<le> owed \<kappa> r + requested \<kappa> (room_step jwt r e)"
proof -
  have grows: "requested \<kappa> r \<le> requested \<kappa> (room_step jwt r e)"
    using assms by (intro requested_micros micros_room_step) (auto simp: room_inv_def)
  show ?thesis
  proof (cases e)
    case (Receive now ref m)
    show ?thesis
    proof (cases "is_open r ref")
      case True
      then obtain c where c: "r_objs r ref = Some c" "\<not> c_closed c"
        by (auto simp: is_open_def split: option.splits)
      let ?r1 = "r_log r (ORecv ref m)"
      have "room_wf ?r1"
        using assms True by (auto simp: room_inv_def intro: micro_wf micro_recv)
      then have "requested \<kappa> ?r1 \<le> requested \<kappa> (room_handle jwt now ?r1 ref c m)"
        by (intro requested_micros micros_room_handle)
      moreover have "owed \<kappa> (room_handle jwt now ?r1 ref c m) \<le>
          owed \<kappa> r + of_bool (is_request \<kappa> (ORecv ref m))"
        using owed_room_handle[of \<kappa> jwt now ?r1 ref c m] by simp
      ultimately show ?thesis
        using Receive c by (simp add: room_receive_def)
    next
      case False
      with Receive show ?thesis
        by (auto simp: room_receive_def is_open_def split: option.splits)
    qed
  next
    case (Resume now k a)
    have "owed \<kappa> (room_continue jwt now (r_del_task r k) t a) \<le> owed \<kappa> r"
      if "map_of (r_tasks r) k = Some t" for t
      using owed_room_continue[of \<kappa> jwt now "r_del_task r k" t a] owed_done[OF that, of \<kappa>]
      by linarith
    then have "owed \<kappa> (room_resume jwt now r k a) \<le> owed \<kappa> r"
      by (simp add: room_resume_def split: option.splits)
    with Resume grows show ?thesis by simp
  next
    case (SocketClosed ref snds rcvs routers)
    then have "owed \<kappa> (room_step jwt r e) = owed \<kappa> r"
      by (simp add: socket_closed_def Let_def split: option.splits del: r_upd_simps)
    with grows show ?thesis by simp
  next
    case (CloseFrame ref snds rcvs routers)
    then have "owed \<kappa> (room_step jwt r e) = owed \<kappa> r"
      by (simp add: close_frame_def split: option.splits del: r_upd_simps)
    with grows show ?thesis by simp
  next
    case (RouterClosed cbs)
    then have "owed \<kappa> (room_step jwt r e) = owed \<kappa> r"
      by (simp add: router_closed_def)
    with grows show ?thesis by simp
  qed (use grows in simp_all)
qed

lemma reply_inv_step: "room_inv r \<and> reply_inv r \<Longrightarrow> room_inv (room_step jwt r e) \<and> reply_inv (room_step jwt r e)"
  using owed_room_step[of r _ jwt e] room_inv_step[of r jwt e] unfolding reply_inv_def
  by (metis add.commute add_le_cancel_left add_mono order_trans)

interpretation reply: free_invariant_system "room_step jwt" "\<lambda>r. room_inv r \<and> reply_inv r" for jwt
  by unfold_locales (rule reply_inv_step)

lemma solicited:
  "tally (is_response \<kappa>) (r_trace (room_run jwt (room_new i key caps ip a) es)) +
   tally (\<lambda>x. task_key (snd x) = Some \<kappa>) (r_tasks (room_run jwt (room_new i key caps ip a) es))
   \<le> tally (is_request \<kappa>) (r_trace (room_run jwt (room_new i key caps ip a) es))"
proof -
  have "reply_inv (room_new i key caps ip a)"
    by (simp add: reply_inv_def owed_def room_new_def)
  then have "reply_inv (room_run jwt (room_new i key caps ip a) es)"
    unfolding room_run_def using reply.free_run_inv room_inv_new by blast
  then have "owed \<kappa> (room_run jwt (room_new i key caps ip a) es)
      \<le> requested \<kappa> (room_run jwt (room_new i key caps ip a) es)"
    unfolding reply_inv_def by (rule spec)
  then show ?thesis
    by (simp only: owed_def requested_def)
qed

lemma answer_type_resume: "answer_type q \<noteq> Some ''resume-producer-response''"
  by (cases q) simp_all

text \<open>
  C12. Request and response correlate. In every reachable state, for every connection, response
  type and request id: the responses that were sent and the ones that suspended handlers
  still owe are together no more than the requests with that id that were received on that
  connection and are answered by that type. So no response is unsolicited, none goes to
  another connection, and none is sent twice for one request.
\<close>

theorem responses_are_solicited:
  "tally (is_response \<kappa>) (r_trace (room_run jwt (room_new i key caps ip a) es)) +
   tally (\<lambda>x. task_key (snd x) = Some \<kappa>) (r_tasks (room_run jwt (room_new i key caps ip a) es))
   \<le> tally (is_request \<kappa>) (r_trace (room_run jwt (room_new i key caps ip a) es))"
  by (rule solicited)

text \<open>
  The room never sends a \<open>ResumeProducerResponse\<close>, whatever it is asked: the handler of
  \<open>resume-producer-request\<close> answers with the response of \<open>pause-producer-request\<close>.
\<close>

theorem resume_response_never_sent:
  "OSend ref (Rsp (ResumeProducerResponse n)) \<notin> set (r_trace (room_run jwt (room_new i key caps ip a) es))"
proof
  let ?t = "r_trace (room_run jwt (room_new i key caps ip a) es)"
  let ?k = "(ref, ''resume-producer-response'', n)"
  assume "OSend ref (Rsp (ResumeProducerResponse n)) \<in> set ?t"
  then have "0 < tally (is_response ?k) ?t"
    unfolding tally_pos by (rule bexI[rotated]) simp
  moreover have "tally (is_request ?k) ?t = 0"
  proof (rule tally_zero)
    fix x
    show "\<not> is_request ?k x"
      using answer_type_resume by (cases "(?k, x)" rule: is_request.cases) (auto split: option.splits)
  qed
  ultimately show False
    using solicited[of ?k jwt i key caps ip a es] by simp
qed

end
