(* ===== verification/RoomTransport.thy ===== *)
theory RoomTransport
  imports RoomDelivery RoomReply
begin

text \<open>
  What a response to \<open>create-transport-request\<close> says about the room: the request was received on that
  connection, and when it asked for a consuming transport the client object has one, for good. Likewise
  capabilities that were announced stay, as long as every announcement carries some.
\<close>

section \<open>Capabilities and the receiving transport\<close>

definition has_caps :: "room \<Rightarrow> nat \<Rightarrow> bool" where
  "has_caps r ref \<longleftrightarrow> (\<exists>c. r_objs r ref = Some c \<and> js_truthy (c_rtpCapabilities c))"

definition has_rcv :: "room \<Rightarrow> nat \<Rightarrow> bool" where
  "has_rcv r ref \<longleftrightarrow> (\<exists>c. r_objs r ref = Some c \<and> c_rcvTransport c \<noteq> None)"

lemma has_caps_rcv_ready: "has_caps r ref \<Longrightarrow> has_rcv r ref \<Longrightarrow> r_objs r ref = Some c \<Longrightarrow> ready c"
  by (auto simp: has_caps_def has_rcv_def ready_def)

text \<open>Steps that create no transport and announce nothing; they forget nothing either.\<close>

definition neutral :: "room \<Rightarrow> room \<Rightarrow> bool" where
  "neutral r r' \<longleftrightarrow>
     set (r_trace r) \<subseteq> set (r_trace r') \<and>
     (\<forall>ref i t. OSend ref (Rsp (CreateTransportResponse i t)) \<in> set (r_trace r') \<longrightarrow>
        OSend ref (Rsp (CreateTransportResponse i t)) \<in> set (r_trace r)) \<and>
     (\<forall>ref i role. TCreate ref i role \<in> snd ` set (r_tasks r') \<longrightarrow> TCreate ref i role \<in> snd ` set (r_tasks r)) \<and>
     (\<forall>ref. (has_caps r ref \<longrightarrow> has_caps r' ref) \<and> (has_rcv r ref \<longrightarrow> has_rcv r' ref))"

named_theorems neutral_intros \<open>operations that are neutral to transports\<close>

lemma neutral_refl [simp, neutral_intros]: "neutral r r"
  by (simp add: neutral_def)

lemma neutral_trans: "neutral r r' \<Longrightarrow> neutral r' r'' \<Longrightarrow> neutral r r''"
  unfolding neutral_def by (elim conjE, intro conjI) (meson subset_trans | blast)+

fun is_transport_response :: "message \<Rightarrow> bool" where
  "is_transport_response (Rsp (CreateTransportResponse _ _)) = True"
| "is_transport_response _ = False"

fun is_create :: "task \<Rightarrow> bool" where
  "is_create (TCreate _ _ _) = True"
| "is_create _ = False"

lemma neutral_same_objs:
  assumes "r_objs r' = r_objs r" "set (r_trace r) \<subseteq> set (r_trace r')"
    and "\<And>ref i t. OSend ref (Rsp (CreateTransportResponse i t)) \<in> set (r_trace r') \<Longrightarrow>
      OSend ref (Rsp (CreateTransportResponse i t)) \<in> set (r_trace r)"
    and "\<And>ref i role. TCreate ref i role \<in> snd ` set (r_tasks r') \<Longrightarrow> TCreate ref i role \<in> snd ` set (r_tasks r)"
  shows "neutral r r'"
  using assms unfolding neutral_def has_caps_def has_rcv_def by simp

lemma neutral_log [neutral_intros]: "(\<And>ref m. x = OSend ref m \<Longrightarrow> \<not> is_transport_response m) \<Longrightarrow> neutral r (r_log r x)"
  by (rule neutral_same_objs) force+

lemma neutral_send [neutral_intros]: "\<not> is_transport_response m \<Longrightarrow> neutral r (r_send r ref m)"
  by (auto simp: r_send_open intro: neutral_log)

lemma neutral_task [neutral_intros]: "\<not> is_create t \<Longrightarrow> neutral r (r_add_task r t)"
  by (rule neutral_same_objs) auto

lemma neutral_log_task: "(\<And>ref m. x \<noteq> OSend ref m) \<Longrightarrow> \<not> is_create t \<Longrightarrow> neutral r (r_add_task (r_log r x) t)"
  by (rule neutral_trans[OF neutral_log neutral_task]) auto

lemma neutral_done [neutral_intros]: "neutral r (r_del_task r k)"
  by (rule neutral_same_objs) auto

lemma neutral_upd [neutral_intros]:
  assumes "\<And>c. js_truthy (c_rtpCapabilities c) \<Longrightarrow> js_truthy (c_rtpCapabilities (f c))"
    and "\<And>c. c_rcvTransport c \<noteq> None \<Longrightarrow> c_rcvTransport (f c) \<noteq> None"
  shows "neutral r (r_upd r ref f)"
  using assms by (auto simp: neutral_def has_caps_def has_rcv_def)

lemma neutral_upd_send: "\<not> is_transport_response m \<Longrightarrow>
   (\<And>c. c_rtpCapabilities (f c) = c_rtpCapabilities c \<and> c_rcvTransport (f c) = c_rcvTransport c) \<Longrightarrow>
   neutral r (r_send (r_upd r ref f) ref' m)"
  by (rule neutral_trans[OF neutral_upd neutral_send]) auto

lemma neutral_fields [neutral_intros]:
  "neutral r (r\<lparr>r_closed := b\<rparr>)" "neutral r (r\<lparr>r_clients := m\<rparr>)"
  by (rule neutral_same_objs; auto)+

lemma neutral_add [neutral_intros]: "room_wf r \<Longrightarrow> neutral r (room_add r cid uid)"
  using room_wf_fresh[of r] by (auto simp: neutral_def has_caps_def has_rcv_def)

lemma neutral_consume_run [neutral_intros]: "neutral r (consume_run r k pref cref pid pos)"
  by (auto simp: consume_run_def intro: neutral_task neutral_log_task split: option.split)

lemma neutral_consume_client [neutral_intros]: "neutral r (consume_client r k pid cid)"
  by (auto simp: consume_client_def intro: neutral_intros split: option.split)

lemma neutral_loops [neutral_intros]:
  "neutral r (join_loop jwt now r ref cid i pos)" "neutral r (produce_loop r ref cid pos)"
  by (auto simp: join_loop_def produce_loop_def intro: neutral_intros split: option.split)

lemma neutral_resume_outer [neutral_intros]: "neutral r (resume_outer jwt now r k)"
  by (cases k) (auto intro: neutral_intros split: option.split)

lemma neutral_consumer_created [neutral_intros]: "neutral r (consumer_created r k pref cref pid pos p co)"
  unfolding consumer_created_def Let_def
  by (rule neutral_trans[OF neutral_upd_send neutral_consume_run]) simp_all

lemma neutral_producer_created [neutral_intros]: "neutral r (producer_created r ref i p)"
  unfolding producer_created_def Let_def
  by (auto simp del: r_upd_simps r_send_simps split: option.split
      intro: neutral_upd_send neutral_trans[OF neutral_upd_send neutral_loops(2)])

lemma neutral_callback [neutral_intros]: "neutral r (run_callback r cb)"
  by (cases cb) (auto simp del: r_upd_simps split: option.split intro: neutral_upd neutral_upd_send)

lemma neutral_callbacks [neutral_intros]: "neutral r (foldl run_callback r cbs)"
  by (induction cbs arbitrary: r) (auto intro: neutral_trans[OF neutral_callback])

lemma neutral_room_close [neutral_intros]: "neutral r (room_close r cbs)"
proof -
  have "neutral r (r_log (r\<lparr>r_closed := True\<rparr>) OCloseRouter)"
    by (rule neutral_trans[OF neutral_fields(1) neutral_log]) simp
  then have "neutral r (foldl run_callback (r_log (r\<lparr>r_closed := True\<rparr>) OCloseRouter) cbs)"
    using neutral_callbacks by (rule neutral_trans)
  then have "neutral r (r_log (foldl run_callback (r_log (r\<lparr>r_closed := True\<rparr>) OCloseRouter) cbs) OOnClosed)"
    by (rule neutral_trans[OF _ neutral_log]) simp
  then show ?thesis
    by (simp add: room_close_def)
qed

lemma neutral_close_transport [neutral_intros]: "neutral r (close_transport r t cbs)"
  by (auto simp: close_transport_def intro: neutral_trans[OF neutral_log neutral_callbacks] split: option.split)

lemma neutral_on_close [neutral_intros]: "neutral r (on_close r ref c snds rcvs routers)"
proof -
  have n: "neutral r (r'\<lparr>r_clients := m\<rparr>)" if "neutral r r'" for r' m
    by (rule neutral_trans[OF that neutral_fields(2)])
  show ?thesis
    unfolding on_close_def Let_def
    by (auto intro!: n neutral_trans[OF n neutral_room_close] neutral_trans[OF neutral_close_transport neutral_close_transport])
qed

lemma neutral_leave:
  assumes "\<And>c. c_rtpCapabilities (f c) = c_rtpCapabilities c \<and> c_rcvTransport (f c) = c_rcvTransport c"
  shows "neutral r (on_close (r_upd r ref f) ref c snds rcvs routers)"
  by (rule neutral_trans[OF neutral_upd neutral_on_close]) (use assms in auto)

section \<open>The invariant\<close>

definition transport_inv :: "room \<Rightarrow> bool" where
  "transport_inv r \<longleftrightarrow>
     (\<forall>ref i role. TCreate ref i role \<in> snd ` set (r_tasks r) \<longrightarrow>
        ORecv ref (Req (CreateTransportRequest i role)) \<in> set (r_trace r)) \<and>
     (\<forall>ref i t. OSend ref (Rsp (CreateTransportResponse i t)) \<in> set (r_trace r) \<longrightarrow>
        (\<exists>role. ORecv ref (Req (CreateTransportRequest i role)) \<in> set (r_trace r) \<and>
           (role = ''consuming'' \<longrightarrow> has_rcv r ref)))"

lemma transport_neutral: "transport_inv r \<Longrightarrow> neutral r r' \<Longrightarrow> transport_inv r'"
  unfolding transport_inv_def neutral_def by (meson subsetD)

text \<open>The two operations that are not neutral.\<close>

lemma transport_create:
  assumes "transport_inv r" "ORecv ref (Req (CreateTransportRequest i role)) \<in> set (r_trace r)"
  shows "transport_inv (on_create_transport r ref c i role)"
proof -
  have "has_rcv (r_add_task (r_log r x) t) n = has_rcv r n" for x t n
    by (simp add: has_rcv_def)
  then show ?thesis
    using assms by (auto simp: on_create_transport_def transport_inv_def)
qed

lemma transport_created_inv:
  assumes "transport_inv r" "ORecv ref (Req (CreateTransportRequest i role)) \<in> set (r_trace r)"
    and "is_open r ref"
  shows "transport_inv (transport_created r ref i role t)"
proof -
  define r1 where "r1 = (if role = ''producing'' then r_upd r ref (\<lambda>c. c\<lparr>c_sndTransport := Some t\<rparr>)
    else if role = ''consuming'' then r_upd r ref (\<lambda>c. c\<lparr>c_rcvTransport := Some t\<rparr>) else r)"
  have n: "neutral r r1"
    unfolding r1_def by (simp add: neutral_upd)
  have rcv: "role = ''consuming'' \<longrightarrow> has_rcv r1 ref"
    using assms(3) by (auto simp: r1_def has_rcv_def is_open_def split: option.splits)
  have inv: "transport_inv r1"
    by (rule transport_neutral[OF assms(1) n])
  have rq: "ORecv ref (Req (CreateTransportRequest i role)) \<in> set (r_trace r1)"
    using n assms(2) by (auto simp: neutral_def)
  have hr: "has_rcv (r_send r1 ref m) n = has_rcv r1 n" for m n
    by (simp add: has_rcv_def)
  let ?r = "r_send r1 ref (Rsp (CreateTransportResponse i t))"
  have sub: "set (r_trace r1) \<subseteq> set (r_trace ?r)"
    by (simp add: r_send_trace)
  have "transport_inv ?r"
    unfolding transport_inv_def
  proof (intro conjI allI impI)
    show "ORecv n (Req (CreateTransportRequest j rl)) \<in> set (r_trace ?r)"
      if "TCreate n j rl \<in> snd ` set (r_tasks ?r)" for n j rl
      using inv that sub unfolding transport_inv_def r_send_simps by blast
    fix n j u
    assume "OSend n (Rsp (CreateTransportResponse j u)) \<in> set (r_trace ?r)"
    then consider "OSend n (Rsp (CreateTransportResponse j u)) \<in> set (r_trace r1)" | "n = ref" "j = i"
      by (auto simp: r_send_trace split: if_splits)
    then show "\<exists>role. ORecv n (Req (CreateTransportRequest j role)) \<in> set (r_trace ?r) \<and>
        (role = ''consuming'' \<longrightarrow> has_rcv ?r n)"
    proof cases
      case 1
      then show ?thesis
        using inv sub unfolding transport_inv_def hr by blast
    next
      case 2
      then show ?thesis
        using rq rcv sub unfolding hr by blast
    qed
  qed
  then show ?thesis
    by (simp add: transport_created_def r1_def)
qed

lemma transport_created_closed:
  assumes "transport_inv r" "\<not> is_open r ref"
  shows "transport_inv (transport_created r ref i role t)"
proof -
  have "neutral r (r_upd r ref (\<lambda>c. c\<lparr>c_sndTransport := Some t\<rparr>))" "neutral r (r_upd r ref (\<lambda>c. c\<lparr>c_rcvTransport := Some t\<rparr>))"
    by (simp_all add: neutral_upd)
  moreover have "\<not> is_open (r_upd r ref (\<lambda>c. c\<lparr>c_sndTransport := Some t\<rparr>)) ref"
    "\<not> is_open (r_upd r ref (\<lambda>c. c\<lparr>c_rcvTransport := Some t\<rparr>)) ref"
    using assms(2) by (auto simp: is_open_def split: option.splits)
  ultimately show ?thesis
    using assms transport_neutral[OF assms(1)] by (simp add: transport_created_def r_send_open del: r_upd_simps)
qed

text \<open>A step of the room is neutral, or it is one of three.\<close>

lemma room_step_kinds [consumes 1, case_names neutral caps create created]:
  assumes wf: "room_wf r"
  obtains "neutral r (room_step jwt r e)"
  | now ref v where "e = Receive now ref (Ntf (ClientRtpCapabilitiesNotification v))"
      "room_step jwt r e = r_upd (r_log r (ORecv ref (Ntf (ClientRtpCapabilitiesNotification v)))) ref
        (\<lambda>c. c\<lparr>c_rtpCapabilities := Some v\<rparr>)"
  | ref i role c where "room_step jwt r e =
      on_create_transport (r_log r (ORecv ref (Req (CreateTransportRequest i role)))) ref c i role"
  | k ref i role t where "TCreate ref i role \<in> snd ` set (r_tasks r)"
      "room_step jwt r e = transport_created (r_del_task r k) ref i role t"
proof (cases e)
  case (Receive now ref m)
  show ?thesis
  proof (cases "is_open r ref")
    case False
    then have "neutral r (room_step jwt r e)"
      using Receive by (auto simp: room_receive_def is_open_def split: option.split)
    then show ?thesis by (rule that(1))
  next
    case True
    then obtain c where c: "r_objs r ref = Some c" "\<not> c_closed c"
      by (auto simp: is_open_def split: option.splits)
    let ?r1 = "r_log r (ORecv ref m)"
    have e: "room_step jwt r e = room_handle jwt now ?r1 ref c m"
      using Receive c by (simp add: room_receive_def)
    have n: "neutral r r'" if "neutral ?r1 r'" for r'
      by (rule neutral_trans[OF neutral_log that]) simp
    have "(\<exists>v. m = Ntf (ClientRtpCapabilitiesNotification v)) \<or> (\<exists>i role. m = Req (CreateTransportRequest i role)) \<or>
        neutral ?r1 (room_handle jwt now ?r1 ref c m)"
      by (cases "(jwt, now, ?r1, ref, c, m)" rule: room_handle.cases)
        (auto simp: on_get_router_capabilities_def on_transport_connected_def on_create_producer_def
          on_pause_producer_def on_resume_producer_def
          intro!: neutral_loops neutral_send neutral_log_task split: option.splits)
    then consider v where "m = Ntf (ClientRtpCapabilitiesNotification v)" | i role where "m = Req (CreateTransportRequest i role)"
      | "neutral ?r1 (room_handle jwt now ?r1 ref c m)"
      by blast
    then show ?thesis
    proof cases
      case 1
      then show ?thesis
        using e Receive by (intro that(2)[of now ref v]) (simp_all add: on_client_rtp_capabilities_def)
    next
      case 2
      then show ?thesis
        using e by (intro that(3)[of ref i role c]) simp
    next
      case 3
      then show ?thesis
        using n e by (intro that(1)) simp
    qed
  qed
next
  case (Resume now k a)
  let ?r0 = "r_del_task r k"
  have n: "neutral r r'" if "neutral ?r0 r'" for r'
    by (rule neutral_trans[OF neutral_done that])
  show ?thesis
  proof (cases "map_of (r_tasks r) k")
    case None
    with Resume show ?thesis by (intro that(1)) (simp add: room_resume_def)
  next
    case (Some t)
    show ?thesis
    proof (cases "\<exists>ref i role u. t = TCreate ref i role \<and> a = ATransport u")
      case True
      then obtain ref i role u where t: "t = TCreate ref i role" "a = ATransport u"
        by blast
      have "TCreate ref i role \<in> snd ` set (r_tasks r)"
        using map_of_SomeD[OF Some] t by force
      with Resume Some t show ?thesis
        by (intro that(4)[of ref i role k u]) (simp_all add: room_resume_def)
    next
      case False
      have "neutral ?r0 (room_continue jwt now ?r0 t a)"
        using False by (cases t) (auto intro!: neutral_intros split: answer.split)
      with Resume Some n show ?thesis
        by (intro that(1)) (simp add: room_resume_def)
    qed
  qed
next
  case (SocketClosed ref snds rcvs routers)
  then have "neutral r (room_step jwt r e)"
    by (auto simp: socket_closed_def Let_def simp del: r_upd_simps split: option.split intro!: neutral_leave neutral_upd)
  then show ?thesis by (rule that(1))
next
  case (CloseFrame ref snds rcvs routers)
  then have "neutral r (room_step jwt r e)"
    by (auto simp: close_frame_def simp del: r_upd_simps split: option.split intro!: neutral_leave)
  then show ?thesis by (rule that(1))
next
  case (RouterClosed cbs)
  have "neutral r (foldl run_callback (r\<lparr>r_closed := True\<rparr>) cbs)"
    by (rule neutral_trans[OF neutral_fields(1) neutral_callbacks])
  then have "neutral r (router_closed r cbs)"
    unfolding router_closed_def by (auto intro: neutral_trans[OF _ neutral_room_close])
  with RouterClosed show ?thesis
    by (intro that(1)) simp
qed (auto intro!: that(1) neutral_intros wf)

lemma transport_step:
  assumes inv: "transport_inv r" and wf: "room_wf r"
  shows "transport_inv (room_step jwt r e)"
  using wf
proof (cases rule: room_step_kinds[where jwt = jwt and e = e])
  case neutral
  then show ?thesis by (rule transport_neutral[OF inv])
next
  case (caps now ref v)
  let ?r1 = "r_log r (ORecv ref (Ntf (ClientRtpCapabilitiesNotification v)))"
  have "transport_inv ?r1"
    by (rule transport_neutral[OF inv neutral_log]) simp
  moreover have "has_rcv (r_upd ?r1 ref (\<lambda>c. c\<lparr>c_rtpCapabilities := Some v\<rparr>)) n = has_rcv ?r1 n" for n
    by (auto simp: has_rcv_def)
  ultimately show ?thesis
    unfolding caps(2) by (simp add: transport_inv_def)
next
  case (create ref i role c)
  have "transport_inv (r_log r (ORecv ref (Req (CreateTransportRequest i role))))"
    by (rule transport_neutral[OF inv neutral_log]) simp
  then show ?thesis
    unfolding create by (rule transport_create) simp
next
  case (created k ref i role t)
  have "transport_inv (r_del_task r k)"
    by (rule transport_neutral[OF inv neutral_done])
  moreover have "ORecv ref (Req (CreateTransportRequest i role)) \<in> set (r_trace (r_del_task r k))"
    using inv created(1) by (simp add: transport_inv_def)
  ultimately show ?thesis
    unfolding created(2) using transport_created_inv transport_created_closed by blast
qed

text \<open>Nothing is forgotten when all announced capabilities are truthy.\<close>

lemma step_remembers:
  assumes wf: "room_wf r" and ok: "mesh_ok r e"
  shows "has_caps r n \<Longrightarrow> has_caps (room_step jwt r e) n" and "has_rcv r n \<Longrightarrow> has_rcv (room_step jwt r e) n"
proof -
  have "(has_caps r n \<longrightarrow> has_caps (room_step jwt r e) n) \<and> (has_rcv r n \<longrightarrow> has_rcv (room_step jwt r e) n)"
    using wf
  proof (cases rule: room_step_kinds[where jwt = jwt and e = e])
    case neutral
    then show ?thesis by (simp add: neutral_def)
  next
    case (caps now ref v)
    then show ?thesis
      using ok unfolding caps(2) by (auto simp: mesh_ok_def has_caps_def has_rcv_def)
  next
    case (create ref i role c)
    then show ?thesis
      by (simp add: on_create_transport_def has_caps_def has_rcv_def)
  next
    case (created k ref i role t)
    then show ?thesis
      by (auto simp: transport_created_def has_caps_def has_rcv_def)
  qed
  then show "has_caps r n \<Longrightarrow> has_caps (room_step jwt r e) n" and "has_rcv r n \<Longrightarrow> has_rcv (room_step jwt r e) n"
    by blast+
qed

lemma caps_received:
  assumes "is_open r ref" "js_truthy (Some v)"
  shows "has_caps (room_step jwt r (Receive now ref (Ntf (ClientRtpCapabilitiesNotification v)))) ref"
  using assms by (auto simp: is_open_def has_caps_def room_receive_def on_client_rtp_capabilities_def split: option.splits)

lemma transport_inv_new: "transport_inv (room_new i k caps ip a)"
  by (simp add: transport_inv_def room_new_def)

section \<open>What was received\<close>

definition room_heard :: "room \<Rightarrow> nat \<Rightarrow> message \<Rightarrow> bool" where
  "room_heard r n m \<longleftrightarrow> ORecv n m \<in> set (r_trace r)"

lemma calms_received: "calms r r' \<Longrightarrow> room_heard r' n m = room_heard r n m"
  by (induction rule: rtranclp_induct) (auto simp: room_heard_def calm_frame)

lemma room_heard_frame [simp]:
  "room_heard (r\<lparr>r_closed := b\<rparr>) n m = room_heard r n m" "room_heard (r\<lparr>r_clients := t\<rparr>) n m = room_heard r n m"
  "room_heard (r_upd r ref f) n m = room_heard r n m" "room_heard (r_log r OCloseRouter) n m = room_heard r n m"
  "room_heard (r_log r OOnClosed) n m = room_heard r n m" "room_heard (room_add r cid uid) n m = room_heard r n m"
  "room_heard (r_del_task r k) n m = room_heard r n m"
  "room_heard (r_log r (ORecv ref m')) n m \<longleftrightarrow> room_heard r n m \<or> ref = n \<and> m' = m"
  by (auto simp: room_heard_def)

lemma room_heard_close [simp]:
  "room_heard (foldl run_callback r cbs) n m = room_heard r n m"
  "room_heard (room_close r cbs) n m = room_heard r n m" "room_heard (close_transport r t cbs) n m = room_heard r n m"
  "room_heard (on_close r ref c snds rcvs routers) n m = room_heard r n m"
  by (simp_all add: room_close_def on_close_def Let_def calms_received[OF calms_close_transport]
      calms_received[OF calms_run_callbacks])

text \<open>Exactly the messages that were delivered to an open client.\<close>

lemma room_heard_receive:
  assumes wf: "room_wf r"
  shows "room_heard (room_receive jwt now r ref m') n m \<longleftrightarrow> room_heard r n m \<or> ref = n \<and> m' = m \<and> is_open r n"
proof (cases "is_open r ref")
  case False
  then show ?thesis
    by (auto simp: room_receive_def is_open_def split: option.splits)
next
  case True
  let ?r1 = "r_log r (ORecv ref m')"
  obtain c where e: "room_receive jwt now r ref m' = room_handle jwt now ?r1 ref c m'"
    using True by (auto simp: room_receive_def is_open_def split: option.splits)
  have "room_wf ?r1"
    by (rule micro_wf[OF micro_recv[OF True] wf])
  then consider v where "m' = Ntf (ClientRtpCapabilitiesNotification v)" | "calms ?r1 (room_handle jwt now ?r1 ref c m')"
    using calms_room_handle by blast
  then show ?thesis
    unfolding e
  proof cases
    case 1
    then show "room_heard (room_handle jwt now ?r1 ref c m') n m \<longleftrightarrow> room_heard r n m \<or> ref = n \<and> m' = m \<and> is_open r n"
      using True by (auto simp: on_client_rtp_capabilities_def simp del: r_upd_simps)
  next
    case 2
    show "room_heard (room_handle jwt now ?r1 ref c m') n m \<longleftrightarrow> room_heard r n m \<or> ref = n \<and> m' = m \<and> is_open r n"
      unfolding calms_received[OF 2] using True by auto
  qed
qed

lemma room_heard_step:
  assumes wf: "room_wf r"
  shows "room_heard (room_step jwt r e) n m \<longleftrightarrow> room_heard r n m \<or> (\<exists>now. e = Receive now n m \<and> is_open r n)"
proof (cases e)
  case (Receive now ref m')
  then show ?thesis
    using room_heard_receive[OF wf] by auto
next
  case (Resume now k a)
  then show ?thesis
    using calms_received[OF calms_room_resume[OF wf]] by simp
next
  case (Callback cb)
  then show ?thesis
    using calms_received[OF calms_run_callback] by simp
qed (auto simp: socket_closed_def close_frame_def router_closed_def Let_def simp del: r_upd_simps split: option.split)

definition heard_wf :: "room \<Rightarrow> bool" where
  "heard_wf r \<longleftrightarrow> (\<forall>n m. room_heard r n m \<longrightarrow> r_objs r n \<noteq> None)"

lemma heard_step:
  assumes inv: "room_inv r" and h: "heard_wf r"
  shows "heard_wf (room_step jwt r e)"
proof -
  have wf: "room_wf r" "close_wf r"
    using inv by (simp_all add: room_inv_def)
  have "r_objs (room_step jwt r e) n \<noteq> None" if "r_objs r n \<noteq> None" for n
    using that micros_objs[OF micros_room_step[OF wf] wf(1)] by fastforce
  then show ?thesis
    using h unfolding heard_wf_def room_heard_step[OF wf(1)] by (auto simp: is_open_def split: option.splits)
qed

lemma heard_new: "heard_wf (room_new i k caps ip a)"
  by (simp add: heard_wf_def room_heard_def room_new_def)

section \<open>What was sent to a connection\<close>

fun to_client :: "nat \<Rightarrow> obs \<Rightarrow> message list" where
  "to_client n (OSend ref m) = (if ref = n then [m] else [])"
| "to_client n _ = []"

definition frames_to :: "room \<Rightarrow> nat \<Rightarrow> message list" where
  "frames_to r n = concat (map (to_client n) (r_trace r))"

lemma to_client_mem: "m \<in> set (to_client n x) \<longleftrightarrow> x = OSend n m"
  by (cases x) auto

lemma frames_to_mem: "m \<in> set (frames_to r n) \<longleftrightarrow> OSend n m \<in> set (r_trace r)"
  by (auto simp: frames_to_def to_client_mem)

lemma frames_to_grow:
  assumes "room_inv r"
  shows "\<exists>ms. frames_to (room_step jwt r e) n = frames_to r n @ ms"
  using room.step_trace[OF assms, of jwt e] by (auto simp: frames_to_def)

section \<open>A response has a request\<close>

lemma reply_has_request:
  assumes "reply_inv r" "OSend ref (Rsp p) \<in> set (r_trace r)"
  shows "\<exists>q. room_heard r ref (Req q) \<and> request_id q = response_id p \<and> answer_type q = Some (response_type p)"
proof -
  let ?k = "(ref, response_type p, response_id p)"
  have "0 < tally (is_response ?k) (r_trace r)"
    unfolding tally_pos using assms(2) by (rule bexI[rotated]) simp
  then have "0 < tally (is_request ?k) (r_trace r)"
    using assms(1) unfolding reply_inv_def owed_def requested_def by (metis add_gr_0 less_le_trans)
  then obtain x where x: "x \<in> set (r_trace r)" "is_request ?k x"
    unfolding tally_pos by blast
  then obtain q where "x = ORecv ref (Req q)" "answer_type q = Some (response_type p)" "request_id q = response_id p"
    by (cases "(?k, x)" rule: is_request.cases) (auto split: option.splits)
  with x(1) show ?thesis
    unfolding room_heard_def by blast
qed

lemma reply_inv_new: "reply_inv (room_new i key caps ip a)"
  by (simp add: reply_inv_def owed_def room_new_def)

end
