(* ===== verification/RoomProgress.thy ===== *)
theory RoomProgress
  imports RoomDelivery "HOL-Library.Multiset"
begin

text \<open>
  The handlers of the room finish. What a suspended handler still has to do is measured by how
  much its iterators have in front of them; a continuation replaces a task by at most one with
  less to do, except that a new producer gives the loops over its client more to visit, and
  there are only as many of those as there are pending calls of \<open>produce\<close>. With the delivery
  theorem it follows that media reach everyone once the media library has answered.
\<close>

section \<open>What a task has in front of it\<close>

fun outer_rest :: "room \<Rightarrow> outer \<Rightarrow> nat" where
  "outer_rest r (JoinLoop _ _ pos) = length (map_from (r_clients r) pos)"
| "outer_rest r (ProduceLoop _ pos) = length (map_from (r_clients r) pos)"

definition producer_rest :: "room \<Rightarrow> nat \<Rightarrow> nat \<Rightarrow> nat" where
  "producer_rest r ref pos =
     (case r_objs r ref of None \<Rightarrow> 0 | Some c \<Rightarrow> length (map_from (c_producers c) pos))"

fun task_rank :: "room \<Rightarrow> task \<Rightarrow> nat \<times> nat" where
  "task_rank r (TConsume k pref _ _ pos _) = (outer_rest r k, Suc (producer_rest r pref pos))"
| "task_rank r (TConsumed k) = (outer_rest r k, 0)"
| "task_rank r _ = (0, 0)"

fun is_produce :: "task \<Rightarrow> bool" where
  "is_produce (TProduce _ _) = True"
| "is_produce _ = False"

abbreviation rank_less :: "((nat \<times> nat) \<times> nat \<times> nat) set" where
  "rank_less \<equiv> less_than <*lex*> less_than"

definition room_rank :: "room \<Rightarrow> nat \<times> (nat \<times> nat) multiset" where
  "room_rank r = (length (filter (is_produce \<circ> snd) (r_tasks r)),
     mset (map (task_rank r \<circ> snd) (r_tasks r)))"

abbreviation room_less :: "((nat \<times> (nat \<times> nat) multiset) \<times> nat \<times> (nat \<times> nat) multiset) set" where
  "room_less \<equiv> less_than <*lex*> mult rank_less"

lemma wf_room_less: "wf room_less"
  by (intro wf_lex_prod wf_mult wf_less_than)

text \<open>An iterator that moves behind an entry in front of it has less in front of it.\<close>

lemma map_from_less:
  assumes "(i, e) \<in> set (map_from m pos)"
  shows "length (map_from m (Suc i)) < length (map_from m pos)"
proof -
  have "map_from m (Suc i) = filter (\<lambda>x. Suc i \<le> fst x) (map_from m pos)"
    using assms by (auto simp: map_from_def intro!: filter_cong)
  then show ?thesis
    using length_filter_less[OF assms, of "\<lambda>x. Suc i \<le> fst x"] by simp
qed

lemma next_other_entry: "next_other cid es = Some (pos, k) \<Longrightarrow> \<exists>i e. pos = Suc i \<and> (i, e) \<in> set es"
  by (induction cid es rule: next_other.induct) (auto split: if_splits)

lemma consume_scan_entry:
  "consume_scan c es = Some (pos, p, caps, t) \<Longrightarrow> \<exists>i e. pos = Suc i \<and> (i, e) \<in> set es"
  by (induction c es rule: consume_scan.induct) (auto split: if_splits option.splits)

lemma next_other_less:
  "next_other cid (map_from m pos) = Some (pos', k) \<Longrightarrow> length (map_from m pos') < length (map_from m pos)"
  using next_other_entry map_from_less by metis

lemma consume_scan_less:
  "consume_scan c (map_from m pos) = Some (pos', p, caps, t) \<Longrightarrow>
   length (map_from m pos') < length (map_from m pos)"
  using consume_scan_entry map_from_less by metis

section \<open>What a continuation leaves behind\<close>

text \<open>Changes that leave the ranks alone.\<close>

definition alike :: "room \<Rightarrow> room \<Rightarrow> bool" where
  "alike r r' \<longleftrightarrow> r_clients r' = r_clients r \<and>
     (\<forall>ref. map_option c_producers (r_objs r' ref) = map_option c_producers (r_objs r ref))"

lemma alike_outer_rest: "alike r r' \<Longrightarrow> outer_rest r' k = outer_rest r k"
  by (cases k) (simp_all add: alike_def)

lemma alike_producer_rest: "alike r r' \<Longrightarrow> producer_rest r' ref pos = producer_rest r ref pos"
  unfolding alike_def producer_rest_def
  by (auto split: option.splits) (metis option.simps(3,8,9) option.inject)+

lemma alike_rank: "alike r r' \<Longrightarrow> task_rank r' t = task_rank r t"
  by (cases t) (simp_all add: alike_outer_rest alike_producer_rest)

text \<open>The tasks that a continuation adds rank below \<open>b\<close>, and none waits for \<open>produce\<close>.\<close>

definition spawns :: "room \<Rightarrow> room \<Rightarrow> nat \<times> nat \<Rightarrow> bool" where
  "spawns r r' b \<longleftrightarrow> alike r r' \<and> (\<exists>us. r_tasks r' = r_tasks r @ us \<and>
     (\<forall>u \<in> set us. \<not> is_produce (snd u) \<and> (task_rank r (snd u), b) \<in> rank_less))"

lemma spawns_none: "alike r r' \<Longrightarrow> r_tasks r' = r_tasks r \<Longrightarrow> spawns r r' b"
  by (simp add: spawns_def)

lemma spawns_one:
  "alike r r' \<Longrightarrow> r_tasks r' = r_tasks r @ [(n, t)] \<Longrightarrow> \<not> is_produce t \<Longrightarrow>
   (task_rank r t, b) \<in> rank_less \<Longrightarrow> spawns r r' b"
  by (auto simp: spawns_def)

lemma spawns_after:
  "alike r r1 \<Longrightarrow> r_tasks r1 = r_tasks r \<Longrightarrow> spawns r1 r' b \<Longrightarrow> spawns r r' b"
  unfolding spawns_def by (auto simp: alike_rank) (auto simp: alike_def)

lemma spawns_weaken: "spawns r r' b \<Longrightarrow> (b, b') \<in> rank_less \<Longrightarrow> spawns r r' b'"
  unfolding spawns_def by (meson transD trans_lex_prod trans_less_than)

lemma spawns_consume_run:
  "spawns r (consume_run r k pref cref pid pos) (outer_rest r k, Suc (producer_rest r pref pos))"
proof (cases "r_objs r pref = None \<or> r_objs r cref = None")
  case True
  then show ?thesis
    by (intro spawns_one[where t = "TConsumed k"]) (auto simp: consume_run_def alike_def split: option.splits)
next
  case False
  then obtain pc cc where o: "r_objs r pref = Some pc" "r_objs r cref = Some cc"
    by auto
  show ?thesis
  proof (cases "consume_scan cc (map_from (c_producers pc) pos)")
    case None
    with o show ?thesis
      by (intro spawns_one[where t = "TConsumed k"]) (auto simp: consume_run_def alike_def)
  next
    case (Some x)
    then obtain pos' p caps t where x: "consume_scan cc (map_from (c_producers pc) pos) = Some (pos', p, caps, t)"
      by (cases x) auto
    with o consume_scan_less[OF x] show ?thesis
      by (intro spawns_one[where t = "TConsume k pref cref pid pos' p"])
        (auto simp: consume_run_def alike_def producer_rest_def)
  qed
qed

lemma spawns_consume_client:
  assumes "outer_rest r k < b"
  shows "spawns r (consume_client r k pid cid) (b, 0)"
proof (cases "(map_get (r_clients r) pid, map_get (r_clients r) cid)")
  case (Pair x y)
  show ?thesis
  proof (cases "x = None \<or> y = None")
    case True
    with Pair assms show ?thesis
      by (intro spawns_one[where t = "TConsumed k"])
        (auto simp: consume_client_def alike_def split: option.splits)
  next
    case False
    then obtain pref cref where xy: "x = Some pref" "y = Some cref"
      by auto
    have "spawns r (consume_run r k pref cref pid 0) (b, 0)"
      by (rule spawns_weaken[OF spawns_consume_run]) (use assms in simp)
    with Pair xy show ?thesis
      by (simp add: consume_client_def)
  qed
qed

lemma spawns_join_loop: "spawns r (join_loop jwt now r ref cid i pos) (length (map_from (r_clients r) pos), 0)"
  using next_other_less
  by (auto simp: join_loop_def alike_def split: option.splits intro!: spawns_none spawns_consume_client)

lemma spawns_produce_loop: "spawns r (produce_loop r ref cid pos) (length (map_from (r_clients r) pos), 0)"
  using next_other_less
  by (auto simp: produce_loop_def alike_def split: option.splits intro!: spawns_none spawns_consume_client)

lemma spawns_resume_outer: "spawns r (resume_outer jwt now r k) (outer_rest r k, 0)"
  by (cases k) (auto simp: alike_def split: option.splits intro: spawns_none spawns_join_loop spawns_produce_loop)

lemma spawns_consumer_created:
  "spawns r (consumer_created r k pref cref pid pos p co) (outer_rest r k, Suc (producer_rest r pref pos))"
proof -
  define r1 where "r1 = r_upd r cref (\<lambda>c. c\<lparr>c_consumers := map_set (c_consumers c) (co_id co) co\<rparr>)"
  define r2 where "r2 = r_send r1 cref (Ntf (ConsumerCreatedNotification (co_id co) (p_id p) (co_kind co)
    (co_rtpParameters co) \<lparr>rc_userId = (case r_objs r1 pref of None \<Rightarrow> None | Some pc \<Rightarrow> c_userId pc),
      rc_clientId = pid\<rparr>))"
  have "alike r r2" "r_tasks r2 = r_tasks r"
    unfolding r1_def r2_def by (auto simp: alike_def option.map_comp comp_def)
  then have "spawns r (consume_run r2 k pref cref pid pos) (outer_rest r k, Suc (producer_rest r pref pos))"
    using spawns_consume_run[of r2 k pref cref pid pos]
    by (simp add: spawns_after alike_outer_rest alike_producer_rest)
  then show ?thesis
    by (simp add: consumer_created_def Let_def r1_def r2_def)
qed

text \<open>A produced track is announced by a loop; the ranks of the others may grow.\<close>

lemma producer_created_tasks:
  "\<exists>us. r_tasks (producer_created r ref i p) = r_tasks r @ us \<and> (\<forall>u \<in> set us. \<not> is_produce (snd u))"
proof -
  define r2 where "r2 = r_send (r_upd r ref (\<lambda>c. c\<lparr>c_producers := map_set (c_producers c) (p_id p) p\<rparr>)) ref
    (Rsp (CreateProducerResponse i (p_id p)))"
  have "producer_created r ref i p = (case r_objs r2 ref of None \<Rightarrow> r2 | Some c \<Rightarrow> produce_loop r2 ref (c_clientId c) 0)"
    unfolding producer_created_def Let_def r2_def by (rule refl)
  moreover have "r_tasks r2 = r_tasks r"
    by (simp add: r2_def)
  moreover have "\<exists>us. r_tasks (produce_loop r2 ref cid 0) = r_tasks r2 @ us \<and> (\<forall>u \<in> set us. \<not> is_produce (snd u))" for cid
    using spawns_produce_loop[of r2 ref cid 0] unfolding spawns_def by blast
  ultimately show ?thesis
    by (cases "r_objs r2 ref") auto
qed

lemma spawns_transport_created: "spawns r (transport_created r ref i role t) b"
  by (intro spawns_none; cases "r_objs r ref") (auto simp: alike_def transport_created_def)

lemma spawns_continue:
  assumes "task_answers t a" "\<not> is_produce t"
  shows "spawns r (room_continue jwt now r t a) (task_rank r t)"
  using assms
  by (cases t; cases a)
    (auto simp: spawns_transport_created spawns_consumer_created spawns_resume_outer spawns_none alike_def)

section \<open>Handlers finish\<close>

text \<open>An event that settles the promise of a suspended handler.\<close>

fun settles :: "room \<Rightarrow> event \<Rightarrow> bool" where
  "settles r (Resume now k a) =
     (case map_of (r_tasks r) k of None \<Rightarrow> False | Some t \<Rightarrow> task_answers t a)"
| "settles r _ = False"

lemma settles_rank:
  assumes "settles r e"
  shows "(room_rank (room_step jwt r e), room_rank r) \<in> room_less"
proof -
  obtain now k a t where e: "e = Resume now k a" "map_of (r_tasks r) k = Some t" "task_answers t a"
    using assms by (cases e) (auto split: option.splits)
  let ?r0 = "r_del_task r k"
  have r': "room_step jwt r e = room_continue jwt now ?r0 t a" (is "_ = ?r'")
    using e by (simp add: room_resume_def)
  have kt: "(k, t) \<in> set (r_tasks r)"
    using e(2) by (rule map_of_SomeD)
  define old where "old = filter (\<lambda>x. fst x = k) (r_tasks r)"
  have split: "mset (r_tasks r) = mset (r_tasks ?r0) + mset old"
    using multiset_partition[of "mset (r_tasks r)" "\<lambda>x. fst x = k"] by (simp add: old_def union_commute)
  have old: "(k, t) \<in> set old"
    using kt by (simp add: old_def)
  have count: "length (filter P (r_tasks r)) = length (filter P (r_tasks ?r0)) + length (filter P old)" for P
    using arg_cong[OF split, of "\<lambda>m. size (filter_mset P m)"] by (simp flip: mset_filter)
  show ?thesis
  proof (cases "is_produce t")
    case True
    then obtain ref i where t: "t = TProduce ref i"
      by (cases t) auto
    have "filter (is_produce \<circ> snd) old \<noteq> []"
      using old True by (fastforce simp: filter_empty_conv)
    then have "length (filter (is_produce \<circ> snd) (r_tasks ?r0)) < length (filter (is_produce \<circ> snd) (r_tasks r))"
      using count[of "is_produce \<circ> snd"] by (metis length_greater_0_conv less_add_same_cancel1)
    moreover have "\<exists>us. r_tasks ?r' = r_tasks ?r0 @ us \<and> (\<forall>u \<in> set us. \<not> is_produce (snd u))"
      using producer_created_tasks[of ?r0 ref i] by (cases a) (auto simp: t simp del: r_del_task_simps)
    ultimately show ?thesis
      unfolding r' room_rank_def by (auto simp: filter_empty_conv simp del: r_del_task_simps)
  next
    case False
    from spawns_continue[OF e(3) this, of ?r0 jwt now] obtain us where
      al: "alike ?r0 ?r'" and us: "r_tasks ?r' = r_tasks ?r0 @ us"
        "\<forall>u \<in> set us. \<not> is_produce (snd u) \<and> (task_rank ?r0 (snd u), task_rank ?r0 t) \<in> rank_less"
      by (auto simp: spawns_def)
    have rk: "task_rank ?r' = task_rank r" "task_rank ?r0 = task_rank r"
      using alike_rank[OF al] alike_rank[of r ?r0] by (auto simp: alike_def)
    have "filter (is_produce \<circ> snd) us = []"
      using us(2) by (auto simp: filter_empty_conv)
    then have "length (filter (is_produce \<circ> snd) (r_tasks ?r')) \<le> length (filter (is_produce \<circ> snd) (r_tasks r))"
      using count[of "is_produce \<circ> snd"] us(1) by (metis append_Nil2 filter_append le_add1)
    moreover have "(image_mset (task_rank r \<circ> snd) (mset (r_tasks ?r0)) + image_mset (task_rank r \<circ> snd) (mset us),
      image_mset (task_rank r \<circ> snd) (mset (r_tasks ?r0)) + image_mset (task_rank r \<circ> snd) (mset old)) \<in> mult rank_less"
      using us(2) old rk(2) by (intro one_step_implies_mult) force+
    ultimately show ?thesis
      unfolding r' room_rank_def
      using us(1) rk(1) arg_cong[OF split, of "image_mset (task_rank r \<circ> snd)"]
      by (auto simp: le_less simp del: r_del_task_simps)
  qed
qed

text \<open>
  C5. The handlers of a room terminate: there is no infinite sequence of steps that each resume a
  suspended handler with an answer its promise can have, from whatever state and in whatever order.
  So the loops over the live maps, which visit what is added behind their iterators and make each
  other visit more, come to an end once the promises they wait for are settled.
\<close>

theorem handlers_terminate:
  "\<not> (\<exists>rs. \<forall>n::nat. \<exists>e. settles (rs n) e \<and> rs (Suc n) = room_step jwt (rs n) e)"
proof
  assume "\<exists>rs. \<forall>n::nat. \<exists>e. settles (rs n) e \<and> rs (Suc n) = room_step jwt (rs n) e"
  then obtain rs where "\<forall>n. (room_rank (rs (Suc n)), room_rank (rs n)) \<in> room_less"
    using settles_rank by metis
  then have "\<exists>f. \<forall>n. (f (Suc n), f n) \<in> room_less"
    by (intro exI[of _ "room_rank \<circ> rs"]) simp
  then show False
    using wf_room_less unfolding wf_iff_no_infinite_down_chain by blast
qed

section \<open>Media reach everyone\<close>

text \<open>A promise that is fulfilled; a created consumer consumes the producer it was asked for.\<close>

fun fulfils :: "room \<Rightarrow> event \<Rightarrow> bool" where
  "fulfils r (Resume now k a) = (a \<noteq> AFail \<and>
     (case map_of (r_tasks r) k of
        None \<Rightarrow> False
      | Some t \<Rightarrow> task_answers t a \<and>
          (case (t, a) of (TConsume _ _ _ _ _ p, AConsumer co) \<Rightarrow> co_producerId co = p_id p | _ \<Rightarrow> True)))"
| "fulfils r _ = False"

lemma fulfils_settles: "fulfils r e \<Longrightarrow> settles r e"
  by (cases e) (auto split: option.splits)

lemma fulfils_ok: "fulfils r e \<Longrightarrow> mesh_ok r e"
  by (cases e) (auto simp: mesh_ok_def split: option.splits task.splits answer.splits)

text \<open>Only a rejected promise is recorded as such, and no continuation touches the table of clients.\<close>

definition unhurt :: "room \<Rightarrow> room \<Rightarrow> bool" where
  "unhurt r r' \<longleftrightarrow> r_clients r' = r_clients r \<and>
     (ORejected \<in> set (r_trace r') \<longleftrightarrow> ORejected \<in> set (r_trace r))"

lemma unhurt_refl [simp]: "unhurt r r"
  by (simp add: unhurt_def)

lemma unhurt_trans: "unhurt r r' \<Longrightarrow> unhurt r' r'' \<Longrightarrow> unhurt r r''"
  by (simp add: unhurt_def)

lemma unhurt_simps [simp]:
  "unhurt r (r_upd r ref f)" "unhurt r (r_send r ref m)" "unhurt r (r_add_task r t)" "unhurt r (r_del_task r k)"
  by (simp_all add: unhurt_def r_send_trace)

lemma unhurt_consume_run [simp]: "unhurt r (consume_run r k pref cref pid pos)"
  by (auto simp: consume_run_def unhurt_def split: option.splits)

lemma unhurt_consume_client [simp]: "unhurt r (consume_client r k pid cid)"
  by (auto simp: consume_client_def split: option.splits)

lemma unhurt_loops [simp]:
  "unhurt r (join_loop jwt now r ref cid i pos)" "unhurt r (produce_loop r ref cid pos)"
  by (auto simp: join_loop_def produce_loop_def split: option.splits)

lemma unhurt_resume_outer [simp]: "unhurt r (resume_outer jwt now r k)"
  by (cases k) (auto split: option.splits)

lemma unhurt_upd_send: "unhurt r (r_send (r_upd r ref f) ref' m)"
  by (rule unhurt_trans[OF unhurt_simps(1,2)])

lemma unhurt_consumer_created [simp]: "unhurt r (consumer_created r k pref cref pid pos p co)"
  unfolding consumer_created_def Let_def by (rule unhurt_trans[OF unhurt_upd_send unhurt_consume_run])

lemma unhurt_producer_created [simp]: "unhurt r (producer_created r ref i p)"
  unfolding producer_created_def Let_def
  by (auto simp del: r_upd_simps r_send_simps split: option.splits
      intro: unhurt_upd_send unhurt_trans[OF unhurt_upd_send unhurt_loops(2)])

lemma unhurt_transport_created [simp]: "unhurt r (transport_created r ref i role t)"
  by (auto simp: transport_created_def intro: unhurt_upd_send)

lemma unhurt_continue: "task_answers t a \<Longrightarrow> a \<noteq> AFail \<Longrightarrow> unhurt r (room_continue jwt now r t a)"
  by (cases t; cases a) auto

lemma fulfils_unhurt: "fulfils r e \<Longrightarrow> unhurt r (room_step jwt r e)"
  by (cases e)
    (auto simp: room_resume_def split: option.splits intro: unhurt_trans[OF unhurt_simps(4) unhurt_continue])

text \<open>Whatever promise is fulfilled next, the room comes to rest.\<close>

lemma room_drains:
  assumes lib: "\<And>s. r_tasks s \<noteq> [] \<Longrightarrow> fulfils s (lib s)" and ms: "mesh_state r"
  shows "\<exists>n. let s = ((\<lambda>s. room_step jwt s (lib s)) ^^ n) r in r_tasks s = [] \<and> mesh_state s \<and> unhurt r s"
  using ms
proof (induction r rule: wf_induct_rule[OF wf_inv_image[OF wf_room_less, of room_rank]])
  case (1 r)
  show ?case
  proof (cases "r_tasks r = []")
    case True
    with 1(2) show ?thesis
      by (intro exI[of _ 0]) simp
  next
    case False
    let ?r' = "room_step jwt r (lib r)"
    note f = lib[OF False]
    have "(?r', r) \<in> inv_image room_less room_rank"
      using settles_rank[OF fulfils_settles[OF f]] by (simp only: in_inv_image)
    moreover have "mesh_state ?r'"
      using 1(2) fulfils_ok[OF f] by (rule mesh_state_step)
    ultimately obtain n where n: "let s = ((\<lambda>s. room_step jwt s (lib s)) ^^ n) ?r'
        in r_tasks s = [] \<and> mesh_state s \<and> unhurt ?r' s"
      using 1(1) by blast
    then show ?thesis
      using unhurt_trans[OF fulfils_unhurt[OF f, of jwt]]
      by (intro exI[of _ "Suc n"]) (unfold funpow_Suc_right comp_apply Let_def, blast)
  qed
qed

text \<open>
  C2. Media reach everyone. Take any run of a room as in C1 in which no library call was rejected, and
  let the library from then on fulfil the promises the room waits for, in an order and with results that
  may depend on the whole history (\<open>lib\<close>). After finitely many of these answers no handler is
  suspended, the same clients are registered, and every one of them that asked to join was sent a
  \<open>ConsumerCreatedNotification\<close> for every producer of every other.
\<close>

theorem media_reach_everyone:
  assumes run: "ok_run (room_step jwt) mesh_ok (room_new i key caps ip a) es"
    and r: "r = room_run jwt (room_new i key caps ip a) es"
    and accepted: "ORejected \<notin> set (r_trace r)"
    and lib: "\<And>s. r_tasks s \<noteq> [] \<Longrightarrow> fulfils s (lib s)"
  shows "\<exists>n. let s = ((\<lambda>s. room_step jwt s (lib s)) ^^ n) r
    in r_tasks s = [] \<and> r_clients s = r_clients r \<and>
       (\<forall>x y u v m c q p. map_get (r_clients s) x = Some u \<and> map_get (r_clients s) y = Some v \<and> x \<noteq> y \<and>
          ORecv v (Req (JoinCallRequest m)) \<in> set (r_trace s) \<and>
          r_objs s u = Some c \<and> map_get (c_producers c) q = Some p \<longrightarrow>
          (\<exists>k kind rtp rc. OSend v (Ntf (ConsumerCreatedNotification k q kind rtp rc)) \<in> set (r_trace s)))"
proof -
  have "mesh_state r"
    unfolding r room_run_def by (rule mesh.run_inv[OF mesh_state_new run])
  then obtain n where n: "let s = ((\<lambda>s. room_step jwt s (lib s)) ^^ n) r
      in r_tasks s = [] \<and> mesh_state s \<and> unhurt r s"
    using room_drains[of lib r jwt] lib by blast
  then show ?thesis
    using accepted unfolding Let_def unhurt_def by (intro exI[of _ n]) (auto intro: idle_told)
qed

text \<open>
  The two clients again, cut off when the second has asked to join and the first one's producer is
  about to be created; the library settles the oldest promise first.
\<close>

fun fulfilment :: "task \<Rightarrow> answer" where
  "fulfilment (TCreate _ _ _) =
     ATransport \<lparr>ti_id = ''t'', ti_iceParameters = JNull, ti_iceCandidates = JArr [], ti_dtlsParameters = JNull\<rparr>"
| "fulfilment (TProduce _ _) = AProducer \<lparr>p_id = ''p''\<rparr>"
| "fulfilment (TConsume _ _ _ _ _ p) =
     AConsumer \<lparr>co_id = ''k'', co_producerId = p_id p, co_kind = ''audio'', co_rtpParameters = JNull\<rparr>"
| "fulfilment _ = AOk"

definition oldest_first :: "room \<Rightarrow> event" where
  "oldest_first r = Resume 0 (fst (hd (r_tasks r))) (fulfilment (snd (hd (r_tasks r))))"

lemma oldest_first_fulfils: "r_tasks r \<noteq> [] \<Longrightarrow> fulfils r (oldest_first r)"
  by (cases "r_tasks r"; cases "snd (hd (r_tasks r))") (auto simp: oldest_first_def map_of_eq_Some_iff)

definition half_way_room :: room where
  "half_way_room = room_run (\<lambda>_ _. ''token'') (room_new ''r'' ''call'' JNull ''ip'' ''aip'') (take 9 two_client_run)"

lemma media_reach_everyone_witness:
  "\<exists>n. let s = ((\<lambda>s. room_step (\<lambda>_ _. ''token'') s (oldest_first s)) ^^ n) half_way_room
    in r_tasks s = [] \<and> r_clients s = r_clients half_way_room \<and>
       (\<forall>x y u v m c q p. map_get (r_clients s) x = Some u \<and> map_get (r_clients s) y = Some v \<and> x \<noteq> y \<and>
          ORecv v (Req (JoinCallRequest m)) \<in> set (r_trace s) \<and>
          r_objs s u = Some c \<and> map_get (c_producers c) q = Some p \<longrightarrow>
          (\<exists>k kind rtp rc. OSend v (Ntf (ConsumerCreatedNotification k q kind rtp rc)) \<in> set (r_trace s)))"
proof (rule media_reach_everyone[OF _ half_way_room_def])
  show "ok_run (room_step (\<lambda>_ _. ''token'')) mesh_ok (room_new ''r'' ''call'' JNull ''ip'' ''aip'') (take 9 two_client_run)"
    by code_simp
  show "ORejected \<notin> set (r_trace half_way_room)"
    by code_simp
qed (rule oldest_first_fulfils)

end
