(* ===== verification/ServerConnection.thy ===== *)
theory ServerConnection
  imports JsMap ClientEvents
begin

text \<open>
  The web application's connection to the SFU, \<^verbatim>\<open>webapp/src/contexts/ServerConnection.tsx\<close>, over
  the messages of \<^verbatim>\<open>webapp/src/utils/MessageProtocol.tsx\<close> (the SFU's classes and one more
  notification). It connects with retries, buffers what is sent before the socket is open
  until a timer finds it open, and resolves requests by their id. Sockets and timers are
  events; what the code gives away silently (a full buffer, an expired message) is recorded.
\<close>

section \<open>Messages\<close>

datatype web_message =
    Wire message
  | ObservedSamplesNotification string

fun web_message_type :: "web_message \<Rightarrow> string" where
  "web_message_type (Wire m) = message_type m"
| "web_message_type (ObservedSamplesNotification _) = ''observed-sample-notification''"

fun web_message_json :: "web_message \<Rightarrow> json" where
  "web_message_json (Wire m) = message_json m"
| "web_message_json (ObservedSamplesNotification s) =
     JObj [(''clientSample'', JStr s), (''type'', JStr ''observed-sample-notification'')]"

section \<open>State\<close>

record connection_config =
  cf_maxRetry :: int
  cf_maxBufferTimeInMs :: int
  cf_maxBufferSize :: int
  cf_clientId :: string
  cf_roomId :: string

datatype web_listener =
    ResolveRequest
  | Listener nat

text \<open>
  \<open>sc_attempt\<close> is the socket that is being opened, with its retry count, \<open>sc_retry\<close> the retry
  whose timer is running; \<open>sc_timer\<close> is the field \<open>_timer\<close>, \<open>sc_armed\<close> whether the resend
  timer is running. Promises of requests are numbered in the order of \<open>request\<close>.
\<close>

datatype connection_out =
    Open int
  | GiveUp
  | WsSend web_message
  | DropFull web_message
  | DropExpired web_message
  | Resolve nat json
  | Dispatch nat json

record connection =
  sc_config :: connection_config
  sc_ws :: bool
  sc_connecting :: bool
  sc_attempt :: "int option"
  sc_retry :: "int option"
  sc_requests :: "(string, nat) jsmap"
  sc_npromises :: nat
  sc_timer :: bool
  sc_armed :: bool
  sc_buffer :: "(web_message \<times> int) list"
  sc_emitter :: "web_listener emitter"
  sc_out :: "connection_out list"

text \<open>The constructor registers the resolver for six response types.\<close>

definition resolved_types :: "string list" where
  "resolved_types =
     [''get-client-stats-response'', ''create-producer-response'', ''get-router-capabilities-response'',
      ''pause-producer-response'', ''create-transport-response'', ''join-call-response'']"

definition connection_new :: "connection_config \<Rightarrow> connection" where
  "connection_new config =
     \<lparr>sc_config = config, sc_ws = False, sc_connecting = False, sc_attempt = None, sc_retry = None,
      sc_requests = map_new, sc_npromises = 0, sc_timer = False, sc_armed = False, sc_buffer = [],
      sc_emitter = foldl (\<lambda>em ty. em_on em ty ResolveRequest) [] resolved_types, sc_out = []\<rparr>"

definition sc_log :: "connection \<Rightarrow> connection_out \<Rightarrow> connection" where
  "sc_log s x = s\<lparr>sc_out := sc_out s @ [x]\<rparr>"

section \<open>Connecting\<close>

definition sc_open :: "connection \<Rightarrow> int \<Rightarrow> connection" where
  "sc_open s retried = sc_log (s\<lparr>sc_attempt := Some retried\<rparr>) (Open retried)"

definition sc_connect :: "connection \<Rightarrow> connection" where
  "sc_connect s = (if sc_ws s \<or> sc_connecting s then s else sc_open (s\<lparr>sc_connecting := True\<rparr>) 0)"

definition sc_opened :: "connection \<Rightarrow> connection" where
  "sc_opened s =
     (case sc_attempt s of
        None \<Rightarrow> s
      | Some _ \<Rightarrow> s\<lparr>sc_attempt := None, sc_ws := True, sc_connecting := False\<rparr>)"

text \<open>
  A failed attempt rejects its own promise after the last retry. Only the resolution of an
  inner attempt is passed on, so the promise that \<open>connect\<close> waits for stays unsettled and
  \<open>_connecting\<close> stays set.
\<close>

definition sc_failed :: "connection \<Rightarrow> connection" where
  "sc_failed s =
     (case sc_attempt s of
        None \<Rightarrow> s
      | Some retried \<Rightarrow>
          if 0 < cf_maxRetry (sc_config s) \<and> cf_maxRetry (sc_config s) < retried
          then sc_log (s\<lparr>sc_attempt := None\<rparr>) GiveUp
          else s\<lparr>sc_attempt := None, sc_retry := Some (retried + 1)\<rparr>)"

definition sc_retry_timer :: "connection \<Rightarrow> connection" where
  "sc_retry_timer s =
     (case sc_retry s of None \<Rightarrow> s | Some n \<Rightarrow> sc_open (s\<lparr>sc_retry := None\<rparr>) n)"

section \<open>Sending\<close>

definition sendMessage :: "connection \<Rightarrow> int \<Rightarrow> web_message \<Rightarrow> connection" where
  "sendMessage s now m =
     (if \<not> sc_ws s
      then
        (let s1 = (if cf_maxBufferSize (sc_config s) < 0 \<or>
                      int (length (sc_buffer s)) < cf_maxBufferSize (sc_config s)
                   then s\<lparr>sc_buffer := sc_buffer s @ [(m, now)]\<rparr>
                   else sc_log s (DropFull m))
         in if \<not> sc_timer s1 then s1\<lparr>sc_timer := True, sc_armed := True\<rparr> else s1)
      else sc_log s (WsSend m))"

definition is_expired :: "connection_config \<Rightarrow> int \<Rightarrow> web_message \<times> int \<Rightarrow> bool" where
  "is_expired c now x \<longleftrightarrow> 0 < cf_maxBufferTimeInMs c \<and> cf_maxBufferTimeInMs c < now - snd x"

definition resend_timer :: "connection \<Rightarrow> int \<Rightarrow> connection" where
  "resend_timer s now =
     (if \<not> sc_armed s then s
      else if \<not> sc_ws s then s\<lparr>sc_timer := True\<rparr>
      else
        foldl (\<lambda>s x. if is_expired (sc_config s) now x then sc_log s (DropExpired (fst x))
                    else sendMessage s now (fst x))
          (s\<lparr>sc_armed := False, sc_buffer := []\<rparr>) (sc_buffer s))"

definition sc_request :: "connection \<Rightarrow> int \<Rightarrow> request \<Rightarrow> connection" where
  "sc_request s now q =
     sendMessage (s\<lparr>sc_requests := map_set (sc_requests s) (request_id q) (sc_npromises s),
                   sc_npromises := Suc (sc_npromises s)\<rparr>) now (Wire (Req q))"

section \<open>Receiving\<close>

definition resolveRequest :: "connection \<Rightarrow> json \<Rightarrow> connection" where
  "resolveRequest s j =
     (case js_field j ''requestId'' of
        Some (JStr i) \<Rightarrow> (case map_get (sc_requests s) i of None \<Rightarrow> s | Some p \<Rightarrow> sc_log s (Resolve p j))
      | _ \<Rightarrow> s)"

definition run_listener :: "json \<Rightarrow> connection \<Rightarrow> web_listener \<Rightarrow> connection" where
  "run_listener j s l = (case l of ResolveRequest \<Rightarrow> resolveRequest s j | Listener n \<Rightarrow> sc_log s (Dispatch n j))"

text \<open>A frame that does not parse, or is \<open>null\<close>, makes \<open>onmessage\<close> throw.\<close>

definition sc_receive :: "(string \<Rightarrow> json option) \<Rightarrow> connection \<Rightarrow> string \<Rightarrow> connection" where
  "sc_receive parse s data =
     (case parse data of
        None \<Rightarrow> s
      | Some j \<Rightarrow>
          if j = JNull then s
          else
            (let ty = (case js_field j ''type'' of None \<Rightarrow> ''undefined'' | Some t \<Rightarrow> js_key t) in
             if em_count (sc_emitter s) ty < 1 then s
             else (let (em, ls) = em_emit (sc_emitter s) ty in
                   foldl (run_listener j) (s\<lparr>sc_emitter := em\<rparr>) ls)))"

datatype connection_event =
    Connect
  | Opened
  | Failed
  | RetryTimer
  | Send int web_message
  | Request int request
  | ResendTimer int
  | ReceiveFrame string
  | On string nat
  | Once string nat
  | Off string nat

fun sc_step :: "(string \<Rightarrow> json option) \<Rightarrow> connection \<Rightarrow> connection_event \<Rightarrow> connection" where
  "sc_step parse s Connect = sc_connect s"
| "sc_step parse s Opened = sc_opened s"
| "sc_step parse s Failed = sc_failed s"
| "sc_step parse s RetryTimer = sc_retry_timer s"
| "sc_step parse s (Send now m) = sendMessage s now m"
| "sc_step parse s (Request now q) = sc_request s now q"
| "sc_step parse s (ResendTimer now) = resend_timer s now"
| "sc_step parse s (ReceiveFrame data) = sc_receive parse s data"
| "sc_step parse s (On ty n) = s\<lparr>sc_emitter := em_on (sc_emitter s) ty (Listener n)\<rparr>"
| "sc_step parse s (Once ty n) = s\<lparr>sc_emitter := em_once (sc_emitter s) ty (Listener n)\<rparr>"
| "sc_step parse s (Off ty n) = s\<lparr>sc_emitter := em_off (sc_emitter s) ty (Listener n)\<rparr>"

section \<open>Accounting for messages\<close>

text \<open>What happened to a message: sent, given away, or still in the buffer.\<close>

fun is_fate :: "web_message \<Rightarrow> connection_out \<Rightarrow> bool" where
  "is_fate m (WsSend m') = (m' = m)"
| "is_fate m (DropFull m') = (m' = m)"
| "is_fate m (DropExpired m') = (m' = m)"
| "is_fate m _ = False"

fun submits :: "web_message \<Rightarrow> connection_event \<Rightarrow> bool" where
  "submits m (Send _ m') = (m' = m)"
| "submits m (Request _ q) = (Wire (Req q) = m)"
| "submits m _ = False"

definition accounted :: "web_message \<Rightarrow> connection \<Rightarrow> nat" where
  "accounted m s = tally (is_fate m) (sc_out s) + tally (\<lambda>x. fst x = m) (sc_buffer s)"

lemma accounted_simps [simp]:
  "accounted m (sc_log s x) = accounted m s + of_bool (is_fate m x)"
  "accounted m (s\<lparr>sc_buffer := sc_buffer s @ [y]\<rparr>) = accounted m s + of_bool (fst y = m)"
  by (simp_all add: accounted_def sc_log_def)

lemma accounted_frame [simp]:
  "accounted m (s\<lparr>sc_timer := a\<rparr>) = accounted m s" "accounted m (s\<lparr>sc_armed := a\<rparr>) = accounted m s"
  "accounted m (s\<lparr>sc_timer := a, sc_armed := a'\<rparr>) = accounted m s"
  "accounted m (s\<lparr>sc_attempt := b\<rparr>) = accounted m s" "accounted m (s\<lparr>sc_retry := b\<rparr>) = accounted m s"
  "accounted m (s\<lparr>sc_attempt := b, sc_retry := b'\<rparr>) = accounted m s"
  "accounted m (s\<lparr>sc_connecting := a\<rparr>) = accounted m s" "accounted m (s\<lparr>sc_emitter := em\<rparr>) = accounted m s"
  "accounted m (s\<lparr>sc_attempt := b, sc_ws := a, sc_connecting := a'\<rparr>) = accounted m s"
  "accounted m (s\<lparr>sc_attempt := b, sc_ws := a\<rparr>) = accounted m s"
  "accounted m (s\<lparr>sc_requests := rq, sc_npromises := n\<rparr>) = accounted m s"
  by (simp_all add: accounted_def)

lemma accounted_send [simp]: "accounted m (sendMessage s now m') = accounted m s + of_bool (m' = m)"
  by (simp add: sendMessage_def Let_def)

lemma accounted_flush:
  "accounted m (foldl (\<lambda>s x. if is_expired (sc_config s) now x then sc_log s (DropExpired (fst x))
      else sendMessage s now (fst x)) s xs) = accounted m s + tally (\<lambda>x. fst x = m) xs"
  by (induction xs arbitrary: s) auto

lemma accounted_resend [simp]: "accounted m (resend_timer s now) = accounted m s"
proof -
  have "accounted m (s\<lparr>sc_armed := False, sc_buffer := []\<rparr>) + tally (\<lambda>x. fst x = m) (sc_buffer s) = accounted m s"
    by (simp add: accounted_def)
  then show ?thesis
    by (simp add: resend_timer_def accounted_flush)
qed

lemma accounted_listeners [simp]: "accounted m (foldl (run_listener j) s ls) = accounted m s"
  by (induction ls arbitrary: s)
    (auto simp: run_listener_def resolveRequest_def split: web_listener.splits option.splits json.splits)

lemma accounted_step: "accounted m (sc_step parse s e) = accounted m s + of_bool (submits m e)"
  by (cases e)
    (auto simp: sc_connect_def sc_open_def sc_opened_def sc_failed_def sc_retry_timer_def sc_request_def
      sc_receive_def Let_def split_beta split: option.splits)

text \<open>
  C22. No message is lost unseen or sent twice: in every run, each message that was submitted
  by \<open>sendMessage\<close> or \<open>request\<close> is accounted for exactly once: it went to the socket, it waits in
  the buffer, or it was given away because the buffer was full or it had expired.
\<close>

theorem messages_accounted_for:
  "tally (is_fate m) (sc_out (foldl (sc_step parse) (connection_new config) es)) +
   tally (\<lambda>x. fst x = m) (sc_buffer (foldl (sc_step parse) (connection_new config) es)) =
   tally (submits m) es"
proof -
  have "accounted m (foldl (sc_step parse) s es) = accounted m s + tally (submits m) es" for s
    by (induction es arbitrary: s) (auto simp: accounted_step)
  then show ?thesis
    by (simp add: accounted_def) (simp add: connection_new_def)
qed

section \<open>The resend timer\<close>

lemma send_open: "sc_ws s \<Longrightarrow> sendMessage s now m = sc_log s (WsSend m)"
  by (simp add: sendMessage_def)

lemma sc_log_frame [simp]:
  "sc_ws (sc_log s x) = sc_ws s" "sc_config (sc_log s x) = sc_config s" "sc_buffer (sc_log s x) = sc_buffer s"
  "sc_armed (sc_log s x) = sc_armed s" "sc_out (sc_log s x) = sc_out s @ [x]"
  "sc_attempt (sc_log s x) = sc_attempt s" "sc_retry (sc_log s x) = sc_retry s"
  "sc_connecting (sc_log s x) = sc_connecting s" "sc_emitter (sc_log s x) = sc_emitter s"
  "sc_requests (sc_log s x) = sc_requests s" "sc_npromises (sc_log s x) = sc_npromises s"
  by (simp_all add: sc_log_def)

lemma flush_loop:
  "sc_ws s \<Longrightarrow>
   foldl (\<lambda>s x. if is_expired (sc_config s) now x then sc_log s (DropExpired (fst x))
      else sendMessage s now (fst x)) s xs =
   s\<lparr>sc_out := sc_out s @ map (\<lambda>x. if is_expired (sc_config s) now x then DropExpired (fst x) else WsSend (fst x)) xs\<rparr>"
  by (induction xs arbitrary: s) (simp_all add: send_open, simp_all add: sc_log_def)

text \<open>
  When the resend timer fires on an open socket, it empties the buffer: it sends exactly the
  messages that have not expired, in the order in which they were submitted, and gives the
  others away.
\<close>

theorem resend_flushes_in_order:
  assumes "sc_armed s" "sc_ws s"
  shows "sc_buffer (resend_timer s now) = [] \<and> \<not> sc_armed (resend_timer s now) \<and>
    filter (\<lambda>x. \<exists>m. x = WsSend m) (sc_out (resend_timer s now)) =
      filter (\<lambda>x. \<exists>m. x = WsSend m) (sc_out s) @
      map (\<lambda>x. WsSend (fst x)) (filter (\<lambda>x. \<not> is_expired (sc_config s) now x) (sc_buffer s))"
proof -
  have f: "filter (\<lambda>x. \<exists>m. x = WsSend m)
      (map (\<lambda>x. if is_expired c now x then DropExpired (fst x) else WsSend (fst x)) xs) =
      map (\<lambda>x. WsSend (fst x)) (filter (\<lambda>x. \<not> is_expired c now x) xs)" for c xs
    by (induction xs) auto
  show ?thesis
    using assms by (simp add: resend_timer_def flush_loop f)
qed

text \<open>A buffered message and one that is sent between the opening of the socket and the timer.\<close>

definition web_config :: connection_config where
  "web_config = \<lparr>cf_maxRetry = -1, cf_maxBufferTimeInMs = -1, cf_maxBufferSize = -1,
     cf_clientId = ''c1'', cf_roomId = ''r1''\<rparr>"

definition overtaking :: "connection_event list" where
  "overtaking =
     [Connect, Send 0 (Wire (Req (JoinCallRequest ''1''))), Opened,
      Send 10 (Wire (Req (JoinCallRequest ''2''))), ResendTimer 200]"

lemma resend_flushes_in_order_witness:
  "let s = foldl (sc_step (\<lambda>_. None)) (connection_new web_config)
       [Connect, Send 0 (Wire (Req (JoinCallRequest ''1''))), Opened]
   in sc_buffer (resend_timer s 200) = []"
proof -
  let ?s = "foldl (sc_step (\<lambda>_. None)) (connection_new web_config)
       [Connect, Send 0 (Wire (Req (JoinCallRequest ''1''))), Opened]"
  have "sc_armed ?s" "sc_ws ?s"
    by code_simp+
  from resend_flushes_in_order[OF this, of 200] show ?thesis
    by (simp add: Let_def)
qed

text \<open>
  The connection does not keep the order of messages: what is sent after the socket opened
  goes out at once, before what is still in the buffer.
\<close>

theorem late_message_overtakes_buffer:
  "filter (\<lambda>x. \<exists>m. x = WsSend m) (sc_out (foldl (sc_step parse) (connection_new web_config) overtaking)) =
   [WsSend (Wire (Req (JoinCallRequest ''2''))), WsSend (Wire (Req (JoinCallRequest ''1'')))]"
  by (simp add: overtaking_def web_config_def connection_new_def sc_connect_def sc_open_def
      sc_opened_def sendMessage_def resend_timer_def is_expired_def Let_def sc_log_def)

section \<open>Retries\<close>

definition opens :: "connection \<Rightarrow> int" where
  "opens s = int (tally (\<lambda>x. \<exists>n. x = Open n) (sc_out s))"

definition retry_inv :: "int \<Rightarrow> connection \<Rightarrow> bool" where
  "retry_inv M s \<longleftrightarrow> cf_maxRetry (sc_config s) = M \<and> opens s \<le> M + 2 \<and>
     (\<not> sc_connecting s \<and> \<not> sc_ws s \<longrightarrow> opens s = 0 \<and> sc_attempt s = None \<and> sc_retry s = None) \<and>
     (\<forall>k. sc_attempt s = Some k \<longrightarrow> sc_retry s = None \<and> opens s = k + 1 \<and> k \<le> M + 1) \<and>
     (\<forall>k. sc_retry s = Some k \<longrightarrow> sc_attempt s = None \<and> opens s = k \<and> k \<le> M + 1)"

lemma retry_inv_cong:
  assumes "retry_inv M s" "opens s' = opens s" "sc_config s' = sc_config s" "sc_ws s' = sc_ws s"
    "sc_connecting s' = sc_connecting s" "sc_attempt s' = sc_attempt s" "sc_retry s' = sc_retry s"
  shows "retry_inv M s'"
  using assms by (simp add: retry_inv_def)

lemma opens_log [simp]: "opens (sc_log s x) = opens s + of_bool (\<exists>n. x = Open n)"
  by (simp add: opens_def)

lemma opens_frame [simp]:
  "opens (s\<lparr>sc_attempt := b\<rparr>) = opens s" "opens (s\<lparr>sc_retry := b\<rparr>) = opens s"
  "opens (s\<lparr>sc_connecting := c\<rparr>) = opens s" "opens (s\<lparr>sc_ws := c\<rparr>) = opens s"
  "opens (s\<lparr>sc_timer := c\<rparr>) = opens s" "opens (s\<lparr>sc_armed := c\<rparr>) = opens s"
  "opens (s\<lparr>sc_buffer := bs\<rparr>) = opens s" "opens (s\<lparr>sc_emitter := em\<rparr>) = opens s"
  "opens (s\<lparr>sc_requests := rq\<rparr>) = opens s" "opens (s\<lparr>sc_npromises := n\<rparr>) = opens s"
  "opens (s\<lparr>sc_connecting := c, sc_attempt := b\<rparr>) = opens s"
  by (simp_all add: opens_def)

lemma retry_send: "retry_inv M s \<Longrightarrow> retry_inv M (sendMessage s now m)"
  by (rule retry_inv_cong[of M s]) (simp_all add: sendMessage_def Let_def opens_def)

lemma retry_log: "retry_inv M s \<Longrightarrow> \<forall>n. x \<noteq> Open n \<Longrightarrow> retry_inv M (sc_log s x)"
  by (rule retry_inv_cong[of M s]) simp_all

lemma retry_listener: "retry_inv M s \<Longrightarrow> retry_inv M (run_listener j s l)"
  by (cases l) (auto simp: run_listener_def resolveRequest_def intro: retry_log split: option.splits json.splits)

lemma retry_listeners: "retry_inv M s \<Longrightarrow> retry_inv M (foldl (run_listener j) s ls)"
  by (induction ls arbitrary: s) (simp_all add: retry_listener)

lemma retry_flush:
  "retry_inv M s \<Longrightarrow> retry_inv M (foldl (\<lambda>s x. if is_expired (sc_config s) now x then sc_log s (DropExpired (fst x))
      else sendMessage s now (fst x)) s xs)"
  by (induction xs arbitrary: s) (auto intro: retry_log retry_send)

lemma retry_frame:
  assumes "retry_inv M s"
  shows "retry_inv M (s\<lparr>sc_armed := a, sc_buffer := bs\<rparr>)" "retry_inv M (s\<lparr>sc_timer := a\<rparr>)"
    "retry_inv M (s\<lparr>sc_emitter := em\<rparr>)" "retry_inv M (s\<lparr>sc_requests := rq, sc_npromises := n\<rparr>)"
  by (rule retry_inv_cong[OF assms]; simp add: opens_def)+

lemma retry_connect: "0 < M \<Longrightarrow> retry_inv M s \<Longrightarrow> retry_inv M (sc_connect s)"
  by (simp add: sc_connect_def sc_open_def retry_inv_def)

lemma retry_opened: "retry_inv M s \<Longrightarrow> retry_inv M (sc_opened s)"
  by (cases "sc_attempt s") (simp_all add: sc_opened_def retry_inv_def opens_def)

lemma retry_failed: "0 < M \<Longrightarrow> retry_inv M s \<Longrightarrow> retry_inv M (sc_failed s)"
  by (cases "sc_attempt s") (simp_all add: sc_failed_def retry_inv_def)

lemma retry_timer: "0 < M \<Longrightarrow> retry_inv M s \<Longrightarrow> retry_inv M (sc_retry_timer s)"
  by (cases "sc_retry s") (simp_all add: sc_retry_timer_def sc_open_def retry_inv_def)

lemma retry_resend: "retry_inv M s \<Longrightarrow> retry_inv M (resend_timer s now)"
  by (simp add: resend_timer_def retry_flush retry_frame)

lemma retry_receive: "retry_inv M s \<Longrightarrow> retry_inv M (sc_receive parse s data)"
  by (simp add: sc_receive_def Let_def split_beta retry_listeners retry_frame split: option.split)

lemma retry_step: "0 < M \<Longrightarrow> retry_inv M s \<Longrightarrow> retry_inv M (sc_step parse s e)"
  by (cases e)
    (simp_all add: retry_connect retry_opened retry_failed retry_timer retry_send retry_resend
      retry_receive retry_frame sc_request_def)

text \<open>
  C40. With a positive \<open>maxRetry\<close> the connection opens at most \<open>maxRetry + 2\<close> sockets in any run,
  whatever calls \<open>connect\<close>: one attempt and one retry more than the configured maximum.
\<close>

theorem connect_attempts_bounded:
  assumes "0 < cf_maxRetry config"
  shows "int (tally (\<lambda>x. \<exists>n. x = Open n) (sc_out (foldl (sc_step parse) (connection_new config) es)))
    \<le> cf_maxRetry config + 2"
proof -
  have start: "retry_inv (cf_maxRetry config) (connection_new config)"
    using assms by (simp add: retry_inv_def connection_new_def opens_def)
  have "retry_inv (cf_maxRetry config) (foldl (sc_step parse) s es)" if "retry_inv (cf_maxRetry config) s" for s
    using that by (induction es arbitrary: s) (simp_all add: retry_step[OF assms])
  from this[OF start] show ?thesis
    unfolding retry_inv_def opens_def by blast
qed

text \<open>The bound is reached: with one retry configured, three sockets are opened.\<close>

lemma connect_attempts_bounded_witness:
  "let s = foldl (sc_step (\<lambda>_. None)) (connection_new (web_config\<lparr>cf_maxRetry := 1\<rparr>))
        [Connect, Failed, RetryTimer, Failed, RetryTimer, Failed, RetryTimer]
   in tally (\<lambda>x. \<exists>n. x = Open n) (sc_out s) = 3 \<and>
      int (tally (\<lambda>x. \<exists>n. x = Open n) (sc_out s)) \<le> 1 + 2"
proof -
  let ?s = "foldl (sc_step (\<lambda>_. None)) (connection_new (web_config\<lparr>cf_maxRetry := 1\<rparr>))
        [Connect, Failed, RetryTimer, Failed, RetryTimer, Failed, RetryTimer]"
  have "tally (\<lambda>x. \<exists>n. x = Open n) (sc_out ?s) = 3"
    by (simp add: web_config_def connection_new_def sc_connect_def sc_open_def sc_failed_def
        sc_retry_timer_def)
  then show ?thesis
    using connect_attempts_bounded[of "web_config\<lparr>cf_maxRetry := 1\<rparr>" "\<lambda>_. None"
        "[Connect, Failed, RetryTimer, Failed, RetryTimer, Failed, RetryTimer]"]
    by (simp add: Let_def)
qed

section \<open>Responses\<close>

definition resolvers :: "web_listener emitter \<Rightarrow> web_listener emitter" where
  "resolvers em = filter (\<lambda>r. fst (snd r) = ResolveRequest) em"

lemma filter_remove_first: "(\<And>x. Q x \<Longrightarrow> \<not> P x) \<Longrightarrow> filter P (remove_first Q xs) = filter P xs"
  by (induction xs) auto

lemma resolvers_simps [simp]:
  "resolvers (em_on em ty (Listener n)) = resolvers em"
  "resolvers (em_once em ty (Listener n)) = resolvers em"
  "resolvers (em_off em ty (Listener n)) = resolvers em"
proof -
  show "resolvers (em_on em ty (Listener n)) = resolvers em"
    by (simp add: resolvers_def em_on_def)
  show "resolvers (em_once em ty (Listener n)) = resolvers em"
    by (simp add: resolvers_def em_once_def)
  show "resolvers (em_off em ty (Listener n)) = resolvers em"
    unfolding resolvers_def em_off_def rev_filter[symmetric]
    by (subst filter_remove_first) (auto simp: rev_filter)
qed

definition resolver_inv :: "connection \<Rightarrow> bool" where
  "resolver_inv s \<longleftrightarrow> resolvers (sc_emitter s) = map (\<lambda>ty. (ty, ResolveRequest, False)) resolved_types"

lemma resolver_inv_new: "resolver_inv (connection_new config)"
  by (simp add: resolver_inv_def connection_new_def resolvers_def resolved_types_def em_on_def)

lemma resolvers_emit:
  assumes "resolvers em = map (\<lambda>ty. (ty, ResolveRequest, False)) tys"
  shows "resolvers (fst (em_emit em ev)) = resolvers em"
proof -
  have "\<not> (\<exists>ty. (ty, ResolveRequest, True) \<in> set em)"
  proof
    assume "\<exists>ty. (ty, ResolveRequest, True) \<in> set em"
    then have "\<exists>ty. (ty, ResolveRequest, True) \<in> set (resolvers em)"
      by (auto simp: resolvers_def)
    then show False
      by (auto simp: assms)
  qed
  then show ?thesis
    by (auto simp: resolvers_def em_emit_def filter_filter intro!: filter_cong)
qed

lemma send_frame [simp]:
  "sc_emitter (sendMessage s now m) = sc_emitter s" "sc_requests (sendMessage s now m) = sc_requests s"
  "sc_npromises (sendMessage s now m) = sc_npromises s"
  by (simp_all add: sendMessage_def Let_def)

lemma flush_frame:
  "sc_emitter (foldl (\<lambda>s x. if is_expired (sc_config s) now x then sc_log s (DropExpired (fst x))
      else sendMessage s now (fst x)) s xs) = sc_emitter s"
  "sc_requests (foldl (\<lambda>s x. if is_expired (sc_config s) now x then sc_log s (DropExpired (fst x))
      else sendMessage s now (fst x)) s xs) = sc_requests s"
  by (induction xs arbitrary: s) simp_all

lemma resend_frame [simp]:
  "sc_emitter (resend_timer s now) = sc_emitter s" "sc_requests (resend_timer s now) = sc_requests s"
  by (simp_all add: resend_timer_def flush_frame)

lemma listeners_frame [simp]:
  "sc_emitter (foldl (run_listener j) s ls) = sc_emitter s"
  "sc_requests (foldl (run_listener j) s ls) = sc_requests s"
proof -
  have 1: "sc_emitter (run_listener j s l) = sc_emitter s \<and> sc_requests (run_listener j s l) = sc_requests s" for s l
    by (auto simp: run_listener_def resolveRequest_def split: web_listener.splits option.splits json.splits)
  show "sc_emitter (foldl (run_listener j) s ls) = sc_emitter s"
    by (induction ls arbitrary: s) (simp_all add: 1)
  show "sc_requests (foldl (run_listener j) s ls) = sc_requests s"
    by (induction ls arbitrary: s) (simp_all add: 1)
qed

lemmas connecting_defs = sc_connect_def sc_open_def sc_opened_def sc_failed_def sc_retry_timer_def

lemma resolver_step: "resolver_inv s \<Longrightarrow> resolver_inv (sc_step parse s e)"
proof (cases e)
  case (ReceiveFrame data)
  assume "resolver_inv s"
  then show ?thesis
    using ReceiveFrame resolvers_emit[of "sc_emitter s" resolved_types]
    by (simp add: resolver_inv_def sc_receive_def Let_def split_beta split: option.split)
qed (simp_all add: resolver_inv_def connecting_defs sc_request_def split: option.split)

interpretation resolver: free_invariant_system "sc_step parse" resolver_inv for parse
  by unfold_locales (rule resolver_step)

definition is_resolve :: "connection_out \<Rightarrow> bool" where
  "is_resolve x \<longleftrightarrow> (\<exists>p j. x = Resolve p j)"

lemma resolve_listeners:
  assumes "js_field j ''requestId'' = Some (JStr i)" "map_get (sc_requests s) i = Some p"
  shows "filter is_resolve (sc_out (foldl (run_listener j) s ls)) =
    filter is_resolve (sc_out s) @ map (\<lambda>_. Resolve p j) (filter (\<lambda>l. l = ResolveRequest) ls)"
  using assms(2)
proof (induction ls arbitrary: s)
  case Nil
  then show ?case by simp
next
  case (Cons l ls)
  then show ?case
    using assms(1) by (cases l) (simp_all add: run_listener_def resolveRequest_def is_resolve_def)
qed

lemma one_resolver:
  assumes "resolver_inv s" "ty \<in> set resolved_types"
  shows "filter (\<lambda>l. l = ResolveRequest) (em_listeners (sc_emitter s) ty) = [ResolveRequest]"
proof -
  have "filter (\<lambda>l. l = ResolveRequest) (em_listeners em ty) =
      map (\<lambda>r. fst (snd r)) (filter (\<lambda>r. fst r = ty) (resolvers em))" for em
    by (auto simp: em_listeners_def resolvers_def filter_map comp_def conj_commute intro!: arg_cong[where f = "map _"] filter_cong)
  with assms show ?thesis
    by (auto simp: resolver_inv_def resolved_types_def)
qed

lemma response_resolves:
  assumes inv: "resolver_inv s" and parse: "parse data = Some (message_json (Rsp r))"
    and ty: "response_type r \<in> set resolved_types" and pending: "map_get (sc_requests s) (response_id r) = Some p"
  shows "filter is_resolve (sc_out (sc_receive parse s data)) =
    filter is_resolve (sc_out s) @ [Resolve p (message_json (Rsp r))]"
proof -
  let ?j = "message_json (Rsp r)" and ?em = "sc_emitter s"
  note ls = one_resolver[OF inv ty]
  then have "em_listeners ?em (response_type r) \<noteq> []"
    by auto
  moreover have "?j \<noteq> JNull"
    by (simp add: message_json_def)
  ultimately have "sc_receive parse s data =
      foldl (run_listener ?j) (s\<lparr>sc_emitter := fst (em_emit ?em (response_type r))\<rparr>) (em_listeners ?em (response_type r))"
    using parse json_type[of "Rsp r"]
    by (simp add: sc_receive_def Let_def split_beta em_count_def em_emit_def Suc_le_eq)
  then show ?thesis
    using resolve_listeners[of ?j "response_id r" "s\<lparr>sc_emitter := fst (em_emit ?em (response_type r))\<rparr>" p]
    by (simp add: response_json_id pending ls)
qed

fun requests_id :: "string \<Rightarrow> connection_event \<Rightarrow> bool" where
  "requests_id i (Request _ q) = (request_id q = i)"
| "requests_id i _ = False"

lemma pending_step:
  "\<not> requests_id i e \<Longrightarrow> map_get (sc_requests (sc_step parse s e)) i = map_get (sc_requests s) i"
  by (cases e) (simp_all add: connecting_defs sc_request_def sc_receive_def map_get_set Let_def split_beta split: option.split)

lemma pending_run:
  "\<forall>e \<in> set es. \<not> requests_id i e \<Longrightarrow> map_get (sc_requests (foldl (sc_step parse) s es)) i = map_get (sc_requests s) i"
  by (induction es arbitrary: s) (simp_all add: pending_step)

lemma request_resolved:
  assumes "parse data = Some (message_json (Rsp r))" and "response_type r \<in> set resolved_types"
    and "response_id r = request_id q" and "\<forall>e \<in> set later. \<not> requests_id (request_id q) e"
  shows "let s = foldl (sc_step parse) (connection_new config) earlier;
             s' = foldl (sc_step parse) (sc_step parse s (Request now q)) later
    in filter is_resolve (sc_out (sc_step parse s' (ReceiveFrame data))) =
       filter is_resolve (sc_out s') @ [Resolve (sc_npromises s) (message_json (Rsp r))]"
proof -
  let ?s = "foldl (sc_step parse) (connection_new config) earlier"
  let ?s' = "foldl (sc_step parse) (sc_step parse ?s (Request now q)) later"
  have "resolver_inv ?s"
    by (rule resolver.free_run_inv[OF resolver_inv_new])
  then have "resolver_inv ?s'"
    by (rule resolver.free_run_inv[OF resolver_step])
  moreover have "map_get (sc_requests ?s') (response_id r) = Some (sc_npromises ?s)"
    using pending_run[OF assms(4), of parse "sc_step parse ?s (Request now q)"] assms(3)
    by (simp add: sc_request_def map_get_set)
  ultimately show ?thesis
    using response_resolves[of ?s' parse data r, OF _ assms(1,2)] by (simp add: Let_def)
qed

text \<open>
  A request is resolved by its own response: after any run, a request and any continuation that
  does not reuse its id, a frame with a response of that id and of a type the connection
  resolves settles exactly the promise of that request, once, with the parsed response,
  whatever listeners were added or removed in between.
\<close>

theorem response_resolves_request:
  assumes "parse data = Some (message_json (Rsp r))" and "response_type r \<in> set resolved_types"
    and "response_id r = request_id q" and "\<forall>e \<in> set later. \<not> requests_id (request_id q) e"
  shows "let s = foldl (sc_step parse) (connection_new config) earlier;
             s' = foldl (sc_step parse) (sc_step parse s (Request now q)) later
    in filter is_resolve (sc_out (sc_step parse s' (ReceiveFrame data))) =
       filter is_resolve (sc_out s') @ [Resolve (sc_npromises s) (message_json (Rsp r))]"
  using assms by (rule request_resolved)

lemma response_resolves_request_witness:
  "let parse = (\<lambda>_. Some (message_json (Rsp (PauseProducerResponse ''7''))));
       s = sc_step parse (connection_new web_config) (Request 0 (PauseProducerRequest ''7'' ''p''))
   in filter is_resolve (sc_out (sc_step parse s (ReceiveFrame ''f''))) =
      filter is_resolve (sc_out s) @ [Resolve 0 (message_json (Rsp (PauseProducerResponse ''7'')))]"
  using response_resolves_request[of "\<lambda>_. Some (message_json (Rsp (PauseProducerResponse ''7'')))" "''f''"
      "PauseProducerResponse ''7''" "PauseProducerRequest ''7'' ''p''" "[]" web_config "[]" 0]
  by (simp add: resolved_types_def Let_def) (simp add: connection_new_def)

end
