(* ===== verification/MediaService.thy ===== *)
theory MediaService
  imports ServerConnection
begin

text \<open>
  The media service of the web application, \<^verbatim>\<open>webapp/src/contexts/MediasoupService.tsx\<close>, on top of
  its connection to the SFU. The asynchronous functions are modelled by their suspensions: a
  task holds what the rest of a function needs, and either waits for the promise of a request
  (by its number in the connection) or for the media library, whose answers and events are
  events of the model. The identifiers that the \<open>uuid\<close> library makes are the argument \<open>uuid\<close>, a
  sequence. The methods of the library's device are taken to return.
\<close>

section \<open>State\<close>

text \<open>A producer or a consumer of the media library: its id and the id of its track.\<close>

record media_object =
  mo_id :: string
  mo_track :: "string option"

datatype ms_task =
    TConnecting
  | TCaps nat
  | TLoad
  | TTransports nat nat "json option" "json option"
  | TJoin nat
  | TProduce nat
  | TProduceMedia
  | TConsume json

text \<open>
  What the service does that can be observed: the messages it hands to the connection, the
  transports it creates, the events it emits, the calls of the library.
\<close>

datatype ms_out =
    Submit web_message
  | TransportCreated string
  | ConnectObserver string
  | ProduceCallback "json option"
  | ConsumeDropped json
  | Consume json
  | TypeErrorInHandler
  | NoSendingTransport
  | EmitAdded "json option" "json option" "string option"
  | EmitRemoved "string option"
  | CallPause string
  | CallResume string

record media_service =
  ms_conn :: connection
  ms_snd :: "json option"
  ms_rcv :: "json option"
  ms_producers :: "(string, media_object) jsmap"
  ms_consumers :: "(string, media_object) jsmap"
  ms_tasks :: "(nat \<times> ms_task) list"
  ms_next :: nat
  ms_fresh :: nat
  ms_out :: "ms_out list"

definition ms_log :: "media_service \<Rightarrow> ms_out \<Rightarrow> media_service" where
  "ms_log s x = s\<lparr>ms_out := ms_out s @ [x]\<rparr>"

definition ms_wait :: "media_service \<Rightarrow> ms_task \<Rightarrow> media_service" where
  "ms_wait s t = s\<lparr>ms_tasks := ms_tasks s @ [(ms_next s, t)], ms_next := Suc (ms_next s)\<rparr>"

definition ms_drop :: "media_service \<Rightarrow> nat \<Rightarrow> media_service" where
  "ms_drop s k = s\<lparr>ms_tasks := filter (\<lambda>t. fst t \<noteq> k) (ms_tasks s)\<rparr>"

text \<open>The constructor registers the two listeners, numbered 0 and 1.\<close>

definition ms_new :: "connection_config \<Rightarrow> media_service" where
  "ms_new config =
     (let c = connection_new config;
          c1 = c\<lparr>sc_emitter := em_on (sc_emitter c) ''consumer-created-notification'' (Listener 0)\<rparr>;
          c2 = c1\<lparr>sc_emitter := em_on (sc_emitter c1) ''consumer-closed-notification'' (Listener 1)\<rparr>
      in \<lparr>ms_conn = c2, ms_snd = None, ms_rcv = None, ms_producers = map_new, ms_consumers = map_new,
          ms_tasks = [], ms_next = 0, ms_fresh = 0, ms_out = []\<rparr>)"

section \<open>Messages to the SFU\<close>

definition ms_send :: "media_service \<Rightarrow> int \<Rightarrow> web_message \<Rightarrow> media_service" where
  "ms_send s now m = ms_log (s\<lparr>ms_conn := sendMessage (ms_conn s) now m\<rparr>) (Submit m)"

text \<open>A request with a fresh id; the task that awaits it gets the number of its promise.\<close>

definition ms_request ::
  "(nat \<Rightarrow> string) \<Rightarrow> media_service \<Rightarrow> int \<Rightarrow> (string \<Rightarrow> request) \<Rightarrow> media_service \<times> nat"
where
  "ms_request uuid s now f =
     (let q = f (uuid (ms_fresh s)) in
      (ms_log (s\<lparr>ms_conn := sc_request (ms_conn s) now q, ms_fresh := Suc (ms_fresh s)\<rparr>) (Submit (Wire (Req q))),
       sc_npromises (ms_conn s)))"

section \<open>connect\<close>

definition request_capabilities :: "(nat \<Rightarrow> string) \<Rightarrow> int \<Rightarrow> media_service \<Rightarrow> media_service" where
  "request_capabilities uuid now s =
     (let (s1, p) = ms_request uuid s now GetRouterCapabilitiesRequest in ms_wait s1 (TCaps p))"

text \<open>
  \<open>ServerConnection.connect\<close> returns the promise of an attempt that is already under way; in
  the call that starts the attempt its promise is not returned, so nothing is awaited.
\<close>

definition ms_connect :: "(nat \<Rightarrow> string) \<Rightarrow> int \<Rightarrow> media_service \<Rightarrow> media_service" where
  "ms_connect uuid now s =
     (let c = ms_conn s in
      if \<not> sc_ws c \<and> sc_connecting c then ms_wait s TConnecting
      else request_capabilities uuid now (s\<lparr>ms_conn := sc_connect c\<rparr>))"

definition ms_opened :: "(nat \<Rightarrow> string) \<Rightarrow> int \<Rightarrow> media_service \<Rightarrow> media_service" where
  "ms_opened uuid now s =
     (let s1 = s\<lparr>ms_conn := sc_opened (ms_conn s)\<rparr> in
      if sc_attempt (ms_conn s) = None then s1
      else foldl (\<lambda>s _. request_capabilities uuid now s)
             (s1\<lparr>ms_tasks := filter (\<lambda>t. snd t \<noteq> TConnecting) (ms_tasks s1)\<rparr>)
             (filter (\<lambda>t. snd t = TConnecting) (ms_tasks s1)))"

text \<open>After \<open>device.load\<close>: the capabilities, then both transports at once.\<close>

definition device_loaded :: "(nat \<Rightarrow> string) \<Rightarrow> int \<Rightarrow> media_service \<Rightarrow> json \<Rightarrow> media_service" where
  "device_loaded uuid now s caps =
     (let s1 = ms_send s now (Wire (Ntf (ClientRtpCapabilitiesNotification caps)));
          (s2, p1) = ms_request uuid s1 now (\<lambda>i. CreateTransportRequest i ''producing'');
          (s3, p2) = ms_request uuid s2 now (\<lambda>i. CreateTransportRequest i ''consuming'')
      in ms_wait s3 (TTransports p1 p2 None None))"

definition query_string :: "(string \<times> string) list \<Rightarrow> string" where
  "query_string es = foldl (\<lambda>str (key, val). str @ ''&'' @ key @ ''='' @ val) [] es"

definition undefined_or :: "json option \<Rightarrow> string" where
  "undefined_or v = (case v of None \<Rightarrow> ''undefined'' | Some j \<Rightarrow> js_key j)"

text \<open>\<open>Promise.all\<close> of the two transports: the second response to arrive continues \<open>connect\<close>.\<close>

definition transports_ready ::
  "(nat \<Rightarrow> string) \<Rightarrow> int \<Rightarrow> media_service \<Rightarrow> nat \<Rightarrow> nat \<Rightarrow> json option \<Rightarrow> json option \<Rightarrow> media_service"
where
  "transports_ready uuid now s p1 p2 snd_t rcv_t =
     (if snd_t = None \<or> rcv_t = None then ms_wait s (TTransports p1 p2 snd_t rcv_t)
      else (let (s1, p) = ms_request uuid (s\<lparr>ms_snd := snd_t, ms_rcv := rcv_t\<rparr>) now JoinCallRequest
            in ms_wait s1 (TJoin p)))"

text \<open>What follows the response to a request.\<close>

fun ms_continue ::
  "(nat \<Rightarrow> string) \<Rightarrow> int \<Rightarrow> media_service \<Rightarrow> ms_task \<Rightarrow> nat \<Rightarrow> json \<Rightarrow> media_service"
where
  "ms_continue uuid now s (TCaps _) p j = ms_wait s TLoad"
| "ms_continue uuid now s (TTransports p1 p2 snd_t rcv_t) p j =
     (if p = p1
      then transports_ready uuid now (ms_log s (TransportCreated ''producing'')) p1 p2 (Some j) rcv_t
      else transports_ready uuid now (ms_log s (TransportCreated ''consuming'')) p1 p2 snd_t (Some j))"
| "ms_continue uuid now s (TJoin _) p j =
     ms_log s (ConnectObserver (query_string
       [(''clientId'', cf_clientId (sc_config (ms_conn s))), (''callId'', undefined_or (js_field j ''callId'')),
        (''roomId'', cf_roomId (sc_config (ms_conn s)))]))"
| "ms_continue uuid now s (TProduce _) p j = ms_log s (ProduceCallback (js_field j ''producerId''))"
| "ms_continue uuid now s _ p j = s"

fun waits_for :: "nat \<Rightarrow> ms_task \<Rightarrow> bool" where
  "waits_for p (TCaps q) = (q = p)"
| "waits_for p (TTransports p1 p2 snd_t rcv_t) = (p1 = p \<and> snd_t = None \<or> p2 = p \<and> rcv_t = None)"
| "waits_for p (TJoin q) = (q = p)"
| "waits_for p (TProduce q) = (q = p)"
| "waits_for p _ = False"

definition ms_settle :: "(nat \<Rightarrow> string) \<Rightarrow> int \<Rightarrow> media_service \<Rightarrow> nat \<Rightarrow> json \<Rightarrow> media_service" where
  "ms_settle uuid now s p j =
     (case find (\<lambda>t. waits_for p (snd t)) (ms_tasks s) of
        None \<Rightarrow> s
      | Some (k, t) \<Rightarrow> ms_continue uuid now (ms_drop s k) t p j)"

section \<open>Notifications\<close>

definition on_consumer_created :: "media_service \<Rightarrow> json \<Rightarrow> media_service" where
  "on_consumer_created s j =
     (if ms_rcv s = None then ms_log s (ConsumeDropped j)
      else ms_wait (ms_log s (Consume j)) (TConsume j))"

definition on_consumer_closed :: "media_service \<Rightarrow> json \<Rightarrow> media_service" where
  "on_consumer_closed s j =
     (case js_field j ''consumerId'' of
        Some (JStr i) \<Rightarrow>
          (case map_get (ms_consumers s) i of
             None \<Rightarrow> s
           | Some co \<Rightarrow> ms_log s (EmitRemoved (mo_track co)))
      | _ \<Rightarrow> s)"

text \<open>
  After \<open>consume\<close>: reading a property of an absent or \<open>null\<close> \<open>remoteClient\<close> throws before the
  consumer is stored.
\<close>

definition consumer_ready :: "media_service \<Rightarrow> json \<Rightarrow> media_object \<Rightarrow> media_service" where
  "consumer_ready s j co =
     (case js_field j ''remoteClient'' of
        None \<Rightarrow> ms_log s TypeErrorInHandler
      | Some rc \<Rightarrow>
          if rc = JNull then ms_log s TypeErrorInHandler
          else
            ms_log (s\<lparr>ms_consumers := map_set (ms_consumers s) (mo_id co) co\<rparr>)
              (EmitAdded (js_field rc ''clientId'') (js_field rc ''userId'') (mo_track co)))"

text \<open>What the connection did with a frame: listeners that ran, a promise that was resolved.\<close>

fun ms_react :: "(nat \<Rightarrow> string) \<Rightarrow> int \<Rightarrow> media_service \<Rightarrow> connection_out \<Rightarrow> media_service" where
  "ms_react uuid now s (Dispatch n j) = (if n = 0 then on_consumer_created s j else on_consumer_closed s j)"
| "ms_react uuid now s (Resolve p j) = ms_settle uuid now s p j"
| "ms_react uuid now s _ = s"

definition ms_frame ::
  "(nat \<Rightarrow> string) \<Rightarrow> (string \<Rightarrow> json option) \<Rightarrow> int \<Rightarrow> media_service \<Rightarrow> string \<Rightarrow> media_service"
where
  "ms_frame uuid parse now s data =
     (let c = sc_receive parse (ms_conn s) data in
      foldl (ms_react uuid now) (s\<lparr>ms_conn := c\<rparr>) (drop (length (sc_out (ms_conn s))) (sc_out c)))"

section \<open>Media\<close>

definition produceMedia :: "media_service \<Rightarrow> media_service" where
  "produceMedia s = (if ms_snd s = None then ms_log s NoSendingTransport else ms_wait s TProduceMedia)"

definition produce_listener ::
  "(nat \<Rightarrow> string) \<Rightarrow> int \<Rightarrow> media_service \<Rightarrow> string \<Rightarrow> json \<Rightarrow> media_service"
where
  "produce_listener uuid now s kind rtp =
     (let (s1, p) = ms_request uuid s now (\<lambda>i. CreateProducerRequest i kind rtp ''userId'')
      in ms_wait s1 (TProduce p))"

definition connect_listener ::
  "(nat \<Rightarrow> string) \<Rightarrow> int \<Rightarrow> media_service \<Rightarrow> string \<Rightarrow> json \<Rightarrow> media_service"
where
  "connect_listener uuid now s role dtls =
     ms_send (s\<lparr>ms_fresh := Suc (ms_fresh s)\<rparr>) now
       (Wire (Ntf (TransportConnectedNotification (uuid (ms_fresh s)) role dtls)))"

definition findMediaObjectByTrack :: "media_service \<Rightarrow> string \<Rightarrow> media_object option" where
  "findMediaObjectByTrack s track =
     (case find (\<lambda>p. mo_track p = Some track) (map_values (ms_producers s)) of
        Some p \<Rightarrow> Some p
      | None \<Rightarrow> find (\<lambda>c. mo_track c = Some track) (map_values (ms_consumers s)))"

text \<open>Whether an object of the library is paused is an argument, by its id.\<close>

definition pauseMedia :: "(string \<Rightarrow> bool) \<Rightarrow> media_service \<Rightarrow> string \<Rightarrow> media_service" where
  "pauseMedia paused s track =
     (case findMediaObjectByTrack s track of
        None \<Rightarrow> s
      | Some x \<Rightarrow> if paused (mo_id x) then s else ms_log s (CallPause (mo_id x)))"

definition resumeMedia :: "(string \<Rightarrow> bool) \<Rightarrow> media_service \<Rightarrow> string \<Rightarrow> media_service" where
  "resumeMedia paused s track =
     (case findMediaObjectByTrack s track of
        None \<Rightarrow> s
      | Some x \<Rightarrow> if \<not> paused (mo_id x) then s else ms_log s (CallResume (mo_id x)))"

section \<open>Events\<close>

datatype library_answer =
    Loaded json
  | ProducerReady media_object
  | ConsumerReady media_object
  | LibraryRejected

definition ms_answer ::
  "(nat \<Rightarrow> string) \<Rightarrow> int \<Rightarrow> media_service \<Rightarrow> nat \<Rightarrow> library_answer \<Rightarrow> media_service"
where
  "ms_answer uuid now s k a =
     (case (map_of (ms_tasks s) k, a) of
        (Some TLoad, Loaded caps) \<Rightarrow> device_loaded uuid now (ms_drop s k) caps
      | (Some TProduceMedia, ProducerReady p) \<Rightarrow>
          (ms_drop s k)\<lparr>ms_producers := map_set (ms_producers s) (mo_id p) p\<rparr>
      | (Some (TConsume j), ConsumerReady co) \<Rightarrow> consumer_ready (ms_drop s k) j co
      | (Some TLoad, LibraryRejected) \<Rightarrow> ms_drop s k
      | (Some TProduceMedia, LibraryRejected) \<Rightarrow> ms_drop s k
      | (Some (TConsume _), LibraryRejected) \<Rightarrow> ms_drop s k
      | _ \<Rightarrow> s)"

datatype ms_event =
    MsConnect int
  | SocketOpened int
  | SocketFailed
  | RetryFired
  | ResendFired int
  | FrameReceived int string
  | Answer int nat library_answer
  | TransportConnecting int string json
  | Producing int string json
  | ProduceMedia
  | ProducerClosed string
  | ConsumerClosed string
  | PauseMedia "string \<Rightarrow> bool" string
  | ResumeMedia "string \<Rightarrow> bool" string

text \<open>
  The library raises \<open>connect\<close> and \<open>produce\<close> only on transports that exist; closed objects are
  those that were stored, by their id.
\<close>

fun ms_step :: "(nat \<Rightarrow> string) \<Rightarrow> (string \<Rightarrow> json option) \<Rightarrow> media_service \<Rightarrow> ms_event \<Rightarrow> media_service" where
  "ms_step uuid parse s (MsConnect now) = ms_connect uuid now s"
| "ms_step uuid parse s (SocketOpened now) = ms_opened uuid now s"
| "ms_step uuid parse s SocketFailed = s\<lparr>ms_conn := sc_failed (ms_conn s)\<rparr>"
| "ms_step uuid parse s RetryFired = s\<lparr>ms_conn := sc_retry_timer (ms_conn s)\<rparr>"
| "ms_step uuid parse s (ResendFired now) = s\<lparr>ms_conn := resend_timer (ms_conn s) now\<rparr>"
| "ms_step uuid parse s (FrameReceived now data) = ms_frame uuid parse now s data"
| "ms_step uuid parse s (Answer now k a) = ms_answer uuid now s k a"
| "ms_step uuid parse s (TransportConnecting now role dtls) =
     (if TransportCreated role \<in> set (ms_out s) then connect_listener uuid now s role dtls else s)"
| "ms_step uuid parse s (Producing now kind rtp) =
     (if TransportCreated ''producing'' \<in> set (ms_out s) then produce_listener uuid now s kind rtp else s)"
| "ms_step uuid parse s ProduceMedia = produceMedia s"
| "ms_step uuid parse s (ProducerClosed i) = s\<lparr>ms_producers := map_delete (ms_producers s) i\<rparr>"
| "ms_step uuid parse s (ConsumerClosed i) = s\<lparr>ms_consumers := map_delete (ms_consumers s) i\<rparr>"
| "ms_step uuid parse s (PauseMedia paused track) = pauseMedia paused s track"
| "ms_step uuid parse s (ResumeMedia paused track) = resumeMedia paused s track"

section \<open>The order of the conversation\<close>

definition is_join :: "ms_out \<Rightarrow> bool" where
  "is_join x \<longleftrightarrow> (\<exists>i. x = Submit (Wire (Req (JoinCallRequest i))))"

definition announced_caps :: "ms_out list \<Rightarrow> bool" where
  "announced_caps xs \<longleftrightarrow> (\<exists>caps. Submit (Wire (Ntf (ClientRtpCapabilitiesNotification caps))) \<in> set xs)"

definition ready_to_join :: "ms_out list \<Rightarrow> bool" where
  "ready_to_join xs \<longleftrightarrow>
     announced_caps xs \<and> TransportCreated ''producing'' \<in> set xs \<and> TransportCreated ''consuming'' \<in> set xs"

definition joins_in_order :: "ms_out list \<Rightarrow> bool" where
  "joins_in_order xs \<longleftrightarrow> (\<forall>n < length xs. is_join (xs ! n) \<longrightarrow> ready_to_join (take n xs))"

lemma joins_in_order_Nil [simp]: "joins_in_order []"
  by (simp add: joins_in_order_def)

lemma joins_in_order_snoc [simp]:
  "joins_in_order (xs @ [x]) \<longleftrightarrow> joins_in_order xs \<and> (is_join x \<longrightarrow> ready_to_join xs)"
  by (auto simp: joins_in_order_def less_Suc_eq nth_append)

lemma joins_in_order_append:
  "joins_in_order xs \<Longrightarrow> \<forall>y \<in> set ys. \<not> is_join y \<Longrightarrow> joins_in_order (xs @ ys)"
proof (induction ys rule: rev_induct)
  case (snoc y ys)
  then show ?case
    using joins_in_order_snoc[of "xs @ ys" y] by simp
qed simp

text \<open>What is known about a suspended \<open>Promise.all\<close> of the transports.\<close>

fun task_ok :: "ms_out list \<Rightarrow> ms_task \<Rightarrow> bool" where
  "task_ok xs (TTransports p1 p2 snd_t rcv_t) \<longleftrightarrow>
     announced_caps xs \<and> (snd_t \<noteq> None \<longrightarrow> TransportCreated ''producing'' \<in> set xs) \<and>
     (rcv_t \<noteq> None \<longrightarrow> TransportCreated ''consuming'' \<in> set xs)"
| "task_ok xs _ \<longleftrightarrow> True"

definition conversation_inv :: "media_service \<Rightarrow> bool" where
  "conversation_inv s \<longleftrightarrow>
     joins_in_order (ms_out s) \<and> (\<forall>(k, t) \<in> set (ms_tasks s). task_ok (ms_out s) t) \<and>
     ((\<exists>x \<in> set (ms_out s). is_join x) \<longrightarrow> ms_snd s \<noteq> None \<and> ms_rcv s \<noteq> None)"

text \<open>Steps that neither join nor touch the transports: they extend the trace and may add other tasks.\<close>

definition grows :: "media_service \<Rightarrow> media_service \<Rightarrow> bool" where
  "grows s s' \<longleftrightarrow>
     (\<exists>xs. ms_out s' = ms_out s @ xs \<and> (\<forall>x \<in> set xs. \<not> is_join x)) \<and>
     ms_snd s' = ms_snd s \<and> ms_rcv s' = ms_rcv s \<and>
     (\<forall>(k, t) \<in> set (ms_tasks s'). (k, t) \<in> set (ms_tasks s) \<or> (\<forall>xs. task_ok xs t))"

named_theorems grows_intros \<open>operations that extend the trace\<close>

lemma grows_refl [grows_intros]: "grows s s"
  by (auto simp: grows_def)

lemma grows_trans: "grows s s' \<Longrightarrow> grows s' s'' \<Longrightarrow> grows s s''"
proof -
  assume 1: "grows s s'" and 2: "grows s' s''"
  obtain xs where xs: "ms_out s' = ms_out s @ xs" "\<forall>x \<in> set xs. \<not> is_join x"
    using 1 by (auto simp: grows_def)
  obtain ys where ys: "ms_out s'' = ms_out s' @ ys" "\<forall>x \<in> set ys. \<not> is_join x"
    using 2 by (auto simp: grows_def)
  have "ms_out s'' = ms_out s @ (xs @ ys)" "\<forall>x \<in> set (xs @ ys). \<not> is_join x"
    using xs ys by auto
  then have "\<exists>zs. ms_out s'' = ms_out s @ zs \<and> (\<forall>x \<in> set zs. \<not> is_join x)"
    by blast
  moreover have "\<forall>(k, t) \<in> set (ms_tasks s''). (k, t) \<in> set (ms_tasks s) \<or> (\<forall>xs. task_ok xs t)"
    using 1 2 unfolding grows_def by fast
  ultimately show ?thesis
    using 1 2 by (simp add: grows_def)
qed

lemma task_ok_append: "task_ok xs t \<Longrightarrow> task_ok (xs @ ys) t"
  by (cases t) (auto simp: announced_caps_def)

lemma conversation_grows: "conversation_inv s \<Longrightarrow> grows s s' \<Longrightarrow> conversation_inv s'"
  unfolding conversation_inv_def grows_def
  by (fastforce intro: joins_in_order_append task_ok_append)

lemma grows_log [grows_intros]: "\<not> is_join x \<Longrightarrow> grows s (ms_log s x)"
  by (auto simp: grows_def ms_log_def)

lemma grows_wait [grows_intros]: "(\<And>xs. task_ok xs t) \<Longrightarrow> grows s (ms_wait s t)"
  by (auto simp: grows_def ms_wait_def)

lemma grows_drop [grows_intros]: "grows s (ms_drop s k)"
  by (auto simp: grows_def ms_drop_def)

lemma grows_frame [grows_intros]:
  "grows s (s\<lparr>ms_conn := c\<rparr>)" "grows s (s\<lparr>ms_conn := c, ms_fresh := n\<rparr>)" "grows s (s\<lparr>ms_fresh := n\<rparr>)"
  "grows s (s\<lparr>ms_producers := ps\<rparr>)" "grows s (s\<lparr>ms_consumers := ps\<rparr>)"
  "grows s (s\<lparr>ms_tasks := filter P (ms_tasks s)\<rparr>)"
  by (auto simp: grows_def)

lemma is_join_simps [simp]:
  "is_join (Submit (Wire (Req q))) \<longleftrightarrow> (\<exists>i. q = JoinCallRequest i)" "\<not> is_join (Submit (Wire (Ntf n)))"
  "\<not> is_join (TransportCreated r)" "\<not> is_join (ConnectObserver q')" "\<not> is_join (ProduceCallback v)"
  "\<not> is_join (ConsumeDropped j)" "\<not> is_join (Consume j)" "\<not> is_join TypeErrorInHandler"
  "\<not> is_join NoSendingTransport" "\<not> is_join (EmitAdded u v w)" "\<not> is_join (EmitRemoved w)"
  "\<not> is_join (CallPause i)" "\<not> is_join (CallResume i)"
  by (auto simp: is_join_def)

lemma grows_send [grows_intros]: "\<not> is_join (Submit m) \<Longrightarrow> grows s (ms_send s now m)"
  unfolding ms_send_def by (rule grows_trans[OF grows_frame(1) grows_log])

lemma grows_request [grows_intros]:
  "(\<And>i. \<not> is_join (Submit (Wire (Req (f i))))) \<Longrightarrow> grows s (fst (ms_request uuid s now f))"
  unfolding ms_request_def Let_def fst_conv by (rule grows_trans[OF grows_frame(2) grows_log])

lemma grows_capabilities [grows_intros]: "grows s (request_capabilities uuid now s)"
  unfolding request_capabilities_def split_beta Let_def
  by (rule grows_trans[OF grows_request grows_wait]) simp_all

lemma grows_foldl: "(\<And>s x. grows s (f s x)) \<Longrightarrow> grows s s' \<Longrightarrow> grows s (foldl f s' xs)"
  by (induction xs arbitrary: s') (simp, metis foldl_Cons grows_trans)

lemma grows_connect: "grows s (ms_connect uuid now s)"
  using grows_trans[OF grows_frame(1) grows_capabilities] by (simp add: ms_connect_def Let_def grows_wait)

lemma grows_opened: "grows s (ms_opened uuid now s)"
proof -
  have *: "grows s (s\<lparr>ms_conn := c, ms_tasks := filter P (ms_tasks s)\<rparr>)" for c P
    by (auto simp: grows_def)
  have "grows s (foldl (\<lambda>s _. request_capabilities uuid now s) (s\<lparr>ms_conn := c, ms_tasks := filter P (ms_tasks s)\<rparr>) xs)"
    for c P and xs :: "(nat \<times> ms_task) list"
    by (rule grows_foldl[OF grows_capabilities *])
  then show ?thesis
    unfolding ms_opened_def Let_def by (simp add: grows_frame)
qed

lemma grows_created: "grows s (on_consumer_created s j)"
  by (auto simp: on_consumer_created_def intro: grows_intros grows_trans[OF grows_log grows_wait])

lemma grows_closed: "grows s (on_consumer_closed s j)"
  by (auto simp: on_consumer_closed_def intro: grows_intros split: option.split json.split)

lemma grows_consumer: "grows s (consumer_ready s j co)"
  by (auto simp: consumer_ready_def intro: grows_intros grows_trans[OF grows_frame(5) grows_log] split: option.split)

lemma conversation_transports:
  assumes inv: "conversation_inv s" and caps: "announced_caps (ms_out s)"
    and "snd_t \<noteq> None \<longrightarrow> TransportCreated ''producing'' \<in> set (ms_out s)"
    and "rcv_t \<noteq> None \<longrightarrow> TransportCreated ''consuming'' \<in> set (ms_out s)"
  shows "conversation_inv (transports_ready uuid now s p1 p2 snd_t rcv_t)"
proof (cases "snd_t = None \<or> rcv_t = None")
  case True
  then show ?thesis
    using assms by (auto simp: transports_ready_def conversation_inv_def ms_wait_def)
next
  case False
  then have "ready_to_join (ms_out s)"
    using assms by (auto simp: ready_to_join_def)
  then have "conversation_inv (fst (ms_request uuid (s\<lparr>ms_snd := snd_t, ms_rcv := rcv_t\<rparr>) now JoinCallRequest))"
    using inv False by (auto simp: conversation_inv_def ms_request_def ms_log_def Let_def intro: task_ok_append)
  then show ?thesis
    by (simp only: transports_ready_def False if_False split_beta Let_def)
      (rule conversation_grows[OF _ grows_wait], simp_all)
qed

lemma conversation_loaded:
  assumes "conversation_inv s"
  shows "conversation_inv (device_loaded uuid now s caps)"
proof -
  let ?s1 = "ms_send s now (Wire (Ntf (ClientRtpCapabilitiesNotification caps)))"
  let ?s2 = "fst (ms_request uuid ?s1 now (\<lambda>i. CreateTransportRequest i ''producing''))"
  let ?s3 = "fst (ms_request uuid ?s2 now (\<lambda>i. CreateTransportRequest i ''consuming''))"
  have "grows s ?s3"
    by (rule grows_trans[OF grows_trans[OF grows_send grows_request] grows_request]) simp_all
  then have "conversation_inv ?s3"
    by (rule conversation_grows[OF assms])
  moreover have "announced_caps (ms_out ?s3)"
    by (auto simp: announced_caps_def ms_send_def ms_request_def ms_log_def Let_def)
  ultimately show ?thesis
    by (auto simp: device_loaded_def Let_def split_beta conversation_inv_def ms_wait_def)
qed

lemma conversation_continue:
  assumes inv: "conversation_inv s" and t: "task_ok (ms_out s) t"
  shows "conversation_inv (ms_continue uuid now s t p j)"
proof (cases t)
  case (TTransports p1 p2 a b)
  have *: "conversation_inv (ms_log s (TransportCreated r))" for r
    by (rule conversation_grows[OF inv grows_log]) simp
  have **: "announced_caps (ms_out s @ [x])" for x
    using t TTransports by (auto simp: announced_caps_def)
  show ?thesis
    using t TTransports * ** by (auto simp: ms_log_def intro!: conversation_transports)
qed (simp_all add: conversation_grows[OF inv] grows_log grows_wait inv)

lemma conversation_settle: "conversation_inv s \<Longrightarrow> conversation_inv (ms_settle uuid now s p j)"
proof (cases "find (\<lambda>t. waits_for p (snd t)) (ms_tasks s)")
  case (Some kt)
  assume inv: "conversation_inv s"
  have "kt \<in> set (ms_tasks s)"
    using Some by (auto simp: find_Some_iff)
  then have "task_ok (ms_out s) (snd kt)"
    using inv by (auto simp: conversation_inv_def)
  then show ?thesis
    using Some conversation_continue[OF conversation_grows[OF inv grows_drop], of "fst kt" "snd kt"]
    by (simp add: ms_settle_def split_beta ms_drop_def)
qed (simp add: ms_settle_def)

lemma conversation_react: "conversation_inv s \<Longrightarrow> conversation_inv (ms_react uuid now s x)"
  by (cases x) (auto intro: conversation_settle conversation_grows grows_created grows_closed)

lemma conversation_frame: "conversation_inv s \<Longrightarrow> conversation_inv (ms_frame uuid parse now s data)"
proof -
  assume "conversation_inv s"
  then have "conversation_inv (s\<lparr>ms_conn := c\<rparr>)" for c
    by (rule conversation_grows[OF _ grows_frame(1)])
  then show ?thesis
    unfolding ms_frame_def Let_def
    by (intro free_invariant_system.free_run_inv[of "ms_react uuid now" conversation_inv]
        free_invariant_system.intro conversation_react)
qed

lemma conversation_answer: "conversation_inv s \<Longrightarrow> conversation_inv (ms_answer uuid now s k a)"
  by (simp add: ms_answer_def conversation_loaded conversation_grows[OF _ grows_drop]
      conversation_grows[OF _ grows_trans[OF grows_drop grows_frame(4)]]
      conversation_grows[OF _ grows_trans[OF grows_drop grows_consumer]]
      split: option.split ms_task.split library_answer.split)

lemma grows_media:
  "grows s (produceMedia s)" "grows s (pauseMedia pd s t)" "grows s (resumeMedia pd s t)"
  "grows s (connect_listener uuid now s role dtls)" "grows s (produce_listener uuid now s kind rtp)"
proof -
  show "grows s (produceMedia s)" "grows s (pauseMedia pd s t)" "grows s (resumeMedia pd s t)"
    by (auto simp: produceMedia_def pauseMedia_def resumeMedia_def intro: grows_intros split: option.split)
  show "grows s (connect_listener uuid now s role dtls)"
    unfolding connect_listener_def by (rule grows_trans[OF grows_frame(3) grows_send]) simp
  show "grows s (produce_listener uuid now s kind rtp)"
    unfolding produce_listener_def split_beta Let_def by (rule grows_trans[OF grows_request grows_wait]) simp_all
qed

lemma conversation_step: "conversation_inv s \<Longrightarrow> conversation_inv (ms_step uuid parse s e)"
  by (cases e)
    (simp_all add: conversation_frame conversation_answer conversation_grows[OF _ grows_connect]
      conversation_grows[OF _ grows_opened] conversation_grows[OF _ grows_frame(1)]
      conversation_grows[OF _ grows_frame(4)] conversation_grows[OF _ grows_frame(5)]
      conversation_grows[OF _ grows_media(1)] conversation_grows[OF _ grows_media(2)]
      conversation_grows[OF _ grows_media(3)] conversation_grows[OF _ grows_media(4)]
      conversation_grows[OF _ grows_media(5)])

lemma conversation_new: "conversation_inv (ms_new config)"
  by (simp add: conversation_inv_def ms_new_def Let_def)

interpretation conversation: free_invariant_system "ms_step uuid parse" conversation_inv for uuid parse
  by unfold_locales (rule conversation_step)

text \<open>
  C17. The service asks to join only when it is ready: in any run, before each
  \<open>JoinCallRequest\<close> it submits, it announced its capabilities and has created both its sending and
  its receiving transport; from then on it has a receiving transport, so that no announced
  consumer is dropped.
\<close>

theorem join_after_transports:
  assumes "s = foldl (ms_step uuid parse) (ms_new config) es"
    and "ms_out s = before @ Submit (Wire (Req (JoinCallRequest i))) # after"
  shows "(\<exists>caps. Submit (Wire (Ntf (ClientRtpCapabilitiesNotification caps))) \<in> set before) \<and>
    TransportCreated ''producing'' \<in> set before \<and> TransportCreated ''consuming'' \<in> set before \<and>
    ms_snd s \<noteq> None \<and> ms_rcv s \<noteq> None"
proof -
  have inv: "conversation_inv s"
    unfolding assms(1) by (rule conversation.free_run_inv[OF conversation_new])
  moreover have "is_join (ms_out s ! length before)" "length before < length (ms_out s)"
    "take (length before) (ms_out s) = before" "\<exists>x \<in> set (ms_out s). is_join x"
    by (simp_all add: assms(2))
  ultimately have "ready_to_join before" "ms_snd s \<noteq> None \<and> ms_rcv s \<noteq> None"
    unfolding conversation_inv_def joins_in_order_def by metis+
  then show ?thesis
    by (simp add: ready_to_join_def announced_caps_def)
qed

text \<open>A whole conversation: the frames are the responses to the requests with the ids \<open>i\<close>, \<open>ii\<close> and so on.\<close>

definition demo_uuid :: "nat \<Rightarrow> string" where
  "demo_uuid n = replicate n (CHR ''i'')"

definition demo_transport :: transport_info where
  "demo_transport = \<lparr>ti_id = ''t'', ti_iceParameters = JNull, ti_iceCandidates = JNull, ti_dtlsParameters = JNull\<rparr>"

definition demo_parse :: "string \<Rightarrow> json option" where
  "demo_parse = map_of
     [(''caps'', message_json (Rsp (GetRouterCapabilitiesResponse [] JNull))),
      (''snd'', message_json (Rsp (CreateTransportResponse ''i'' demo_transport))),
      (''rcv'', message_json (Rsp (CreateTransportResponse ''ii'' demo_transport))),
      (''joined'', message_json (Rsp (JoinCallResponse ''iii'' ''call'' ''token''))),
      (''created'', message_json (Ntf (ConsumerCreatedNotification ''k'' ''p'' ''audio'' JNull
         \<lparr>rc_userId = Some ''u'', rc_clientId = ''c2''\<rparr>))),
      (''closed'', message_json (Ntf (ConsumerClosedNotification ''k'')))]"

definition demo_conversation :: "ms_event list" where
  "demo_conversation =
     [MsConnect 0, SocketOpened 1, ResendFired 2, FrameReceived 3 ''caps'', Answer 4 1 (Loaded (JObj [])),
      FrameReceived 5 ''rcv'', FrameReceived 6 ''snd'', FrameReceived 7 ''joined'']"

definition demo_service :: media_service where
  "demo_service = foldl (ms_step demo_uuid demo_parse) (ms_new web_config) demo_conversation"

lemma demo_service_out:
  "ms_out demo_service =
     [Submit (Wire (Req (GetRouterCapabilitiesRequest []))),
      Submit (Wire (Ntf (ClientRtpCapabilitiesNotification (JObj [])))),
      Submit (Wire (Req (CreateTransportRequest ''i'' ''producing''))),
      Submit (Wire (Req (CreateTransportRequest ''ii'' ''consuming''))),
      TransportCreated ''consuming'', TransportCreated ''producing'',
      Submit (Wire (Req (JoinCallRequest ''iii''))),
      ConnectObserver ''&clientId=c1&callId=call&roomId=r1'']"
  by code_simp

lemma join_after_transports_witness:
  "\<exists>caps. Submit (Wire (Ntf (ClientRtpCapabilitiesNotification caps))) \<in>
     set (take 6 (ms_out demo_service))"
  using join_after_transports[of demo_service demo_uuid demo_parse web_config demo_conversation
      "take 6 (ms_out demo_service)" "''iii''" "drop 7 (ms_out demo_service)", OF demo_service_def]
  by (simp add: demo_service_out)

section \<open>Consumers\<close>

text \<open>
  The listeners of the service stay registered, and the numbers of its tasks are fresh.
\<close>

definition service_listeners :: "web_listener emitter" where
  "service_listeners =
     map (\<lambda>ty. (ty, ResolveRequest, False)) resolved_types @
     [(''consumer-created-notification'', Listener 0, False), (''consumer-closed-notification'', Listener 1, False)]"

definition service_inv :: "media_service \<Rightarrow> bool" where
  "service_inv s \<longleftrightarrow>
     sc_emitter (ms_conn s) = service_listeners \<and> (\<forall>t \<in> set (ms_tasks s). fst t < ms_next s)"

lemma service_new: "service_inv (ms_new config)"
  by (simp add: service_inv_def ms_new_def Let_def connection_new_def service_listeners_def resolved_types_def em_on_def)

lemma emit_service: "em_emit service_listeners ev = (service_listeners, em_listeners service_listeners ev)"
  by (simp add: em_emit_def service_listeners_def resolved_types_def)

lemma receive_service:
  "sc_emitter c = service_listeners \<Longrightarrow> sc_emitter (sc_receive parse c data) = service_listeners"
  by (simp add: sc_receive_def Let_def split_beta emit_service split: option.split)

lemma connecting_emitter [simp]:
  "sc_emitter (sc_connect c) = sc_emitter c" "sc_emitter (sc_opened c) = sc_emitter c"
  "sc_emitter (sc_failed c) = sc_emitter c" "sc_emitter (sc_retry_timer c) = sc_emitter c"
  "sc_emitter (sc_request c now q) = sc_emitter c"
  by (simp_all add: connecting_defs sc_request_def split: option.split)

lemma service_frame:
  assumes "service_inv s"
  shows "service_inv (ms_log s x)" "service_inv (ms_wait s t)" "service_inv (ms_drop s k)"
    "service_inv (ms_send s now m)" "service_inv (fst (ms_request uuid s now f))"
    "service_inv (s\<lparr>ms_fresh := n\<rparr>)" "service_inv (s\<lparr>ms_producers := ps\<rparr>)" "service_inv (s\<lparr>ms_consumers := ps\<rparr>)"
    "service_inv (s\<lparr>ms_snd := a, ms_rcv := b\<rparr>)" "service_inv (s\<lparr>ms_tasks := filter P (ms_tasks s)\<rparr>)"
    "sc_emitter c = service_listeners \<Longrightarrow> service_inv (s\<lparr>ms_conn := c\<rparr>)"
  using assms
  by (auto simp: service_inv_def ms_log_def ms_wait_def ms_drop_def ms_send_def ms_request_def Let_def less_Suc_eq)

lemma service_emitter: "service_inv s \<Longrightarrow> sc_emitter (ms_conn s) = service_listeners"
  by (simp add: service_inv_def)

lemma service_capabilities: "service_inv s \<Longrightarrow> service_inv (request_capabilities uuid now s)"
  by (simp add: request_capabilities_def split_beta Let_def service_frame)

lemma service_opened: "service_inv s \<Longrightarrow> service_inv (ms_opened uuid now s)"
proof -
  assume "service_inv s"
  then have s: "service_inv (s\<lparr>ms_conn := sc_opened (ms_conn s)\<rparr>)"
    by (simp add: service_frame(11) service_emitter)
  have "service_inv (foldl (\<lambda>s _. request_capabilities uuid now s) s' xs)" if "service_inv s'"
    for s' and xs :: "(nat \<times> ms_task) list"
    using that by (induction xs arbitrary: s') (simp_all add: service_capabilities)
  from s this[OF service_frame(10)[OF s]] show ?thesis
    unfolding ms_opened_def Let_def by simp
qed

lemma service_ready: "service_inv s \<Longrightarrow> service_inv (transports_ready uuid now s p1 p2 a b)"
  by (simp add: transports_ready_def split_beta Let_def service_frame)

lemma service_continue: "service_inv s \<Longrightarrow> service_inv (ms_continue uuid now s t p j)"
  by (cases t) (simp_all add: service_frame service_ready)

lemma service_react: "service_inv s \<Longrightarrow> service_inv (ms_react uuid now s x)"
  by (cases x)
    (simp_all add: ms_settle_def on_consumer_created_def on_consumer_closed_def service_continue service_frame
      split: option.split json.split)

lemma service_receive: "service_inv s \<Longrightarrow> service_inv (ms_frame uuid parse now s data)"
proof -
  have "service_inv (foldl (ms_react uuid now) s' xs)" if "service_inv s'" for s' xs
    using that by (induction xs arbitrary: s') (simp_all add: service_react)
  then show "service_inv s \<Longrightarrow> service_inv (ms_frame uuid parse now s data)"
    by (simp add: ms_frame_def Let_def service_frame(11) receive_service service_emitter)
qed

lemma service_answer: "service_inv s \<Longrightarrow> service_inv (ms_answer uuid now s k a)"
  by (simp add: ms_answer_def device_loaded_def consumer_ready_def split_beta Let_def service_frame
      split: option.split ms_task.split library_answer.split)

lemma service_media:
  assumes "service_inv s"
  shows "service_inv (produceMedia s)" "service_inv (pauseMedia pd s tr)" "service_inv (resumeMedia pd s tr)"
    "service_inv (connect_listener uuid now s role dtls)" "service_inv (produce_listener uuid now s kind rtp)"
  using assms
  by (simp_all add: produceMedia_def pauseMedia_def resumeMedia_def connect_listener_def produce_listener_def
      split_beta Let_def service_frame split: option.split)

lemma service_step: "service_inv s \<Longrightarrow> service_inv (ms_step uuid parse s e)"
  by (cases e)
    (simp_all add: ms_connect_def Let_def service_capabilities service_opened service_receive service_answer
      service_media service_frame service_emitter)

interpretation service: free_invariant_system "ms_step uuid parse" service_inv for uuid parse
  by unfold_locales (rule service_step)

lemma service_run: "service_inv (foldl (ms_step uuid parse) (ms_new config) es)"
  by (rule service.free_run_inv[OF service_new])

text \<open>A notification with a listener of the service runs exactly that listener.\<close>

lemma receive_notification:
  assumes "sc_emitter c = service_listeners" "parse data = Some (message_json (Ntf n))"
    and "em_listeners service_listeners (notification_type n) = [Listener l]"
  shows "sc_receive parse c data = sc_log c (Dispatch l (message_json (Ntf n)))"
proof -
  have "message_json (Ntf n) \<noteq> JNull"
    by (simp add: message_json_def)
  then show ?thesis
    using assms json_type[of "Ntf n"]
    by (simp add: sc_receive_def Let_def em_count_def emit_service[folded assms(1)] run_listener_def flip: assms(1))
qed

lemma frame_notification:
  assumes "service_inv s" "parse data = Some (message_json (Ntf n))"
    and "em_listeners service_listeners (notification_type n) = [Listener l]"
  shows "ms_frame uuid parse now s data =
    ms_react uuid now (s\<lparr>ms_conn := sc_log (ms_conn s) (Dispatch l (message_json (Ntf n)))\<rparr>)
      (Dispatch l (message_json (Ntf n)))"
  using receive_notification[of "ms_conn s" parse, OF service_emitter[OF assms(1)] assms(2,3)]
  by (simp add: ms_frame_def Let_def)

lemma listeners_of_service:
  "em_listeners service_listeners ''consumer-created-notification'' = [Listener 0]"
  "em_listeners service_listeners ''consumer-closed-notification'' = [Listener 1]"
  by (simp_all add: em_listeners_def service_listeners_def resolved_types_def)

lemma consumed_run:
  assumes "s = foldl (ms_step uuid parse) (ms_new config) es"
    and "Submit (Wire (Req (JoinCallRequest i))) \<in> set (ms_out s)"
    and "parse data = Some (message_json (Ntf (ConsumerCreatedNotification c p kind rtp rc)))"
  shows "let j = message_json (Ntf (ConsumerCreatedNotification c p kind rtp rc));
             s1 = ms_step uuid parse s (FrameReceived now data);
             s2 = ms_step uuid parse s1 (Answer now' (ms_next s) (ConsumerReady co))
    in ms_out s1 = ms_out s @ [Consume j] \<and>
       ms_out s2 = ms_out s1 @
         [EmitAdded (Some (JStr (rc_clientId rc))) (map_option JStr (rc_userId rc)) (mo_track co)] \<and>
       map_get (ms_consumers s2) (mo_id co) = Some co"
proof -
  let ?n = "ConsumerCreatedNotification c p kind rtp rc"
  let ?j = "message_json (Ntf ?n)" and ?c = "sc_log (ms_conn s) (Dispatch 0 (message_json (Ntf ?n)))"
  let ?s1 = "ms_step uuid parse s (FrameReceived now data)"
  have inv: "service_inv s"
    unfolding assms(1) by (rule service_run)
  have "conversation_inv s"
    unfolding assms(1) by (rule conversation.free_run_inv[OF conversation_new])
  then have rcv: "ms_rcv s \<noteq> None"
    using assms(2) by (fastforce simp: conversation_inv_def)
  have s1: "?s1 = ms_wait (ms_log (s\<lparr>ms_conn := ?c\<rparr>) (Consume ?j)) (TConsume ?j)"
    using frame_notification[of s parse data ?n 0, OF inv assms(3)] rcv
    by (simp add: listeners_of_service on_consumer_created_def)
  have "map_of (ms_tasks s) (ms_next s) = None"
    using inv by (fastforce simp: service_inv_def map_of_eq_None_iff)
  then have "map_of (ms_tasks ?s1) (ms_next s) = Some (TConsume ?j)"
    unfolding s1 by (simp add: ms_wait_def ms_log_def map_add_def)
  then have s2: "ms_step uuid parse ?s1 (Answer now' (ms_next s) (ConsumerReady co)) =
      consumer_ready (ms_drop ?s1 (ms_next s)) ?j co"
    by (simp add: ms_answer_def del: ms_step.simps(6))
  have rc: "js_field ?j ''remoteClient'' = Some (remote_client_json rc)"
    by (simp add: message_json_def)
  have ready: "consumer_ready s' ?j co = ms_log (s'\<lparr>ms_consumers := map_set (ms_consumers s') (mo_id co) co\<rparr>)
      (EmitAdded (Some (JStr (rc_clientId rc))) (map_option JStr (rc_userId rc)) (mo_track co))" for s'
    unfolding consumer_ready_def rc by (simp add: remote_client_json_def opt_field_def split: option.split)
  show ?thesis
    unfolding Let_def s2 ready by (simp add: s1 ms_log_def ms_wait_def ms_drop_def map_get_set del: ms_step.simps(6))
qed

text \<open>
  An announced consumer is consumed: after the service asked to join, a frame with a
  \<open>ConsumerCreatedNotification\<close> makes it call \<open>consume\<close> with exactly that notification, and when the
  library has created the consumer it is stored by its id and announced with the client and the
  user the notification named.
\<close>

theorem announced_consumer_is_consumed:
  assumes "s = foldl (ms_step uuid parse) (ms_new config) es"
    and "Submit (Wire (Req (JoinCallRequest i))) \<in> set (ms_out s)"
    and "parse data = Some (message_json (Ntf (ConsumerCreatedNotification c p kind rtp rc)))"
  shows "let j = message_json (Ntf (ConsumerCreatedNotification c p kind rtp rc));
             s1 = ms_step uuid parse s (FrameReceived now data);
             s2 = ms_step uuid parse s1 (Answer now' (ms_next s) (ConsumerReady co))
    in ms_out s1 = ms_out s @ [Consume j] \<and>
       ms_out s2 = ms_out s1 @
         [EmitAdded (Some (JStr (rc_clientId rc))) (map_option JStr (rc_userId rc)) (mo_track co)] \<and>
       map_get (ms_consumers s2) (mo_id co) = Some co"
  using assms by (rule consumed_run)

lemma announced_consumer_is_consumed_witness:
  "let s1 = ms_step demo_uuid demo_parse demo_service (FrameReceived 8 ''created'');
       s2 = ms_step demo_uuid demo_parse s1 (Answer 9 (ms_next demo_service)
         (ConsumerReady \<lparr>mo_id = ''k'', mo_track = Some ''t''\<rparr>))
   in ms_out s2 = ms_out s1 @ [EmitAdded (Some (JStr ''c2'')) (Some (JStr ''u'')) (Some ''t'')]"
  using announced_consumer_is_consumed[of demo_service demo_uuid demo_parse web_config demo_conversation "''iii''"
      "''created''", OF demo_service_def]
  by (simp add: demo_service_out demo_parse_def Let_def)

text \<open>
  The end of a consumer is announced, but the consumer is kept: a frame with a
  \<open>ConsumerClosedNotification\<close> makes the service announce the removal of the track of the stored
  consumer, if there is one, and leaves the table and the library's object as they are.
\<close>

theorem closed_consumer_is_kept:
  assumes "s = foldl (ms_step uuid parse) (ms_new config) es"
    and "parse data = Some (message_json (Ntf (ConsumerClosedNotification c)))"
  shows "let s1 = ms_step uuid parse s (FrameReceived now data)
    in ms_out s1 = ms_out s @ (case map_get (ms_consumers s) c of None \<Rightarrow> [] | Some co \<Rightarrow> [EmitRemoved (mo_track co)]) \<and>
       ms_consumers s1 = ms_consumers s \<and> ms_tasks s1 = ms_tasks s"
proof -
  have "service_inv s"
    unfolding assms(1) by (rule service_run)
  moreover have "js_field (message_json (Ntf (ConsumerClosedNotification c))) ''consumerId'' = Some (JStr c)"
    by (simp add: message_json_def)
  ultimately show ?thesis
    using frame_notification[of s parse data "ConsumerClosedNotification c" 1] assms(2)
    by (simp add: Let_def listeners_of_service on_consumer_closed_def ms_log_def split: option.split)
qed

text \<open>The removal of the track is announced twice, since the consumer stays in the table.\<close>

definition demo_consuming :: "ms_event list" where
  "demo_consuming = demo_conversation @
     [FrameReceived 8 ''created'', Answer 9 5 (ConsumerReady \<lparr>mo_id = ''k'', mo_track = Some ''t''\<rparr>),
      FrameReceived 10 ''closed'']"

lemma demo_consuming_end:
  "map_get (ms_consumers (foldl (ms_step demo_uuid demo_parse) (ms_new web_config) demo_consuming)) ''k'' =
     Some \<lparr>mo_id = ''k'', mo_track = Some ''t''\<rparr>"
  "last (ms_out (foldl (ms_step demo_uuid demo_parse) (ms_new web_config) demo_consuming)) = EmitRemoved (Some ''t'')"
  by code_simp+

lemma closed_consumer_is_kept_witness:
  "let s = foldl (ms_step demo_uuid demo_parse) (ms_new web_config) demo_consuming;
       s1 = ms_step demo_uuid demo_parse s (FrameReceived 11 ''closed'')
   in last (ms_out s) = EmitRemoved (Some ''t'') \<and> ms_out s1 = ms_out s @ [EmitRemoved (Some ''t'')]"
  using closed_consumer_is_kept[OF refl, of demo_parse "''closed''" "''k''" demo_uuid web_config demo_consuming 11]
  by (simp add: Let_def demo_consuming_end) (simp add: demo_parse_def)

end
