(* ===== verification/MediaWire.thy ===== *)
theory MediaWire
  imports MediaService "HOL-Library.Sublist"
begin

text \<open>
  What the media service puts on the wire, as opposed to what it hands to its connection: the messages
  that were written to the socket, in their order. Only the first request can wait in the buffer of
  the connection, everything else is written at once, so the order in which the service speaks is
  the order in which the SFU hears it.
\<close>

section \<open>Messages on the wire\<close>

fun sent_of :: "connection_out \<Rightarrow> web_message list" where
  "sent_of (WsSend m) = [m]"
| "sent_of _ = []"

definition sent :: "media_service \<Rightarrow> web_message list" where
  "sent s = concat (map sent_of (sc_out (ms_conn s)))"

text \<open>Messages that were written or wait to be.\<close>

definition spoken :: "media_service \<Rightarrow> web_message set" where
  "spoken s = set (sent s) \<union> fst ` set (sc_buffer (ms_conn s))"

abbreviation caps_message :: "json \<Rightarrow> web_message" where
  "caps_message v \<equiv> Wire (Ntf (ClientRtpCapabilitiesNotification v))"

abbreviation join_message :: "string \<Rightarrow> web_message" where
  "join_message i \<equiv> Wire (Req (JoinCallRequest i))"

definition caps_sent :: "web_message list \<Rightarrow> bool" where
  "caps_sent ms \<longleftrightarrow> (\<exists>v. caps_message v \<in> set ms)"

definition joins_after_caps :: "web_message list \<Rightarrow> bool" where
  "joins_after_caps ms \<longleftrightarrow> (\<forall>n i. n < length ms \<longrightarrow> ms ! n = join_message i \<longrightarrow> caps_sent (take n ms))"

lemma joins_after_caps_Nil [simp]: "joins_after_caps []"
  by (simp add: joins_after_caps_def)

lemma joins_after_caps_snoc:
  "joins_after_caps (ms @ [m]) \<longleftrightarrow> joins_after_caps ms \<and> ((\<exists>i. m = join_message i) \<longrightarrow> caps_sent ms)"
  by (auto simp: joins_after_caps_def less_Suc_eq nth_append)

lemma caps_sent_append: "caps_sent ms \<Longrightarrow> caps_sent (ms @ ms')"
  by (auto simp: caps_sent_def)

section \<open>The invariant\<close>

text \<open>The second promise of a suspended \<open>Promise.all\<close> is the one of the request for a consuming transport.\<close>

fun task_wired :: "media_service \<Rightarrow> ms_task \<Rightarrow> bool" where
  "task_wired s (TTransports p1 p2 snd_t rcv_t) \<longleftrightarrow> caps_sent (sent s) \<and>
     (\<exists>i. map_get (sc_requests (ms_conn s)) i = Some p2 \<and>
        Wire (Req (CreateTransportRequest i ''consuming'')) \<in> set (sent s))"
| "task_wired s _ \<longleftrightarrow> True"

fun is_early :: "ms_task \<Rightarrow> bool" where
  "is_early TConnecting = True"
| "is_early (TCaps _) = True"
| "is_early _ = False"

definition ids_fresh :: "(nat \<Rightarrow> string) \<Rightarrow> media_service \<Rightarrow> bool" where
  "ids_fresh uuid s \<longleftrightarrow>
     (\<forall>q. Wire (Req q) \<in> spoken s \<longrightarrow> (\<exists>k < ms_fresh s. request_id q = uuid k)) \<and>
     (\<forall>i p. map_get (sc_requests (ms_conn s)) i = Some p \<longrightarrow>
        p < sc_npromises (ms_conn s) \<and> (\<exists>k < ms_fresh s. i = uuid k))"

definition ids_unique :: "media_service \<Rightarrow> bool" where
  "ids_unique s \<longleftrightarrow>
     (\<forall>q q'. Wire (Req q) \<in> spoken s \<longrightarrow> Wire (Req q') \<in> spoken s \<longrightarrow> request_id q = request_id q' \<longrightarrow> q = q') \<and>
     (\<forall>i i' p. map_get (sc_requests (ms_conn s)) i = Some p \<longrightarrow>
        map_get (sc_requests (ms_conn s)) i' = Some p \<longrightarrow> i = i')"

text \<open>Before the socket is open nothing was written and \<open>connect\<close> is at its beginning.\<close>

definition quiet :: "media_service \<Rightarrow> bool" where
  "quiet s \<longleftrightarrow> sent s = [] \<and> (\<forall>x \<in> set (ms_tasks s). is_early (snd x)) \<and>
     (\<forall>r. TransportCreated r \<notin> set (ms_out s)) \<and> ms_snd s = None \<and> ms_rcv s = None"

definition wire_inv :: "(nat \<Rightarrow> string) \<Rightarrow> media_service \<Rightarrow> bool" where
  "wire_inv uuid s \<longleftrightarrow> inj uuid \<and>
     (\<forall>x \<in> set (sc_buffer (ms_conn s)). \<exists>i. fst x = Wire (Req (GetRouterCapabilitiesRequest i))) \<and>
     (\<not> sc_ws (ms_conn s) \<longrightarrow> quiet s) \<and>
     (\<forall>v. caps_message v \<in> set (sent s) \<longrightarrow> js_truthy (Some v)) \<and>
     (\<forall>x \<in> set (ms_tasks s). task_wired s (snd x)) \<and>
     joins_after_caps (sent s) \<and>
     (\<forall>i. join_message i \<in> set (sent s) \<longrightarrow>
        TransportCreated ''consuming'' \<in> set (ms_out s) \<and> Submit (join_message i) \<in> set (ms_out s)) \<and>
     (\<forall>i. Submit (join_message i) \<in> set (ms_out s) \<longrightarrow> join_message i \<in> set (sent s)) \<and>
     ids_fresh uuid s \<and> ids_unique s"

lemma wire_invD:
  assumes "wire_inv uuid s"
  shows "inj uuid"
    and "x \<in> set (sc_buffer (ms_conn s)) \<Longrightarrow> \<exists>i. fst x = Wire (Req (GetRouterCapabilitiesRequest i))"
    and "\<not> sc_ws (ms_conn s) \<Longrightarrow> quiet s"
    and "caps_message v \<in> set (sent s) \<Longrightarrow> js_truthy (Some v)"
    and "x' \<in> set (ms_tasks s) \<Longrightarrow> task_wired s (snd x')"
    and "joins_after_caps (sent s)"
    and "join_message i \<in> set (sent s) \<Longrightarrow>
      TransportCreated ''consuming'' \<in> set (ms_out s) \<and> Submit (join_message i) \<in> set (ms_out s)"
    and "Submit (join_message i) \<in> set (ms_out s) \<Longrightarrow> join_message i \<in> set (sent s)"
    and "ids_fresh uuid s" "ids_unique s"
  using assms unfolding wire_inv_def by blast+

lemma wire_new: "inj uuid \<Longrightarrow> wire_inv uuid (ms_new config)"
  by (simp add: wire_inv_def ms_new_def Let_def connection_new_def quiet_def sent_def spoken_def
      ids_fresh_def ids_unique_def map_get_def map_new_def)

section \<open>Changes off the wire\<close>

text \<open>The connection speaks as before.\<close>

definition same_wire :: "media_service \<Rightarrow> media_service \<Rightarrow> bool" where
  "same_wire s s' \<longleftrightarrow> sent s' = sent s \<and> sc_buffer (ms_conn s') = sc_buffer (ms_conn s) \<and>
     sc_requests (ms_conn s') = sc_requests (ms_conn s) \<and> sc_npromises (ms_conn s') = sc_npromises (ms_conn s) \<and>
     (sc_ws (ms_conn s) \<longrightarrow> sc_ws (ms_conn s'))"

lemma same_wire_refl [simp]: "same_wire s s"
  by (simp add: same_wire_def)

lemma same_wire_conn: "ms_conn s' = ms_conn s \<Longrightarrow> same_wire s s'"
  by (simp add: same_wire_def sent_def)

lemma task_wired_same: "same_wire s s' \<Longrightarrow> task_wired s' t = task_wired s t"
  by (cases t) (simp_all add: same_wire_def)

lemma wire_local:
  assumes inv: "wire_inv uuid s" and w: "same_wire s s'" and fresh: "ms_fresh s \<le> ms_fresh s'"
    and out: "\<And>x. x \<in> set (ms_out s') \<Longrightarrow> x \<in> set (ms_out s) \<or> \<not> is_join x \<and> (sc_ws (ms_conn s') \<or> (\<forall>r. x \<noteq> TransportCreated r))"
    and keep: "set (ms_out s) \<subseteq> set (ms_out s')"
    and tasks: "\<And>x. x \<in> set (ms_tasks s') \<Longrightarrow>
      x \<in> set (ms_tasks s) \<or> task_wired s (snd x) \<and> (sc_ws (ms_conn s') \<or> is_early (snd x))"
    and trs: "sc_ws (ms_conn s') \<or> ms_snd s' = ms_snd s \<and> ms_rcv s' = ms_rcv s"
  shows "wire_inv uuid s'"
proof -
  note d = wire_invD[OF inv]
  have eq: "sent s' = sent s" "sc_buffer (ms_conn s') = sc_buffer (ms_conn s)"
    "sc_requests (ms_conn s') = sc_requests (ms_conn s)" "sc_npromises (ms_conn s') = sc_npromises (ms_conn s)"
    "sc_ws (ms_conn s) \<Longrightarrow> sc_ws (ms_conn s')"
    using w by (simp_all add: same_wire_def)
  have sp: "spoken s' = spoken s"
    by (simp add: spoken_def eq)
  have q: "quiet s'" if ws: "\<not> sc_ws (ms_conn s')"
  proof -
    have "quiet s"
      using ws eq(5) d(3) by blast
    moreover have "ms_snd s' = ms_snd s" "ms_rcv s' = ms_rcv s"
      using trs ws by blast+
    ultimately show ?thesis
      using ws out tasks unfolding quiet_def eq by simp blast
  qed
  have t: "task_wired s' (snd x)" if "x \<in> set (ms_tasks s')" for x
    using tasks[OF that] d(5) task_wired_same[OF w] by blast
  have j: "join_message i \<in> set (sent s)" if "Submit (join_message i) \<in> set (ms_out s')" for i
    using out[OF that] d(8) by auto
  have f: "ids_fresh uuid s'" "ids_unique s'"
    using d(9,10) less_le_trans[OF _ fresh] unfolding ids_fresh_def ids_unique_def sp eq by blast+
  show ?thesis
    unfolding wire_inv_def eq using d(1,2,4,6) d(7) keep q t j f by blast
qed

lemma wire_log: "wire_inv uuid s \<Longrightarrow> \<not> is_join x \<Longrightarrow> sc_ws (ms_conn s) \<or> (\<forall>r. x \<noteq> TransportCreated r) \<Longrightarrow> wire_inv uuid (ms_log s x)"
  by (erule wire_local) (auto simp: ms_log_def same_wire_conn)

lemma wire_wait:
  "wire_inv uuid s \<Longrightarrow> task_wired s t \<Longrightarrow> sc_ws (ms_conn s) \<or> is_early t \<Longrightarrow> wire_inv uuid (ms_wait s t)"
  by (erule wire_local) (auto simp: ms_wait_def same_wire_conn)

lemma wire_drop: "wire_inv uuid s \<Longrightarrow> wire_inv uuid (ms_drop s k)"
  by (erule wire_local) (auto simp: ms_drop_def same_wire_conn)

lemma wire_fields:
  assumes "wire_inv uuid s"
  shows "wire_inv uuid (s\<lparr>ms_producers := ps\<rparr>)" "wire_inv uuid (s\<lparr>ms_consumers := cs\<rparr>)"
    "wire_inv uuid (s\<lparr>ms_fresh := Suc (ms_fresh s)\<rparr>)" "wire_inv uuid (s\<lparr>ms_tasks := filter P (ms_tasks s)\<rparr>)"
    "sc_ws (ms_conn s) \<Longrightarrow> wire_inv uuid (s\<lparr>ms_snd := a, ms_rcv := b\<rparr>)"
  by (rule wire_local[OF assms]; auto intro: same_wire_conn)+

lemma wire_conn:
  assumes "wire_inv uuid s" "same_wire s (s\<lparr>ms_conn := c\<rparr>)"
  shows "wire_inv uuid (s\<lparr>ms_conn := c\<rparr>)"
  by (rule wire_local[OF assms]) auto

section \<open>Speaking\<close>

lemma spoken_send:
  "sc_ws (ms_conn s) \<Longrightarrow> sent (ms_send s now m) = sent s @ [m]"
  "spoken (s\<lparr>ms_conn := sendMessage (ms_conn s) now m\<rparr>) \<subseteq> insert m (spoken s)"
  by (auto simp: sent_def spoken_def ms_send_def ms_log_def sendMessage_def sc_log_def Let_def)

text \<open>A notification on an open socket.\<close>

lemma wire_send:
  assumes inv: "wire_inv uuid s" and ws: "sc_ws (ms_conn s)"
    and v: "\<And>v. n = ClientRtpCapabilitiesNotification v \<Longrightarrow> js_truthy (Some v)"
  shows "wire_inv uuid (ms_send s now (Wire (Ntf n)))" (is "wire_inv uuid ?s'")
proof -
  note d = wire_invD[OF inv]
  have s: "sent ?s' = sent s @ [Wire (Ntf n)]"
    by (rule spoken_send(1)[OF ws])
  have f: "sc_buffer (ms_conn ?s') = sc_buffer (ms_conn s)" "sc_requests (ms_conn ?s') = sc_requests (ms_conn s)"
    "sc_npromises (ms_conn ?s') = sc_npromises (ms_conn s)" "sc_ws (ms_conn ?s')" "ms_fresh ?s' = ms_fresh s"
    "ms_tasks ?s' = ms_tasks s" "ms_out ?s' = ms_out s @ [Submit (Wire (Ntf n))]"
    using ws by (simp_all add: ms_send_def ms_log_def sendMessage_def)
  have t: "task_wired ?s' t" if "task_wired s t" for t
    using that by (cases t) (auto simp: s f caps_sent_append)
  have sp: "Wire (Req q) \<in> spoken ?s' \<longleftrightarrow> Wire (Req q) \<in> spoken s" for q
    by (simp add: spoken_def s f)
  show ?thesis
    unfolding wire_inv_def
    using d t v by (auto simp: f s joins_after_caps_snoc ids_fresh_def ids_unique_def sp)
qed

text \<open>A request gets the next id and the next promise.\<close>

lemma request_effect:
  fixes s :: media_service
  assumes id: "request_id (f (uuid (ms_fresh s))) = uuid (ms_fresh s)" and q: "q = f (uuid (ms_fresh s))"
  shows "snd (ms_request uuid s now f) = sc_npromises (ms_conn s)"
    and "sc_requests (ms_conn (fst (ms_request uuid s now f))) =
      map_set (sc_requests (ms_conn s)) (uuid (ms_fresh s)) (sc_npromises (ms_conn s))"
    and "sc_npromises (ms_conn (fst (ms_request uuid s now f))) = Suc (sc_npromises (ms_conn s))"
    and "sc_ws (ms_conn (fst (ms_request uuid s now f))) = sc_ws (ms_conn s)"
    and "sent (fst (ms_request uuid s now f)) = sent s @ (if sc_ws (ms_conn s) then [Wire (Req q)] else [])"
    and "set (sc_buffer (ms_conn (fst (ms_request uuid s now f)))) \<subseteq>
      set (sc_buffer (ms_conn s)) \<union> (if sc_ws (ms_conn s) then {} else {(Wire (Req q), now)})"
    and "ms_fresh (fst (ms_request uuid s now f)) = Suc (ms_fresh s)"
    and "ms_tasks (fst (ms_request uuid s now f)) = ms_tasks s"
    and "ms_out (fst (ms_request uuid s now f)) = ms_out s @ [Submit (Wire (Req q))]"
    and "ms_snd (fst (ms_request uuid s now f)) = ms_snd s" "ms_rcv (fst (ms_request uuid s now f)) = ms_rcv s"
  using id unfolding q
  by (auto simp: ms_request_def ms_log_def sc_request_def sendMessage_def sc_log_def sent_def Let_def)

lemma request_spoken:
  assumes "request_id (f (uuid (ms_fresh s))) = uuid (ms_fresh s)"
  shows "spoken (fst (ms_request uuid s now f)) \<subseteq> insert (Wire (Req (f (uuid (ms_fresh s))))) (spoken s)"
  using request_effect(5,6)[where f = f and s = s and uuid = uuid and now = now, OF assms refl]
  by (auto simp: spoken_def split: if_splits)

lemma wire_request:
  assumes inv: "wire_inv uuid s" and id: "\<And>i. request_id (f i) = i"
    and early: "sc_ws (ms_conn s) \<or> f = GetRouterCapabilitiesRequest"
    and join: "\<And>i j. f i = JoinCallRequest j \<Longrightarrow>
      sc_ws (ms_conn s) \<and> caps_sent (sent s) \<and> TransportCreated ''consuming'' \<in> set (ms_out s)"
  shows "wire_inv uuid (fst (ms_request uuid s now f))" (is "wire_inv uuid ?s'")
proof -
  note d = wire_invD[OF inv]
  let ?n = "ms_fresh s" and ?q = "f (uuid (ms_fresh s))"
  note e = request_effect[where f = f and s = s and uuid = uuid and now = now, OF id refl]
  have new: "\<not> k < ?n" if "uuid k = uuid ?n" for k
    using that d(1) by (auto dest: injD)
  have old_id: "request_id q \<noteq> uuid ?n" if "Wire (Req q) \<in> spoken s" for q
    using that d(9) new unfolding ids_fresh_def by metis
  have old_rq: "i \<noteq> uuid ?n" "p < sc_npromises (ms_conn s)" if "map_get (sc_requests (ms_conn s)) i = Some p" for i p
    using that d(9) new unfolding ids_fresh_def by metis+
  have spoken: "q = ?q \<or> Wire (Req q) \<in> spoken s" if "Wire (Req q) \<in> spoken ?s'" for q
    using that request_spoken[where f = f and s = s and uuid = uuid and now = now, OF id] by blast
  have "ids_fresh uuid ?s'"
    unfolding ids_fresh_def
  proof (intro conjI allI impI)
    show "\<exists>k < ms_fresh ?s'. request_id q = uuid k" if "Wire (Req q) \<in> spoken ?s'" for q
      using spoken[OF that] d(9) id unfolding ids_fresh_def e(7) by (metis less_Suc_eq)
    fix i p
    assume i: "map_get (sc_requests (ms_conn ?s')) i = Some p"
    then have "i = uuid ?n \<and> p = sc_npromises (ms_conn s) \<or> map_get (sc_requests (ms_conn s)) i = Some p"
      unfolding e(2) map_get_set by (cases "i = uuid ?n") simp_all
    then consider "i = uuid ?n" "p = sc_npromises (ms_conn s)" | "map_get (sc_requests (ms_conn s)) i = Some p"
      by blast
    then have "p < Suc (sc_npromises (ms_conn s)) \<and> (\<exists>k < Suc ?n. i = uuid k)"
    proof cases
      case 2
      then obtain k where "k < ?n" "i = uuid k" "p < sc_npromises (ms_conn s)"
        using d(9) unfolding ids_fresh_def by blast
      then show ?thesis by (intro conjI exI[of _ k]) simp_all
    qed blast
    then show "p < sc_npromises (ms_conn ?s')" "\<exists>k < ms_fresh ?s'. i = uuid k"
      unfolding e(3,7) by blast+
  qed
  moreover have "ids_unique ?s'"
    unfolding ids_unique_def
  proof (intro conjI allI impI)
    fix q q'
    assume "Wire (Req q) \<in> spoken ?s'" "Wire (Req q') \<in> spoken ?s'" "request_id q = request_id q'"
    then show "q = q'"
      using spoken old_id id d(10) unfolding ids_unique_def by metis
  next
    fix i i' p
    assume "map_get (sc_requests (ms_conn ?s')) i = Some p" "map_get (sc_requests (ms_conn ?s')) i' = Some p"
    then show "i = i'"
      using old_rq d(10) unfolding ids_unique_def e(2) map_get_set by (auto split: if_splits)
  qed
  moreover have "task_wired ?s' t" if t: "task_wired s t" for t
  proof (cases t)
    case (TTransports p1 p2 a b)
    then obtain i where i: "caps_sent (sent s)" "map_get (sc_requests (ms_conn s)) i = Some p2"
        "Wire (Req (CreateTransportRequest i ''consuming'')) \<in> set (sent s)"
      using t by auto
    then have "map_get (sc_requests (ms_conn ?s')) i = Some p2"
      using old_rq(1)[OF i(2)] by (simp add: e(2) map_get_set)
    with i TTransports show ?thesis
      by (auto simp: e(5) caps_sent_append)
  qed simp_all
  moreover have "quiet ?s'" if "\<not> sc_ws (ms_conn ?s')"
    using that d(3) e by (auto simp: quiet_def)
  moreover have "\<exists>i. fst x = Wire (Req (GetRouterCapabilitiesRequest i))" if x: "x \<in> set (sc_buffer (ms_conn ?s'))" for x
  proof -
    have "x \<in> set (sc_buffer (ms_conn s)) \<or> \<not> sc_ws (ms_conn s) \<and> x = (Wire (Req ?q), now)"
      using x e(6) by (cases "sc_ws (ms_conn s)") auto
    then show ?thesis
      using d(2)[of x] early by auto
  qed
  moreover have "join_message i \<in> set (sent ?s')" if "Submit (join_message i) \<in> set (ms_out ?s')" for i
    using that d(8) join[of "uuid ?n" i] by (auto simp: e(5,9))
  moreover have "joins_after_caps (sent ?s')"
    using d(6) join by (auto simp: e(5) joins_after_caps_snoc)
  moreover have "TransportCreated ''consuming'' \<in> set (ms_out ?s') \<and> Submit (join_message i) \<in> set (ms_out ?s')"
    if "join_message i \<in> set (sent ?s')" for i
    using that d(7) join[of "uuid ?n" i] by (auto simp: e(5,9) split: if_splits)
  moreover have "js_truthy (Some v)" if "caps_message v \<in> set (sent ?s')" for v
    using that d(4) by (auto simp: e(5) split: if_splits)
  ultimately show ?thesis
    using d(1,5) by (auto simp: wire_inv_def e(8))
qed

section \<open>The operations\<close>

text \<open>The invariant with what the conversation needs besides.\<close>

definition talk_inv :: "(nat \<Rightarrow> string) \<Rightarrow> media_service \<Rightarrow> bool" where
  "talk_inv uuid s \<longleftrightarrow> wire_inv uuid s \<and> conversation_inv s \<and> service_inv s"

lemma talk_socket:
  assumes "wire_inv uuid s"
  shows "x \<in> set (ms_tasks s) \<Longrightarrow> \<not> is_early (snd x) \<Longrightarrow> sc_ws (ms_conn s)"
    and "TransportCreated r \<in> set (ms_out s) \<Longrightarrow> sc_ws (ms_conn s)"
    and "ms_snd s \<noteq> None \<Longrightarrow> sc_ws (ms_conn s)" "ms_rcv s \<noteq> None \<Longrightarrow> sc_ws (ms_conn s)"
  using wire_invD(3)[OF assms] unfolding quiet_def by metis+

lemma wire_capabilities: "wire_inv uuid s \<Longrightarrow> wire_inv uuid (request_capabilities uuid now s)"
  unfolding request_capabilities_def split_beta Let_def by (intro wire_wait wire_request) auto

lemma same_wire_connecting:
  "same_wire s (s\<lparr>ms_conn := sc_connect (ms_conn s)\<rparr>)" "same_wire s (s\<lparr>ms_conn := sc_opened (ms_conn s)\<rparr>)"
  "same_wire s (s\<lparr>ms_conn := sc_failed (ms_conn s)\<rparr>)" "same_wire s (s\<lparr>ms_conn := sc_retry_timer (ms_conn s)\<rparr>)"
  by (auto simp: same_wire_def sent_def connecting_defs sc_log_def split: option.split)

lemma wire_connect: "wire_inv uuid s \<Longrightarrow> wire_inv uuid (ms_connect uuid now s)"
  unfolding ms_connect_def Let_def
  by (auto intro!: wire_wait wire_capabilities wire_conn same_wire_connecting)

lemma wire_opened: "wire_inv uuid s \<Longrightarrow> wire_inv uuid (ms_opened uuid now s)"
proof -
  assume "wire_inv uuid s"
  then have s: "wire_inv uuid (s\<lparr>ms_conn := sc_opened (ms_conn s)\<rparr>)"
    by (rule wire_conn) (rule same_wire_connecting)
  have "wire_inv uuid (foldl (\<lambda>s _. request_capabilities uuid now s) s' xs)" if "wire_inv uuid s'"
    for s' and xs :: "(nat \<times> ms_task) list"
    using that by (induction xs arbitrary: s') (simp_all add: wire_capabilities)
  from s this[OF wire_fields(4)[OF s]] show ?thesis
    unfolding ms_opened_def Let_def by simp
qed

lemma sent_flush:
  "concat (map sent_of (map (\<lambda>x. if P x then DropExpired (fst x) else WsSend (fst x)) xs)) =
   map fst (filter (\<lambda>x. \<not> P x) xs)"
  by (induction xs) auto

lemma resend_open:
  assumes "sc_armed c" "sc_ws c"
  shows "resend_timer c now = c\<lparr>sc_armed := False, sc_buffer := [], sc_out := sc_out c @
    map (\<lambda>x. if is_expired (sc_config c) now x then DropExpired (fst x) else WsSend (fst x)) (sc_buffer c)\<rparr>"
  using assms flush_loop[of "c\<lparr>sc_armed := False, sc_buffer := []\<rparr>" now "sc_buffer c"]
  by (simp add: resend_timer_def)

lemma wire_resend:
  assumes inv: "wire_inv uuid s"
  shows "wire_inv uuid (s\<lparr>ms_conn := resend_timer (ms_conn s) now\<rparr>)" (is "wire_inv uuid ?s'")
proof (cases "sc_armed (ms_conn s) \<and> sc_ws (ms_conn s)")
  case False
  then show ?thesis
    by (intro wire_conn[OF inv]) (auto simp: resend_timer_def same_wire_def sent_def)
next
  case True
  note d = wire_invD[OF inv]
  define out where "out = map fst (filter (\<lambda>x. \<not> is_expired (sc_config (ms_conn s)) now x) (sc_buffer (ms_conn s)))"
  have conn: "sent ?s' = sent s @ out" "sc_buffer (ms_conn ?s') = []" "sc_ws (ms_conn ?s')"
    "sc_requests (ms_conn ?s') = sc_requests (ms_conn s)" "sc_npromises (ms_conn ?s') = sc_npromises (ms_conn s)"
    using True unfolding sent_def by (simp_all add: resend_open sent_flush out_def del: map_map)
  have out: "\<exists>i. m = Wire (Req (GetRouterCapabilitiesRequest i))" if "m \<in> set out" for m
    using that d(2) unfolding out_def by fastforce
  have sp: "m \<in> spoken s" if "m \<in> spoken ?s'" for m
    using that conn(1,2) by (auto simp: spoken_def out_def)
  have j: "joins_after_caps (ms @ ms')" if "joins_after_caps ms" "\<forall>m \<in> set ms'. \<nexists>i. m = join_message i" for ms ms'
    using that
  proof (induction ms' rule: rev_induct)
    case (snoc m ms')
    then show ?case
      using joins_after_caps_snoc[of "ms @ ms'" m] by simp
  qed simp
  have t: "task_wired ?s' t" if "task_wired s t" for t
  proof (cases t)
    case (TTransports p1 p2 a b)
    then show ?thesis
      using that by (auto simp: conn(1,4) caps_sent_append)
  qed simp_all
  have old: "m \<in> set (sent s)" if "m \<in> set (sent ?s')" "\<nexists>i. m = Wire (Req (GetRouterCapabilitiesRequest i))" for m
    using that out conn(1) by auto
  have "joins_after_caps (sent ?s')"
    unfolding conn(1) by (rule j[OF d(6)]) (use out in blast)
  moreover have "ids_fresh uuid ?s'"
    using d(9) sp unfolding ids_fresh_def conn by auto
  moreover have "ids_unique ?s'"
    using d(10) sp unfolding ids_unique_def conn by auto
  moreover have "js_truthy (Some v)" if "caps_message v \<in> set (sent ?s')" for v
    using d(4) old[OF that] by blast
  moreover have "TransportCreated ''consuming'' \<in> set (ms_out s) \<and> Submit (join_message i) \<in> set (ms_out s)"
    if "join_message i \<in> set (sent ?s')" for i
    using d(7) old[OF that] by blast
  moreover have "join_message i \<in> set (sent ?s')" if "Submit (join_message i) \<in> set (ms_out s)" for i
    using d(8)[OF that] conn(1) by simp
  ultimately show ?thesis
    using d(1,5) t conn(2,3) unfolding wire_inv_def by simp
qed

lemma wire_loaded:
  assumes inv: "wire_inv uuid s" and ws: "sc_ws (ms_conn s)" and v: "js_truthy (Some caps)"
  shows "wire_inv uuid (device_loaded uuid now s caps)"
proof -
  let ?s1 = "ms_send s now (caps_message caps)"
  let ?f = "\<lambda>r i. CreateTransportRequest i r"
  let ?s2 = "fst (ms_request uuid ?s1 now (?f ''producing''))"
  let ?s3 = "fst (ms_request uuid ?s2 now (?f ''consuming''))"
  note e2 = request_effect[where s = ?s1 and f = "?f ''producing''" and uuid = uuid and now = now, simplified]
  note e3 = request_effect[where s = ?s2 and f = "?f ''consuming''" and uuid = uuid and now = now, simplified]
  have ws1: "sc_ws (ms_conn ?s1)"
    using ws by (simp add: ms_send_def ms_log_def send_open)
  have inv3: "wire_inv uuid ?s3"
    by (intro wire_request wire_send[OF inv ws]) (use v e2(4) ws1 in auto)
  have "caps_sent (sent ?s3)"
    using spoken_send(1)[OF ws] by (simp add: e3(5) e2(5) caps_sent_def) blast
  moreover have "map_get (sc_requests (ms_conn ?s3)) (uuid (ms_fresh ?s2)) =
      Some (snd (ms_request uuid ?s2 now (?f ''consuming'')))"
    by (simp add: e3(1,2) map_get_set)
  moreover have "Wire (Req (?f ''consuming'' (uuid (ms_fresh ?s2)))) \<in> set (sent ?s3)"
    using ws1 e2(4) by (simp add: e3(5))
  ultimately have "task_wired ?s3 (TTransports p1 (snd (ms_request uuid ?s2 now (?f ''consuming''))) None None)" for p1
    by auto
  moreover have "sc_ws (ms_conn ?s3)"
    using ws1 e2(4) e3(4) by simp
  ultimately show ?thesis
    unfolding device_loaded_def Let_def split_beta by (intro wire_wait[OF inv3]) auto
qed

lemma wire_ready:
  assumes inv: "wire_inv uuid s" and ws: "sc_ws (ms_conn s)" and t: "task_wired s (TTransports p1 p2 a b)"
    and rcv: "b \<noteq> None \<Longrightarrow> TransportCreated ''consuming'' \<in> set (ms_out s)"
  shows "wire_inv uuid (transports_ready uuid now s p1 p2 a b)"
proof (cases "a = None \<or> b = None")
  case True
  then show ?thesis
    unfolding transports_ready_def using t ws by (auto intro!: wire_wait inv)
next
  case False
  let ?s1 = "s\<lparr>ms_snd := a, ms_rcv := b\<rparr>"
  let ?s2 = "fst (ms_request uuid ?s1 now JoinCallRequest)"
  note e = request_effect[where s = ?s1 and f = JoinCallRequest and uuid = uuid and now = now, simplified]
  have s1: "sent ?s1 = sent s"
    by (simp add: sent_def)
  have "wire_inv uuid ?s2"
    using False rcv t ws by (intro wire_request wire_fields(5)[OF inv]) (auto simp: s1)
  then show ?thesis
    using False ws e(4) by (auto simp: transports_ready_def split_beta Let_def intro!: wire_wait)
qed

lemma task_wired_log: "task_wired (ms_log s x) t = task_wired s t"
  by (rule task_wired_same) (simp add: same_wire_conn ms_log_def)

lemma wire_continue:
  assumes inv: "wire_inv uuid s" and ws: "sc_ws (ms_conn s)" and t: "task_wired s t" "task_ok (ms_out s) t"
  shows "wire_inv uuid (ms_continue uuid now s t p j)"
proof (cases t)
  case (TTransports p1 p2 a b)
  have l: "wire_inv uuid (ms_log s (TransportCreated r))" for r
    by (rule wire_log[OF inv]) (use ws in simp_all)
  have ws': "sc_ws (ms_conn (ms_log s (TransportCreated r)))" for r
    using ws by (simp add: ms_log_def)
  have "task_wired s (TTransports p1 p2 a' b')" for a' b'
    using t(1) TTransports by simp
  then have t': "task_wired (ms_log s x) (TTransports p1 p2 a' b')" for x a' b'
    by (simp only: task_wired_log)
  have rcv: "b \<noteq> None \<Longrightarrow> TransportCreated ''consuming'' \<in> set (ms_out (ms_log s x))" for x
    using t(2) TTransports by (simp add: ms_log_def)
  have new: "TransportCreated ''consuming'' \<in> set (ms_out (ms_log s (TransportCreated ''consuming'')))"
    by (simp add: ms_log_def)
  show ?thesis
    unfolding TTransports ms_continue.simps
    using wire_ready[OF l ws' t' rcv] wire_ready[OF l ws' t' new] by presburger
qed (use ws in \<open>auto intro!: wire_wait wire_log inv\<close>)

lemma wire_settle:
  assumes inv: "wire_inv uuid s" and c: "conversation_inv s" and ws: "sc_ws (ms_conn s)"
  shows "wire_inv uuid (ms_settle uuid now s p j)"
proof (cases "find (\<lambda>t. waits_for p (snd t)) (ms_tasks s)")
  case (Some kt)
  have kt: "kt \<in> set (ms_tasks s)"
    using Some by (auto simp: find_Some_iff)
  have "task_wired (ms_drop s k) t = task_wired s t" for k t
    by (rule task_wired_same) (simp add: same_wire_conn ms_drop_def)
  then have "wire_inv uuid (ms_continue uuid now (ms_drop s (fst kt)) (snd kt) p j)"
    using kt c ws wire_invD(5)[OF inv kt]
    by (intro wire_continue wire_drop[OF inv]) (auto simp: conversation_inv_def ms_drop_def)
  then show ?thesis
    by (simp add: ms_settle_def Some split_beta)
qed (simp add: ms_settle_def inv)

lemma settle_socket: "sc_ws (ms_conn s) \<Longrightarrow> sc_ws (ms_conn (ms_react uuid now s x))"
proof -
  assume ws: "sc_ws (ms_conn s)"
  have r: "sc_ws (ms_conn (transports_ready uuid now s' p1 p2 a b))" if "sc_ws (ms_conn s')" for s' p1 p2 a b
    using that by (simp add: transports_ready_def ms_wait_def ms_request_def ms_log_def sc_request_def send_open Let_def)
  have "sc_ws (ms_conn (ms_continue uuid now s' t p j))" if "sc_ws (ms_conn s')" for s' t p j
    by (cases t) (simp_all add: that r ms_wait_def ms_log_def)
  then show ?thesis
    using ws by (cases x) (auto simp: ms_settle_def ms_drop_def ms_log_def ms_wait_def on_consumer_created_def
        on_consumer_closed_def split: option.split json.split)
qed

lemma wire_notified:
  assumes inv: "wire_inv uuid s" and ws: "sc_ws (ms_conn s)"
  shows "wire_inv uuid (on_consumer_created s j)" "wire_inv uuid (on_consumer_closed s j)"
proof -
  have l: "wire_inv uuid (ms_log s x)" "sc_ws (ms_conn (ms_log s x))" if "\<not> is_join x" for x
    using ws that by (auto intro: wire_log[OF inv]) (simp add: ms_log_def)
  show "wire_inv uuid (on_consumer_created s j)" "wire_inv uuid (on_consumer_closed s j)"
    unfolding on_consumer_created_def on_consumer_closed_def
    by (auto intro!: wire_wait l inv split: option.split json.split)
qed

lemma wire_react:
  assumes inv: "wire_inv uuid s" and c: "conversation_inv s" and ws: "sc_ws (ms_conn s)"
  shows "wire_inv uuid (ms_react uuid now s x)"
  by (cases x) (simp_all add: inv wire_settle[OF inv c ws] wire_notified[OF inv ws])

lemma listener_silent:
  "\<exists>out. run_listener j c l = c\<lparr>sc_out := sc_out c @ out\<rparr> \<and> concat (map sent_of out) = []"
proof -
  have none: "\<exists>out. c = c\<lparr>sc_out := sc_out c @ out\<rparr> \<and> concat (map sent_of out) = []"
    by (rule exI[of _ "[]"]) simp
  have log: "\<exists>out. sc_log c x = c\<lparr>sc_out := sc_out c @ out\<rparr> \<and> concat (map sent_of out) = []" if "sent_of x = []" for x
    by (rule exI[of _ "[x]"]) (simp add: sc_log_def that)
  show ?thesis
    unfolding run_listener_def resolveRequest_def
    by (simp only: none log sent_of.simps simp_thms split: web_listener.split option.split json.split)
qed

lemma listeners_silent:
  "\<exists>out. foldl (run_listener j) c ls = c\<lparr>sc_out := sc_out c @ out\<rparr> \<and> concat (map sent_of out) = []"
proof (induction ls rule: rev_induct)
  case Nil
  then show ?case
    by (intro exI[of _ "[]"]) simp
next
  case (snoc l ls)
  then obtain out where o: "foldl (run_listener j) c ls = c\<lparr>sc_out := sc_out c @ out\<rparr>" "concat (map sent_of out) = []"
    by blast
  obtain out' where "run_listener j (foldl (run_listener j) c ls) l =
      (foldl (run_listener j) c ls)\<lparr>sc_out := sc_out (foldl (run_listener j) c ls) @ out'\<rparr>"
      "concat (map sent_of out') = []"
    using listener_silent by blast
  with o have "foldl (run_listener j) c (ls @ [l]) = c\<lparr>sc_out := sc_out c @ (out @ out')\<rparr>"
    "concat (map sent_of (out @ out')) = []"
    by simp_all
  then show ?case
    by blast
qed

lemma receive_silent:
  "\<exists>em out. sc_receive parse c data = c\<lparr>sc_emitter := em, sc_out := sc_out c @ out\<rparr> \<and> concat (map sent_of out) = []"
proof -
  have none: "\<exists>em out. c = c\<lparr>sc_emitter := em, sc_out := sc_out c @ out\<rparr> \<and> concat (map sent_of out) = []"
    by (rule exI[of _ "sc_emitter c"], rule exI[of _ "[]"]) simp
  have loop: "\<exists>em' out. foldl (run_listener j) (c\<lparr>sc_emitter := em\<rparr>) ls = c\<lparr>sc_emitter := em', sc_out := sc_out c @ out\<rparr> \<and>
      concat (map sent_of out) = []" for em ls j
    by (rule exI[of _ em]) (use listeners_silent[of j "c\<lparr>sc_emitter := em\<rparr>" ls] in simp)
  show ?thesis
    unfolding sc_receive_def Let_def split_beta by (simp only: none loop simp_thms split: if_split option.split)
qed

lemma wire_frame:
  assumes inv: "wire_inv uuid s" and c: "conversation_inv s" and ws: "sc_ws (ms_conn s)"
  shows "wire_inv uuid (ms_frame uuid parse now s data)"
proof -
  let ?s1 = "s\<lparr>ms_conn := sc_receive parse (ms_conn s) data\<rparr>"
  have run: "wire_inv uuid (foldl (ms_react uuid now) s' xs)"
    if "wire_inv uuid s'" "conversation_inv s'" "sc_ws (ms_conn s')" for s' xs
    using that by (induction xs arbitrary: s') (simp_all add: wire_react conversation_react settle_socket)
  obtain em out where r: "sc_receive parse (ms_conn s) data = (ms_conn s)\<lparr>sc_emitter := em, sc_out := sc_out (ms_conn s) @ out\<rparr>"
    "concat (map sent_of out) = []"
    using receive_silent by blast
  then have "same_wire s ?s1"
    by (simp add: same_wire_def sent_def)
  then have "wire_inv uuid ?s1"
    by (rule wire_conn[OF inv])
  moreover have "conversation_inv ?s1"
    by (rule conversation_grows[OF c grows_frame(1)])
  ultimately show ?thesis
    unfolding ms_frame_def Let_def using ws by (intro run) (simp_all add: r(1))
qed

lemma wire_consumer: "wire_inv uuid s \<Longrightarrow> wire_inv uuid (consumer_ready s j co)"
  unfolding consumer_ready_def by (auto intro!: wire_log wire_fields(2) split: option.split)

lemma wire_answer:
  assumes inv: "wire_inv uuid s" and v: "\<And>caps. a = Loaded caps \<Longrightarrow> js_truthy (Some caps)"
  shows "wire_inv uuid (ms_answer uuid now s k a)"
proof -
  have "wire_inv uuid (device_loaded uuid now (ms_drop s k) caps)"
    if "map_of (ms_tasks s) k = Some TLoad" "a = Loaded caps" for caps
    using talk_socket(1)[OF inv map_of_SomeD[OF that(1)]] v that(2)
    by (intro wire_loaded wire_drop[OF inv]) (simp_all add: ms_drop_def)
  then show ?thesis
    using wire_drop[OF inv] by (simp add: ms_answer_def inv wire_consumer wire_fields(1)
        split: option.split ms_task.split library_answer.split)
qed

lemma wire_media:
  assumes inv: "wire_inv uuid s"
  shows "wire_inv uuid (produceMedia s)" "wire_inv uuid (pauseMedia pd s tr)" "wire_inv uuid (resumeMedia pd s tr)"
    "sc_ws (ms_conn s) \<Longrightarrow> wire_inv uuid (connect_listener uuid now s role dtls)"
    "sc_ws (ms_conn s) \<Longrightarrow> wire_inv uuid (produce_listener uuid now s kind rtp)"
proof -
  show "wire_inv uuid (produceMedia s)" "wire_inv uuid (pauseMedia pd s tr)" "wire_inv uuid (resumeMedia pd s tr)"
    unfolding produceMedia_def pauseMedia_def resumeMedia_def
    using talk_socket(3)[OF inv] by (auto intro!: wire_log wire_wait inv split: option.split)
  assume ws: "sc_ws (ms_conn s)"
  show "wire_inv uuid (connect_listener uuid now s role dtls)"
    unfolding connect_listener_def by (rule wire_send[OF wire_fields(3)[OF inv]]) (simp_all add: ws)
  note e = request_effect[where s = s and f = "\<lambda>i. CreateProducerRequest i kind rtp ''userId''" and uuid = uuid
      and now = now, simplified]
  show "wire_inv uuid (produce_listener uuid now s kind rtp)"
    unfolding produce_listener_def split_beta Let_def
    by (intro wire_wait wire_request[OF inv]) (simp_all add: ws e)
qed

text \<open>
  Frames come from an open socket, and the capabilities of a device are an object.
\<close>

fun ms_ok :: "media_service \<Rightarrow> ms_event \<Rightarrow> bool" where
  "ms_ok s (FrameReceived _ _) \<longleftrightarrow> sc_ws (ms_conn s)"
| "ms_ok s (Answer _ _ (Loaded caps)) \<longleftrightarrow> js_truthy (Some caps)"
| "ms_ok s _ \<longleftrightarrow> True"

lemma wire_step:
  assumes "talk_inv uuid s" "ms_ok s e"
  shows "wire_inv uuid (ms_step uuid parse s e)"
proof -
  have inv: "wire_inv uuid s" and c: "conversation_inv s"
    using assms by (simp_all add: talk_inv_def)
  have tc: "sc_ws (ms_conn s)" if "TransportCreated r \<in> set (ms_out s)" for r
    using talk_socket(2)[OF inv that] .
  show ?thesis
  proof (cases e)
    case (Answer now k a)
    then show ?thesis
      using assms(2) wire_answer[OF inv, of a] by (cases a) simp_all
  qed (use assms(2) tc in \<open>simp_all add: inv wire_connect wire_opened wire_resend wire_frame[OF inv c] wire_media
      wire_fields[OF inv] wire_conn[OF inv same_wire_connecting(3)] wire_conn[OF inv same_wire_connecting(4)]\<close>)
qed

lemma talk_step: "talk_inv uuid s \<Longrightarrow> ms_ok s e \<Longrightarrow> talk_inv uuid (ms_step uuid parse s e)"
  using wire_step[of uuid s e parse] conversation_step service_step by (simp add: talk_inv_def)

lemma talk_new: "inj uuid \<Longrightarrow> talk_inv uuid (ms_new config)"
  by (simp add: talk_inv_def wire_new conversation_new service_new)

interpretation talk: invariant_system "ms_step uuid parse" ms_ok "talk_inv uuid" for uuid parse
  by unfold_locales (rule talk_step)

section \<open>Nothing is taken back\<close>

definition extends :: "media_service \<Rightarrow> media_service \<Rightarrow> bool" where
  "extends s s' \<longleftrightarrow> prefix (ms_out s) (ms_out s') \<and> prefix (sc_out (ms_conn s)) (sc_out (ms_conn s')) \<and>
     sc_config (ms_conn s') = sc_config (ms_conn s)"

text \<open>Steps that neither open the socket nor create a transport.\<close>

definition steady :: "media_service \<Rightarrow> media_service \<Rightarrow> bool" where
  "steady s s' \<longleftrightarrow> extends s s' \<and> sc_ws (ms_conn s') = sc_ws (ms_conn s) \<and>
     (\<forall>r. TransportCreated r \<in> set (ms_out s') \<longrightarrow> TransportCreated r \<in> set (ms_out s))"

named_theorems steady_intros \<open>operations that are steady\<close>

lemma extends_refl [simp]: "extends s s"
  by (simp add: extends_def)

lemma extends_trans: "extends s s' \<Longrightarrow> extends s' s'' \<Longrightarrow> extends s s''"
  unfolding extends_def using prefix_order.order_trans by metis

lemma extends_sent: "extends s s' \<Longrightarrow> \<exists>ms. sent s' = sent s @ ms"
  by (auto simp: extends_def sent_def prefix_def)

lemma extends_out: "extends s s' \<Longrightarrow> x \<in> set (ms_out s) \<Longrightarrow> x \<in> set (ms_out s')"
  by (auto simp: extends_def prefix_def)

lemma steady_extends: "steady s s' \<Longrightarrow> extends s s'"
  by (simp add: steady_def)

lemma steady_refl [simp, steady_intros]: "steady s s"
  by (simp add: steady_def)

lemma steady_trans: "steady s s' \<Longrightarrow> steady s' s'' \<Longrightarrow> steady s s''"
  unfolding steady_def using extends_trans by blast

lemma steady_log [steady_intros]: "(\<And>r. x \<noteq> TransportCreated r) \<Longrightarrow> steady s (ms_log s x)"
  by (auto simp: steady_def extends_def ms_log_def)

lemma steady_same [steady_intros]:
  "steady s (ms_wait s t)" "steady s (ms_drop s k)" "steady s (s\<lparr>ms_fresh := n\<rparr>)" "steady s (s\<lparr>ms_producers := ps\<rparr>)"
  "steady s (s\<lparr>ms_consumers := cs\<rparr>)" "steady s (s\<lparr>ms_tasks := ts\<rparr>)" "steady s (s\<lparr>ms_snd := a, ms_rcv := b\<rparr>)"
  by (simp_all add: steady_def extends_def ms_wait_def ms_drop_def)

lemma steady_conn:
  "prefix (sc_out (ms_conn s)) (sc_out c) \<Longrightarrow> sc_ws c = sc_ws (ms_conn s) \<Longrightarrow>
    sc_config c = sc_config (ms_conn s) \<Longrightarrow> steady s (s\<lparr>ms_conn := c\<rparr>)"
  by (simp add: steady_def extends_def)

lemma send_conn:
  "prefix (sc_out c) (sc_out (sendMessage c now m))" "sc_ws (sendMessage c now m) = sc_ws c"
  "sc_config (sendMessage c now m) = sc_config c"
  by (simp_all add: sendMessage_def Let_def)

lemma steady_send [steady_intros]: "steady s (ms_send s now m)"
  unfolding ms_send_def by (rule steady_trans[OF steady_conn steady_log]) (simp_all add: send_conn)

lemma steady_request [steady_intros]: "steady s (fst (ms_request uuid s now f))"
proof -
  have "steady s (s\<lparr>ms_conn := sc_request (ms_conn s) now q, ms_fresh := n\<rparr>)" for q n
    using send_conn[of "(ms_conn s)\<lparr>sc_requests := rq, sc_npromises := k\<rparr>" for rq k]
    by (simp add: steady_def extends_def sc_request_def)
  then show ?thesis
    unfolding ms_request_def Let_def fst_conv by (rule steady_trans[OF _ steady_log]) simp
qed

lemma steady_capabilities [steady_intros]: "steady s (request_capabilities uuid now s)"
  unfolding request_capabilities_def split_beta Let_def by (rule steady_trans[OF steady_request steady_same(1)])

lemma steady_loop: "(\<And>s x. steady s (f s x)) \<Longrightarrow> steady s (foldl f s xs)"
  by (induction xs arbitrary: s) (simp, metis foldl_Cons steady_trans)

lemma steady_connect: "steady s (ms_connect uuid now s)"
proof -
  have "steady s (s\<lparr>ms_conn := sc_connect (ms_conn s)\<rparr>)"
    by (rule steady_conn) (simp_all add: connecting_defs sc_log_def)
  then show ?thesis
    unfolding ms_connect_def Let_def using steady_trans[OF _ steady_capabilities] by (simp add: steady_same)
qed

lemma steady_conn_events:
  "steady s (s\<lparr>ms_conn := sc_failed (ms_conn s)\<rparr>)" "steady s (s\<lparr>ms_conn := sc_retry_timer (ms_conn s)\<rparr>)"
  "steady s (s\<lparr>ms_conn := resend_timer (ms_conn s) now\<rparr>)"
proof -
  show "steady s (s\<lparr>ms_conn := sc_failed (ms_conn s)\<rparr>)" "steady s (s\<lparr>ms_conn := sc_retry_timer (ms_conn s)\<rparr>)"
    by (rule steady_conn; simp add: connecting_defs sc_log_def split: option.split)+
  show "steady s (s\<lparr>ms_conn := resend_timer (ms_conn s) now\<rparr>)"
  proof (cases "sc_armed (ms_conn s) \<and> sc_ws (ms_conn s)")
    case True
    then show ?thesis
      by (intro steady_conn) (simp_all add: resend_open)
  qed (auto intro: steady_conn simp: resend_timer_def)
qed

lemma opened_extends: "extends s (ms_opened uuid now s)" "TransportCreated r \<in> set (ms_out (ms_opened uuid now s)) \<Longrightarrow> TransportCreated r \<in> set (ms_out s)"
proof -
  let ?s1 = "s\<lparr>ms_conn := sc_opened (ms_conn s)\<rparr>"
  have "steady ?s1 (foldl (\<lambda>s _. request_capabilities uuid now s) (?s1\<lparr>ms_tasks := ts\<rparr>) xs)"
    for ts and xs :: "(nat \<times> ms_task) list"
    by (rule steady_trans[OF steady_same(6) steady_loop[OF steady_capabilities]])
  then have "steady ?s1 (ms_opened uuid now s)"
    unfolding ms_opened_def Let_def by simp
  moreover have "extends s ?s1"
    by (simp add: extends_def connecting_defs split: option.split)
  ultimately show "extends s (ms_opened uuid now s)"
    and "TransportCreated r \<in> set (ms_out (ms_opened uuid now s)) \<Longrightarrow> TransportCreated r \<in> set (ms_out s)"
    using extends_trans unfolding steady_def by (blast, fastforce)
qed

lemma steady_loaded: "steady s (device_loaded uuid now s caps)"
  unfolding device_loaded_def split_beta Let_def
  by (rule steady_trans[OF steady_trans[OF steady_trans[OF steady_send steady_request] steady_request] steady_same(1)])

lemma steady_ready: "steady s (transports_ready uuid now s p1 p2 a b)"
proof -
  have "steady s (ms_wait (fst (ms_request uuid (s\<lparr>ms_snd := a, ms_rcv := b\<rparr>) now JoinCallRequest)) t)" for t
    by (rule steady_trans[OF steady_same(7) steady_trans[OF steady_request steady_same(1)]])
  then show ?thesis
    unfolding transports_ready_def split_beta Let_def by (simp add: steady_same)
qed

lemma steady_consumer: "steady s (consumer_ready s j co)"
  by (auto simp: consumer_ready_def intro: steady_intros steady_trans[OF steady_same(5) steady_log] split: option.split)

lemma steady_answer: "steady s (ms_answer uuid now s k a)"
  by (simp add: ms_answer_def steady_intros steady_trans[OF steady_same(2) steady_loaded]
      steady_trans[OF steady_same(2) steady_same(4)] steady_trans[OF steady_same(2) steady_consumer]
      split: option.split ms_task.split library_answer.split)

lemma steady_media:
  "steady s (produceMedia s)" "steady s (pauseMedia pd s t)" "steady s (resumeMedia pd s t)"
  "steady s (connect_listener uuid now s role dtls)" "steady s (produce_listener uuid now s kind rtp)"
proof -
  show "steady s (produceMedia s)" "steady s (pauseMedia pd s t)" "steady s (resumeMedia pd s t)"
    by (auto simp: produceMedia_def pauseMedia_def resumeMedia_def intro: steady_intros split: option.split)
  show "steady s (connect_listener uuid now s role dtls)"
    unfolding connect_listener_def by (rule steady_trans[OF steady_same(3) steady_send])
  show "steady s (produce_listener uuid now s kind rtp)"
    unfolding produce_listener_def split_beta Let_def by (rule steady_trans[OF steady_request steady_same(1)])
qed

text \<open>Whatever is not a frame or the opening of the socket is steady.\<close>

fun is_local :: "ms_event \<Rightarrow> bool" where
  "is_local (SocketOpened _) = False"
| "is_local (FrameReceived _ _) = False"
| "is_local SocketFailed = False"
| "is_local _ = True"

lemma steady_step: "is_local e \<Longrightarrow> steady s (ms_step uuid parse s e)"
  by (cases e) (simp_all add: steady_connect steady_conn_events steady_answer steady_media steady_same)

section \<open>Frames\<close>

lemma listeners_by_type:
  "em_listeners service_listeners (message_type (Rsp p)) =
     (if response_type p \<in> set resolved_types then [ResolveRequest] else [])"
  "em_listeners service_listeners (message_type (Req q)) = []"
  by (cases p; simp add: em_listeners_def service_listeners_def resolved_types_def)
    (cases q; simp add: em_listeners_def service_listeners_def resolved_types_def)

lemma receive_typed_frame:
  assumes "sc_emitter c = service_listeners" "parse data = Some (message_json m)"
  shows "sc_receive parse c data =
    foldl (run_listener (message_json m)) c (em_listeners service_listeners (message_type m))"
proof -
  have "message_json m \<noteq> JNull"
    by (simp add: message_json_def)
  moreover have same: "c\<lparr>sc_emitter := service_listeners\<rparr> = c"
    by (simp flip: assms(1))
  ultimately show ?thesis
    using assms json_type[of m] by (simp add: sc_receive_def Let_def em_count_def emit_service same)
qed

text \<open>A response that nothing waits for, and a request, change nothing.\<close>

lemma frame_response:
  assumes inv: "service_inv s" and data: "parse data = Some (message_json (Rsp p))"
  obtains "ms_frame uuid parse now s data = s"
  | k where "map_get (sc_requests (ms_conn s)) (response_id p) = Some k"
      "ms_frame uuid parse now s data =
        ms_settle uuid now (s\<lparr>ms_conn := sc_log (ms_conn s) (Resolve k (message_json (Rsp p)))\<rparr>) k (message_json (Rsp p))"
proof -
  note r = receive_typed_frame[OF service_emitter[OF inv], of parse, OF data]
  show ?thesis
  proof (cases "response_type p \<in> set resolved_types")
    case False
    then show ?thesis
      using r by (intro that(1)) (simp add: ms_frame_def listeners_by_type(1)[simplified])
  next
    case True
    then have c: "sc_receive parse (ms_conn s) data = resolveRequest (ms_conn s) (message_json (Rsp p))"
      using r by (simp add: listeners_by_type(1)[simplified] run_listener_def)
    show ?thesis
    proof (cases "map_get (sc_requests (ms_conn s)) (response_id p)")
      case None
      then show ?thesis
        by (intro that(1)) (simp add: ms_frame_def c resolveRequest_def response_json_id)
    next
      case (Some k)
      then show ?thesis
        by (intro that(2)[of k]) (simp_all add: ms_frame_def Let_def c resolveRequest_def response_json_id)
    qed
  qed
qed

lemma frame_request:
  assumes "service_inv s" "parse data = Some (message_json (Req q))"
  shows "ms_frame uuid parse now s data = s"
  using receive_typed_frame[OF service_emitter[OF assms(1)], of parse, OF assms(2)]
  by (simp add: ms_frame_def listeners_by_type(2)[simplified])

lemma frame_other_notification:
  assumes "service_inv s" "parse data = Some (message_json (Ntf n))"
    and "em_listeners service_listeners (notification_type n) = []"
  shows "ms_frame uuid parse now s data = s"
  using receive_typed_frame[OF service_emitter[OF assms(1)], of parse, OF assms(2)] assms(3)
  by (simp add: ms_frame_def)

text \<open>An announced consumer is consumed if the service has its receiving transport, and dropped otherwise.\<close>

lemma frame_created:
  fixes c p kind rtp rc
  defines "j \<equiv> message_json (Ntf (ConsumerCreatedNotification c p kind rtp rc))"
  assumes "service_inv s" "parse data = Some j"
  shows "ms_out (ms_frame uuid parse now s data) = ms_out s @ [if ms_rcv s = None then ConsumeDropped j else Consume j]"
  using frame_notification[OF assms(2), of parse data "ConsumerCreatedNotification c p kind rtp rc" 0 uuid now] assms(3)
  by (simp add: j_def listeners_of_service on_consumer_created_def ms_log_def ms_wait_def)

lemma continue_extends: "extends s (ms_continue uuid now s t p j)"
proof -
  have "extends s (transports_ready uuid now (ms_log s x) p1 p2 a b)" for x p1 p2 a b
    by (rule extends_trans[OF _ steady_extends[OF steady_ready]]) (simp add: extends_def ms_log_def)
  then show ?thesis
    by (cases t) (auto intro!: steady_extends steady_same steady_log)
qed

lemma frame_extends:
  assumes "parse data = Some (message_json m)" "service_inv s"
  shows "extends s (ms_frame uuid parse now s data)"
proof (cases m)
  case (Req q)
  with assms show ?thesis by (simp add: frame_request)
next
  case (Rsp p)
  have "extends s (ms_settle uuid now (s\<lparr>ms_conn := sc_log (ms_conn s) x\<rparr>) k j)" for x k j
  proof -
    have s1: "extends s (s\<lparr>ms_conn := sc_log (ms_conn s) x\<rparr>)"
      by (simp add: extends_def)
    show ?thesis
      unfolding ms_settle_def
      by (auto intro: s1 extends_trans[OF s1] extends_trans[OF steady_extends[OF steady_same(2)] continue_extends]
          split: option.split)
  qed
  then show ?thesis
    using frame_response[OF assms(2), of parse data p uuid now] assms(1) Rsp by (metis extends_refl)
next
  case (Ntf n)
  show ?thesis
  proof (cases n)
    case (ConsumerCreatedNotification c p kind rtp rc)
    then show ?thesis
      using frame_notification[OF assms(2), of parse data n 0 uuid now] assms(1) Ntf
      by (simp add: listeners_of_service on_consumer_created_def ms_log_def ms_wait_def extends_def)
  next
    case (ConsumerClosedNotification c)
    then show ?thesis
      using frame_notification[OF assms(2), of parse data n 1 uuid now] assms(1) Ntf
      by (simp add: listeners_of_service on_consumer_closed_def ms_log_def extends_def split: option.split json.split)
  qed (use frame_other_notification[OF assms(2), of parse data n uuid now] assms(1) Ntf in
      \<open>simp_all add: em_listeners_def service_listeners_def resolved_types_def\<close>)
qed

text \<open>
  A receiving transport is only ever created by the response to the request for it, which is on the wire.
\<close>

lemma frame_transport:
  assumes inv: "talk_inv uuid s" and data: "parse data = Some (message_json m)"
    and new: "TransportCreated ''consuming'' \<in> set (ms_out (ms_frame uuid parse now s data))"
      "TransportCreated ''consuming'' \<notin> set (ms_out s)"
  shows "\<exists>p. m = Rsp p \<and> Wire (Req (CreateTransportRequest (response_id p) ''consuming'')) \<in> set (sent s)"
proof (cases m)
  case (Req q)
  then show ?thesis
    using frame_request[of s parse data q uuid now] inv data new by (simp add: talk_inv_def)
next
  case (Ntf n)
  have s: "service_inv s"
    using inv by (simp add: talk_inv_def)
  have "TransportCreated ''consuming'' \<notin> set (ms_out (ms_frame uuid parse now s data))"
  proof (cases n)
    case (ConsumerCreatedNotification c p kind rtp rc)
    then show ?thesis
      using frame_created[OF s] data Ntf new(2) by simp
  next
    case (ConsumerClosedNotification c)
    then show ?thesis
      using frame_notification[OF s, of parse data n 1 uuid now] data Ntf new(2)
      by (simp add: listeners_of_service on_consumer_closed_def ms_log_def split: option.split json.split)
  qed (use frame_other_notification[OF s, of parse data n uuid now] data Ntf new(2) in
      \<open>simp_all add: em_listeners_def service_listeners_def resolved_types_def\<close>)
  with new show ?thesis by blast
next
  case (Rsp p)
  have s: "service_inv s" and w: "wire_inv uuid s"
    using inv by (simp_all add: talk_inv_def)
  consider "ms_frame uuid parse now s data = s"
    | k where "map_get (sc_requests (ms_conn s)) (response_id p) = Some k" "ms_frame uuid parse now s data =
        ms_settle uuid now (s\<lparr>ms_conn := sc_log (ms_conn s) (Resolve k (message_json (Rsp p)))\<rparr>) k (message_json (Rsp p))"
    using frame_response[OF s, of parse data p uuid now] data[unfolded Rsp] by metis
  then show ?thesis
  proof cases
    case 1
    with new show ?thesis by simp
  next
    case 2
    let ?s1 = "s\<lparr>ms_conn := sc_log (ms_conn s) (Resolve k (message_json (Rsp p)))\<rparr>"
    obtain x t where f: "find (\<lambda>t. waits_for k (snd t)) (ms_tasks s) = Some (x, t)"
      using new unfolding 2(2) ms_settle_def by (auto split: option.splits)
    then have t: "(x, t) \<in> set (ms_tasks s)" "waits_for k t"
      unfolding find_Some_iff by (metis nth_mem, metis snd_conv)
    have new': "TransportCreated ''consuming'' \<in> set (ms_out (ms_continue uuid now (ms_drop ?s1 x) t k (message_json (Rsp p))))"
      using new(1) f unfolding 2(2) ms_settle_def by simp
    have old: "TransportCreated ''consuming'' \<notin> set (ms_out (ms_drop ?s1 x))"
      using new(2) by (simp add: ms_drop_def)
    have r: "TransportCreated r \<in> set (ms_out (transports_ready uuid now s' p1 p2 a b)) \<Longrightarrow> TransportCreated r \<in> set (ms_out s')"
      for r s' p1 p2 a b
      using steady_ready unfolding steady_def by blast
    obtain p1 p2 a b where tt: "t = TTransports p1 p2 a b" "k \<noteq> p1"
      using new' old by (cases t) (auto simp: ms_log_def ms_wait_def split: if_splits dest!: r)
    then have k: "k = p2"
      using t(2) by auto
    obtain i where "map_get (sc_requests (ms_conn s)) i = Some p2" "Wire (Req (CreateTransportRequest i ''consuming'')) \<in> set (sent s)"
      using wire_invD(5)[OF w t(1)] tt by auto
    moreover have "i = response_id p"
      using calculation(1) 2(1) wire_invD(10)[OF w] unfolding k ids_unique_def by blast
    ultimately show ?thesis
      using Rsp by blast
  qed
qed

end
