(* ===== verification/Conference.thy ===== *)
theory Conference
  imports RoomTransport RoomProgress MediaWire
begin

text \<open>
  The programs together: a room of the SFU (\<^verbatim>\<open>sfu/src/media/Room.ts\<close>) and the web applications
  (\<^verbatim>\<open>webapp/src/contexts/MediasoupService.tsx\<close>) that are connected to it, each over a socket that
  delivers in order in both directions. The web application keeps what the room relies on: it announces
  its capabilities and owns a receiving transport before it asks to join, so the property of the
  room holds of the whole without an assumption on the clients.
\<close>

section \<open>State\<close>

text \<open>
  The channels are what one side has sent and the other has not taken yet: \<open>cn_got\<close> counts the frames of
  an application that reached the room, \<open>cn_seen\<close> the frames of the room that reached the application.
  \<open>cn_ref\<close> is the client object that the room keeps for the socket of an application. The room
  exists already when they connect.
\<close>

record conference =
  cn_room :: room
  cn_apps :: "nat \<Rightarrow> media_service option"
  cn_ref :: "nat \<Rightarrow> nat option"
  cn_got :: "nat \<Rightarrow> nat"
  cn_seen :: "nat \<Rightarrow> nat"

definition conference_new :: "room \<Rightarrow> conference" where
  "conference_new r =
     \<lparr>cn_room = r, cn_apps = (\<lambda>_. None), cn_ref = (\<lambda>_. None), cn_got = (\<lambda>_. 0), cn_seen = (\<lambda>_. 0)\<rparr>"

section \<open>Events\<close>

datatype conference_event =
    Start nat connection_config
  | Accepted nat "string option"
  | SocketUp int nat
  | Refused nat
  | Local nat ms_event
  | ToRoom int nat
  | ToApp int nat string
  | InRoom event

text \<open>Clients come and speak through the sockets only; everything else in the room is up to the library.\<close>

fun in_room :: "event \<Rightarrow> bool" where
  "in_room (Add _ _) = False"
| "in_room (Receive _ _ _) = False"
| "in_room _ = True"

text \<open>An event that cannot happen in a state changes nothing.\<close>

fun cn_step ::
  "(nat \<Rightarrow> nat \<Rightarrow> string) \<Rightarrow> (string \<Rightarrow> json option) \<Rightarrow> (json \<Rightarrow> string \<Rightarrow> string) \<Rightarrow>
   conference \<Rightarrow> conference_event \<Rightarrow> conference"
where
  "cn_step uuid parse jwt s (Start a config) =
     (if cn_apps s a = None then s\<lparr>cn_apps := (cn_apps s)(a \<mapsto> ms_new config)\<rparr> else s)"
| "cn_step uuid parse jwt s (Accepted a userId) =
     (case cn_apps s a of
        None \<Rightarrow> s
      | Some app \<Rightarrow>
          if sc_attempt (ms_conn app) = None \<or> sc_ws (ms_conn app) \<or> cn_ref s a \<noteq> None then s
          else s\<lparr>cn_room := room_step jwt (cn_room s) (Add (cf_clientId (sc_config (ms_conn app))) userId),
                 cn_ref := (cn_ref s)(a \<mapsto> r_nobjs (cn_room s)),
                 cn_got := (cn_got s)(a := 0), cn_seen := (cn_seen s)(a := 0)\<rparr>)"
| "cn_step uuid parse jwt s (SocketUp now a) =
     (case cn_apps s a of
        None \<Rightarrow> s
      | Some app \<Rightarrow>
          if cn_ref s a = None then s
          else s\<lparr>cn_apps := (cn_apps s)(a \<mapsto> ms_step (uuid a) parse app (SocketOpened now))\<rparr>)"
| "cn_step uuid parse jwt s (Refused a) =
     (case cn_apps s a of
        None \<Rightarrow> s
      | Some app \<Rightarrow>
          if sc_ws (ms_conn app) then s
          else s\<lparr>cn_apps := (cn_apps s)(a \<mapsto> ms_step (uuid a) parse app SocketFailed),
                 cn_ref := (cn_ref s)(a := None)\<rparr>)"
| "cn_step uuid parse jwt s (Local a e) =
     (case cn_apps s a of
        None \<Rightarrow> s
      | Some app \<Rightarrow>
          if is_local e \<and> ms_ok app e then s\<lparr>cn_apps := (cn_apps s)(a \<mapsto> ms_step (uuid a) parse app e)\<rparr> else s)"
| "cn_step uuid parse jwt s (ToRoom now a) =
     (case (cn_apps s a, cn_ref s a) of
        (Some app, Some u) \<Rightarrow>
          if is_open (cn_room s) u \<and> cn_got s a < length (sent app)
          then
            (let s1 = s\<lparr>cn_got := (cn_got s)(a := Suc (cn_got s a))\<rparr> in
             case sent app ! cn_got s a of
               Wire m \<Rightarrow> s1\<lparr>cn_room := room_step jwt (cn_room s) (Receive now u m)\<rparr>
             | ObservedSamplesNotification _ \<Rightarrow> s1)
          else s
      | _ \<Rightarrow> s)"
| "cn_step uuid parse jwt s (ToApp now a data) =
     (case (cn_apps s a, cn_ref s a) of
        (Some app, Some u) \<Rightarrow>
          if sc_ws (ms_conn app) \<and> cn_seen s a < length (frames_to (cn_room s) u) \<and>
             parse data = Some (message_json (frames_to (cn_room s) u ! cn_seen s a))
          then s\<lparr>cn_apps := (cn_apps s)(a \<mapsto> ms_step (uuid a) parse app (FrameReceived now data)),
                 cn_seen := (cn_seen s)(a := Suc (cn_seen s a))\<rparr>
          else s
      | _ \<Rightarrow> s)"
| "cn_step uuid parse jwt s (InRoom e) =
     (if in_room e \<and> mesh_ok (cn_room s) e then s\<lparr>cn_room := room_step jwt (cn_room s) e\<rparr> else s)"

definition conference_run ::
  "(nat \<Rightarrow> nat \<Rightarrow> string) \<Rightarrow> (string \<Rightarrow> json option) \<Rightarrow> (json \<Rightarrow> string \<Rightarrow> string) \<Rightarrow> room \<Rightarrow>
   conference_event list \<Rightarrow> conference"
where
  "conference_run uuid parse jwt r es = foldl (cn_step uuid parse jwt) (conference_new r) es"

section \<open>One connection\<close>

definition is_join_recv :: "nat \<Rightarrow> obs \<Rightarrow> bool" where
  "is_join_recv u x = (case x of ORecv v (Req (JoinCallRequest _)) \<Rightarrow> v = u | _ \<Rightarrow> False)"

text \<open>How many frames the room had sent to a connection when it received its first request to join.\<close>

definition frames_before_join :: "room \<Rightarrow> nat \<Rightarrow> nat" where
  "frames_before_join r u = length (concat (map (to_client u) (takeWhile (\<lambda>x. \<not> is_join_recv u x) (r_trace r))))"

text \<open>What the application did with a frame that announces a consumer.\<close>

definition handled :: "media_service \<Rightarrow> bool \<Rightarrow> message \<Rightarrow> bool" where
  "handled app late m \<longleftrightarrow>
     (\<forall>c p kind rtp rc. m = Ntf (ConsumerCreatedNotification c p kind rtp rc) \<longrightarrow>
        Consume (message_json m) \<in> set (ms_out app) \<or> \<not> late \<and> ConsumeDropped (message_json m) \<in> set (ms_out app))"

definition line_inv :: "room \<Rightarrow> media_service \<Rightarrow> nat \<Rightarrow> nat \<Rightarrow> nat \<Rightarrow> bool" where
  "line_inv r app u got seen \<longleftrightarrow>
     r_objs r u \<noteq> None \<and> got \<le> length (sent app) \<and> seen \<le> length (frames_to r u) \<and>
     (\<forall>m. room_heard r u m \<longleftrightarrow> Wire m \<in> set (take got (sent app))) \<and>
     (caps_sent (take got (sent app)) \<longrightarrow> has_caps r u) \<and>
     (TransportCreated ''consuming'' \<in> set (ms_out app) \<longrightarrow> has_rcv r u) \<and>
     (\<forall>n < seen. handled app (frames_before_join r u \<le> n) (frames_to r u ! n))"

lemma handled_mono: "handled app b m \<Longrightarrow> extends app app' \<Longrightarrow> (b' \<longrightarrow> b) \<Longrightarrow> handled app' b' m"
  unfolding handled_def using extends_out by blast

lemma frames_before_join_grow:
  assumes "r_trace r' = r_trace r @ os" "frames_before_join r' u \<le> n" "n < length (frames_to r u)"
  shows "frames_before_join r u \<le> n"
proof (cases "\<exists>x \<in> set (r_trace r). is_join_recv u x")
  case True
  then have "takeWhile (\<lambda>x. \<not> is_join_recv u x) (r_trace r @ os) = takeWhile (\<lambda>x. \<not> is_join_recv u x) (r_trace r)"
    by (auto simp: takeWhile_append)
  then show ?thesis
    using assms(1,2) by (simp add: frames_before_join_def)
next
  case False
  then have "length (frames_to r u) \<le> frames_before_join r' u"
    using assms(1) by (simp add: frames_before_join_def frames_to_def takeWhile_append)
  then show ?thesis
    using assms(2,3) by simp
qed

lemma line_heard: "line_inv r app u got seen \<Longrightarrow> room_heard r u m \<Longrightarrow> Wire m \<in> set (sent app)"
  unfolding line_inv_def by (meson in_set_takeD)

text \<open>The application moves.\<close>

lemma line_app:
  assumes inv: "line_inv r app u got seen" and e: "extends app app'"
    and t: "TransportCreated ''consuming'' \<in> set (ms_out app') \<Longrightarrow>
      TransportCreated ''consuming'' \<in> set (ms_out app) \<or> has_rcv r u"
  shows "line_inv r app' u got seen"
proof -
  obtain ms where ms: "sent app' = sent app @ ms"
    using extends_sent[OF e] by blast
  then have "take got (sent app') = take got (sent app)"
    using inv by (simp add: line_inv_def)
  then show ?thesis
    using inv t ms handled_mono[OF _ e] unfolding line_inv_def by auto
qed

text \<open>The room moves: what the line remembers stays, and if it hears nothing here that is all.\<close>

lemma line_room_keeps:
  assumes ms: "mesh_state r" and ok: "mesh_ok r e" and inv: "line_inv r app u got seen"
  shows "r_objs (room_step jwt r e) u \<noteq> None" "seen \<le> length (frames_to (room_step jwt r e) u)"
    and "has_caps r u \<Longrightarrow> has_caps (room_step jwt r e) u" "has_rcv r u \<Longrightarrow> has_rcv (room_step jwt r e) u"
    and "n < seen \<Longrightarrow> handled app (frames_before_join (room_step jwt r e) u \<le> n) (frames_to (room_step jwt r e) u ! n)"
proof -
  have ri: "room_inv r" and wf: "room_wf r" "close_wf r"
    using ms by (simp_all add: mesh_state_def room_inv_def)
  let ?r' = "room_step jwt r e"
  obtain os where os: "r_trace ?r' = r_trace r @ os"
    using room.step_trace[OF ri] by blast
  obtain fs where fs: "frames_to ?r' u = frames_to r u @ fs"
    using frames_to_grow[OF ri] by blast
  show "r_objs ?r' u \<noteq> None"
    using inv micros_objs[OF micros_room_step[OF wf] wf(1)] by (fastforce simp: line_inv_def)
  show "seen \<le> length (frames_to ?r' u)"
    using inv fs by (simp add: line_inv_def)
  show "has_caps r u \<Longrightarrow> has_caps ?r' u" "has_rcv r u \<Longrightarrow> has_rcv ?r' u"
    using step_remembers[OF wf(1) ok] by blast+
  assume n: "n < seen"
  have l: "n < length (frames_to r u)" and h: "handled app (frames_before_join r u \<le> n) (frames_to r u ! n)"
    using inv n by (auto simp: line_inv_def)
  show "handled app (frames_before_join ?r' u \<le> n) (frames_to ?r' u ! n)"
    using handled_mono[OF h, of app] frames_before_join_grow[OF os _ l] l unfolding fs by (auto simp: nth_append)
qed

lemma line_room:
  assumes ms: "mesh_state r" and ok: "mesh_ok r e" and inv: "line_inv r app u got seen"
    and quiet: "\<And>now m. e \<noteq> Receive now u m"
  shows "line_inv (room_step jwt r e) app u got seen"
proof -
  have wf: "room_wf r"
    using ms by (simp add: mesh_state_def room_inv_def)
  have "room_heard (room_step jwt r e) u m = room_heard r u m" for m
    using quiet room_heard_step[OF wf] by blast
  then show ?thesis
    using inv line_room_keeps[OF ms ok inv] unfolding line_inv_def by simp
qed

section \<open>The invariant\<close>

definition room_talks :: "room \<Rightarrow> bool" where
  "room_talks r \<longleftrightarrow> mesh_state r \<and> reply_inv r \<and> transport_inv r \<and> heard_wf r"

lemma room_talks_step:
  assumes "room_talks r" "mesh_ok r e"
  shows "room_talks (room_step jwt r e)"
proof -
  have r: "mesh_state r" "reply_inv r" "transport_inv r" "heard_wf r"
    using assms(1) unfolding room_talks_def by blast+
  then have i: "room_inv r" "room_wf r"
    unfolding mesh_state_def room_inv_def by blast+
  show ?thesis
    unfolding room_talks_def
  proof (intro conjI)
    show "mesh_state (room_step jwt r e)"
      by (rule mesh_state_step[OF r(1) assms(2)])
    show "reply_inv (room_step jwt r e)"
      using reply_inv_step[OF conjI[OF i(1) r(2)]] by (rule conjunct2)
    show "transport_inv (room_step jwt r e)"
      by (rule transport_step[OF r(3) i(2)])
    show "heard_wf (room_step jwt r e)"
      by (rule heard_step[OF i(1) r(4)])
  qed
qed

lemma room_talks_new: "room_talks (room_new i k caps ip a)"
  by (simp add: room_talks_def mesh_state_new reply_inv_new transport_inv_new heard_new)

definition app_inv :: "(nat \<Rightarrow> string) \<Rightarrow> room \<Rightarrow> media_service \<Rightarrow> nat option \<Rightarrow> nat \<Rightarrow> nat \<Rightarrow> bool" where
  "app_inv ids r app ref got seen \<longleftrightarrow>
     talk_inv ids app \<and> (sc_ws (ms_conn app) \<longrightarrow> ref \<noteq> None) \<and> (\<forall>u. ref = Some u \<longrightarrow> line_inv r app u got seen)"

definition cn_inv :: "(nat \<Rightarrow> nat \<Rightarrow> string) \<Rightarrow> conference \<Rightarrow> bool" where
  "cn_inv uuid s \<longleftrightarrow>
     room_talks (cn_room s) \<and>
     (\<forall>a app. cn_apps s a = Some app \<longrightarrow> app_inv (uuid a) (cn_room s) app (cn_ref s a) (cn_got s a) (cn_seen s a)) \<and>
     (\<forall>a. cn_apps s a = None \<longrightarrow> cn_ref s a = None) \<and>
     (\<forall>a b u. cn_ref s a = Some u \<longrightarrow> cn_ref s b = Some u \<longrightarrow> a = b) \<and> (\<forall>a. inj (uuid a))"

lemma cn_invD:
  assumes "cn_inv uuid s"
  shows "room_talks (cn_room s)"
    and "cn_apps s a = Some app \<Longrightarrow> app_inv (uuid a) (cn_room s) app (cn_ref s a) (cn_got s a) (cn_seen s a)"
    and "cn_ref s a = Some u \<Longrightarrow> cn_apps s a \<noteq> None"
    and "cn_ref s a = Some u \<Longrightarrow> cn_ref s b = Some u \<Longrightarrow> a = b"
    and "inj (uuid a)"
proof -
  note i = assms[unfolded cn_inv_def]
  show "room_talks (cn_room s)"
    by (rule conjunct1[OF i])
  show "cn_apps s a = Some app \<Longrightarrow> app_inv (uuid a) (cn_room s) app (cn_ref s a) (cn_got s a) (cn_seen s a)"
    using i by blast
  have "cn_apps s a = None \<longrightarrow> cn_ref s a = None"
    using i by blast
  then show "cn_ref s a = Some u \<Longrightarrow> cn_apps s a \<noteq> None"
    by auto
  show "cn_ref s a = Some u \<Longrightarrow> cn_ref s b = Some u \<Longrightarrow> a = b"
    using i by blast
  show "inj (uuid a)"
    using i by blast
qed

lemma cn_inv_new: "(\<And>a. inj (uuid a)) \<Longrightarrow> cn_inv uuid (conference_new (room_new i k caps ip a))"
  by (simp add: cn_inv_def conference_new_def room_talks_new)

text \<open>One application moves and the room stays as it is.\<close>

lemma cn_app_moves:
  assumes inv: "cn_inv uuid s" and a: "cn_apps s a = Some app"
    and new: "app_inv (uuid a) (cn_room s) app' ref (cn_got s a) seen" and ref: "ref = cn_ref s a \<or> ref = None"
  shows "cn_inv uuid (s\<lparr>cn_apps := (cn_apps s)(a \<mapsto> app'), cn_ref := (cn_ref s)(a := ref), cn_seen := (cn_seen s)(a := seen)\<rparr>)"
    (is "cn_inv uuid ?s'")
  unfolding cn_inv_def
proof (intro conjI allI impI)
  show "room_talks (cn_room ?s')"
    using cn_invD(1)[OF inv] by simp
  show "app_inv (uuid b) (cn_room ?s') ap (cn_ref ?s' b) (cn_got ?s' b) (cn_seen ?s' b)" if "cn_apps ?s' b = Some ap" for b ap
    using that new cn_invD(2)[OF inv] by (cases "b = a") auto
  show "cn_ref ?s' b = None" if "cn_apps ?s' b = None" for b
    using that cn_invD(3)[OF inv, of b] by (cases "cn_ref s b"; cases "b = a") auto
  show "inj (uuid b)" for b
    by (rule cn_invD(5)[OF inv])
  show "b = b'" if "cn_ref ?s' b = Some u" "cn_ref ?s' b' = Some u" for b b' u
    using that ref cn_invD(4)[OF inv, of b u b'] by (auto split: if_splits)
qed

text \<open>The room moves and hears from no application.\<close>

lemma cn_room_moves:
  assumes inv: "cn_inv uuid s" and e: "in_room e" "mesh_ok (cn_room s) e"
  shows "cn_inv uuid (s\<lparr>cn_room := room_step jwt (cn_room s) e\<rparr>)"
proof -
  have ms: "mesh_state (cn_room s)"
    using cn_invD(1)[OF inv] by (simp add: room_talks_def)
  have "line_inv (room_step jwt (cn_room s) e) app u got seen" if "line_inv (cn_room s) app u got seen" for app u got seen
    by (rule line_room[OF ms e(2) that]) (use e(1) in auto)
  then show ?thesis
    using inv room_talks_step[OF _ e(2)] unfolding cn_inv_def app_inv_def by simp
qed

lemma talks_room: "room_talks r \<Longrightarrow> mesh_state r" "room_talks r \<Longrightarrow> room_inv r" "room_talks r \<Longrightarrow> room_wf r"
  by (simp_all add: room_talks_def mesh_state_def room_inv_def)

lemma cn_accepted:
  assumes inv: "cn_inv uuid s" and a: "cn_apps s a = Some app" and ws: "\<not> sc_ws (ms_conn app)" "cn_ref s a = None"
  shows "cn_inv uuid (s\<lparr>cn_room := room_step jwt (cn_room s) (Add cid uid), cn_ref := (cn_ref s)(a \<mapsto> r_nobjs (cn_room s)),
    cn_got := (cn_got s)(a := 0), cn_seen := (cn_seen s)(a := 0)\<rparr>)" (is "cn_inv uuid ?s'")
proof -
  let ?r = "cn_room s" and ?u = "r_nobjs (cn_room s)"
  have ok: "mesh_ok ?r (Add cid uid)"
    by (simp add: mesh_ok_def)
  note t = cn_invD(1)[OF inv]
  have fresh: "r_objs ?r ?u = None"
    using room_wf_fresh[OF talks_room(3)[OF t]] by simp
  have keep: "line_inv (room_step jwt ?r (Add cid uid)) app' u got seen" if "line_inv ?r app' u got seen" for app' u got seen
    by (rule line_room[OF talks_room(1)[OF t] ok that]) simp
  have old: "cn_ref s b \<noteq> Some ?u" for b
    using fresh cn_invD(2,3)[OF inv] unfolding app_inv_def line_inv_def by blast
  have "quiet app"
    using cn_invD(2)[OF inv a] ws(1) wire_invD(3) unfolding app_inv_def talk_inv_def by blast
  then have "line_inv (room_step jwt ?r (Add cid uid)) app ?u 0 0"
    using t fresh by (auto simp: line_inv_def quiet_def caps_sent_def room_talks_def heard_wf_def)
  then show ?thesis
    using inv keep old room_talks_step[OF t ok] a ws(2)
    unfolding cn_inv_def app_inv_def by (auto split: if_splits)
qed

text \<open>
  A frame of the application reaches the room. This is where the web application keeps what the room asks
  of its clients.
\<close>

lemma join_ready:
  assumes t: "room_talks r" and app: "talk_inv ids app" and line: "line_inv r app u got seen"
    and got: "got < length (sent app)" and m: "sent app ! got = Wire m"
  shows "mesh_ok r (Receive now u m)"
proof -
  have w: "wire_inv ids app"
    using app by (simp add: talk_inv_def)
  have mem: "Wire m \<in> set (sent app)"
    using got m nth_mem by metis
  have caps: "js_truthy (Some v)" if "m = Ntf (ClientRtpCapabilitiesNotification v)" for v
    using wire_invD(4)[OF w] mem that by simp
  have join: "ready c" if i: "m = Req (JoinCallRequest i)" and c: "r_objs r u = Some c" for i c
  proof (rule has_caps_rcv_ready[OF _ _ c])
    show "has_caps r u"
      using wire_invD(6)[OF w] got m i line unfolding joins_after_caps_def line_inv_def by blast
    show "has_rcv r u"
      using wire_invD(7)[OF w] mem i line unfolding line_inv_def by blast
  qed
  show ?thesis
    unfolding mesh_ok_def using caps join
    by (auto split: message.split request.split notification.split option.split)
qed

lemma cn_to_room:
  assumes inv: "cn_inv uuid s" and a: "cn_apps s a = Some app" "cn_ref s a = Some u"
    and o: "is_open (cn_room s) u" "cn_got s a < length (sent app)"
  shows "cn_inv uuid (case sent app ! cn_got s a of
      Wire m \<Rightarrow> s\<lparr>cn_got := (cn_got s)(a := Suc (cn_got s a)), cn_room := room_step jwt (cn_room s) (Receive now u m)\<rparr>
    | ObservedSamplesNotification _ \<Rightarrow> s\<lparr>cn_got := (cn_got s)(a := Suc (cn_got s a))\<rparr>)"
proof -
  let ?g = "cn_got s a" and ?r = "cn_room s"
  note t = cn_invD(1)[OF inv]
  have app: "talk_inv (uuid a) app" and line: "line_inv ?r app u ?g (cn_seen s a)"
    using cn_invD(2)[OF inv a(1)] a(2) by (simp_all add: app_inv_def)
  have tk: "take (Suc ?g) (sent app) = take ?g (sent app) @ [sent app ! ?g]"
    using o(2) by (rule take_Suc_conv_app_nth)
  show ?thesis
  proof (cases "sent app ! ?g")
    case (ObservedSamplesNotification x)
    then have "line_inv ?r app u (Suc ?g) (cn_seen s a)"
      using line o(2) by (auto simp: line_inv_def tk caps_sent_def)
    then show ?thesis
      using inv a ObservedSamplesNotification unfolding cn_inv_def app_inv_def by auto
  next
    case (Wire m)
    let ?e = "Receive now u m"
    let ?r' = "room_step jwt ?r ?e"
    have ok: "mesh_ok ?r ?e"
      by (rule join_ready[OF t app line o(2) Wire])
    have rest: "line_inv ?r' app' u' got seen" if "line_inv ?r app' u' got seen" "u' \<noteq> u" for app' u' got seen
      by (rule line_room[OF talks_room(1)[OF t] ok that(1)]) (use that(2) in auto)
    have rc: "room_heard ?r' u m' \<longleftrightarrow> room_heard ?r u m' \<or> m' = m" for m'
      unfolding room_heard_step[OF talks_room(3)[OF t]] using o(1) by auto
    have caps: "has_caps ?r' u" if c: "caps_sent (take (Suc ?g) (sent app))"
    proof (cases "caps_sent (take ?g (sent app))")
      case True
      then show ?thesis
        using line line_room_keeps(3)[OF talks_room(1)[OF t] ok line] by (simp add: line_inv_def)
    next
      case False
      then obtain v where v: "m = Ntf (ClientRtpCapabilitiesNotification v)"
        using c Wire by (auto simp: tk caps_sent_def)
      then show ?thesis
        using caps_received[OF o(1)] ok by (simp add: mesh_ok_def)
    qed
    have here: "line_inv ?r' app u (Suc ?g) (cn_seen s a)"
      using line caps rc line_room_keeps[OF talks_room(1)[OF t] ok line] o(2)
      unfolding line_inv_def by (auto simp: tk Wire)
    have other: "u' \<noteq> u" if "cn_ref s b = Some u'" "b \<noteq> a" for b u'
      using cn_invD(4)[OF inv a(2)] that by blast
    show ?thesis
      using inv a Wire here rest[OF _ other] room_talks_step[OF t ok] unfolding cn_inv_def app_inv_def
      by (auto simp del: room_step.simps)
  qed
qed

text \<open>
  A frame of the room reaches the application. The request that made the service create its receiving
  transport is one the room received, so the room has created that transport too.
\<close>

lemma transport_at_room:
  assumes t: "room_talks r" and app: "talk_inv ids app" and line: "line_inv r app u got seen"
    and frame: "OSend u m \<in> set (r_trace r)" "parse data = Some (message_json m)"
    and new: "TransportCreated ''consuming'' \<in> set (ms_out (ms_frame ids parse now app data))"
      "TransportCreated ''consuming'' \<notin> set (ms_out app)"
  shows "has_rcv r u"
proof -
  have w: "wire_inv ids app"
    using app by (simp add: talk_inv_def)
  have heard: "Wire m' \<in> spoken app" if "room_heard r u m'" for m'
    using line_heard[OF line that] by (simp add: spoken_def)
  obtain p where p: "m = Rsp p" "Wire (Req (CreateTransportRequest (response_id p) ''consuming'')) \<in> spoken app"
    using frame_transport[OF app frame(2) new] by (auto simp: spoken_def)
  have same: "q = CreateTransportRequest (response_id p) ''consuming''"
    if "room_heard r u (Req q)" "request_id q = response_id p" for q
    using wire_invD(10)[OF w] heard[OF that(1)] p(2) that(2) unfolding ids_unique_def by (metis request_id.simps(6))
  obtain q where q: "room_heard r u (Req q)" "request_id q = response_id p" "answer_type q = Some (response_type p)"
    using reply_has_request frame(1) t unfolding p(1) room_talks_def by blast
  then have "response_type p = ''create-transport-response''"
    using same by fastforce
  then obtain i ti where i: "p = CreateTransportResponse i ti"
    by (cases p) simp_all
  then obtain role where role: "room_heard r u (Req (CreateTransportRequest i role))" "role = ''consuming'' \<longrightarrow> has_rcv r u"
    using t frame(1) unfolding p(1) room_talks_def transport_inv_def room_heard_def by blast
  then show ?thesis
    using same[of "CreateTransportRequest i role"] i by simp
qed

lemma join_recv_iff: "is_join_recv u x \<longleftrightarrow> (\<exists>i. x = ORecv u (Req (JoinCallRequest i)))"
  by (auto simp: is_join_recv_def split: obs.split message.split request.split)

lemma frame_handled:
  assumes app: "talk_inv ids app" and line: "line_inv r app u got seen" and n: "n < length (frames_to r u)"
    and data: "parse data = Some (message_json (frames_to r u ! n))"
  shows "handled (ms_frame ids parse now app data) (frames_before_join r u \<le> n) (frames_to r u ! n)"
proof -
  have s: "service_inv app" and c: "conversation_inv app" and w: "wire_inv ids app"
    using app by (simp_all add: talk_inv_def)
  have "ms_rcv app \<noteq> None" if late: "frames_before_join r u \<le> n"
  proof -
    have "\<exists>x \<in> set (r_trace r). is_join_recv u x"
    proof (rule ccontr)
      assume "\<not> ?thesis"
      then have "takeWhile (\<lambda>x. \<not> is_join_recv u x) (r_trace r) = r_trace r"
        by (simp add: takeWhile_eq_all_conv)
      then have "frames_before_join r u = length (frames_to r u)"
        by (simp only: frames_before_join_def frames_to_def)
      then show False
        using late n by simp
    qed
    then obtain i where "room_heard r u (Req (JoinCallRequest i))"
      unfolding join_recv_iff room_heard_def by blast
    then have "join_message i \<in> set (sent app)"
      by (rule line_heard[OF line])
    then have "Submit (join_message i) \<in> set (ms_out app)"
      using wire_invD(7)[OF w] by blast
    then show ?thesis
      using c by (fastforce simp: conversation_inv_def)
  qed
  then show ?thesis
    using frame_created[OF s, of parse data _ _ _ _ _ ids now] data by (auto simp: handled_def)
qed

lemma cn_to_app:
  assumes inv: "cn_inv uuid s" and a: "cn_apps s a = Some app" "cn_ref s a = Some u" and ws: "sc_ws (ms_conn app)"
    and n: "cn_seen s a < length (frames_to (cn_room s) u)"
    and data: "parse data = Some (message_json (frames_to (cn_room s) u ! cn_seen s a))"
  shows "cn_inv uuid (s\<lparr>cn_apps := (cn_apps s)(a \<mapsto> ms_step (uuid a) parse app (FrameReceived now data)),
    cn_seen := (cn_seen s)(a := Suc (cn_seen s a))\<rparr>)"
proof -
  let ?app' = "ms_step (uuid a) parse app (FrameReceived now data)"
  note t = cn_invD(1)[OF inv]
  have app: "talk_inv (uuid a) app" and line: "line_inv (cn_room s) app u (cn_got s a) (cn_seen s a)"
    using cn_invD(2)[OF inv a(1)] a(2) by (simp_all add: app_inv_def)
  have e: "extends app ?app'"
    using frame_extends[of parse data, OF data] app by (simp add: talk_inv_def)
  have mem: "OSend u (frames_to (cn_room s) u ! cn_seen s a) \<in> set (r_trace (cn_room s))"
    using n by (simp flip: frames_to_mem)
  have "line_inv (cn_room s) ?app' u (cn_got s a) (cn_seen s a)"
    using transport_at_room[where parse = parse, OF t app line mem data] by (intro line_app[OF line e]) auto
  then have "line_inv (cn_room s) ?app' u (cn_got s a) (Suc (cn_seen s a))"
    using frame_handled[where parse = parse, OF app line n data] n by (auto simp: line_inv_def less_Suc_eq)
  moreover have "talk_inv (uuid a) ?app'"
    by (rule talk_step[OF app]) (simp add: ws)
  ultimately have "app_inv (uuid a) (cn_room s) ?app' (cn_ref s a) (cn_got s a) (Suc (cn_seen s a))"
    by (simp add: app_inv_def a(2))
  from cn_app_moves[OF inv a(1) this] show ?thesis
    by (simp del: ms_step.simps add: fun_upd_idem)
qed

lemma cn_app_steady:
  assumes inv: "cn_inv uuid s" and a: "cn_apps s a = Some app" and e: "is_local e" "ms_ok app e"
  shows "cn_inv uuid (s\<lparr>cn_apps := (cn_apps s)(a \<mapsto> ms_step (uuid a) parse app e)\<rparr>)"
proof -
  let ?app' = "ms_step (uuid a) parse app e"
  have app: "talk_inv (uuid a) app" "sc_ws (ms_conn app) \<longrightarrow> cn_ref s a \<noteq> None"
    "\<And>u. cn_ref s a = Some u \<Longrightarrow> line_inv (cn_room s) app u (cn_got s a) (cn_seen s a)"
    using cn_invD(2)[OF inv a] unfolding app_inv_def by blast+
  have st: "steady app ?app'"
    by (rule steady_step[OF e(1)])
  have "line_inv (cn_room s) ?app' u (cn_got s a) (cn_seen s a)" if "cn_ref s a = Some u" for u
    using st by (intro line_app[OF app(3)[OF that]]) (auto simp: steady_def)
  moreover have "talk_inv (uuid a) ?app'"
    by (rule talk_step[OF app(1) e(2)])
  ultimately have "app_inv (uuid a) (cn_room s) ?app' (cn_ref s a) (cn_got s a) (cn_seen s a)"
    using st app(2) unfolding app_inv_def steady_def by blast
  from cn_app_moves[OF inv a this] show ?thesis
    by (simp add: fun_upd_idem)
qed

lemma cn_socket_up:
  assumes inv: "cn_inv uuid s" and a: "cn_apps s a = Some app" and r: "cn_ref s a \<noteq> None"
  shows "cn_inv uuid (s\<lparr>cn_apps := (cn_apps s)(a \<mapsto> ms_step (uuid a) parse app (SocketOpened now))\<rparr>)"
proof -
  let ?app' = "ms_step (uuid a) parse app (SocketOpened now)"
  have app: "talk_inv (uuid a) app" "\<And>u. cn_ref s a = Some u \<Longrightarrow> line_inv (cn_room s) app u (cn_got s a) (cn_seen s a)"
    using cn_invD(2)[OF inv a] unfolding app_inv_def by blast+
  have "line_inv (cn_room s) ?app' u (cn_got s a) (cn_seen s a)" if "cn_ref s a = Some u" for u
    using opened_extends by (intro line_app[OF app(2)[OF that]]) auto
  moreover have "talk_inv (uuid a) ?app'"
    by (rule talk_step[OF app(1)]) simp
  ultimately have "app_inv (uuid a) (cn_room s) ?app' (cn_ref s a) (cn_got s a) (cn_seen s a)"
    using r unfolding app_inv_def by blast
  from cn_app_moves[OF inv a this] show ?thesis
    by (simp add: fun_upd_idem)
qed

lemma cn_refused:
  assumes inv: "cn_inv uuid s" and a: "cn_apps s a = Some app" and ws: "\<not> sc_ws (ms_conn app)"
  shows "cn_inv uuid (s\<lparr>cn_apps := (cn_apps s)(a \<mapsto> ms_step (uuid a) parse app SocketFailed), cn_ref := (cn_ref s)(a := None)\<rparr>)"
proof -
  let ?app' = "ms_step (uuid a) parse app SocketFailed"
  have app: "talk_inv (uuid a) app"
    using cn_invD(2)[OF inv a] unfolding app_inv_def by blast
  have "talk_inv (uuid a) ?app'"
    by (rule talk_step[OF app]) simp
  moreover have "\<not> sc_ws (ms_conn ?app')"
    using ws steady_conn_events(1)[of app] by (simp add: steady_def)
  ultimately have "app_inv (uuid a) (cn_room s) ?app' None (cn_got s a) (cn_seen s a)"
    by (simp add: app_inv_def)
  from cn_app_moves[OF inv a this] show ?thesis
    by (simp add: fun_upd_idem)
qed

lemma cn_started:
  assumes inv: "cn_inv uuid s" and a: "cn_apps s a = None"
  shows "cn_inv uuid (s\<lparr>cn_apps := (cn_apps s)(a \<mapsto> ms_new config)\<rparr>)"
proof -
  have ref: "cn_ref s a = None"
    using cn_invD(3)[OF inv, of a] a by (cases "cn_ref s a") auto
  have "talk_inv (uuid a) (ms_new config)" "\<not> sc_ws (ms_conn (ms_new config))"
    by (rule talk_new[OF cn_invD(5)[OF inv]]) (simp add: ms_new_def connection_new_def Let_def)
  then show ?thesis
    using inv ref unfolding cn_inv_def app_inv_def by (auto split: if_splits)
qed

lemma cn_inv_step: "cn_inv uuid s \<Longrightarrow> cn_inv uuid (cn_step uuid parse jwt s e)"
proof (cases e)
  case (ToRoom now a)
  assume inv: "cn_inv uuid s"
  show ?thesis
  proof (cases "\<exists>app u. cn_apps s a = Some app \<and> cn_ref s a = Some u \<and> is_open (cn_room s) u \<and> cn_got s a < length (sent app)")
    case True
    then obtain app u where a: "cn_apps s a = Some app" "cn_ref s a = Some u"
      and o: "is_open (cn_room s) u" "cn_got s a < length (sent app)"
      by blast
    show ?thesis
      using cn_to_room[OF inv a o, of jwt now] a o ToRoom
      by (simp add: Let_def del: room_step.simps split: web_message.split)
  qed (use inv ToRoom in \<open>auto split: option.split\<close>)
qed (auto simp del: ms_step.simps room_step.simps split: option.split
      intro: cn_started cn_accepted cn_socket_up cn_refused cn_app_steady cn_to_app cn_room_moves)

interpretation conference: free_invariant_system "cn_step uuid parse jwt" "cn_inv uuid" for uuid parse jwt
  by unfold_locales (rule cn_inv_step)

lemma conference_run_inv:
  "(\<And>a. inj (uuid a)) \<Longrightarrow> cn_inv uuid (conference_run uuid parse jwt (room_new i key caps ip aip) es)"
  unfolding conference_run_def by (rule conference.free_run_inv[OF cn_inv_new])

section \<open>Web clients are the clients that the room expects\<close>

text \<open>A step of the whole moves the room by at most one event, and by one that is acceptable.\<close>

lemma cn_step_room:
  assumes inv: "cn_inv uuid s"
  shows "cn_room (cn_step uuid parse jwt s e) = cn_room s \<or>
    (\<exists>f. mesh_ok (cn_room s) f \<and> cn_room (cn_step uuid parse jwt s e) = room_step jwt (cn_room s) f)"
proof (cases e)
  case (Accepted a userId)
  have "mesh_ok (cn_room s) (Add cid userId)" for cid
    by (simp add: mesh_ok_def)
  with Accepted show ?thesis
    by (auto simp del: room_step.simps split: option.split)
next
  case (ToRoom now a)
  have "mesh_ok (cn_room s) (Receive now u m)"
    if "cn_apps s a = Some app" "cn_ref s a = Some u" "cn_got s a < length (sent app)" "sent app ! cn_got s a = Wire m"
    for app u m
    using cn_invD(2)[OF inv that(1)] that(2) unfolding app_inv_def
    by (intro join_ready[OF cn_invD(1)[OF inv] _ _ that(3,4)]) auto
  with ToRoom show ?thesis
    by (auto simp: Let_def simp del: room_step.simps split: option.split web_message.split)
qed (auto simp del: room_step.simps ms_step.simps split: option.split)

text \<open>
  C3. Web clients are the clients that the room expects: in every run of a room with any number of web
  applications, the room runs as in C1, that is, the messages that reach it announce capabilities and come with a
  receiving transport before they ask to join. What C1 and C2 assume of the clients is what the web
  application does.
\<close>

theorem conference_refines_room:
  assumes "\<And>a. inj (uuid a)"
  shows "\<exists>fs. ok_run (room_step jwt) mesh_ok (room_new i key caps ip aip) fs \<and>
    cn_room (conference_run uuid parse jwt (room_new i key caps ip aip) es) = room_run jwt (room_new i key caps ip aip) fs"
proof (induction es rule: rev_induct)
  case Nil
  show ?case
    by (rule exI[of _ "[]"]) (simp add: conference_run_def conference_new_def room_run_def)
next
  case (snoc e es)
  let ?r0 = "room_new i key caps ip aip"
  let ?s = "conference_run uuid parse jwt ?r0 es"
  obtain fs where fs: "ok_run (room_step jwt) mesh_ok ?r0 fs" "cn_room ?s = room_run jwt ?r0 fs"
    using snoc by blast
  have eq: "conference_run uuid parse jwt ?r0 (es @ [e]) = cn_step uuid parse jwt ?s e"
    by (simp add: conference_run_def)
  from cn_step_room[OF conference_run_inv[where uuid = uuid, OF assms], where e = e] consider
      "cn_room (cn_step uuid parse jwt ?s e) = cn_room ?s"
    | f where "mesh_ok (cn_room ?s) f" "cn_room (cn_step uuid parse jwt ?s e) = room_step jwt (cn_room ?s) f"
    by blast
  then show ?case
  proof cases
    case 1
    with fs show ?thesis
      unfolding eq by auto
  next
    case 2
    then show ?thesis
      using fs unfolding eq by (intro exI[of _ "fs @ [f]"]) (simp add: ok_run_append room_run_def)
  qed
qed

section \<open>A conference of two\<close>

text \<open>
  The second application's transport for receiving is answered before its other one, and the first
  one starts to produce in between.
\<close>

definition demo_ids :: "nat \<Rightarrow> nat \<Rightarrow> string" where
  "demo_ids a n = (if a = 0 then CHR ''a'' else CHR ''b'') # replicate n (CHR ''i'')"

definition demo_frame :: "string \<Rightarrow> json option" where
  "demo_frame = map_of (map (\<lambda>(t, m). (t, message_json m))
     [(''a-caps'', Rsp (GetRouterCapabilitiesResponse ''a'' JNull)),
      (''a-snd'', Rsp (CreateTransportResponse ''ai'' demo_transport)),
      (''a-rcv'', Rsp (CreateTransportResponse ''aii'' demo_transport)),
      (''a-join'', Rsp (JoinCallResponse ''aiii'' ''call'' ''token'')),
      (''a-made'', Rsp (CreateProducerResponse ''aiiii'' ''p'')),
      (''b-caps'', Rsp (GetRouterCapabilitiesResponse ''b'' JNull)),
      (''b-rcv'', Rsp (CreateTransportResponse ''bii'' demo_transport)),
      (''b-new'', Ntf (ConsumerCreatedNotification ''k'' ''p'' ''audio'' JNull \<lparr>rc_userId = None, rc_clientId = ''c1''\<rparr>)),
      (''b-snd'', Rsp (CreateTransportResponse ''bi'' demo_transport)),
      (''b-join'', Rsp (JoinCallResponse ''biii'' ''call'' ''token'')),
      (''b-next'', Ntf (ConsumerCreatedNotification ''l'' ''q'' ''video'' JNull \<lparr>rc_userId = None, rc_clientId = ''c1''\<rparr>))])"

text \<open>An application connects, loads its device and asks for its transports.\<close>

definition demo_connecting :: "nat \<Rightarrow> string \<Rightarrow> string \<Rightarrow> conference_event list" where
  "demo_connecting a client caps =
     [Start a (web_config\<lparr>cf_clientId := client\<rparr>), Local a (MsConnect 0), Accepted a None, SocketUp 1 a,
      Local a (ResendFired 2), ToRoom 3 a, ToApp 3 a caps, Local a (Answer 4 1 (Loaded (JStr ''caps''))),
      ToRoom 5 a, ToRoom 5 a, ToRoom 5 a]"

definition demo_events :: "conference_event list" where
  "demo_events =
     demo_connecting 0 ''c1'' ''a-caps'' @
     [InRoom (Resume 6 0 (ATransport demo_transport)), InRoom (Resume 6 1 (ATransport demo_transport)),
      ToApp 7 0 ''a-snd'', ToApp 7 0 ''a-rcv'', ToRoom 8 0, ToApp 8 0 ''a-join''] @
     demo_connecting 1 ''c2'' ''b-caps'' @
     [InRoom (Resume 9 3 (ATransport demo_transport)), ToApp 9 1 ''b-rcv'',
      Local 0 (Producing 10 ''audio'' JNull), ToRoom 10 0, InRoom (Resume 11 4 (AProducer \<lparr>p_id = ''p''\<rparr>)),
      InRoom (Resume 12 5 (AConsumer \<lparr>co_id = ''k'', co_producerId = ''p'', co_kind = ''audio'', co_rtpParameters = JNull\<rparr>)),
      InRoom (Resume 12 6 AOk), ToApp 13 0 ''a-made'', ToApp 13 1 ''b-new'',
      InRoom (Resume 14 2 (ATransport demo_transport)), ToApp 15 1 ''b-snd'', ToRoom 16 1,
      InRoom (Resume 17 7 AOk), ToApp 18 1 ''b-join'',
      Local 0 (Producing 20 ''video'' JNull), ToRoom 20 0, InRoom (Resume 21 8 (AProducer \<lparr>p_id = ''q''\<rparr>)),
      InRoom (Resume 22 9 (AConsumer \<lparr>co_id = ''l'', co_producerId = ''q'', co_kind = ''video'', co_rtpParameters = JNull\<rparr>)),
      InRoom (Resume 22 10 AOk), ToApp 23 1 ''b-next'']"

definition demo_conference :: conference where
  "demo_conference = conference_run demo_ids demo_frame (\<lambda>_ _. ''token'')
     (room_new ''r1'' ''call'' JNull ''ip'' ''aip'') demo_events"

lemma demo_ids_inj: "inj (demo_ids a)"
  by (auto intro!: injI simp: demo_ids_def dest: arg_cong[of _ _ length])

text \<open>What is to be seen of the end of that run, computed at once.\<close>

definition at_rest :: "conference \<Rightarrow> bool" where
  "at_rest s \<longleftrightarrow> r_tasks (cn_room s) = [] \<and> ORejected \<notin> set (r_trace (cn_room s)) \<and>
     map_get (r_clients (cn_room s)) ''c1'' = Some 0 \<and> map_get (r_clients (cn_room s)) ''c2'' = Some 1 \<and>
     cn_ref s 1 = Some 1 \<and> cn_seen s 1 = length (frames_to (cn_room s) 1)"

definition produces :: "conference \<Rightarrow> nat \<Rightarrow> string \<Rightarrow> bool" where
  "produces s u q = (case r_objs (cn_room s) u of None \<Rightarrow> False | Some c \<Rightarrow> map_get (c_producers c) q \<noteq> None)"

text \<open>The announced producers, with whether the application consumed them.\<close>

fun consumer_log :: "ms_out list \<Rightarrow> (bool \<times> json option) list" where
  "consumer_log [] = []"
| "consumer_log (Consume j # xs) = (True, js_field j ''remoteProducerId'') # consumer_log xs"
| "consumer_log (ConsumeDropped j # xs) = (False, js_field j ''remoteProducerId'') # consumer_log xs"
| "consumer_log (_ # xs) = consumer_log xs"

definition summary :: "conference \<Rightarrow> (bool \<times> bool \<times> bool \<times> bool) \<times> (bool \<times> json option) list \<times> bool" where
  "summary s = ((at_rest s, produces s 0 ''p'', produces s 0 ''q'',
       frames_before_join (cn_room s) 1 = 4 \<and> cn_seen s 1 = 6 \<and> frames_to (cn_room s) 1 ! 5 =
         Ntf (ConsumerCreatedNotification ''l'' ''q'' ''video'' JNull \<lparr>rc_userId = None, rc_clientId = ''c1''\<rparr>)),
     (case cn_apps s 1 of
        None \<Rightarrow> ([], False)
      | Some app \<Rightarrow> (consumer_log (ms_out app), cn_got s 1 = length (sent app) \<and> Submit (join_message ''biii'') \<in> set (ms_out app))))"

lemma demo_conference_summary:
  "summary demo_conference = ((True, True, True, True), [(False, Some (JStr ''p'')), (True, Some (JStr ''q''))], True)"
  by code_simp

lemma demo_conference_end:
  "at_rest demo_conference" "produces demo_conference 0 ''p''" "produces demo_conference 0 ''q''"
  "frames_before_join (cn_room demo_conference) 1 = 4" "cn_seen demo_conference 1 = 6"
  "frames_to (cn_room demo_conference) 1 ! 5 =
     Ntf (ConsumerCreatedNotification ''l'' ''q'' ''video'' JNull \<lparr>rc_userId = None, rc_clientId = ''c1''\<rparr>)"
  "\<exists>app. cn_apps demo_conference 1 = Some app \<and> cn_got demo_conference 1 = length (sent app) \<and>
     Submit (join_message ''biii'') \<in> set (ms_out app) \<and>
     consumer_log (ms_out app) = [(False, Some (JStr ''p'')), (True, Some (JStr ''q''))]"
  using demo_conference_summary unfolding summary_def by (auto split: option.splits)

lemma conference_refines_room_witness:
  "\<exists>fs. ok_run (room_step (\<lambda>_ _. ''token'')) mesh_ok (room_new ''r1'' ''call'' JNull ''ip'' ''aip'') fs \<and>
    cn_room demo_conference = room_run (\<lambda>_ _. ''token'') (room_new ''r1'' ''call'' JNull ''ip'' ''aip'') fs"
  unfolding demo_conference_def by (rule conference_refines_room[where uuid = demo_ids, OF demo_ids_inj])

section \<open>From producer to consumer\<close>

text \<open>
  C4. Media end to end. In any run of a room with web applications: once no handler of the room is suspended
  and no library call was rejected, an application that asked to join and has exchanged all frames with the room
  has dealt with every producer of every other registered client: it called \<open>consume\<close> for it, or it dropped
  the announcement.
\<close>

theorem media_reach_applications:
  assumes ids: "\<And>a. inj (uuid a)"
    and s: "s = conference_run uuid parse jwt (room_new i key caps ip aip) es"
    and idle: "r_tasks (cn_room s) = []" "ORejected \<notin> set (r_trace (cn_room s))"
    and app: "cn_apps s b = Some app" "cn_ref s b = Some v"
    and drained: "cn_got s b = length (sent app)" "cn_seen s b = length (frames_to (cn_room s) v)"
    and joined: "Submit (join_message n) \<in> set (ms_out app)"
    and clients: "map_get (r_clients (cn_room s)) x = Some u" "map_get (r_clients (cn_room s)) y = Some v" "x \<noteq> y"
    and producer: "r_objs (cn_room s) u = Some c" "map_get (c_producers c) q = Some p"
  shows "\<exists>k kind rtp rc. let j = message_json (Ntf (ConsumerCreatedNotification k q kind rtp rc))
    in Consume j \<in> set (ms_out app) \<or> ConsumeDropped j \<in> set (ms_out app)"
proof -
  let ?r = "cn_room s"
  have inv: "cn_inv uuid s"
    unfolding s by (rule conference_run_inv[OF ids])
  have talk: "talk_inv (uuid b) app" and line: "line_inv ?r app v (cn_got s b) (cn_seen s b)"
    using cn_invD(2)[OF inv app(1)] app(2) unfolding app_inv_def by blast+
  have "join_message n \<in> set (sent app)"
    using wire_invD(8)[OF _ joined, of "uuid b"] talk unfolding talk_inv_def by blast
  then have "ORecv v (Req (JoinCallRequest n)) \<in> set (r_trace ?r)"
    using line drained(1) by (simp add: line_inv_def room_heard_def)
  then obtain k kind rtp rc where "Ntf (ConsumerCreatedNotification k q kind rtp rc) \<in> set (frames_to ?r v)"
    using idle_told[OF talks_room(1)[OF cn_invD(1)[OF inv]] idle clients _ producer] unfolding frames_to_mem by blast
  then obtain l where "l < cn_seen s b" "frames_to ?r v ! l = Ntf (ConsumerCreatedNotification k q kind rtp rc)"
    unfolding drained(2) in_set_conv_nth by blast
  then have "handled app (frames_before_join ?r v \<le> l) (Ntf (ConsumerCreatedNotification k q kind rtp rc))"
    using line unfolding line_inv_def by metis
  then show ?thesis
    unfolding handled_def Let_def by blast
qed

lemma media_reach_applications_witness:
  "\<exists>app k kind rtp rc. cn_apps demo_conference 1 = Some app \<and>
    (let j = message_json (Ntf (ConsumerCreatedNotification k ''p'' kind rtp rc))
     in Consume j \<in> set (ms_out app) \<or> ConsumeDropped j \<in> set (ms_out app))"
proof -
  obtain app where app: "cn_apps demo_conference 1 = Some app" "cn_got demo_conference 1 = length (sent app)"
    "Submit (join_message ''biii'') \<in> set (ms_out app)"
    using demo_conference_end(7) by blast
  obtain c p where c: "r_objs (cn_room demo_conference) 0 = Some c" "map_get (c_producers c) ''p'' = Some p"
    using demo_conference_end(2) by (auto simp: produces_def split: option.splits)
  have ids: "\<And>a. inj (demo_ids a)"
    by (rule demo_ids_inj)
  show ?thesis
    using media_reach_applications[OF ids demo_conference_def, of 1 app 1 "''biii''" "''c1''" 0 "''c2''" c "''p''" p]
      app c demo_conference_end(1) unfolding at_rest_def by auto
qed

text \<open>
  C6. No announcement is lost after the join: in any run of a room with web applications, an announcement that the room
  sent to an application after it had received its request to join is consumed by the application once
  the frame has arrived there.
\<close>

theorem announced_after_join_is_consumed:
  assumes ids: "\<And>a. inj (uuid a)"
    and s: "s = conference_run uuid parse jwt (room_new i key caps ip aip) es"
    and app: "cn_apps s b = Some app" "cn_ref s b = Some v"
    and frame: "frames_before_join (cn_room s) v \<le> n" "n < cn_seen s b"
      "frames_to (cn_room s) v ! n = Ntf (ConsumerCreatedNotification k q kind rtp rc)"
  shows "Consume (message_json (Ntf (ConsumerCreatedNotification k q kind rtp rc))) \<in> set (ms_out app)"
proof -
  have inv: "cn_inv uuid s"
    unfolding s by (rule conference_run_inv[OF ids])
  have "line_inv (cn_room s) app v (cn_got s b) (cn_seen s b)"
    using cn_invD(2)[OF inv app(1)] app(2) unfolding app_inv_def by blast
  then have "handled app (frames_before_join (cn_room s) v \<le> n) (frames_to (cn_room s) v ! n)"
    using frame(2) unfolding line_inv_def by blast
  then show ?thesis
    using frame(1) unfolding frame(3) handled_def by blast
qed

lemma announced_after_join_is_consumed_witness:
  "\<exists>app. cn_apps demo_conference 1 = Some app \<and>
    Consume (message_json (Ntf (ConsumerCreatedNotification ''l'' ''q'' ''video'' JNull
      \<lparr>rc_userId = None, rc_clientId = ''c1''\<rparr>))) \<in> set (ms_out app)"
proof -
  obtain app where app: "cn_apps demo_conference 1 = Some app"
    using demo_conference_end(7) by blast
  have ids: "\<And>a. inj (demo_ids a)"
    by (rule demo_ids_inj)
  show ?thesis
    using announced_after_join_is_consumed[OF ids demo_conference_def app, of 1 5] app
      demo_conference_end(1,4-6) by (simp add: at_rest_def)
qed

end
