(* ===== verification/RoomTold.thy ===== *)
theory RoomTold
  imports RoomTransport
begin

text \<open>
  A producer is announced to a client once (\<^verbatim>\<open>sfu/src/media/Room.ts\<close>, \<open>_consumeClient\<close>): while the room keeps the consumer that it
  made for a client, none of its handlers announces the producer to that client again.
\<close>

section \<open>The room does not announce twice\<close>

fun announces :: "string \<Rightarrow> message \<Rightarrow> bool" where
  "announces q (Ntf (ConsumerCreatedNotification c p kind rtp rc)) = (p = q)"
| "announces q _ = False"

definition announcements :: "room \<Rightarrow> nat \<Rightarrow> string \<Rightarrow> message list" where
  "announcements r v q = filter (announces q) (frames_to r v)"

text \<open>The client object \<open>v\<close> has a consumer of the producer; a call of \<open>consume\<close> for it is under way.\<close>

definition keeps_consumer :: "room \<Rightarrow> nat \<Rightarrow> string \<Rightarrow> bool" where
  "keeps_consumer r v q = (case r_objs r v of None \<Rightarrow> False | Some c \<Rightarrow> is_consumed c q)"

fun consumes_for :: "nat \<Rightarrow> string \<Rightarrow> task \<Rightarrow> bool" where
  "consumes_for v q (TConsume k pref cref pid pos p) = (cref = v \<and> p_id p = q)"
| "consumes_for v q _ = False"

definition consuming :: "room \<Rightarrow> nat \<Rightarrow> string \<Rightarrow> bool" where
  "consuming r v q = list_ex (\<lambda>x. consumes_for v q (snd x)) (r_tasks r)"

definition silent_on :: "nat \<Rightarrow> string \<Rightarrow> room \<Rightarrow> room \<Rightarrow> bool" where
  "silent_on v q r r' \<longleftrightarrow> announcements r' v q = announcements r v q \<and> (consuming r' v q \<longrightarrow> consuming r v q)"

lemma silent_refl [simp]: "silent_on v q r r"
  by (simp add: silent_on_def)

lemma silent_trans: "silent_on v q r r' \<Longrightarrow> silent_on v q r' r'' \<Longrightarrow> silent_on v q r r''"
  by (simp add: silent_on_def)

lemma announcements_log [simp]: "announcements (r_log r x) v q = announcements r v q @ filter (announces q) (to_client v x)"
  by (simp add: announcements_def frames_to_def)

lemma announcements_send [simp]: "\<not> announces q m \<Longrightarrow> announcements (r_send r u m) v q = announcements r v q"
  by (simp add: r_send_open)

lemma announcements_frame [simp]:
  "announcements (r\<lparr>r_closed := b\<rparr>) v q = announcements r v q" "announcements (r\<lparr>r_clients := t\<rparr>) v q = announcements r v q"
  "announcements (r_upd r u f) v q = announcements r v q" "announcements (r_add_task r t') v q = announcements r v q" "announcements (r_del_task r k) v q = announcements r v q"
  "announcements (room_add r cid uid) v q = announcements r v q"
  by (simp_all add: announcements_def frames_to_def)

lemma consuming_frame [simp]:
  "consuming (r\<lparr>r_closed := b\<rparr>) v q = consuming r v q" "consuming (r\<lparr>r_clients := t\<rparr>) v q = consuming r v q"
  "consuming (r_upd r u f) v q = consuming r v q" "consuming (r_log r x) v q = consuming r v q"
  "consuming (r_send r u m) v q = consuming r v q" "consuming (room_add r cid uid) v q = consuming r v q"
  "consuming (r_add_task r t') v q \<longleftrightarrow> consuming r v q \<or> consumes_for v q t'"
  by (simp_all add: consuming_def)

lemma consuming_del: "consuming (r_del_task r k) v q \<Longrightarrow> consuming r v q"
  by (force simp: consuming_def list_ex_iff)

lemma silent_callback: "silent_on v q r (run_callback r cb)"
  by (cases cb) (simp_all add: silent_on_def split: option.split)

lemma silent_callbacks: "silent_on v q r (foldl run_callback r cbs)"
  by (induction cbs arbitrary: r) (auto intro: silent_trans[OF silent_callback])

lemma silent_room_close: "silent_on v q r (room_close r cbs)"
  using silent_callbacks[of v q "r_log (r\<lparr>r_closed := True\<rparr>) OCloseRouter" cbs]
  by (simp add: room_close_def silent_on_def)

lemma silent_close_transport: "silent_on v q r (close_transport r t cbs)"
  using silent_callbacks[of v q "r_log r (OCloseTransport (ti_id (the t)))" cbs]
  by (cases t) (simp_all add: close_transport_def silent_on_def)

lemma silent_on_close: "silent_on v q r (on_close r u c snds rcvs routers)"
proof -
  let ?r2 = "close_transport (close_transport r (c_sndTransport c) snds) (c_rcvTransport c) rcvs"
  let ?r3 = "?r2\<lparr>r_clients := map_delete (r_clients ?r2) (c_clientId c)\<rparr>"
  have "silent_on v q r ?r3"
    using silent_trans[OF silent_close_transport silent_close_transport, of v q r] by (simp add: silent_on_def)
  then show ?thesis
    using silent_trans[OF _ silent_room_close] by (simp add: on_close_def Let_def)
qed

text \<open>The loops do not consume what the client has a consumer of.\<close>

lemma scan_not_consumed: "consume_scan c es = Some (i, p, x) \<Longrightarrow> \<not> is_consumed c (p_id p)"
  by (induction c es rule: consume_scan.induct) (auto split: if_splits option.splits)

lemma consume_run_silent: "keeps_consumer r v q \<Longrightarrow> silent_on v q r (consume_run r k pref cref pid pos)"
  using scan_not_consumed
  by (fastforce simp: consume_run_def silent_on_def keeps_consumer_def split: option.split)

lemma consume_client_silent: "keeps_consumer r v q \<Longrightarrow> silent_on v q r (consume_client r k pid cid)"
  by (simp add: consume_client_def consume_run_silent silent_on_def[of _ _ _ "r_add_task _ _"] split: option.split)

lemma resume_outer_silent: "keeps_consumer r v q \<Longrightarrow> silent_on v q r (join_loop jwt now r u cid i pos)"
  "keeps_consumer r v q \<Longrightarrow> silent_on v q r (produce_loop r u cid pos)"
  "keeps_consumer r v q \<Longrightarrow> silent_on v q r (resume_outer jwt now r k)"
proof -
  show j: "keeps_consumer r v q \<Longrightarrow> silent_on v q r (join_loop jwt now r u cid i pos)" for u cid i pos
    by (simp add: join_loop_def consume_client_silent silent_on_def[of _ _ _ "r_send _ _ _"] split: option.split)
  show p: "keeps_consumer r v q \<Longrightarrow> silent_on v q r (produce_loop r u cid pos)" for u cid pos
    by (simp add: produce_loop_def consume_client_silent split: option.split)
  show "keeps_consumer r v q \<Longrightarrow> silent_on v q r (resume_outer jwt now r k)"
    using j p by (cases k) (simp_all split: option.split)
qed

lemma keeps_consumer_frame [simp]:
  "keeps_consumer (r_log r x) v q = keeps_consumer r v q" "keeps_consumer (r_send r u m) v q = keeps_consumer r v q"
  "keeps_consumer (r_add_task r t) v q = keeps_consumer r v q" "keeps_consumer (r_del_task r k) v q = keeps_consumer r v q"
  "keeps_consumer (r_upd r u (\<lambda>c. c\<lparr>c_producers := f c\<rparr>)) v q = keeps_consumer r v q"
  by (auto simp: keeps_consumer_def is_consumed_def split: option.split)

lemma consume_run_objs [simp]: "r_objs (consume_run r k pref cref pid pos) = r_objs r"
  by (simp add: consume_run_def split: option.split)

lemma consumer_created_silent:
  assumes "keeps_consumer (consumer_created r k pref cref pid pos p co) v q" "\<not> (cref = v \<and> p_id p = q)"
  shows "silent_on v q r (consumer_created r k pref cref pid pos p co)"
proof -
  let ?r1 = "r_upd r cref (\<lambda>c. c\<lparr>c_consumers := map_set (c_consumers c) (co_id co) co\<rparr>)"
  obtain m where m: "consumer_created r k pref cref pid pos p co = consume_run (r_send ?r1 cref m) k pref cref pid pos"
      "m = Ntf (ConsumerCreatedNotification (co_id co) (p_id p) (co_kind co) (co_rtpParameters co)
        \<lparr>rc_userId = (case r_objs ?r1 pref of None \<Rightarrow> None | Some pc \<Rightarrow> c_userId pc), rc_clientId = pid\<rparr>)"
    by (simp add: consumer_created_def Let_def)
  have "keeps_consumer (r_send ?r1 cref m) v q"
    using assms(1) unfolding m(1) keeps_consumer_def consume_run_objs .
  then have "silent_on v q (r_send ?r1 cref m) (consume_run (r_send ?r1 cref m) k pref cref pid pos)"
    by (rule consume_run_silent)
  moreover have "silent_on v q r (r_send ?r1 cref m)"
    using assms(2) by (auto simp: silent_on_def r_send_open m(2) simp del: r_upd_simps)
  ultimately show ?thesis
    unfolding m(1) by (rule silent_trans[rotated])
qed

lemma producer_created_silent:
  assumes "keeps_consumer r v q"
  shows "silent_on v q r (producer_created r u i p)"
proof -
  let ?r2 = "r_send (r_upd r u (\<lambda>c. c\<lparr>c_producers := map_set (c_producers c) (p_id p) p\<rparr>)) u (Rsp (CreateProducerResponse i (p_id p)))"
  have r2: "silent_on v q r ?r2" "keeps_consumer ?r2 v q"
    using assms by (simp_all add: silent_on_def del: r_upd_simps)
  then show ?thesis
    using silent_trans[OF r2(1) resume_outer_silent(2)[OF r2(2)]]
    by (simp add: producer_created_def Let_def del: r_upd_simps split: option.split)
qed

lemma handle_silent: "keeps_consumer r v q \<Longrightarrow> silent_on v q r (room_handle jwt now r u c m)"
  by (cases "(jwt, now, r, u, c, m)" rule: room_handle.cases)
    (auto simp: handler_defs resume_outer_silent silent_on_def[of _ _ r "r_send _ _ _"] silent_on_def[of _ _ r "r_upd _ _ _"]
      silent_on_def[of _ _ r "r_add_task _ _"] simp del: r_upd_simps split: option.split)

lemma received_silent: "keeps_consumer r v q \<Longrightarrow> silent_on v q r (room_receive jwt now r u m)"
proof -
  assume "keeps_consumer r v q"
  then have "silent_on v q (r_log r (ORecv u m)) (room_handle jwt now (r_log r (ORecv u m)) u c m)" for c
    by (intro handle_silent) simp
  then have "silent_on v q r (room_handle jwt now (r_log r (ORecv u m)) u c m)" for c
    by (rule silent_trans[rotated]) (simp add: silent_on_def)
  then show ?thesis
    by (simp add: room_receive_def split: option.split)
qed

lemma resume_silent:
  assumes keeps: "keeps_consumer r v q" "keeps_consumer (room_resume jwt now r k a) v q" and no: "\<not> consuming r v q"
  shows "silent_on v q r (room_resume jwt now r k a)"
proof (cases "map_of (r_tasks r) k")
  case None
  then show ?thesis
    by (simp add: room_resume_def)
next
  case (Some t)
  let ?r = "r_del_task r k"
  have d: "silent_on v q r ?r" "keeps_consumer ?r v q"
    using keeps(1) consuming_del by (auto simp: silent_on_def)
  have t: "\<not> consumes_for v q t"
    using no map_of_SomeD[OF Some] by (auto simp: consuming_def list_ex_iff)
  have "silent_on v q ?r (room_continue jwt now ?r t a)" if "task_answers t a"
  proof (cases t)
    case (TConsume k' pref cref pid pos p)
    show ?thesis
    proof (cases a)
      case (AConsumer co)
      then show ?thesis
        using keeps(2) t Some that by (simp add: TConsume room_resume_def consumer_created_silent)
    qed (simp_all add: TConsume silent_on_def)
  qed (use d(2) in \<open>auto simp: producer_created_silent resume_outer_silent transport_created_def silent_on_def[of _ _ ?r "r_log _ _"]
      silent_on_def[of _ _ ?r "r_send _ _ _"] simp del: r_upd_simps split: answer.split\<close>)
  then show ?thesis
    using Some silent_trans[OF d(1)] by (simp add: room_resume_def)
qed

lemma room_step_silent:
  assumes "keeps_consumer r v q" "keeps_consumer (room_step jwt r e) v q" "\<not> consuming r v q"
  shows "silent_on v q r (room_step jwt r e)"
proof (cases e)
  case (Resume now k a)
  then show ?thesis
    using assms resume_silent by simp
next
  case (SocketClosed u snds rcvs routers)
  have "silent_on v q r (r_upd r u f)" for f
    by (simp add: silent_on_def del: r_upd_simps)
  then show ?thesis
    using SocketClosed silent_trans[OF _ silent_on_close]
    by (auto simp: socket_closed_def Let_def simp del: r_upd_simps split: option.split)
next
  case (CloseFrame u snds rcvs routers)
  have "silent_on v q r (r_upd r u f)" for f
    by (simp add: silent_on_def del: r_upd_simps)
  then show ?thesis
    using CloseFrame silent_trans[OF _ silent_on_close]
    by (auto simp: close_frame_def simp del: r_upd_simps split: option.split)
next
  case (RouterClosed cbs)
  have "silent_on v q r (foldl run_callback (r\<lparr>r_closed := True\<rparr>) cbs)"
    using silent_callbacks[of v q "r\<lparr>r_closed := True\<rparr>" cbs] by (simp add: silent_on_def)
  then show ?thesis
    using RouterClosed silent_trans[OF _ silent_room_close] by (auto simp: router_closed_def)
qed (use assms received_silent silent_callback in \<open>auto simp: silent_on_def[of _ _ r "room_add _ _ _"]\<close>)

text \<open>
  So in a step in which the consumer stays, the same producers were announced as before, and no call for it starts.
\<close>

lemma announced_once:
  assumes "keeps_consumer r v q" "keeps_consumer (room_step jwt r e) v q" "\<not> consuming r v q"
  shows "announcements (room_step jwt r e) v q = announcements r v q" "\<not> consuming (room_step jwt r e) v q"
  using room_step_silent[OF assms] assms(3) by (simp_all add: silent_on_def)

end
