(* ===== verification/EarlyMedia.thy ===== *)
theory EarlyMedia
  imports Conference RoomTold
begin

text \<open>
  What becomes of an announcement that comes too early: the web application
  (\<^verbatim>\<open>webapp/src/contexts/MediasoupService.tsx\<close>) drops what is announced before both of its transports are there, and the room
  does not announce again what it keeps a consumer of.
\<close>

section \<open>What the application consumes\<close>

fun is_consume :: "ms_out \<Rightarrow> bool" where
  "is_consume (Consume j) = True"
| "is_consume _ = False"

definition consumes :: "media_service \<Rightarrow> ms_out list" where
  "consumes s = filter is_consume (ms_out s)"

lemma consumes_log [simp]: "consumes (ms_log s x) = consumes s @ (if is_consume x then [x] else [])"
  by (simp add: consumes_def ms_log_def)

lemma consumes_frame [simp]:
  "consumes (ms_wait s t) = consumes s" "consumes (ms_drop s k) = consumes s" "consumes (s\<lparr>ms_conn := c\<rparr>) = consumes s"
  "consumes (s\<lparr>ms_fresh := n\<rparr>) = consumes s" "consumes (s\<lparr>ms_producers := ps\<rparr>) = consumes s"
  "consumes (s\<lparr>ms_consumers := cs\<rparr>) = consumes s" "consumes (s\<lparr>ms_tasks := ts\<rparr>) = consumes s"
  "consumes (s\<lparr>ms_snd := a, ms_rcv := b\<rparr>) = consumes s"
  by (simp_all add: consumes_def ms_wait_def ms_drop_def)

lemma consumes_send [simp]:
  "consumes (ms_send s now m) = consumes s" "consumes (fst (ms_request uuid s now f)) = consumes s"
  "consumes (request_capabilities uuid now s) = consumes s"
proof -
  show send: "consumes (ms_send s now m) = consumes s" for m
    by (simp add: ms_send_def)
  show request: "consumes (fst (ms_request uuid s now f)) = consumes s" for f
    by (simp add: ms_request_def Let_def)
  show "consumes (request_capabilities uuid now s) = consumes s"
    by (simp add: request_capabilities_def split_beta Let_def request)
qed

lemma consumes_loop: "(\<And>s x. consumes (f s x) = consumes s) \<Longrightarrow> consumes (foldl f s xs) = consumes s"
  by (induction xs arbitrary: s) simp_all

lemma consumes_continue [simp]: "consumes (ms_continue uuid now s t p j) = consumes s"
  by (cases t) (auto simp: transports_ready_def split_beta Let_def)

lemma consumes_settle [simp]: "consumes (ms_settle uuid now s p j) = consumes s"
  by (simp add: ms_settle_def split: option.split)

lemma consumes_answer: "consumes (ms_answer uuid now s k a) = consumes s"
  by (auto simp: ms_answer_def device_loaded_def consumer_ready_def split_beta Let_def
      split: option.split ms_task.split library_answer.split)

lemma consumes_step:
  assumes "\<And>now data. e \<noteq> FrameReceived now data"
  shows "consumes (ms_step uuid parse s e) = consumes s"
proof (cases e)
  case (SocketOpened now)
  have "consumes (foldl (\<lambda>s _. request_capabilities uuid now s) s' xs) = consumes s'" for s' and xs :: "(nat \<times> ms_task) list"
    by (rule consumes_loop) simp
  then show ?thesis
    using SocketOpened by (simp add: ms_opened_def Let_def)
qed (use assms in \<open>auto simp: ms_connect_def Let_def consumes_answer connect_listener_def produce_listener_def split_beta
    produceMedia_def pauseMedia_def resumeMedia_def split: option.split\<close>)

fun is_created :: "message \<Rightarrow> bool" where
  "is_created (Ntf (ConsumerCreatedNotification c p kind rtp rc)) = True"
| "is_created _ = False"

lemma consumes_received:
  assumes inv: "service_inv s" and data: "parse data = Some (message_json m)"
  shows "consumes (ms_frame uuid parse now s data) =
    consumes s @ (if is_created m \<and> ms_rcv s \<noteq> None then [Consume (message_json m)] else [])"
proof (cases m)
  case (Req q)
  with assms show ?thesis
    by (simp add: frame_request)
next
  case (Rsp p)
  then consider "ms_frame uuid parse now s data = s" | k x where
      "ms_frame uuid parse now s data = ms_settle uuid now (s\<lparr>ms_conn := x\<rparr>) k (message_json (Rsp p))"
    using frame_response[OF inv, of parse data p uuid now] data by metis
  then show ?thesis
    using Rsp by cases simp_all
next
  case (Ntf n)
  show ?thesis
  proof (cases n)
    case (ConsumerCreatedNotification c p kind rtp rc)
    then show ?thesis
      using frame_created[OF inv, of parse data c p kind rtp rc uuid now] data Ntf by (simp add: consumes_def)
  next
    case (ConsumerClosedNotification c)
    then show ?thesis
      using frame_notification[OF inv, of parse data n 1 uuid now] data Ntf
      by (simp add: listeners_of_service on_consumer_closed_def split: option.split json.split)
  qed (use frame_other_notification[OF inv, of parse data n uuid now] data Ntf in
      \<open>simp_all add: em_listeners_def service_listeners_def resolved_types_def\<close>)
qed

section \<open>A lost announcement\<close>

definition never_consumes :: "media_service \<Rightarrow> string \<Rightarrow> bool" where
  "never_consumes app q \<longleftrightarrow>
     (\<forall>k kind rtp rc. Consume (message_json (Ntf (ConsumerCreatedNotification k q kind rtp rc))) \<notin> set (ms_out app))"

lemma never_consumes_cong:
  assumes "never_consumes app q" "consumes app' = consumes app @ xs"
    and "\<And>k kind rtp rc. Consume (message_json (Ntf (ConsumerCreatedNotification k q kind rtp rc))) \<notin> set xs"
  shows "never_consumes app' q"
proof -
  have "Consume j \<in> set (ms_out a) \<longleftrightarrow> Consume j \<in> set (consumes a)" for j a
    by (simp add: consumes_def)
  then show ?thesis
    using assms unfolding never_consumes_def by simp
qed

lemma other_announcement:
  assumes "\<not> announces q m"
  shows "message_json (Ntf (ConsumerCreatedNotification k q kind rtp rc)) \<noteq> message_json m \<or> \<not> is_created m"
proof (cases m)
  case (Ntf n)
  then show ?thesis
    using assms by (cases n) (auto simp: message_json_def)
qed simp_all

text \<open>The application of \<open>b\<close> has missed the producer \<open>q\<close>: nothing that is on the way announces it, and nothing will.\<close>

definition missed :: "conference \<Rightarrow> nat \<Rightarrow> nat \<Rightarrow> string \<Rightarrow> bool" where
  "missed s b v q \<longleftrightarrow> (\<exists>app. cn_apps s b = Some app \<and> never_consumes app q) \<and> cn_seen s b \<le> length (frames_to (cn_room s) v) \<and>
     filter (announces q) (drop (cn_seen s b) (frames_to (cn_room s) v)) = [] \<and> \<not> consuming (cn_room s) v q"

definition attended :: "nat \<Rightarrow> nat \<Rightarrow> string \<Rightarrow> conference \<Rightarrow> bool" where
  "attended b v q s \<longleftrightarrow> cn_ref s b = Some v \<and> keeps_consumer (cn_room s) v q"

text \<open>A condition that holds in every state of a continuation.\<close>

fun throughout :: "('s \<Rightarrow> 'e \<Rightarrow> 's) \<Rightarrow> ('s \<Rightarrow> bool) \<Rightarrow> 's \<Rightarrow> 'e list \<Rightarrow> bool" where
  "throughout step P s [] = P s"
| "throughout step P s (e # es) = (P s \<and> throughout step P (step s e) es)"

text \<open>What an event of the whole does to the application of \<open>b\<close>.\<close>

lemma app_step:
  fixes s b uuid parse jwt e
  defines "s' \<equiv> cn_step uuid parse jwt s e"
  assumes inv: "cn_inv uuid s" and app: "cn_apps s b = Some app" "cn_ref s b = Some v"
  obtains app' where "cn_apps s' b = Some app'" "consumes app' = consumes app" "cn_seen s' b = cn_seen s b"
  | app' now data where "cn_seen s b < length (frames_to (cn_room s) v)" "cn_apps s' b = Some app'"
      "parse data = Some (message_json (frames_to (cn_room s) v ! cn_seen s b))"
      "app' = ms_frame (uuid b) parse now app data" "cn_seen s' b = Suc (cn_seen s b)" "cn_room s' = cn_room s"
proof (cases "\<exists>now data. e = ToApp now b data \<and> sc_ws (ms_conn app) \<and> cn_seen s b < length (frames_to (cn_room s) v) \<and>
    parse data = Some (message_json (frames_to (cn_room s) v ! cn_seen s b))")
  case True
  then obtain now data where "e = ToApp now b data" "sc_ws (ms_conn app)" "cn_seen s b < length (frames_to (cn_room s) v)"
      "parse data = Some (message_json (frames_to (cn_room s) v ! cn_seen s b))"
    by blast
  then show ?thesis
    using app by (intro that(2)) (simp_all add: s'_def)
next
  case False
  have "\<exists>app'. cn_apps s' b = Some app' \<and> consumes app' = consumes app \<and> cn_seen s' b = cn_seen s b"
  proof (cases e)
    case (Local a x)
    moreover have "consumes (ms_step (uuid a) parse app x) = consumes app" if "is_local x"
      using that by (intro consumes_step) auto
    ultimately show ?thesis
      using app by (auto simp: s'_def simp del: ms_step.simps split: option.split)
  next
    case (ToRoom now a)
    then show ?thesis
      using app by (auto simp: s'_def Let_def simp del: room_step.simps split: option.split web_message.split)
  next
    case (ToApp now a data)
    then show ?thesis
      using app False by (cases "a = b") (auto simp: s'_def split: option.split)
  qed (use app consumes_step[of "SocketOpened _"] consumes_step[of SocketFailed] in
      \<open>auto simp: s'_def simp del: room_step.simps ms_step.simps split: option.split\<close>)
  then show ?thesis
    using that(1) by blast
qed

lemma room_frames_step:
  assumes inv: "cn_inv uuid s" and keeps: "keeps_consumer (cn_room s) v q" "keeps_consumer (cn_room (cn_step uuid parse jwt s e)) v q"
    and no: "\<not> consuming (cn_room s) v q"
  shows "\<exists>ms. frames_to (cn_room (cn_step uuid parse jwt s e)) v = frames_to (cn_room s) v @ ms \<and> filter (announces q) ms = []"
    and "\<not> consuming (cn_room (cn_step uuid parse jwt s e)) v q"
proof -
  have "(\<exists>ms. frames_to (cn_room (cn_step uuid parse jwt s e)) v = frames_to (cn_room s) v @ ms \<and> filter (announces q) ms = []) \<and>
      \<not> consuming (cn_room (cn_step uuid parse jwt s e)) v q"
  proof (cases "cn_room (cn_step uuid parse jwt s e) = cn_room s")
    case False
    then obtain f where f: "cn_room (cn_step uuid parse jwt s e) = room_step jwt (cn_room s) f"
      using cn_step_room[OF inv, of parse jwt e] by blast
    obtain ms where ms: "frames_to (room_step jwt (cn_room s) f) v = frames_to (cn_room s) v @ ms"
      using frames_to_grow[OF talks_room(2)[OF cn_invD(1)[OF inv]]] by blast
    note once = announced_once[OF keeps(1) keeps(2)[unfolded f] no]
    have "filter (announces q) ms = []"
      using once(1) ms by (simp add: announcements_def)
    then show ?thesis
      using ms once(2) unfolding f by blast
  qed (use no in simp)
  then show "\<exists>ms. frames_to (cn_room (cn_step uuid parse jwt s e)) v = frames_to (cn_room s) v @ ms \<and> filter (announces q) ms = []"
    and "\<not> consuming (cn_room (cn_step uuid parse jwt s e)) v q"
    by blast+
qed

lemma missed_step:
  assumes inv: "cn_inv uuid s" and m: "missed s b v q"
    and a: "attended b v q s" "attended b v q (cn_step uuid parse jwt s e)"
  shows "missed (cn_step uuid parse jwt s e) b v q"
proof -
  let ?s' = "cn_step uuid parse jwt s e"
  obtain app where app: "cn_apps s b = Some app" "never_consumes app q" and n: "cn_seen s b \<le> length (frames_to (cn_room s) v)"
    and rest: "filter (announces q) (drop (cn_seen s b) (frames_to (cn_room s) v)) = []" and no: "\<not> consuming (cn_room s) v q"
    using m by (auto simp: missed_def)
  have ref: "cn_ref s b = Some v"
    using a(1) by (simp add: attended_def)
  obtain ms where ms: "frames_to (cn_room ?s') v = frames_to (cn_room s) v @ ms" "filter (announces q) ms = []"
    and no': "\<not> consuming (cn_room ?s') v q"
    using room_frames_step[OF inv _ _ no, of parse jwt e] a unfolding attended_def by blast
  from app_step[OF inv app(1) ref, of parse jwt e] show ?thesis
  proof cases
    case (1 app')
    then have "never_consumes app' q"
      using never_consumes_cong[OF app(2), of app' "[]"] by simp
    then show ?thesis
      using 1 n rest ms no' by (auto simp: missed_def simp del: cn_step.simps)
  next
    case (2 app' now data)
    let ?m = "frames_to (cn_room s) v ! cn_seen s b"
    have split: "drop (cn_seen s b) (frames_to (cn_room s) v) = ?m # drop (Suc (cn_seen s b)) (frames_to (cn_room s) v)"
      using 2(1) by (rule Cons_nth_drop_Suc[symmetric])
    then have other: "\<not> announces q ?m" "filter (announces q) (drop (Suc (cn_seen s b)) (frames_to (cn_room s) v)) = []"
      using rest by (simp_all split: if_splits)
    have "service_inv app"
      using cn_invD(2)[OF inv app(1)] by (simp add: app_inv_def talk_inv_def)
    from consumes_received[OF this, of parse, OF 2(3)] have "never_consumes app' q"
      unfolding 2(4) by (rule never_consumes_cong[OF app(2)]) (use other_announcement[OF other(1)] in auto)
    then show ?thesis
      using 2 other(2) no' unfolding missed_def by auto
  qed
qed

lemma missed_run:
  assumes "cn_inv uuid s" "missed s b v q" "throughout (cn_step uuid parse jwt) (attended b v q) s fs"
  shows "missed (foldl (cn_step uuid parse jwt) s fs) b v q"
  using assms
proof (induction fs arbitrary: s)
  case (Cons e fs)
  have "attended b v q (cn_step uuid parse jwt s e)"
    using Cons.prems(3) by (cases fs) simp_all
  then show ?case
    using Cons.IH[OF cn_inv_step[OF Cons.prems(1)] missed_step[OF Cons.prems(1,2)]] Cons.prems(3) by simp
qed simp

text \<open>
  C31. Media are lost before the join. In any run of a room with web applications, when the announcement of a producer reaches an
  application that does not have both of its transports yet, the application drops it; and if the room had announced that
  producer to it only this time and has no other \<open>consume\<close> for it under way, then in every continuation in which the
  application stays connected and the room keeps its consumer, whoever joins, produces or leaves, the application never
  consumes that producer, although it is a client of the room and may have joined by then.
\<close>

theorem early_announcement_is_lost:
  assumes ids: "\<And>a. inj (uuid a)"
    and s: "s = conference_run uuid parse jwt (room_new i key caps ip aip) es"
    and app: "cn_apps s b = Some app" "cn_ref s b = Some v" "sc_ws (ms_conn app)" "ms_rcv app = None"
    and frame: "cn_seen s b < length (frames_to (cn_room s) v)"
      "frames_to (cn_room s) v ! cn_seen s b = Ntf (ConsumerCreatedNotification k q kind rtp rc)"
      "parse data = Some (message_json (Ntf (ConsumerCreatedNotification k q kind rtp rc)))"
    and once: "never_consumes app q" "length (announcements (cn_room s) v q) = 1" "\<not> consuming (cn_room s) v q"
    and s': "s' = cn_step uuid parse jwt s (ToApp now b data)"
    and stays: "throughout (cn_step uuid parse jwt) (attended b v q) s' fs"
  shows "(\<exists>app'. cn_apps s' b = Some app' \<and>
      ms_out app' = ms_out app @ [ConsumeDropped (message_json (Ntf (ConsumerCreatedNotification k q kind rtp rc)))]) \<and>
    (\<exists>app'. cn_apps (foldl (cn_step uuid parse jwt) s' fs) b = Some app' \<and> never_consumes app' q)"
proof -
  let ?m = "Ntf (ConsumerCreatedNotification k q kind rtp rc)" and ?f = "frames_to (cn_room s) v"
  have inv: "cn_inv uuid s"
    unfolding s by (rule conference_run_inv[OF ids])
  have "service_inv app"
    using cn_invD(2)[OF inv app(1)] by (simp add: app_inv_def talk_inv_def)
  note out = frame_created[where parse = parse, OF this frame(3)] and c = consumes_received[where parse = parse, OF this frame(3)]
  have new: "cn_apps s' b = Some (ms_frame (uuid b) parse now app data)" "cn_seen s' b = Suc (cn_seen s b)" "cn_room s' = cn_room s"
    using app frame by (simp_all add: s')
  have "?f = take (cn_seen s b) ?f @ ?m # drop (Suc (cn_seen s b)) ?f"
    using id_take_nth_drop[OF frame(1)] frame(2) by simp
  then have "announcements (cn_room s) v q =
      filter (announces q) (take (cn_seen s b) ?f) @ ?m # filter (announces q) (drop (Suc (cn_seen s b)) ?f)"
    unfolding announcements_def by (metis announces.simps(1) filter.simps(2) filter_append)
  then have "filter (announces q) (drop (Suc (cn_seen s b)) ?f) = []"
    using once(2) by simp
  moreover have "never_consumes (ms_frame (uuid b) parse now app data) q"
    using never_consumes_cong[OF once(1), of _ "[]"] c app(4) by simp
  ultimately have "missed s' b v q"
    using new frame(1) once(3) by (simp add: missed_def)
  from missed_run[OF _ this stays] have "missed (foldl (cn_step uuid parse jwt) s' fs) b v q"
    unfolding s' by (simp add: cn_inv_step[OF inv] del: cn_step.simps)
  then show ?thesis
    using new(1) out app(4) unfolding missed_def by auto
qed

text \<open>In the conference of two, where the second application has joined at the end.\<close>

definition demo_early :: conference where
  "demo_early = conference_run demo_ids demo_frame (\<lambda>_ _. ''token'') (room_new ''r1'' ''call'' JNull ''ip'' ''aip'') (take 36 demo_events)"

definition deaf_app :: "media_service \<Rightarrow> bool" where
  "deaf_app app \<longleftrightarrow> sc_ws (ms_conn app) \<and> ms_rcv app = None \<and> list_all (\<lambda>x. \<not> is_consume x) (ms_out app)"

definition early_state :: "conference \<Rightarrow> bool" where
  "early_state s \<longleftrightarrow> (case cn_apps s 1 of None \<Rightarrow> False | Some app \<Rightarrow> deaf_app app) \<and> cn_ref s 1 = Some 1 \<and>
     cn_seen s 1 < length (frames_to (cn_room s) 1) \<and>
     frames_to (cn_room s) 1 ! cn_seen s 1 =
       Ntf (ConsumerCreatedNotification ''k'' ''p'' ''audio'' JNull \<lparr>rc_userId = None, rc_clientId = ''c1''\<rparr>) \<and>
     length (announcements (cn_room s) 1 ''p'') = 1 \<and> \<not> consuming (cn_room s) 1 ''p'' \<and>
     throughout (cn_step demo_ids demo_frame (\<lambda>_ _. ''token'')) (attended 1 1 ''p'')
       (cn_step demo_ids demo_frame (\<lambda>_ _. ''token'') s (ToApp 13 1 ''b-new'')) (drop 37 demo_events)"

lemma demo_early_state: "early_state demo_early"
  by code_simp

lemma demo_early_rest:
  "foldl (cn_step demo_ids demo_frame (\<lambda>_ _. ''token''))
     (cn_step demo_ids demo_frame (\<lambda>_ _. ''token'') demo_early (ToApp 13 1 ''b-new'')) (drop 37 demo_events) = demo_conference"
proof -
  have "demo_events = take 36 demo_events @ ToApp 13 1 ''b-new'' # drop 37 demo_events"
    by (simp add: demo_events_def demo_connecting_def)
  then show ?thesis
    unfolding demo_early_def demo_conference_def conference_run_def by (metis foldl_Cons foldl_append)
qed

lemma early_announcement_is_lost_witness:
  "\<exists>app. cn_apps demo_conference 1 = Some app \<and> never_consumes app ''p'' \<and> Submit (join_message ''biii'') \<in> set (ms_out app)"
proof -
  obtain app where app: "cn_apps demo_early 1 = Some app" "deaf_app app"
    using demo_early_state unfolding early_state_def by (auto split: option.splits)
  have ids: "\<And>a. inj (demo_ids a)"
    by (rule demo_ids_inj)
  have state: "sc_ws (ms_conn app)" "ms_rcv app = None" "never_consumes app ''p''"
    using app(2) by (auto simp: deaf_app_def never_consumes_def list_all_iff)
  have frame: "demo_frame ''b-new'' = Some (message_json
      (Ntf (ConsumerCreatedNotification ''k'' ''p'' ''audio'' JNull \<lparr>rc_userId = None, rc_clientId = ''c1''\<rparr>)))"
    by (simp add: demo_frame_def)
  note e = demo_early_state[unfolded early_state_def]
  have "\<exists>app. cn_apps demo_conference 1 = Some app \<and> never_consumes app ''p''"
    using early_announcement_is_lost[where uuid = demo_ids and parse = demo_frame and b = 1 and v = 1 and data = "''b-new''"
        and now = 13 and fs = "drop 37 demo_events", OF ids demo_early_def app(1) _ state(1,2) _ _ frame state(3) _ _ refl] e
    unfolding demo_early_rest by blast
  then show ?thesis
    using demo_conference_end(7) by auto
qed

end
