(* ===== verification/RoomEdge.thy ===== *)
theory RoomEdge
  imports RoomDelivery
begin

text \<open>
  How a room ends, and the corners of \<^verbatim>\<open>Room.ts\<close> where the handlers do something else than
  their surroundings suggest: the answer to a resume request, a router that dies, a client
  that reconnects under its id, a frame of the type \<open>close\<close>, and requests that overlap.
\<close>

section \<open>The end of a room\<close>

lemma room_close_closed [simp]: "r_closed (room_close r cbs)"
  by (simp add: room_close_def run_callbacks_frame)

lemma room_close_onclosed:
  "OOnClosed \<in> set (r_trace (room_close r cbs)) \<longleftrightarrow> \<not> r_closed r \<or> OOnClosed \<in> set (r_trace r)"
  by (simp add: room_close_def run_callbacks_frame)

lemma on_close_last:
  "r_closed (on_close r ref c snds rcvs routers) \<longleftrightarrow>
     r_closed r \<or> set (map_keys (r_clients r)) \<subseteq> {c_clientId c}"
  "OOnClosed \<in> set (r_trace (on_close r ref c snds rcvs routers)) \<longleftrightarrow>
     OOnClosed \<in> set (r_trace r) \<or> \<not> r_closed r \<and> set (map_keys (r_clients r)) \<subseteq> {c_clientId c}"
proof -
  have empty: "map_size (map_delete m k) = 0 \<longleftrightarrow> set (map_keys m) \<subseteq> {k}"
      "0 < map_size (map_delete m k) \<longleftrightarrow> \<not> set (map_keys m) \<subseteq> {k}" for m :: "(string, nat) jsmap" and k
    by (auto simp: map_size_keys map_keys_delete filter_empty_conv)
  show "r_closed (on_close r ref c snds rcvs routers) \<longleftrightarrow>
     r_closed r \<or> set (map_keys (r_clients r)) \<subseteq> {c_clientId c}"
    by (simp add: on_close_def Let_def close_transport_frame empty)
  show "OOnClosed \<in> set (r_trace (on_close r ref c snds rcvs routers)) \<longleftrightarrow>
     OOnClosed \<in> set (r_trace r) \<or> \<not> r_closed r \<and> set (map_keys (r_clients r)) \<subseteq> {c_clientId c}"
    by (auto simp: on_close_def Let_def close_transport_frame empty room_close_onclosed)
qed

text \<open>
  C21. The room ends with its last client: when the socket of a connected client closes in a
  reachable open room, the room is closed and \<open>onClosed\<close> runs exactly if no other client id is
  registered; the id of the client is no longer registered in either case.
\<close>

theorem last_client_closes_room:
  assumes r: "r = room_run jwt (room_new i key caps ip a) es"
    and c: "r_objs r ref = Some c" "\<not> c_closed c" "c_onclose c" and o: "\<not> r_closed r"
    and r': "r' = room_step jwt r (SocketClosed ref snds rcvs routers)"
  shows "map_get (r_clients r') (c_clientId c) = None \<and>
    (r_closed r' \<longleftrightarrow> set (map_keys (r_clients r)) \<subseteq> {c_clientId c}) \<and>
    (OOnClosed \<in> set (r_trace r') \<longleftrightarrow> r_closed r')"
proof -
  have "OOnClosed \<notin> set (r_trace r)"
    using room_run_new_inv o unfolding r room_inv_def close_wf_def by blast
  moreover have "r' = on_close (r_upd r ref (\<lambda>c. c\<lparr>c_closed := True, c_onclose := False\<rparr>)) ref c snds rcvs routers"
    using c by (simp add: r' socket_closed_def del: r_upd_simps)
  ultimately show ?thesis
    using o by (simp add: on_close_last on_close_clients map_get_delete)
qed

lemma last_client_closes_room_witness:
  "let r = room_run (\<lambda>_ _. '''') (room_new ''r'' ''k'' JNull ''ip'' ''aip'') [Add ''a'' None];
       r' = room_step (\<lambda>_ _. '''') r (SocketClosed 0 [] [] [])
   in map_get (r_clients r') ''a'' = None \<and> r_closed r' \<and> OOnClosed \<in> set (r_trace r')"
proof -
  let ?r = "room_run (\<lambda>_ _. '''') (room_new ''r'' ''k'' JNull ''ip'' ''aip'') [Add ''a'' None]"
  have c: "r_objs ?r 0 = Some (client_new ''a'' None)" "\<not> c_closed (client_new ''a'' None)"
      "c_onclose (client_new ''a'' None)" "\<not> r_closed ?r" "set (map_keys (r_clients ?r)) \<subseteq> {''a''}"
    by code_simp+
  show ?thesis
    using last_client_closes_room[OF refl c(1-4) refl, of "[]" "[]" "[]"] c(5) by (simp add: Let_def)
qed

section \<open>A router that was closed by the library\<close>

lemma closed_quiet_step:
  assumes wf: "room_wf r" and c: "r_closed r"
  shows "r_closed (room_step jwt r e)"
    "OOnClosed \<in> set (r_trace (room_step jwt r e)) \<longleftrightarrow> OOnClosed \<in> set (r_trace r)"
proof -
  have calms: "r_closed r'" "OOnClosed \<in> set (r_trace r') \<longleftrightarrow> OOnClosed \<in> set (r_trace r0)"
    if "calms r0 r'" "r_closed r0" for r0 r'
    using that by (induction rule: rtranclp_induct) (auto simp: calm_frame)
  have recv: "r_closed (room_receive jwt now r ref m) \<and>
      (OOnClosed \<in> set (r_trace (room_receive jwt now r ref m)) \<longleftrightarrow> OOnClosed \<in> set (r_trace r))" for now ref m
  proof (cases "is_open r ref \<and> (\<forall>caps. m \<noteq> Ntf (ClientRtpCapabilitiesNotification caps))")
    case True
    then obtain c0 where c0: "room_receive jwt now r ref m = room_handle jwt now (r_log r (ORecv ref m)) ref c0 m"
      by (auto simp: room_receive_def is_open_def split: option.splits)
    have "calms (r_log r (ORecv ref m)) (room_handle jwt now (r_log r (ORecv ref m)) ref c0 m)"
      using True micro_wf[OF micro_recv wf] by (intro calms_room_handle) auto
    from calms[OF this] c show ?thesis
      unfolding c0 by simp
  next
    case False
    then show ?thesis
      using c by (auto simp: room_receive_def is_open_def on_client_rtp_capabilities_def split: option.splits)
  qed
  have "r_closed (room_step jwt r e) \<and>
      (OOnClosed \<in> set (r_trace (room_step jwt r e)) \<longleftrightarrow> OOnClosed \<in> set (r_trace r))"
  proof (cases e)
    case (Receive now ref m)
    then show ?thesis using recv by simp
  next
    case (Resume now k a)
    then show ?thesis using calms[OF calms_room_resume[OF wf] c] by simp
  next
    case (Callback cb)
    then show ?thesis using calms[OF calms_run_callback c] by simp
  qed (use c in \<open>auto simp: socket_closed_def close_frame_def router_closed_def Let_def on_close_last
        split: option.splits\<close>)
  then show "r_closed (room_step jwt r e)"
    "OOnClosed \<in> set (r_trace (room_step jwt r e)) \<longleftrightarrow> OOnClosed \<in> set (r_trace r)"
    by simp_all
qed

lemma closed_quiet_run:
  "room_inv r \<Longrightarrow> r_closed r \<Longrightarrow>
   r_closed (room_run jwt r es) \<and>
   (OOnClosed \<in> set (r_trace (room_run jwt r es)) \<longleftrightarrow> OOnClosed \<in> set (r_trace r))"
proof (induction es arbitrary: r)
  case Nil
  then show ?case by (simp add: room_run_def)
next
  case (Cons e es)
  have wf: "room_wf r"
    using Cons.prems by (simp add: room_inv_def)
  show ?case
    using Cons.IH[OF room_inv_step[OF Cons.prems(1)]] closed_quiet_step[OF wf Cons.prems(2)]
    by (simp add: room_run_def)
qed

text \<open>
  C35. A router that dies under an open room leaves the room in the SFU's table for ever: its
  observer calls \<open>close\<close>, which returns at once because the router is closed already, and in no
  continuation of the run, closing of the last client included, does \<open>onClosed\<close> run.
\<close>

theorem router_death_skips_on_closed:
  assumes "\<not> r_closed (room_run jwt (room_new i key caps ip a) es)"
  shows "OOnClosed \<notin> set (r_trace (room_run jwt (room_new i key caps ip a) (es @ RouterClosed cbs # fs)))"
proof -
  let ?r = "room_run jwt (room_new i key caps ip a) es"
  let ?r1 = "room_step jwt ?r (RouterClosed cbs)"
  have no: "OOnClosed \<notin> set (r_trace ?r)"
    using room_run_new_inv assms unfolding room_inv_def close_wf_def by blast
  have "r_closed ?r1" "OOnClosed \<notin> set (r_trace ?r1)"
    using assms no by (simp_all add: router_closed_def room_close_def run_callbacks_frame)
  moreover have "room_inv ?r1"
    by (rule room_inv_step[OF room_run_new_inv])
  ultimately have "OOnClosed \<notin> set (r_trace (room_run jwt ?r1 fs))"
    using closed_quiet_run by blast
  then show ?thesis
    by (simp add: room_run_def)
qed

lemma router_death_skips_on_closed_witness:
  "OOnClosed \<notin> set (r_trace (room_run (\<lambda>_ _. '''') (room_new ''r'' ''k'' JNull ''ip'' ''aip'')
     ([Add ''a'' None] @ RouterClosed [] # [SocketClosed 0 [] [] []])))"
  by (rule router_death_skips_on_closed) code_simp

section \<open>A client that reconnects\<close>

text \<open>
  C36. The old socket of a client that reconnected under its id evicts the new connection: when
  the first socket closes, the id is no longer registered although the wrapper of the second
  connection is open, so no loop over the clients reaches it any more; and if no other id is
  registered the room is closed over the connected client.
\<close>

theorem old_socket_evicts_reconnected_client:
  assumes wf: "room_wf r"
    and c: "r_objs r ref = Some c" "\<not> c_closed c" "c_onclose c"
    and r': "r' = foldl (room_step jwt) r [Add (c_clientId c) uid, SocketClosed ref snds rcvs routers]"
  shows "is_open r' (r_nobjs r) \<and> map_get (r_clients r') (c_clientId c) = None \<and>
    (r_closed r' \<longleftrightarrow> r_closed r \<or> set (map_keys (r_clients r)) \<subseteq> {c_clientId c})"
proof -
  let ?r1 = "room_add r (c_clientId c) uid"
  let ?r2 = "r_upd ?r1 ref (\<lambda>c. c\<lparr>c_closed := True, c_onclose := False\<rparr>)"
  have ne: "ref \<noteq> r_nobjs r"
    using room_wfD(3)[OF wf c(1)] by simp
  then have r2: "r' = on_close ?r2 ref c snds rcvs routers"
    using c by (simp add: r' socket_closed_def del: r_upd_simps)
  have "r_objs ?r2 (r_nobjs r) = Some (client_new (c_clientId c) uid)"
    using ne by simp
  then obtain c' where "r_objs r' (r_nobjs r) = Some c'" "c_closed c' = False"
    using keeps_on_close[of ?r2 ref c snds rcvs routers] unfolding r2 keeps_def
    by (fastforce simp: client_new_def)
  then have "is_open r' (r_nobjs r)"
    by (simp add: is_open_def)
  moreover have "set (map_keys (map_set m k v)) \<subseteq> {k} \<longleftrightarrow> set (map_keys m) \<subseteq> {k}"
    for m :: "(string, nat) jsmap" and k v
    by (auto simp: map_keys_set)
  ultimately show ?thesis
    unfolding r2 by (simp add: on_close_last on_close_clients map_get_delete)
qed

definition one_client_room :: room where
  "one_client_room = room_add (room_new ''r'' ''k'' JNull ''ip'' ''aip'') ''a'' None"

lemma old_socket_evicts_reconnected_client_witness:
  "let r' = foldl (room_step (\<lambda>_ _. '''')) one_client_room [Add ''a'' None, SocketClosed 0 [] [] []]
   in is_open r' 1 \<and> map_get (r_clients r') ''a'' = None \<and> r_closed r'"
proof -
  have wf: "room_wf one_client_room"
    unfolding one_client_room_def by (intro room_wf_add room_wf_new)
  have c: "r_objs one_client_room 0 = Some (client_new ''a'' None)"
      "\<not> c_closed (client_new ''a'' None)" "c_onclose (client_new ''a'' None)"
      "r_nobjs one_client_room = 1" "set (map_keys (r_clients one_client_room)) \<subseteq> {''a''}"
    by code_simp+
  show ?thesis
    using old_socket_evicts_reconnected_client[OF wf c(1-3) refl, of "\<lambda>_ _. ''''" None "[]" "[]" "[]"] c(4,5)
    by (simp add: Let_def)
qed

section \<open>A frame of the type \<open>close\<close>\<close>

text \<open>
  A client can run the \<open>close\<close> listener of its own connection with a frame whose \<open>type\<close> is
  \<open>close\<close>: its wrapper stays open, but its id is no longer registered, its transports are
  closed, and the room is closed if it was the last one.
\<close>

theorem close_frame_unregisters_open_client:
  assumes c: "r_objs r ref = Some c" "\<not> c_closed c" "c_onclose c"
    and r': "r' = room_step jwt r (CloseFrame ref snds rcvs routers)"
  shows "is_open r' ref \<and> map_get (r_clients r') (c_clientId c) = None \<and>
    (r_closed r' \<longleftrightarrow> r_closed r \<or> set (map_keys (r_clients r)) \<subseteq> {c_clientId c})"
proof -
  let ?r1 = "r_upd r ref (\<lambda>c. c\<lparr>c_onclose := False\<rparr>)"
  have r1: "r' = on_close ?r1 ref c snds rcvs routers"
    using c by (simp add: r' close_frame_def del: r_upd_simps)
  have "r_objs ?r1 ref = Some (c\<lparr>c_onclose := False\<rparr>)"
    using c by simp
  then obtain c' where "r_objs r' ref = Some c'" "c_closed c' = c_closed (c\<lparr>c_onclose := False\<rparr>)"
    using keeps_on_close[of ?r1 ref c snds rcvs routers] unfolding r1 keeps_def by blast
  then have "is_open r' ref"
    using c by (simp add: is_open_def)
  then show ?thesis
    unfolding r1 by (simp add: on_close_last on_close_clients map_get_delete)
qed

lemma close_frame_unregisters_open_client_witness:
  "let r' = room_step (\<lambda>_ _. '''') one_client_room (CloseFrame 0 [] [] [])
   in is_open r' 0 \<and> map_get (r_clients r') ''a'' = None \<and> r_closed r'"
proof -
  have c: "r_objs one_client_room 0 = Some (client_new ''a'' None)"
      "\<not> c_closed (client_new ''a'' None)" "c_onclose (client_new ''a'' None)"
      "set (map_keys (r_clients one_client_room)) \<subseteq> {''a''}"
    by code_simp+
  show ?thesis
    using close_frame_unregisters_open_client[OF c(1-3) refl, of "\<lambda>_ _. ''''" "[]" "[]" "[]"] c(4)
    by (simp add: Let_def)
qed

section \<open>Requests that overlap\<close>

text \<open>
  The guard of \<open>create-transport-request\<close> is checked before the \<open>await\<close> and the transport is
  stored after it.
\<close>

definition a_transport :: "string \<Rightarrow> transport_info" where
  "a_transport i = \<lparr>ti_id = i, ti_iceParameters = JNull, ti_iceCandidates = JArr [], ti_dtlsParameters = JNull\<rparr>"

definition transport_race :: "event list" where
  "transport_race =
     [Add ''a'' None,
      Receive 0 0 (Req (CreateTransportRequest ''1'' ''producing'')),
      Receive 0 0 (Req (CreateTransportRequest ''2'' ''producing'')),
      Resume 0 0 (ATransport (a_transport ''t1'')), Resume 0 1 (ATransport (a_transport ''t2'')),
      SocketClosed 0 [] [] []]"

text \<open>
  Two overlapping requests for the same transport are both served, the second transport
  replaces the first, and closing the socket closes the second only: the first one is
  never closed by the client's clean-up.
\<close>

theorem overlapping_transports_leak:
  "let t = r_trace (room_run (\<lambda>_ _. '''') (room_new ''r'' ''k'' JNull ''ip'' ''aip'') transport_race)
   in OSend 0 (Rsp (CreateTransportResponse ''1'' (a_transport ''t1''))) \<in> set t \<and>
      OSend 0 (Rsp (CreateTransportResponse ''2'' (a_transport ''t2''))) \<in> set t \<and>
      OCloseTransport ''t2'' \<in> set t \<and> OCloseTransport ''t1'' \<notin> set t"
  by code_simp

text \<open>
  \<open>_consumeClient\<close> looks at the consumers before the \<open>await\<close> and registers the new one after it,
  so a join and a new producer that overlap both create a consumer.
\<close>

definition consumer_race :: "event list" where
  "consumer_race =
     [Add ''a'' None, Add ''b'' None,
      Receive 0 0 (Req (CreateTransportRequest ''1'' ''producing'')), Resume 0 0 (ATransport (a_transport ''t0'')),
      Receive 0 1 (Req (CreateTransportRequest ''2'' ''consuming'')), Resume 0 1 (ATransport (a_transport ''t1'')),
      Receive 0 1 (Ntf (ClientRtpCapabilitiesNotification (JStr ''caps''))),
      Receive 0 0 (Req (CreateProducerRequest ''3'' ''audio'' JNull ''u'')),
      Resume 0 2 (AProducer \<lparr>p_id = ''p''\<rparr>),
      Receive 0 1 (Req (JoinCallRequest ''4'')),
      Resume 0 3 (AConsumer \<lparr>co_id = ''k1'', co_producerId = ''p'', co_kind = ''audio'', co_rtpParameters = JNull\<rparr>),
      Resume 0 4 (AConsumer \<lparr>co_id = ''k2'', co_producerId = ''p'', co_kind = ''audio'', co_rtpParameters = JNull\<rparr>)]"

text \<open>
  The check that a producer is not consumed yet does not exclude duplicates: in this run the
  client is announced two consumers of one producer.
\<close>

lemma overlapping_loops_consume_twice:
  "let t = r_trace (room_run (\<lambda>_ _. '''') (room_new ''r'' ''k'' JNull ''ip'' ''aip'') consumer_race);
       rc = \<lparr>rc_userId = None, rc_clientId = ''a''\<rparr>
   in OSend 1 (Ntf (ConsumerCreatedNotification ''k1'' ''p'' ''audio'' JNull rc)) \<in> set t \<and>
      OSend 1 (Ntf (ConsumerCreatedNotification ''k2'' ''p'' ''audio'' JNull rc)) \<in> set t"
  by code_simp

section \<open>Witnesses\<close>

text \<open>The properties of \<open>RoomSafety\<close> at the runs above.\<close>

lemma no_self_consumption_witness:
  "\<exists>c. r_objs two_client_room 1 = Some c \<and> c_clientId c \<noteq> ''a''"
proof -
  let ?rc = "\<lparr>rc_userId = None, rc_clientId = ''a''\<rparr>"
  have "OSend 1 (Ntf (ConsumerCreatedNotification ''k'' ''p'' ''audio'' JNull ?rc)) \<in> set (r_trace two_client_room)"
    by code_simp
  from no_self_consumption[OF this[unfolded two_client_room_def]] show ?thesis
    by (simp add: two_client_room_def)
qed

lemma closed_client_is_silent_witness:
  "is_closed (room_run (\<lambda>_ _. '''') (room_new ''r'' ''k'' JNull ''ip'' ''aip'')
     ([Add ''a'' None, SocketClosed 0 [] [] []] @ [Add ''a'' None])) 0"
proof -
  have "is_closed (room_run (\<lambda>_ _. '''') (room_new ''r'' ''k'' JNull ''ip'' ''aip'')
      [Add ''a'' None, SocketClosed 0 [] [] []]) 0"
    by code_simp
  from closed_client_is_silent[OF this, of "[Add ''a'' None]"] show ?thesis
    by (rule conjunct1)
qed

end
