(* ===== verification/Rooms.thy ===== *)
theory Rooms
  imports RoomEdge
begin

text \<open>
  The rooms of the SFU, \<^verbatim>\<open>sfu/src/media/Rooms.ts\<close>, and what \<^verbatim>\<open>sfu/src/main.ts\<close> does with a new web
  socket. \<open>getOrCreateRoom\<close> returns a room that exists, the promise of a room that is being
  created, or a new promise; \<open>main\<close> adds the client when the promise resolves. The
  callbacks of a resolved \<open>createRouter\<close> run as microtasks before any other event, so they are
  one step here. Room objects live in a store; a room that runs \<open>onClosed\<close> leaves the table.
\<close>

section \<open>State\<close>

record pending_client =
  w_promise :: nat
  w_clientId :: string
  w_userId :: "string option"

datatype sfu_out =
    CloseSocket nat int string
  | CreateRouter nat

record sfu =
  s_ip :: string
  s_announcedIp :: string
  s_rooms :: "(string, nat) jsmap"
  s_creatingRooms :: "(string, nat) jsmap"
  s_objs :: "nat \<Rightarrow> room option"
  s_nobjs :: nat
  s_promises :: "(nat \<times> string) list"
  s_npromises :: nat
  s_waiting :: "pending_client list"
  s_out :: "sfu_out list"

definition sfu_new :: "string \<Rightarrow> string \<Rightarrow> sfu" where
  "sfu_new ip announcedIp =
     \<lparr>s_ip = ip, s_announcedIp = announcedIp, s_rooms = map_new, s_creatingRooms = map_new,
      s_objs = (\<lambda>_. None), s_nobjs = 0, s_promises = [], s_npromises = 0, s_waiting = [], s_out = []\<rparr>"

section \<open>Operations\<close>

datatype room_ref =
    Existing nat
  | Promised nat

definition getOrCreateRoom :: "sfu \<Rightarrow> string \<Rightarrow> sfu \<times> room_ref" where
  "getOrCreateRoom s roomId =
     (case map_get (s_rooms s) roomId of
        Some n \<Rightarrow> (s, Existing n)
      | None \<Rightarrow>
          (case map_get (s_creatingRooms s) roomId of
             Some p \<Rightarrow> (s, Promised p)
           | None \<Rightarrow>
               let p = s_npromises s in
               (s\<lparr>s_creatingRooms := map_set (s_creatingRooms s) roomId p,
                  s_promises := s_promises s @ [(p, roomId)], s_npromises := Suc p,
                  s_out := s_out s @ [CreateRouter p]\<rparr>, Promised p)))"

definition add_client :: "sfu \<Rightarrow> nat \<Rightarrow> string \<Rightarrow> string option \<Rightarrow> sfu" where
  "add_client s n clientId userId =
     s\<lparr>s_objs := (s_objs s)(n := map_option (\<lambda>r. room_add r clientId userId) (s_objs s n))\<rparr>"

text \<open>The listener of \<open>websocket-connection\<close> in \<open>main\<close>.\<close>

definition websocket_connection ::
  "sfu \<Rightarrow> nat \<Rightarrow> string option \<Rightarrow> string option \<Rightarrow> string option \<Rightarrow> sfu"
where
  "websocket_connection s ws roomId clientId userId =
     (if \<not> str_truthy roomId \<or> \<not> str_truthy clientId
      then s\<lparr>s_out := s_out s @ [CloseSocket ws 4001
              ''No roomId or clientId was provided in websocket query string'']\<rparr>
      else
        (case getOrCreateRoom s (the roomId) of
           (s', Existing n) \<Rightarrow> add_client s' n (the clientId) userId
         | (s', Promised p) \<Rightarrow>
             s'\<lparr>s_waiting := s_waiting s' @
                 [\<lparr>w_promise = p, w_clientId = the clientId, w_userId = userId\<rparr>]\<rparr>))"

text \<open>\<open>createRouter\<close> settles: the room is made and stored, and the waiting clients are added.\<close>

definition settle_promise :: "sfu \<Rightarrow> nat \<Rightarrow> string \<Rightarrow> sfu" where
  "settle_promise s p roomId =
     s\<lparr>s_creatingRooms := map_delete (s_creatingRooms s) roomId,
       s_promises := filter (\<lambda>x. fst x \<noteq> p) (s_promises s),
       s_waiting := filter (\<lambda>w. w_promise w \<noteq> p) (s_waiting s)\<rparr>"

definition router_created :: "sfu \<Rightarrow> nat \<Rightarrow> string \<Rightarrow> json \<Rightarrow> sfu" where
  "router_created s p routerId caps =
     (case map_of (s_promises s) p of
        None \<Rightarrow> s
      | Some roomId \<Rightarrow>
          let n = s_nobjs s;
              room = room_new roomId routerId caps (s_ip s) (s_announcedIp s);
              s1 = (settle_promise s p roomId)
                     \<lparr>s_objs := (s_objs s)(n \<mapsto> room), s_nobjs := Suc n,
                      s_rooms := map_set (s_rooms s) roomId n\<rparr>
          in foldl (\<lambda>s w. add_client s n (w_clientId w) (w_userId w)) s1
               (filter (\<lambda>w. w_promise w = p) (s_waiting s)))"

definition router_failed :: "sfu \<Rightarrow> nat \<Rightarrow> sfu" where
  "router_failed s p =
     (case map_of (s_promises s) p of
        None \<Rightarrow> s
      | Some roomId \<Rightarrow> settle_promise s p roomId)"

text \<open>A room makes a step; \<open>onClosed\<close> deletes its id from the table. Only \<open>main\<close> adds clients.\<close>

definition room_event :: "(json \<Rightarrow> string \<Rightarrow> string) \<Rightarrow> sfu \<Rightarrow> nat \<Rightarrow> event \<Rightarrow> sfu" where
  "room_event jwt s n e =
     (case s_objs s n of
        None \<Rightarrow> s
      | Some r \<Rightarrow>
          (case e of
             Add _ _ \<Rightarrow> s
           | _ \<Rightarrow>
             let r' = room_step jwt r e;
                 s1 = s\<lparr>s_objs := (s_objs s)(n \<mapsto> r')\<rparr>
             in if OOnClosed \<in> set (drop (length (r_trace r)) (r_trace r'))
                then s1\<lparr>s_rooms := map_delete (s_rooms s1) (r_roomId r)\<rparr>
                else s1))"

datatype sfu_event =
    WebSocketConnection nat "string option" "string option" "string option"
  | RouterCreated nat string json
  | RouterFailed nat
  | RoomEvent nat event

fun sfu_step :: "(json \<Rightarrow> string \<Rightarrow> string) \<Rightarrow> sfu \<Rightarrow> sfu_event \<Rightarrow> sfu" where
  "sfu_step jwt s (WebSocketConnection ws roomId clientId userId) = websocket_connection s ws roomId clientId userId"
| "sfu_step jwt s (RouterCreated p routerId caps) = router_created s p routerId caps"
| "sfu_step jwt s (RouterFailed p) = router_failed s p"
| "sfu_step jwt s (RoomEvent n e) = room_event jwt s n e"

section \<open>What a room keeps\<close>

lemma micro_roomId: "micro r r' \<Longrightarrow> r_roomId r' = r_roomId r"
  by (induction rule: micro.induct)
    (auto elim!: calm.cases simp: announce_def r_send_open r_log_def r_upd_def r_add_task_def
      r_del_task_def room_add_def)

lemma micros_roomId: "micros r r' \<Longrightarrow> r_roomId r' = r_roomId r"
  by (induction rule: rtranclp_induct) (auto simp: micro_roomId)

definition room_live :: "room \<Rightarrow> bool" where
  "room_live r \<longleftrightarrow> OOnClosed \<notin> set (r_trace r)"

lemma room_add_live [simp]:
  "room_live (room_add r c u) = room_live r" "r_roomId (room_add r c u) = r_roomId r"
  by (simp_all add: room_live_def) (simp add: room_add_def)

lemma room_add_inv [inv_intros]: "room_inv r \<Longrightarrow> room_inv (room_add r c u)"
  using room_inv_step[of r _ "Add c u"] by simp

section \<open>The invariant\<close>

text \<open>
  The table holds exactly the rooms that did not run \<open>onClosed\<close>, each under its id; an id has
  at most one unresolved creation, and then it has no room.
\<close>

definition sfu_inv :: "sfu \<Rightarrow> bool" where
  "sfu_inv s \<longleftrightarrow> map_wf (s_rooms s) \<and> map_wf (s_creatingRooms s) \<and>
     (\<forall>n r. s_objs s n = Some r \<longrightarrow> n < s_nobjs s \<and> room_inv r) \<and>
     (\<forall>i n. map_get (s_rooms s) i = Some n \<longleftrightarrow>
        (\<exists>r. s_objs s n = Some r \<and> room_live r \<and> r_roomId r = i)) \<and>
     (\<forall>p i. map_get (s_creatingRooms s) i = Some p \<longleftrightarrow> (p, i) \<in> set (s_promises s)) \<and>
     (\<forall>p i. (p, i) \<in> set (s_promises s) \<longrightarrow> p < s_npromises s \<and> map_get (s_rooms s) i = None) \<and>
     distinct (map fst (s_promises s))"

lemma sfu_invD:
  assumes "sfu_inv s"
  shows "map_wf (s_rooms s)" "map_wf (s_creatingRooms s)" "distinct (map fst (s_promises s))"
    and "s_objs s n = Some r \<Longrightarrow> n < s_nobjs s" "s_objs s n = Some r \<Longrightarrow> room_inv r"
    and "map_get (s_rooms s) i = Some n \<longleftrightarrow> (\<exists>r. s_objs s n = Some r \<and> room_live r \<and> r_roomId r = i)"
    and "map_get (s_creatingRooms s) i = Some p \<longleftrightarrow> (p, i) \<in> set (s_promises s)"
    and "(p, i) \<in> set (s_promises s) \<Longrightarrow> p < s_npromises s"
    and "(p, i) \<in> set (s_promises s) \<Longrightarrow> map_get (s_rooms s) i = None"
  using assms unfolding sfu_inv_def by blast+

lemma sfu_invI:
  assumes "map_wf (s_rooms s)" "map_wf (s_creatingRooms s)" "distinct (map fst (s_promises s))"
    and "\<And>n r. s_objs s n = Some r \<Longrightarrow> n < s_nobjs s"
    and "\<And>n r. s_objs s n = Some r \<Longrightarrow> room_inv r"
    and "\<And>i n. map_get (s_rooms s) i = Some n \<longleftrightarrow>
      (\<exists>r. s_objs s n = Some r \<and> room_live r \<and> r_roomId r = i)"
    and "\<And>i p. map_get (s_creatingRooms s) i = Some p \<longleftrightarrow> (p, i) \<in> set (s_promises s)"
    and "\<And>i p. (p, i) \<in> set (s_promises s) \<Longrightarrow> p < s_npromises s"
    and "\<And>i p. (p, i) \<in> set (s_promises s) \<Longrightarrow> map_get (s_rooms s) i = None"
  shows "sfu_inv s"
  using assms unfolding sfu_inv_def by blast

lemma sfu_inv_new: "sfu_inv (sfu_new ip a)"
  by (simp add: sfu_inv_def sfu_new_def)

lemma sfu_inv_cong:
  "sfu_inv s \<Longrightarrow> s_rooms s' = s_rooms s \<Longrightarrow> s_creatingRooms s' = s_creatingRooms s \<Longrightarrow>
   s_objs s' = s_objs s \<Longrightarrow> s_nobjs s' = s_nobjs s \<Longrightarrow> s_promises s' = s_promises s \<Longrightarrow>
   s_npromises s' = s_npromises s \<Longrightarrow> sfu_inv s'"
  by (simp add: sfu_inv_def)

text \<open>A room object is replaced by one with the same id and the same liveness.\<close>

lemma sfu_inv_upd:
  assumes inv: "sfu_inv s" and r: "s_objs s n = Some r"
    and r': "room_inv r'" "room_live r' = room_live r" "r_roomId r' = r_roomId r"
  shows "sfu_inv (s\<lparr>s_objs := (s_objs s)(n \<mapsto> r')\<rparr>)"
proof -
  have "map_get (s_rooms s) i = Some k \<longleftrightarrow>
      (\<exists>x. ((s_objs s)(n \<mapsto> r')) k = Some x \<and> room_live x \<and> r_roomId x = i)" for i k
    using sfu_invD(6)[OF inv, of i k] r r' by auto
  then show ?thesis
    using inv r r' unfolding sfu_inv_def by (simp; blast)
qed

lemma sfu_inv_add [inv_intros]: "sfu_inv s \<Longrightarrow> sfu_inv (add_client s n c u)"
proof (cases "s_objs s n")
  case None
  assume "sfu_inv s"
  then show ?thesis
    by (rule sfu_inv_cong) (use None in \<open>auto simp: add_client_def\<close>)
next
  case (Some r)
  assume inv: "sfu_inv s"
  have "sfu_inv (s\<lparr>s_objs := (s_objs s)(n \<mapsto> room_add r c u)\<rparr>)"
    by (rule sfu_inv_upd[OF inv Some room_add_inv[OF sfu_invD(5)[OF inv Some]]]) simp_all
  then show ?thesis
    using Some by (simp add: add_client_def)
qed

lemma sfu_inv_getOrCreate [inv_intros]: "sfu_inv s \<Longrightarrow> sfu_inv (fst (getOrCreateRoom s i))"
proof (cases "map_get (s_rooms s) i = None \<and> map_get (s_creatingRooms s) i = None")
  case True
  assume inv: "sfu_inv s"
  have "(s_npromises s, j) \<notin> set (s_promises s)" for j
    using sfu_invD(8)[OF inv] by blast
  moreover have "(q, i) \<notin> set (s_promises s)" for q
    using sfu_invD(7)[OF inv] True by (metis option.distinct(1))
  ultimately show ?thesis
    using inv True unfolding sfu_inv_def getOrCreateRoom_def
    by (auto simp: Let_def map_wf_set map_get_set less_Suc_eq split: if_splits; force)
next
  case False
  assume "sfu_inv s"
  then show ?thesis
    using False by (auto simp: getOrCreateRoom_def split: option.splits)
qed

lemma sfu_inv_settle:
  assumes inv: "sfu_inv s" and p: "map_of (s_promises s) p = Some i"
  shows "sfu_inv (settle_promise s p i)"
proof -
  have pi: "(p, i) \<in> set (s_promises s)"
    using p by (rule map_of_SomeD)
  have fst_inj: "j = i" if "(p, j) \<in> set (s_promises s)" for j
    using map_of_is_SomeI[OF sfu_invD(3)[OF inv] that] p by simp
  have snd_inj: "q = p" if "(q, i) \<in> set (s_promises s)" for q
    using that pi sfu_invD(7)[OF inv, of i q] sfu_invD(7)[OF inv, of i p] by simp
  have "map_get (map_delete (s_creatingRooms s) i) j = Some q \<longleftrightarrow>
      (q, j) \<in> set (filter (\<lambda>x. fst x \<noteq> p) (s_promises s))" for q j
  proof (cases "j = i")
    case True
    then show ?thesis using snd_inj[of q] by (auto simp: map_get_delete)
  next
    case False
    then show ?thesis
      using sfu_invD(7)[OF inv, of j q] fst_inj[of j] by (auto simp: map_get_delete)
  qed
  moreover have "distinct (map fst (filter (\<lambda>x. fst x \<noteq> p) (s_promises s)))"
    using sfu_invD(3)[OF inv] by (rule distinct_map_filter)
  moreover have "map_wf (map_delete (s_creatingRooms s) i)"
    by (rule map_wf_delete[OF sfu_invD(2)[OF inv]])
  ultimately show ?thesis
    using sfu_invD(1,4-6)[OF inv] unfolding settle_promise_def
    by (intro sfu_invI) (simp_all, (blast intro: sfu_invD(8,9)[OF inv])+)
qed

lemma sfu_inv_failed [inv_intros]: "sfu_inv s \<Longrightarrow> sfu_inv (router_failed s p)"
  by (auto simp: router_failed_def sfu_inv_settle split: option.splits)

lemma room_new_live [simp]: "room_live (room_new i k caps ip a)" "r_roomId (room_new i k caps ip a) = i"
  by (simp_all add: room_live_def room_new_def)

text \<open>A new room object of an id that has no room and no creation.\<close>

lemma sfu_inv_new_room:
  assumes inv: "sfu_inv s" and none: "map_get (s_rooms s) i = None" "map_get (s_creatingRooms s) i = None"
    and r: "room_inv r" "room_live r" "r_roomId r = i"
  shows "sfu_inv (s\<lparr>s_objs := (s_objs s)(s_nobjs s \<mapsto> r), s_nobjs := Suc (s_nobjs s),
    s_rooms := map_set (s_rooms s) i (s_nobjs s)\<rparr>)"
proof -
  let ?n = "s_nobjs s"
  have fresh: "s_objs s ?n = None"
    using sfu_invD(4)[OF inv, of ?n] by (cases "s_objs s ?n") auto
  have unused: "map_get (s_rooms s) j \<noteq> Some ?n" for j
    using sfu_invD(6)[OF inv, of j ?n] fresh by simp
  have noi: "\<not> (\<exists>x. s_objs s k = Some x \<and> room_live x \<and> r_roomId x = i)" for k
    using sfu_invD(6)[OF inv, of i k] none(1) by simp
  have "map_get (map_set (s_rooms s) i ?n) j = Some k \<longleftrightarrow>
      (\<exists>x. ((s_objs s)(?n \<mapsto> r)) k = Some x \<and> room_live x \<and> r_roomId x = j)" for j k
  proof (cases "k = ?n")
    case True
    then show ?thesis using r unused by (auto simp: map_get_set)
  next
    case False
    then show ?thesis
      using noi[of k] sfu_invD(6)[OF inv, of j k] by (cases "j = i") (simp_all add: map_get_set)
  qed
  moreover have "j \<noteq> i" if "(p, j) \<in> set (s_promises s)" for p j
    using that sfu_invD(7)[OF inv, of j p] none(2) by auto
  ultimately show ?thesis
    using inv r unfolding sfu_inv_def
    by (simp add: map_wf_set map_get_set less_Suc_eq)
qed

lemma settle_promise_simps [simp]:
  "s_rooms (settle_promise s p i) = s_rooms s" "s_objs (settle_promise s p i) = s_objs s"
  "s_nobjs (settle_promise s p i) = s_nobjs s" "s_ip (settle_promise s p i) = s_ip s"
  "s_creatingRooms (settle_promise s p i) = map_delete (s_creatingRooms s) i"
  by (simp_all add: settle_promise_def)

lemma sfu_inv_add_all:
  "sfu_inv s \<Longrightarrow> sfu_inv (foldl (\<lambda>s w. add_client s n (w_clientId w) (w_userId w)) s ws)"
  by (induction ws arbitrary: s) (auto intro: sfu_inv_add)

lemma sfu_inv_created [inv_intros]: "sfu_inv s \<Longrightarrow> sfu_inv (router_created s p k caps)"
proof (cases "map_of (s_promises s) p")
  case None
  then show "sfu_inv s \<Longrightarrow> ?thesis" by (simp add: router_created_def)
next
  case (Some i)
  assume inv: "sfu_inv s"
  have "map_get (s_rooms s) i = None"
    by (rule sfu_invD(9)[OF inv map_of_SomeD[OF Some]])
  then have "sfu_inv ((settle_promise s p i)
      \<lparr>s_objs := (s_objs s)(s_nobjs s \<mapsto> room_new i k caps (s_ip s) (s_announcedIp s)),
       s_nobjs := Suc (s_nobjs s), s_rooms := map_set (s_rooms s) i (s_nobjs s)\<rparr>)"
    using sfu_inv_new_room[OF sfu_inv_settle[OF inv Some], of i "room_new i k caps (s_ip s) (s_announcedIp s)"]
      room_inv_new by (simp add: map_get_delete)
  then show ?thesis
    using Some by (simp add: router_created_def Let_def sfu_inv_add_all)
qed

lemma sfu_inv_close:
  assumes inv: "sfu_inv s" and r: "s_objs s n = Some r" "room_live r"
    and r': "room_inv r'" "\<not> room_live r'"
  shows "sfu_inv (s\<lparr>s_objs := (s_objs s)(n \<mapsto> r'), s_rooms := map_delete (s_rooms s) (r_roomId r)\<rparr>)"
proof -
  have n: "map_get (s_rooms s) (r_roomId r) = Some n"
    using sfu_invD(6)[OF inv, of "r_roomId r" n] r by blast
  have "map_get (map_delete (s_rooms s) (r_roomId r)) i = Some k \<longleftrightarrow>
      (\<exists>x. ((s_objs s)(n \<mapsto> r')) k = Some x \<and> room_live x \<and> r_roomId x = i)" for i k
  proof (cases "k = n")
    case True
    then show ?thesis
      using r' sfu_invD(6)[OF inv, of i n] r by (auto simp: map_get_delete)
  next
    case False
    then show ?thesis
      using n sfu_invD(6)[OF inv, of i k] by (auto simp: map_get_delete)
  qed
  then show ?thesis
    using inv r r' unfolding sfu_inv_def by (simp add: map_wf_delete map_get_delete)
qed

lemma sfu_inv_room_event [inv_intros]: "sfu_inv s \<Longrightarrow> sfu_inv (room_event jwt s n e)"
proof -
  assume inv: "sfu_inv s"
  show ?thesis
  proof (cases "s_objs s n = None \<or> (\<exists>c u. e = Add c u)")
    case True
    then show ?thesis
      using inv by (auto simp: room_event_def split: option.splits)
  next
    case False
    then obtain r where r: "s_objs s n = Some r" and e: "\<nexists>c u. e = Add c u"
      by auto
    let ?r' = "room_step jwt r e"
    have ri: "room_inv r" "room_inv ?r'"
      using sfu_invD(5)[OF inv r] room_inv_step by simp_all
    have m: "micros r ?r'"
      using ri(1) by (intro micros_room_step) (simp_all add: room_inv_def)
    obtain os where os: "r_trace ?r' = r_trace r @ os"
      using micros_trace_grows[OF m] by blast
    have ev: "room_event jwt s n e =
        (if OOnClosed \<in> set os
         then s\<lparr>s_objs := (s_objs s)(n \<mapsto> ?r'), s_rooms := map_delete (s_rooms s) (r_roomId r)\<rparr>
         else s\<lparr>s_objs := (s_objs s)(n \<mapsto> ?r')\<rparr>)"
    proof -
      have "room_event jwt s n e = (let r' = ?r'; s1 = s\<lparr>s_objs := (s_objs s)(n \<mapsto> r')\<rparr> in
          if OOnClosed \<in> set (drop (length (r_trace r)) (r_trace r'))
          then s1\<lparr>s_rooms := map_delete (s_rooms s1) (r_roomId r)\<rparr> else s1)"
        using r e by (cases e) (simp_all add: room_event_def del: room_step.simps)
      then show ?thesis
        by (simp add: Let_def os)
    qed
    show ?thesis
    proof (cases "OOnClosed \<in> set os")
      case True
      have "tally (\<lambda>x. x = OOnClosed) (r_trace ?r') \<le> 1"
        using ri(2) by (simp add: room_inv_def)
      moreover have "0 < tally (\<lambda>x. x = OOnClosed) os"
        using True by (simp add: tally_pos)
      ultimately have "tally (\<lambda>x. x = OOnClosed) (r_trace r) = 0"
        by (simp add: os)
      then have "room_live r"
        unfolding room_live_def using tally_pos[of "\<lambda>x. x = OOnClosed" "r_trace r"] by auto
      moreover have "\<not> room_live ?r'"
        using True by (simp add: room_live_def os)
      ultimately show ?thesis
        unfolding ev using True sfu_inv_close[OF inv r _ ri(2)] by simp
    next
      case False
      then have "room_live ?r' = room_live r"
        by (simp add: room_live_def os)
      then show ?thesis
        unfolding ev using False sfu_inv_upd[OF inv r ri(2)] micros_roomId[OF m] by simp
    qed
  qed
qed

lemma sfu_inv_connection [inv_intros]: "sfu_inv s \<Longrightarrow> sfu_inv (websocket_connection s ws i c u)"
proof -
  assume "sfu_inv s"
  then have g: "sfu_inv (fst (getOrCreateRoom s (the i)))"
    by (rule sfu_inv_getOrCreate)
  obtain s' x where x: "getOrCreateRoom s (the i) = (s', x)"
    by (cases "getOrCreateRoom s (the i)")
  have "sfu_inv (s'\<lparr>s_waiting := v\<rparr>)" for v
    by (rule sfu_inv_cong[of s']) (use g x in simp_all)
  moreover have "sfu_inv (s\<lparr>s_out := v\<rparr>)" for v
    by (rule sfu_inv_cong[OF \<open>sfu_inv s\<close>]) simp_all
  moreover have "sfu_inv (add_client s' n (the c) u)" for n
    using g x by (simp add: sfu_inv_add)
  ultimately show ?thesis
    using x by (cases x) (simp_all add: websocket_connection_def)
qed

lemma sfu_inv_step: "sfu_inv s \<Longrightarrow> sfu_inv (sfu_step jwt s e)"
  by (cases e) (auto intro: inv_intros)

interpretation sfu: free_invariant_system "sfu_step jwt" sfu_inv for jwt
  by unfold_locales (rule sfu_inv_step)

definition sfu_run :: "(json \<Rightarrow> string \<Rightarrow> string) \<Rightarrow> string \<Rightarrow> string \<Rightarrow> sfu_event list \<Rightarrow> sfu" where
  "sfu_run jwt ip announcedIp es = foldl (sfu_step jwt) (sfu_new ip announcedIp) es"

lemma sfu_run_inv: "sfu_inv (sfu_run jwt ip a es)"
  unfolding sfu_run_def by (rule sfu.free_run_inv[OF sfu_inv_new])

section \<open>Properties\<close>

text \<open>
  C15. At every interleaving of connections, resolved and failed creations and room events, two
  room objects that carry the same room id and have not run \<open>onClosed\<close> are the same object,
  and it is the one the table holds: clients that name the same room id meet.
\<close>

theorem one_live_room_per_id:
  assumes s: "s = sfu_run jwt ip a es"
    and n: "s_objs s n = Some r" "room_live r" and m: "s_objs s m = Some r'" "room_live r'"
    and same: "r_roomId r = r_roomId r'"
  shows "n = m \<and> map_get (s_rooms s) (r_roomId r) = Some n"
proof -
  have inv: "sfu_inv s"
    unfolding s by (rule sfu_run_inv)
  have "map_get (s_rooms s) (r_roomId r) = Some n" "map_get (s_rooms s) (r_roomId r') = Some m"
    using sfu_invD(6)[OF inv, of "r_roomId r" n] sfu_invD(6)[OF inv, of "r_roomId r'" m] n m by auto
  then show ?thesis
    using same by simp
qed

lemma filter_unique:
  "distinct xs \<Longrightarrow> x \<in> set xs \<Longrightarrow> (\<And>y. y \<in> set xs \<Longrightarrow> P y \<longleftrightarrow> y = x) \<Longrightarrow> filter P xs = [x]"
proof (induction xs)
  case (Cons a xs)
  show ?case
  proof (cases "a = x")
    case True
    then have "filter P xs = []"
      using Cons.prems by (auto simp: filter_empty_conv)
    then show ?thesis
      using Cons.prems True by simp
  next
    case False
    then show ?thesis
      using Cons by simp
  qed
qed simp

definition one_room_sfu :: sfu where
  "one_room_sfu = sfu_run (\<lambda>_ _. '''') ''ip'' ''aip''
     [WebSocketConnection 0 (Some ''r'') (Some ''a'') None, RouterCreated 0 ''k'' JNull]"

lemma one_room_sfu_room:
  "s_objs one_room_sfu 0 = Some (the (s_objs one_room_sfu 0))"
  "r_roomId (the (s_objs one_room_sfu 0)) = ''r''"
proof -
  have "\<not> Option.is_none (s_objs one_room_sfu 0)"
    by code_simp
  then show "s_objs one_room_sfu 0 = Some (the (s_objs one_room_sfu 0))"
    by (simp add: Option.is_none_def)
  show "r_roomId (the (s_objs one_room_sfu 0)) = ''r''"
    by code_simp
qed

lemma one_live_room_per_id_witness: "map_get (s_rooms one_room_sfu) ''r'' = Some 0"
proof -
  note r = one_room_sfu_room
  have l: "room_live (the (s_objs one_room_sfu 0))"
    by code_simp
  show ?thesis
    using one_live_room_per_id[OF one_room_sfu_def r(1) l r(1) l] r(2) by simp
qed

text \<open>
  A room id has at most one router creation under way, and none while it has a room in the
  table: connections that arrive while a room is being created share the creation.
\<close>

theorem one_creation_per_id:
  assumes "s = sfu_run jwt ip a es" and "(p, i) \<in> set (s_promises s)"
  shows "map_get (s_rooms s) i = None \<and> map_get (s_creatingRooms s) i = Some p \<and>
    filter (\<lambda>x. snd x = i) (s_promises s) = [(p, i)]"
proof -
  have inv: "sfu_inv s"
    unfolding assms(1) by (rule sfu_run_inv)
  have c: "map_get (s_creatingRooms s) i = Some p"
    using sfu_invD(7)[OF inv] assms(2) by blast
  have "snd x = i \<longleftrightarrow> x = (p, i)" if "x \<in> set (s_promises s)" for x
  proof
    assume "snd x = i"
    then have "(fst x, i) \<in> set (s_promises s)"
      using that by auto
    then have "fst x = p"
      using sfu_invD(7)[OF inv, of i "fst x"] c by simp
    with \<open>snd x = i\<close> show "x = (p, i)"
      by auto
  qed simp
  then have "filter (\<lambda>x. snd x = i) (s_promises s) = [(p, i)]"
    by (rule filter_unique[OF distinct_map[THEN iffD1, THEN conjunct1, OF sfu_invD(3)[OF inv]] assms(2)])
  with c sfu_invD(9)[OF inv assms(2)] show ?thesis
    by simp
qed

definition creating_sfu :: sfu where
  "creating_sfu = sfu_run (\<lambda>_ _. '''') ''ip'' ''aip''
     [WebSocketConnection 0 (Some ''r'') (Some ''a'') None,
      WebSocketConnection 1 (Some ''r'') (Some ''b'') None]"

lemma one_creation_per_id_witness:
  "map_get (s_creatingRooms creating_sfu) ''r'' = Some 0 \<and>
   filter (\<lambda>x. snd x = ''r'') (s_promises creating_sfu) = [(0, ''r'')]"
proof -
  have "(0, ''r'') \<in> set (s_promises creating_sfu)"
    by code_simp
  from one_creation_per_id[OF creating_sfu_def this] show ?thesis
    by simp
qed

text \<open>What adding clients leaves in a room.\<close>

lemma add_all_room:
  "s_objs s n = Some r \<Longrightarrow>
   s_objs (foldl (\<lambda>s w. add_client s n (w_clientId w) (w_userId w)) s ws) n =
     Some (foldl (\<lambda>r w. room_add r (w_clientId w) (w_userId w)) r ws)"
  by (induction ws arbitrary: s r) (simp_all add: add_client_def)

lemma add_all_frame:
  "s_rooms (foldl (\<lambda>s w. add_client s n (w_clientId w) (w_userId w)) s ws) = s_rooms s"
  "s_waiting (foldl (\<lambda>s w. add_client s n (w_clientId w) (w_userId w)) s ws) = s_waiting s"
  "s_creatingRooms (foldl (\<lambda>s w. add_client s n (w_clientId w) (w_userId w)) s ws) = s_creatingRooms s"
  by (induction ws arbitrary: s) (simp_all add: add_client_def)

lemma room_adds:
  "set (map_keys (r_clients (foldl (\<lambda>r w. room_add r (w_clientId w) (w_userId w)) r ws))) =
     set (map_keys (r_clients r)) \<union> w_clientId ` set ws"
  by (induction ws arbitrary: r) (simp_all add: map_keys_set_set)

lemma room_adds_objs:
  "r_nobjs (foldl (\<lambda>r w. room_add r (w_clientId w) (w_userId w)) r ws) = r_nobjs r + length ws"
  by (induction ws arbitrary: r) simp_all

text \<open>
  When a router is created, the table holds a room for the id of its request; all the
  clients that waited for it, and no others, are registered in it, each with its own wrapper;
  none of them waits any longer and the creation is over.
\<close>

theorem waiting_clients_are_admitted:
  assumes p: "map_of (s_promises s) p = Some i" and s': "s' = router_created s p k caps"
  shows "\<exists>n r. map_get (s_rooms s') i = Some n \<and> s_objs s' n = Some r \<and>
    r_roomId r = i \<and> r_callId r = k \<and>
    set (map_keys (r_clients r)) = {w_clientId w |w. w \<in> set (s_waiting s) \<and> w_promise w = p} \<and>
    r_nobjs r = length (filter (\<lambda>w. w_promise w = p) (s_waiting s)) \<and>
    (\<forall>w \<in> set (s_waiting s'). w_promise w \<noteq> p) \<and> map_get (s_creatingRooms s') i = None"
proof -
  let ?n = "s_nobjs s"
  let ?ws = "filter (\<lambda>w. w_promise w = p) (s_waiting s)"
  let ?r0 = "room_new i k caps (s_ip s) (s_announcedIp s)"
  let ?r = "foldl (\<lambda>r w. room_add r (w_clientId w) (w_userId w)) ?r0 ?ws"
  have keep: "r_roomId (foldl (\<lambda>r w. room_add r (w_clientId w) (w_userId w)) r ws) = r_roomId r"
    "r_callId (foldl (\<lambda>r w. room_add r (w_clientId w) (w_userId w)) r ws) = r_callId r" for r ws
    by (induction ws arbitrary: r) (simp_all add: room_add_def)
  have "map_get (s_rooms s') i = Some ?n" "s_objs s' ?n = Some ?r"
    unfolding s' using p by (simp_all add: router_created_def Let_def add_all_frame add_all_room map_get_set)
  moreover have "r_roomId ?r = i" "r_callId ?r = k"
    by (simp_all add: keep room_new_def)
  moreover have "set (map_keys (r_clients ?r)) = {w_clientId w |w. w \<in> set (s_waiting s) \<and> w_promise w = p}"
    "r_nobjs ?r = length ?ws"
    by (auto simp: room_adds room_adds_objs) (auto simp: room_new_def map_keys_def map_new_def)
  moreover have "\<forall>w \<in> set (s_waiting s'). w_promise w \<noteq> p" "map_get (s_creatingRooms s') i = None"
    unfolding s' using p
    by (simp_all add: router_created_def Let_def add_all_frame map_get_delete) (simp add: settle_promise_def)
  ultimately show ?thesis
    by blast
qed

lemma waiting_clients_are_admitted_witness:
  "\<exists>n r. map_get (s_rooms (router_created creating_sfu 0 ''k'' JNull)) ''r'' = Some n \<and>
     s_objs (router_created creating_sfu 0 ''k'' JNull) n = Some r \<and>
     set (map_keys (r_clients r)) = {w_clientId w |w. w \<in> set (s_waiting creating_sfu) \<and> w_promise w = 0}"
proof -
  have "map_of (s_promises creating_sfu) 0 = Some ''r''"
    by code_simp
  from waiting_clients_are_admitted[OF this refl, of "''k''" JNull] show ?thesis
    by blast
qed

text \<open>
  A room whose router died keeps admitting clients: its id stays in the table, the next
  connection with that id is added to the closed room, and no new router is requested.
\<close>

theorem dead_room_keeps_admitting:
  assumes n: "map_get (s_rooms s) i = Some n" "s_objs s n = Some r"
    and lv: "room_live r" "\<not> r_closed r" and ids: "i \<noteq> []" "c \<noteq> []"
    and s': "s' = foldl (sfu_step jwt) s [RoomEvent n (RouterClosed cbs), WebSocketConnection ws (Some i) (Some c) u]"
  shows "map_get (s_rooms s') i = Some n \<and> s_out s' = s_out s \<and>
    (\<exists>r'. s_objs s' n = Some r' \<and> r_closed r' \<and> map_get (r_clients r') c \<noteq> None)"
proof -
  let ?r1 = "router_closed r cbs"
  have m: "micros r ?r1"
    by (rule micros_router_closed)
  have "room_live ?r1" "r_closed ?r1"
    using lv by (simp_all add: room_live_def router_closed_def room_close_def run_callbacks_frame)
  moreover obtain os where "r_trace ?r1 = r_trace r @ os"
    using micros_trace_grows[OF m] by blast
  ultimately have "room_event jwt s n (RouterClosed cbs) = s\<lparr>s_objs := (s_objs s)(n \<mapsto> ?r1)\<rparr>"
    using n(2) by (simp add: room_event_def room_live_def)
  then show ?thesis
    using n ids \<open>r_closed ?r1\<close> unfolding s'
    by (simp add: websocket_connection_def getOrCreateRoom_def add_client_def map_get_set)
qed

lemma dead_room_keeps_admitting_witness:
  "map_get (s_rooms (foldl (sfu_step (\<lambda>_ _. '''')) one_room_sfu
     [RoomEvent 0 (RouterClosed []), WebSocketConnection 1 (Some ''r'') (Some ''b'') None])) ''r'' = Some 0"
proof -
  have s: "map_get (s_rooms one_room_sfu) ''r'' = Some 0"
      "room_live (the (s_objs one_room_sfu 0))" "\<not> r_closed (the (s_objs one_room_sfu 0))"
    by code_simp+
  show ?thesis
    using dead_room_keeps_admitting[OF s(1) one_room_sfu_room(1) s(2,3) _ _ refl, of "''b''" "\<lambda>_ _. ''''" "[]" 1 None] by simp
qed

end
