(* ===== verification/ObserverClients.thy ===== *)
theory ObserverClients
  imports Prelude
begin

text \<open>
  The two clients of the observer service: the web application's
  (\<^verbatim>\<open>webapp/src/utils/ObserverServiceClient.ts\<close>) and the SFU's
  (\<^verbatim>\<open>sfu/src/common/ObserverServiceClient.ts\<close>), which was made from the same text. Sockets are
  numbered in the order in which they are created; their events and the retry timer are events
  of the model, and the encoder is left out: a sample is its encoded text.
\<close>

section \<open>State\<close>

text \<open>The field \<open>_connecting\<close>: not set, a promise that is pending, one that was resolved.\<close>

datatype oc_promise = NotSet | Pending | Resolved

text \<open>What waits for the pending promise.\<close>

datatype oc_waiter = WaitDisconnect | WaitClose

datatype oc_out =
    OpenSocket nat string
  | SendSample nat string
  | CloseSocket nat
  | Throws
  | ErrorThrown nat

record observer_client =
  oc_reconnect :: bool
  oc_ws :: "nat option"
  oc_connecting :: oc_promise
  oc_closed :: bool
  oc_buffer :: "string list"
  oc_canConnect :: bool
  oc_pending :: "(nat \<times> nat \<times> string) option"
  oc_retry :: "(nat \<times> string) option"
  oc_listening :: "(nat \<times> string) list"
  oc_waiters :: "oc_waiter list"
  oc_nsockets :: nat
  oc_out :: "oc_out list"

definition oc_new :: "bool \<Rightarrow> observer_client" where
  "oc_new reconnect =
     \<lparr>oc_reconnect = reconnect, oc_ws = None, oc_connecting = NotSet, oc_closed = False, oc_buffer = [],
      oc_canConnect = True, oc_pending = None, oc_retry = None, oc_listening = [], oc_waiters = [],
      oc_nsockets = 0, oc_out = []\<rparr>"

definition oc_log :: "observer_client \<Rightarrow> oc_out \<Rightarrow> observer_client" where
  "oc_log s x = s\<lparr>oc_out := oc_out s @ [x]\<rparr>"

section \<open>What the two have in common\<close>

text \<open>A new socket that is being opened, in the attempt \<open>tried\<close>.\<close>

definition oc_open :: "observer_client \<Rightarrow> nat \<Rightarrow> string \<Rightarrow> observer_client" where
  "oc_open s tried query =
     oc_log (s\<lparr>oc_pending := Some (oc_nsockets s, tried, query), oc_nsockets := Suc (oc_nsockets s)\<rparr>)
       (OpenSocket (oc_nsockets s) query)"

definition oc_connect :: "observer_client \<Rightarrow> string \<Rightarrow> observer_client" where
  "oc_connect s query =
     (if oc_closed s then oc_log s Throws
      else if oc_connecting s \<noteq> NotSet then s
      else oc_open (s\<lparr>oc_canConnect := True, oc_connecting := Pending\<rparr>) 0 query)"

definition oc_close_ws :: "observer_client \<Rightarrow> observer_client" where
  "oc_close_ws s = (case oc_ws s of None \<Rightarrow> s | Some n \<Rightarrow> oc_log s (CloseSocket n))"

fun oc_run_waiter :: "observer_client \<Rightarrow> oc_waiter \<Rightarrow> observer_client" where
  "oc_run_waiter s WaitDisconnect = oc_close_ws (s\<lparr>oc_canConnect := False\<rparr>)"
| "oc_run_waiter s WaitClose = oc_close_ws s"

definition oc_disconnect :: "observer_client \<Rightarrow> observer_client" where
  "oc_disconnect s =
     (if oc_closed s then oc_log s Throws
      else if oc_connecting s = Pending then s\<lparr>oc_waiters := oc_waiters s @ [WaitDisconnect]\<rparr>
      else oc_run_waiter s WaitDisconnect)"

definition oc_close :: "observer_client \<Rightarrow> observer_client" where
  "oc_close s =
     (if oc_closed s then s
      else if oc_connecting s = Pending then s\<lparr>oc_closed := True, oc_waiters := oc_waiters s @ [WaitClose]\<rparr>
      else oc_run_waiter (s\<lparr>oc_closed := True\<rparr>) WaitClose)"

definition oc_send :: "observer_client \<Rightarrow> string \<Rightarrow> observer_client" where
  "oc_send s x =
     (if oc_closed s then oc_log s Throws
      else
        (case oc_ws s of
           None \<Rightarrow> s\<lparr>oc_buffer := oc_buffer s @ [x]\<rparr>
         | Some n \<Rightarrow>
             oc_log (foldl (\<lambda>s y. oc_log s (SendSample n y)) (s\<lparr>oc_buffer := []\<rparr>) (oc_buffer s)) (SendSample n x)))"

section \<open>The web application's client\<close>

text \<open>The open event of the pending socket: its close listener is registered.\<close>

definition web_socket_opened :: "observer_client \<Rightarrow> nat \<Rightarrow> observer_client" where
  "web_socket_opened s n =
     (case oc_pending s of
        Some (m, tried, query) \<Rightarrow>
          if m = n
          then foldl oc_run_waiter
                 (s\<lparr>oc_pending := None, oc_listening := oc_listening s @ [(n, query)], oc_ws := Some n,
                    oc_connecting := NotSet, oc_waiters := []\<rparr>) (oc_waiters s)
          else s
      | None \<Rightarrow> s)"

text \<open>An error or the end of the pending socket: the promise is rejected after the last attempt.\<close>

definition web_max_attempt :: nat where
  "web_max_attempt = 10"

definition web_socket_failed :: "observer_client \<Rightarrow> nat \<Rightarrow> observer_client" where
  "web_socket_failed s n =
     (case oc_pending s of
        Some (m, tried, query) \<Rightarrow>
          if m \<noteq> n then s
          else if web_max_attempt < tried
          then s\<lparr>oc_pending := None, oc_connecting := NotSet, oc_waiters := []\<rparr>
          else s\<lparr>oc_pending := None, oc_retry := Some (tried + 1, query)\<rparr>
      | None \<Rightarrow> s)"

definition web_retry_timer :: "observer_client \<Rightarrow> observer_client" where
  "web_retry_timer s =
     (case oc_retry s of None \<Rightarrow> s | Some (tried, query) \<Rightarrow> oc_open (s\<lparr>oc_retry := None\<rparr>) tried query)"

definition web_close_listener :: "observer_client \<Rightarrow> nat \<Rightarrow> nat \<Rightarrow> observer_client" where
  "web_close_listener s n code =
     (case map_of (oc_listening s) n of
        None \<Rightarrow> s
      | Some query \<Rightarrow>
          (let s1 = s\<lparr>oc_listening := filter (\<lambda>x. fst x \<noteq> n) (oc_listening s), oc_ws := None\<rparr> in
           if \<not> oc_canConnect s1 \<or> oc_closed s1 then s1
           else if \<not> oc_reconnect s1 \<or> 4000 \<le> code then oc_close s1
           else oc_connect s1 query))"

text \<open>A close event reaches the listeners of the attempt or the close listener.\<close>

definition web_socket_closed :: "observer_client \<Rightarrow> nat \<Rightarrow> nat \<Rightarrow> observer_client" where
  "web_socket_closed s n code =
     (case oc_pending s of
        Some (m, x) \<Rightarrow> if m = n then web_socket_failed s n else web_close_listener s n code
      | None \<Rightarrow> web_close_listener s n code)"

datatype oc_event =
    OcConnect string
  | OcOpened nat
  | OcError nat
  | OcClosed nat nat
  | OcTimer
  | OcDisconnect
  | OcClose
  | OcSend string

fun web_observer_step :: "observer_client \<Rightarrow> oc_event \<Rightarrow> observer_client" where
  "web_observer_step s (OcConnect query) = oc_connect s query"
| "web_observer_step s (OcOpened n) = web_socket_opened s n"
| "web_observer_step s (OcError n) = web_socket_failed s n"
| "web_observer_step s (OcClosed n code) = web_socket_closed s n code"
| "web_observer_step s OcTimer = web_retry_timer s"
| "web_observer_step s OcDisconnect = oc_disconnect s"
| "web_observer_step s OcClose = oc_close s"
| "web_observer_step s (OcSend x) = oc_send s x"

section \<open>The SFU's client\<close>

text \<open>
  Where the web application registers the listeners for errors and closings, the SFU's copy
  calls \<open>off\<close>, so only the open event has a listener; \<open>_connecting\<close> keeps the resolved promise. An \<open>error\<close> event that
  has no listener is thrown by the emitter out of the event loop (\<open>ErrorThrown\<close>): what that does to the process is
  in \<open>SfuProcess\<close>.
\<close>

definition sfu_socket_error :: "observer_client \<Rightarrow> nat \<Rightarrow> observer_client" where
  "sfu_socket_error s n = (if n < oc_nsockets s then oc_log s (ErrorThrown n) else s)"

definition sfu_socket_opened :: "observer_client \<Rightarrow> nat \<Rightarrow> observer_client" where
  "sfu_socket_opened s n =
     (case oc_pending s of
        Some (m, tried, query) \<Rightarrow>
          if m = n
          then foldl oc_run_waiter
                 (s\<lparr>oc_pending := None, oc_ws := Some n, oc_connecting := Resolved, oc_waiters := []\<rparr>) (oc_waiters s)
          else s
      | None \<Rightarrow> s)"

fun sfu_observer_step :: "observer_client \<Rightarrow> oc_event \<Rightarrow> observer_client" where
  "sfu_observer_step s (OcConnect query) = oc_connect s query"
| "sfu_observer_step s (OcOpened n) = sfu_socket_opened s n"
| "sfu_observer_step s (OcError n) = sfu_socket_error s n"
| "sfu_observer_step s (OcClosed n code) = s"
| "sfu_observer_step s OcTimer = s"
| "sfu_observer_step s OcDisconnect = oc_disconnect s"
| "sfu_observer_step s OcClose = oc_close s"
| "sfu_observer_step s (OcSend x) = oc_send s x"

section \<open>Samples are sent in order\<close>

fun sample_of :: "oc_out \<Rightarrow> string list" where
  "sample_of (SendSample _ x) = [x]"
| "sample_of _ = []"

definition samples :: "observer_client \<Rightarrow> string list" where
  "samples s = concat (map sample_of (oc_out s)) @ oc_buffer s"

text \<open>The samples that a run hands over: those of \<open>send\<close> on a client that is not closed.\<close>

fun handed_over :: "(observer_client \<Rightarrow> oc_event \<Rightarrow> observer_client) \<Rightarrow> observer_client \<Rightarrow> oc_event list \<Rightarrow> string list" where
  "handed_over step s [] = []"
| "handed_over step s (e # es) =
     (case e of OcSend x \<Rightarrow> if oc_closed s then [] else [x] | _ \<Rightarrow> []) @ handed_over step (step s e) es"

text \<open>The contract of both clients: a step changes the samples only by handing one over.\<close>

locale sample_queue =
  fixes step :: "observer_client \<Rightarrow> oc_event \<Rightarrow> observer_client"
  assumes step_samples:
    "samples (step s e) = samples s @ (case e of OcSend x \<Rightarrow> if oc_closed s then [] else [x] | _ \<Rightarrow> [])"
begin

lemma run_samples: "samples (foldl step s es) = samples s @ handed_over step s es"
  by (induction es arbitrary: s) (simp_all add: step_samples)

end

lemma samples_log [simp]: "sample_of x = [] \<Longrightarrow> samples (oc_log s x) = samples s"
  by (simp add: samples_def oc_log_def)

lemma samples_frame [simp]:
  "samples (s\<lparr>oc_ws := a\<rparr>) = samples s" "samples (s\<lparr>oc_canConnect := b\<rparr>) = samples s"
  "samples (s\<lparr>oc_closed := b\<rparr>) = samples s" "samples (s\<lparr>oc_waiters := w\<rparr>) = samples s"
  "samples (s\<lparr>oc_retry := r\<rparr>) = samples s" "samples (s\<lparr>oc_connecting := c\<rparr>) = samples s"
  "samples (s\<lparr>oc_pending := p\<rparr>) = samples s" "samples (s\<lparr>oc_nsockets := n\<rparr>) = samples s"
  "samples (s\<lparr>oc_listening := l\<rparr>) = samples s"
  by (simp_all add: samples_def)

lemma samples_common [simp]:
  "samples (oc_open s tried query) = samples s" "samples (oc_connect s query) = samples s"
  "samples (oc_close_ws s) = samples s" "samples (oc_run_waiter s w) = samples s"
  "samples (oc_disconnect s) = samples s" "samples (oc_close s) = samples s"
proof -
  show 1: "samples (oc_open s tried query) = samples s" for s tried query
    by (simp add: oc_open_def)
  show "samples (oc_connect s query) = samples s"
    by (simp add: oc_connect_def 1)
  show 2: "samples (oc_close_ws s) = samples s" for s
    by (simp add: oc_close_ws_def split: option.split)
  show 3: "samples (oc_run_waiter s w) = samples s" for s w
    by (cases w) (simp_all add: 2)
  show "samples (oc_disconnect s) = samples s" "samples (oc_close s) = samples s"
    by (simp_all add: oc_disconnect_def oc_close_def 2)
qed

lemma samples_waiters [simp]: "samples (foldl oc_run_waiter s ws) = samples s"
  by (induction ws arbitrary: s) simp_all

lemma flush_samples: "foldl (\<lambda>s y. oc_log s (SendSample n y)) s ys = s\<lparr>oc_out := oc_out s @ map (SendSample n) ys\<rparr>"
  by (induction ys arbitrary: s) (simp_all add: oc_log_def)

lemma concat_samples [simp]: "concat (map (sample_of \<circ> SendSample n) ys) = ys"
  by (induction ys) simp_all

lemma samples_send: "samples (oc_send s x) = samples s @ (if oc_closed s then [] else [x])"
  by (simp add: oc_send_def flush_samples split: option.split) (simp add: samples_def oc_log_def)

lemmas web_observer_defs = web_socket_opened_def web_socket_failed_def web_retry_timer_def
  web_close_listener_def web_socket_closed_def

interpretation web_samples: sample_queue web_observer_step
proof
  show "samples (web_observer_step s e) = samples s @ (case e of OcSend x \<Rightarrow> if oc_closed s then [] else [x] | _ \<Rightarrow> [])" for s e
    by (cases e) (simp_all add: samples_send web_observer_defs Let_def split: option.split)
qed

interpretation sfu_samples: sample_queue sfu_observer_step
proof
  show "samples (sfu_observer_step s e) = samples s @ (case e of OcSend x \<Rightarrow> if oc_closed s then [] else [x] | _ \<Rightarrow> [])" for s e
    by (cases e) (simp_all add: samples_send sfu_socket_opened_def sfu_socket_error_def split: option.split)
qed

text \<open>
  No sample is lost, repeated or overtaken by the web application's client: in every run of
  connects, failures, closings and sends, what went to the sockets followed by what is in the buffer is the
  sequence of samples that were handed over.
\<close>

theorem observer_samples_in_order:
  "concat (map sample_of (oc_out (foldl web_observer_step (oc_new reconnect) es))) @
     oc_buffer (foldl web_observer_step (oc_new reconnect) es) =
   handed_over web_observer_step (oc_new reconnect) es"
  using web_samples.run_samples[of "oc_new reconnect" es] by (simp add: samples_def) (simp add: oc_new_def)

text \<open>The same for the SFU's client, by the same contract.\<close>

corollary sfu_observer_samples_in_order:
  "concat (map sample_of (oc_out (foldl sfu_observer_step (oc_new reconnect) es))) @
     oc_buffer (foldl sfu_observer_step (oc_new reconnect) es) =
   handed_over sfu_observer_step (oc_new reconnect) es"
  using sfu_samples.run_samples[of "oc_new reconnect" es] by (simp add: samples_def) (simp add: oc_new_def)

section \<open>Reconnecting\<close>

definition promise_inv :: "observer_client \<Rightarrow> bool" where
  "promise_inv s \<longleftrightarrow>
     (oc_connecting s \<noteq> Pending \<longrightarrow> oc_waiters s = [] \<and> oc_pending s = None \<and> oc_retry s = None) \<and>
     (oc_pending s = None \<or> oc_retry s = None)"

lemma oc_log_frame [simp]:
  "oc_connecting (oc_log s x) = oc_connecting s" "oc_waiters (oc_log s x) = oc_waiters s"
  "oc_pending (oc_log s x) = oc_pending s" "oc_retry (oc_log s x) = oc_retry s" "oc_ws (oc_log s x) = oc_ws s"
  "oc_closed (oc_log s x) = oc_closed s" "oc_buffer (oc_log s x) = oc_buffer s"
  "oc_nsockets (oc_log s x) = oc_nsockets s" "oc_out (oc_log s x) = oc_out s @ [x]"
  by (simp_all add: oc_log_def)

lemma waiter_frame [simp]:
  "oc_connecting (oc_run_waiter s w) = oc_connecting s" "oc_waiters (oc_run_waiter s w) = oc_waiters s"
  "oc_pending (oc_run_waiter s w) = oc_pending s" "oc_retry (oc_run_waiter s w) = oc_retry s"
  by (cases w; simp add: oc_close_ws_def split: option.split)+

lemma waiters_frame [simp]:
  "oc_connecting (foldl oc_run_waiter s ws) = oc_connecting s" "oc_waiters (foldl oc_run_waiter s ws) = oc_waiters s"
  "oc_pending (foldl oc_run_waiter s ws) = oc_pending s" "oc_retry (foldl oc_run_waiter s ws) = oc_retry s"
  by (induction ws arbitrary: s) simp_all

lemma promise_common:
  assumes "promise_inv s"
  shows "promise_inv (oc_connect s query)" "promise_inv (oc_disconnect s)" "promise_inv (oc_close s)"
    "promise_inv (oc_send s x)"
  using assms
  by (auto simp: promise_inv_def oc_connect_def oc_open_def oc_disconnect_def oc_close_def oc_send_def flush_samples
      simp del: oc_run_waiter.simps split: option.split)

lemma promise_web: "promise_inv s \<Longrightarrow> promise_inv (web_observer_step s e)"
proof (cases e)
  case (OcClosed n code)
  assume inv: "promise_inv s"
  have "promise_inv (s\<lparr>oc_listening := l, oc_ws := None\<rparr>)" for l
    using inv by (simp add: promise_inv_def)
  then have "promise_inv (web_close_listener s n code)"
    using inv by (simp add: web_close_listener_def Let_def promise_common split: option.split)
  moreover have "promise_inv (web_socket_failed s n)"
    using inv by (auto simp: promise_inv_def web_socket_failed_def split: option.split)
  ultimately show ?thesis
    using OcClosed by (simp add: web_socket_closed_def split: option.split)
qed (auto simp: promise_common, auto simp: promise_inv_def web_socket_opened_def web_socket_failed_def web_retry_timer_def
    oc_open_def split: option.split)

interpretation web_promise: free_invariant_system web_observer_step promise_inv
  by unfold_locales (rule promise_web)

text \<open>
  The web application's client recovers from a lost connection: in any run, when the socket in use
  closes with a code of the service (below 4000) and the client was neither closed nor
  disconnected, it opens a new socket for the same query, and once that is open the next sample
  goes to it after everything that was buffered in between.
\<close>

theorem web_observer_reconnects:
  assumes "s = foldl web_observer_step (oc_new True) es"
    and "map_of (oc_listening s) n = Some query" and "oc_connecting s = NotSet"
    and "oc_canConnect s" "\<not> oc_closed s" "oc_reconnect s" "code < 4000"
  shows "let s1 = web_observer_step s (OcClosed n code);
             s2 = web_observer_step (foldl oc_send s1 xs) (OcOpened (oc_nsockets s))
    in oc_out s1 = oc_out s @ [OpenSocket (oc_nsockets s) query] \<and> oc_ws s2 = Some (oc_nsockets s) \<and>
       oc_out (web_observer_step s2 (OcSend x)) =
         oc_out s1 @ map (SendSample (oc_nsockets s)) (oc_buffer s @ xs @ [x])"
proof -
  let ?n = "oc_nsockets s"
  have "promise_inv s"
    unfolding assms(1) by (rule web_promise.free_run_inv) (simp add: promise_inv_def oc_new_def)
  then have idle: "oc_waiters s = []" "oc_pending s = None" "oc_retry s = None"
    using assms(3) by (simp_all add: promise_inv_def)
  define s1 where "s1 = web_observer_step s (OcClosed n code)"
  have s1: "oc_out s1 = oc_out s @ [OpenSocket ?n query]" "oc_pending s1 = Some (?n, 0, query)" "oc_ws s1 = None"
    "oc_closed s1 = False" "oc_waiters s1 = []" "oc_buffer s1 = oc_buffer s"
    using assms idle
    by (simp_all add: s1_def web_socket_closed_def web_close_listener_def oc_connect_def oc_open_def oc_log_def Let_def)
  have buffered: "foldl oc_send s1 xs = s1\<lparr>oc_buffer := oc_buffer s1 @ xs\<rparr>"
    using s1(3,4)
  proof (induction xs rule: rev_induct)
    case (snoc x xs)
    then show ?case
      by (simp add: oc_send_def)
  qed simp
  show ?thesis
    unfolding Let_def s1_def[symmetric] buffered
    using s1 by (simp add: web_socket_opened_def oc_send_def flush_samples)
qed

lemma web_observer_reconnects_witness:
  "let s = foldl web_observer_step (oc_new True) [OcConnect ''q'', OcOpened 0];
       s1 = web_observer_step s (OcClosed 0 1006);
       s2 = web_observer_step (foldl oc_send s1 [''x'']) (OcOpened 1)
   in oc_out (web_observer_step s2 (OcSend ''y'')) =
      [OpenSocket 0 ''q'', OpenSocket 1 ''q'', SendSample 1 ''x'', SendSample 1 ''y'']"
proof -
  let ?s = "foldl web_observer_step (oc_new True) [OcConnect ''q'', OcOpened 0]"
  have "map_of (oc_listening ?s) 0 = Some ''q''" "oc_connecting ?s = NotSet" "oc_canConnect ?s" "\<not> oc_closed ?s"
    "oc_reconnect ?s" "oc_nsockets ?s = 1" "oc_out ?s = [OpenSocket 0 ''q'']" "oc_buffer ?s = []"
    by code_simp+
  with web_observer_reconnects[OF refl, of "[OcConnect ''q'', OcOpened 0]" 0 "''q''" 1006 "[''x'']" "''y''"]
  show ?thesis
    by (simp add: Let_def del: web_observer_step.simps foldl.simps)
qed

definition sockets_opened :: "observer_client \<Rightarrow> nat" where
  "sockets_opened s = tally (\<lambda>x. \<exists>n query. x = OpenSocket n query) (oc_out s)"

definition single_socket :: "observer_client \<Rightarrow> bool" where
  "single_socket s \<longleftrightarrow> sockets_opened s \<le> 1 \<and> (oc_connecting s = NotSet \<longrightarrow> sockets_opened s = 0)"

lemma single_socket_cong:
  "single_socket s \<Longrightarrow> sockets_opened s' = sockets_opened s \<Longrightarrow>
   oc_connecting s' = oc_connecting s \<or> oc_connecting s' \<noteq> NotSet \<Longrightarrow> single_socket s'"
  by (auto simp: single_socket_def)

lemma opened_waiter [simp]: "sockets_opened (oc_run_waiter s w) = sockets_opened s"
  by (cases w) (simp_all add: sockets_opened_def oc_close_ws_def split: option.split)

lemma opened_waiters [simp]: "sockets_opened (foldl oc_run_waiter s ws) = sockets_opened s"
  by (induction ws arbitrary: s) simp_all

lemma opened_send [simp]: "sockets_opened (oc_send s x) = sockets_opened s" "oc_connecting (oc_send s x) = oc_connecting s"
  by (auto simp: oc_send_def flush_samples sockets_opened_def split: option.split intro!: tally_zero)

lemma opened_frame [simp]:
  "sockets_opened (s\<lparr>oc_waiters := a\<rparr>) = sockets_opened s" "sockets_opened (s\<lparr>oc_closed := b\<rparr>) = sockets_opened s"
  "sockets_opened (s\<lparr>oc_pending := p\<rparr>) = sockets_opened s" "sockets_opened (s\<lparr>oc_ws := w\<rparr>) = sockets_opened s"
  "sockets_opened (s\<lparr>oc_connecting := c\<rparr>) = sockets_opened s"
  by (simp_all add: sockets_opened_def)

lemma single_socket_closing:
  assumes "single_socket s"
  shows "single_socket (oc_disconnect s)" "single_socket (oc_close s)"
proof -
  have "sockets_opened (oc_disconnect s) = sockets_opened s" "sockets_opened (oc_close s) = sockets_opened s"
    by (simp_all add: oc_disconnect_def oc_close_def del: oc_run_waiter.simps) (simp add: sockets_opened_def)
  then show "single_socket (oc_disconnect s)" "single_socket (oc_close s)"
    by (auto intro!: single_socket_cong[OF assms] simp: oc_disconnect_def oc_close_def simp del: oc_run_waiter.simps)
qed

lemma single_socket_connect: "single_socket s \<Longrightarrow> single_socket (oc_connect s query)"
  by (auto simp: single_socket_def oc_connect_def oc_open_def sockets_opened_def)

lemma single_socket_opened: "single_socket s \<Longrightarrow> single_socket (sfu_socket_opened s n)"
  by (erule single_socket_cong) (auto simp: sfu_socket_opened_def split: option.split)

lemma single_socket_error: "single_socket s \<Longrightarrow> single_socket (sfu_socket_error s n)"
  by (erule single_socket_cong) (simp_all add: sfu_socket_error_def sockets_opened_def oc_log_def)

interpretation sfu_single: free_invariant_system sfu_observer_step single_socket
proof
  show "single_socket s \<Longrightarrow> single_socket (sfu_observer_step s e)" for s e
    by (cases e)
      (simp_all add: single_socket_closing single_socket_connect single_socket_opened single_socket_error single_socket_cong)
qed

text \<open>
  The SFU's client never reconnects: in every run, whatever closes, fails or calls
  \<open>connect\<close> again, it opens at most one socket.
\<close>

theorem sfu_observer_never_reconnects:
  "tally (\<lambda>x. \<exists>n query. x = OpenSocket n query) (oc_out (foldl sfu_observer_step (oc_new reconnect) es)) \<le> 1"
proof -
  have "single_socket (oc_new reconnect)"
    by (simp add: single_socket_def sockets_opened_def oc_new_def)
  from sfu_single.free_run_inv[OF this, of es] show ?thesis
    by (simp add: single_socket_def sockets_opened_def)
qed

end
