(* ===== verification/Middleware.thy ===== *)
theory Middleware
  imports Prelude
begin

text \<open>
  The HTTP side of the two services: the processor that chains middlewares
  (\<^verbatim>\<open>common/Middleware.ts\<close>, the same file in the SFU and the observer) and the controllers of
  the observer (\<^verbatim>\<open>observer/src/controllers\<close>). What a middleware does with an input, up to its
  first \<open>await\<close>, is a list of actions: something visible, or a call of \<open>next\<close>, which runs the
  next middleware before it returns.
\<close>

section \<open>Processors\<close>

datatype 'o action =
    Do 'o
  | CallNext

datatype 'o step_out =
    Visit nat
  | Done 'o
  | ThrowVisited

text \<open>
  \<open>visitMiddleware\<close> with the closure variable \<open>lastVisited\<close> (starting at -1) passed through: a
  second call of \<open>next\<close> finds it moved on and throws; the promise of \<open>next\<close> turns the error
  into a rejection, so the caller goes on.
\<close>

function visit :: "('i \<Rightarrow> 'o action list) list \<Rightarrow> 'i \<Rightarrow> nat \<Rightarrow> int \<Rightarrow> 'o step_out list \<times> int"
  and run_actions :: "('i \<Rightarrow> 'o action list) list \<Rightarrow> 'i \<Rightarrow> nat \<Rightarrow> int \<Rightarrow> 'o action list \<Rightarrow> 'o step_out list \<times> int"
where
  "visit ms input index lastVisited =
     (if int index \<noteq> lastVisited + 1 then ([ThrowVisited], lastVisited)
      else if length ms \<le> index then ([], int index)
      else (let (os, l) = run_actions ms input index (int index) ((ms ! index) input) in (Visit index # os, l)))"
| "run_actions ms input index lastVisited [] = ([], lastVisited)"
| "run_actions ms input index lastVisited (a # as) =
     (let (os, l) = (case a of Do x \<Rightarrow> ([Done x], lastVisited)
                     | CallNext \<Rightarrow> (if index < length ms then visit ms input (Suc index) lastVisited
                                   else ([], lastVisited)));
          (os', l') = run_actions ms input index l as
      in (os @ os', l'))"
  by pat_completeness auto

termination
  by (relation "measures [\<lambda>x. case x of Inl (ms, _, index, _) \<Rightarrow> 2 * (Suc (length ms) - index) |
        Inr (ms, _, index, _, as) \<Rightarrow> 2 * (Suc (length ms) - index) - 1,
      \<lambda>x. case x of Inl _ \<Rightarrow> 0 | Inr (_, _, _, _, as) \<Rightarrow> Suc (length as)]") auto

declare visit.simps [simp del]

definition createProcessor :: "('i \<Rightarrow> 'o action list) list \<Rightarrow> 'i \<Rightarrow> 'o step_out list" where
  "createProcessor ms input = fst (visit ms input 0 (- 1))"

section \<open>Controllers\<close>

datatype http_out =
    EndWith string
  | ServeMetrics
  | WarnUnprocessed

text \<open>The URL of a request may be undefined.\<close>

definition indexController :: "string option \<Rightarrow> http_out action list" where
  "indexController url = (if url \<noteq> Some ''/'' then [CallNext] else [Do (EndWith ''ok'')])"

definition startsWith :: "string \<Rightarrow> string \<Rightarrow> bool" where
  "startsWith s p = (take (length p) s = p)"

definition promController :: "string option \<Rightarrow> http_out action list" where
  "promController url =
     (case url of
        None \<Rightarrow> [CallNext]
      | Some u \<Rightarrow> if \<not> startsWith u ''/metrics'' then [CallNext] else [Do ServeMetrics])"

definition fallbackMiddleware :: "string option \<Rightarrow> http_out action list" where
  "fallbackMiddleware url = [Do WarnUnprocessed]"

definition observer_processor :: "string option \<Rightarrow> http_out step_out list" where
  "observer_processor = createProcessor [indexController, promController, fallbackMiddleware]"

definition sfu_processor :: "string option \<Rightarrow> http_out step_out list" where
  "sfu_processor = createProcessor [indexController, fallbackMiddleware]"

section \<open>Properties\<close>

fun visits :: "'o step_out list \<Rightarrow> nat list" where
  "visits [] = []"
| "visits (Visit i # os) = i # visits os"
| "visits (_ # os) = visits os"

lemma visits_append [simp]: "visits (xs @ ys) = visits xs @ visits ys"
  by (induction xs rule: visits.induct) simp_all

text \<open>What is visited continues where the last visit was, without gaps or repetitions.\<close>

lemma upt_min_append:
  assumes "a \<le> b" "b \<le> c"
  shows "[a..<min n b] @ [b..<min n c] = [a..<min n c]"
proof (cases "b \<le> n")
  case True
  then show ?thesis
    using assms upt_add_eq_append[of a b "min n c - b"] by (simp add: min_absorb2)
next
  case False
  then show ?thesis
    using assms by simp
qed

text \<open>What is visited continues where the last visit was, without gaps or repetitions.\<close>

lemma visits_sequential:
  shows "- 1 \<le> lastVisited \<Longrightarrow> lastVisited \<le> snd (visit ms input index lastVisited) \<and>
      visits (fst (visit ms input index lastVisited)) =
        [nat (lastVisited + 1)..<min (length ms) (nat (snd (visit ms input index lastVisited) + 1))]"
    and "- 1 \<le> lastVisited \<Longrightarrow> lastVisited \<le> snd (run_actions ms input index lastVisited as) \<and>
      visits (fst (run_actions ms input index lastVisited as)) =
        [nat (lastVisited + 1)..<min (length ms) (nat (snd (run_actions ms input index lastVisited as) + 1))]"
proof (induction ms input index lastVisited and ms input index lastVisited as rule: visit_run_actions.induct)
  case (1 ms input index lastVisited)
  show ?case
  proof (cases "int index = lastVisited + 1 \<and> index < length ms")
    case False
    then show ?thesis
      by (auto simp: visit.simps[of ms])
  next
    case True
    let ?r = "run_actions ms input index (int index) ((ms ! index) input)"
    have v: "visit ms input index lastVisited = (Visit index # fst ?r, snd ?r)"
      using True by (simp add: visit.simps[of ms] split_beta)
    have ih: "int index \<le> snd ?r" "visits (fst ?r) = [Suc index..<min (length ms) (nat (snd ?r + 1))]"
    proof -
      have c: "\<not> int index \<noteq> lastVisited + 1" "\<not> length ms \<le> index"
        using True by simp_all
      have n: "nat (int index + 1) = Suc index"
        by simp
      show "int index \<le> snd ?r" "visits (fst ?r) = [Suc index..<min (length ms) (nat (snd ?r + 1))]"
        using 1(1)[OF c] unfolding n by simp_all
    qed
    have lt: "index < min (length ms) (nat (snd ?r + 1))"
      using conjunct2[OF True] ih(1) by (simp add: zless_nat_eq_int_zless)
    have "nat (lastVisited + 1) = index" "lastVisited \<le> snd ?r"
      using True ih(1) by linarith+
    then show ?thesis
      unfolding v using lt ih(2) by (simp add: upt_conv_Cons)
  qed
next
  case (2 ms input index lastVisited)
  then show ?case by simp
next
  case (3 ms input index lastVisited a as)
  define x where "x = (case a of Do x \<Rightarrow> ([Done x], lastVisited)
    | CallNext \<Rightarrow> (if index < length ms then visit ms input (Suc index) lastVisited else ([], lastVisited)))"
  have x: "lastVisited \<le> snd x" "visits (fst x) = [nat (lastVisited + 1)..<min (length ms) (nat (snd x + 1))]"
    using 3(1,3) by (auto simp: x_def split: action.splits)
  have ih: "snd x \<le> snd (run_actions ms input index (snd x) as)"
    "visits (fst (run_actions ms input index (snd x) as)) =
      [nat (snd x + 1)..<min (length ms) (nat (snd (run_actions ms input index (snd x) as) + 1))]"
    using 3(2)[OF x_def prod.collapse] x(1) 3(3) by simp_all
  have r: "run_actions ms input index lastVisited (a # as) =
      (fst x @ fst (run_actions ms input index (snd x) as), snd (run_actions ms input index (snd x) as))"
    unfolding run_actions.simps x_def[symmetric] by (simp add: split_beta)
  show ?case
    unfolding r using x ih upt_min_append[of "nat (lastVisited + 1)" "nat (snd x + 1)"] by simp
qed

text \<open>
  Whatever the middlewares do, calling \<open>next\<close> several times included, a request visits the
  first middlewares in their order, each at most once.
\<close>

theorem processor_visits_in_order:
  "\<exists>n \<le> length ms. visits (createProcessor ms input) = [0..<n]"
proof -
  have "visits (createProcessor ms input) = [0..<min (length ms) (nat (snd (visit ms input 0 (- 1)) + 1))]"
    using visits_sequential(1)[of "- 1" ms input 0] by (simp add: createProcessor_def)
  then show ?thesis
    by (intro exI[of _ "min (length ms) (nat (snd (visit ms input 0 (- 1)) + 1))"]) simp
qed

text \<open>
  The routes of the observer's HTTP server: exactly \<open>/\<close> is answered with \<open>ok\<close>, exactly the
  URLs that start with \<open>/metrics\<close> with the metrics, and everything else, a request without
  URL included, is only logged; no request gets two answers.
\<close>

theorem observer_http_routes:
  "filter (\<lambda>x. \<forall>i. x \<noteq> Visit i) (observer_processor url) =
   (if url = Some ''/'' then [Done (EndWith ''ok'')]
    else if \<exists>rest. url = Some (''/metrics'' @ rest) then [Done ServeMetrics]
    else [Done WarnUnprocessed])"
proof -
  have starts: "startsWith u ''/metrics'' \<longleftrightarrow> (\<exists>rest. u = ''/metrics'' @ rest)" for u
    unfolding startsWith_def by (metis append_eq_conv_conj append_take_drop_id)
  show ?thesis
    by (cases url)
      (auto simp: observer_processor_def createProcessor_def visit.simps indexController_def
        promController_def fallbackMiddleware_def starts)
qed

end
