(* ===== verification/Server.thy ===== *)
theory Server
  imports Prelude
begin

text \<open>
  The HTTP and web socket server, \<^verbatim>\<open>Server.ts\<close> (the same file in the SFU and the observer):
  the state machine behind \<open>start\<close> and \<open>stop\<close>, the processor, and the connections it
  announces. \<open>start\<close> and \<open>stop\<close> are suspended while Node listens or closes; the callbacks of
  Node are events. Parsing the query string of a URL is the argument \<open>parse_query\<close>.
\<close>

section \<open>State\<close>

datatype server_state = Idle | Started | Run | Stopped | Aborted

text \<open>Where \<open>start\<close> and \<open>stop\<close> are suspended.\<close>

datatype server_await =
    AwaitListening
  | AwaitWsClose
  | AwaitHttpClose

datatype ('p, 'q) server_out =
    Listen nat
  | CloseWsServer
  | CloseHttpServer
  | Process 'p nat
  | DropRequest nat
  | Connection nat 'q
  | ProcessorTwice

record ('p, 'q) server =
  sv_port :: nat
  sv_state :: server_state
  sv_hasServers :: bool
  sv_processor :: "'p option"
  sv_awaits :: "server_await list"
  sv_changes :: "(server_state \<times> server_state) list"
  sv_out :: "('p, 'q) server_out list"

definition server_new :: "nat \<Rightarrow> ('p, 'q) server" where
  "server_new port =
     \<lparr>sv_port = port, sv_state = Idle, sv_hasServers = False, sv_processor = None,
      sv_awaits = [], sv_changes = [], sv_out = []\<rparr>"

section \<open>Operations\<close>

definition sv_log :: "('p, 'q) server \<Rightarrow> ('p, 'q) server_out \<Rightarrow> ('p, 'q) server" where
  "sv_log s x = s\<lparr>sv_out := sv_out s @ [x]\<rparr>"

text \<open>A change of the state is logged with the state before (\<open>sv_changes\<close>).\<close>

definition setState :: "('p, 'q) server \<Rightarrow> server_state \<Rightarrow> ('p, 'q) server" where
  "setState s v = s\<lparr>sv_state := v, sv_changes := sv_changes s @ [(sv_state s, v)]\<rparr>"

definition server_start :: "('p, 'q) server \<Rightarrow> ('p, 'q) server" where
  "server_start s =
     (if sv_state s \<noteq> Idle then s
      else sv_log ((setState s Started)\<lparr>sv_hasServers := True, sv_awaits := sv_awaits s @ [AwaitListening]\<rparr>)
             (Listen (sv_port s)))"

text \<open>\<open>stop\<close> up to its first \<open>await\<close>; without the two servers it runs to its end.\<close>

definition server_stop :: "('p, 'q) server \<Rightarrow> ('p, 'q) server" where
  "server_stop s =
     (if sv_state s \<noteq> Run then s
      else if sv_hasServers s
      then sv_log ((setState s Stopped)\<lparr>sv_awaits := sv_awaits s @ [AwaitWsClose]\<rparr>) CloseWsServer
      else setState s Idle)"

text \<open>The callback a suspended operation waits for (an error of \<open>close\<close> is only logged).\<close>

definition server_resume :: "('p, 'q) server \<Rightarrow> server_await \<Rightarrow> ('p, 'q) server" where
  "server_resume s a =
     (if a \<notin> set (sv_awaits s) then s
      else
        (let s1 = s\<lparr>sv_awaits := remove1 a (sv_awaits s)\<rparr> in
         case a of
           AwaitListening \<Rightarrow> setState s1 Run
         | AwaitWsClose \<Rightarrow> sv_log (s1\<lparr>sv_awaits := sv_awaits s1 @ [AwaitHttpClose]\<rparr>) CloseHttpServer
         | AwaitHttpClose \<Rightarrow> setState s1 Idle))"

definition set_processor :: "('p, 'q) server \<Rightarrow> 'p option \<Rightarrow> ('p, 'q) server" where
  "set_processor s v =
     (case v of
        None \<Rightarrow> s\<lparr>sv_processor := None\<rparr>
      | Some p \<Rightarrow> if sv_processor s \<noteq> None then sv_log s ProcessorTwice else s\<lparr>sv_processor := Some p\<rparr>)"

definition on_request :: "('p, 'q) server \<Rightarrow> nat \<Rightarrow> ('p, 'q) server" where
  "on_request s request =
     (case sv_processor s of
        None \<Rightarrow> sv_log s (DropRequest request)
      | Some p \<Rightarrow> sv_log s (Process p request))"

definition on_connection ::
  "(string \<Rightarrow> 'q) \<Rightarrow> ('p, 'q) server \<Rightarrow> nat \<Rightarrow> string option \<Rightarrow> ('p, 'q) server"
where
  "on_connection parse_query s ws url =
     sv_log s (Connection ws (parse_query (case nullish url (Some '''') of None \<Rightarrow> '''' | Some u \<Rightarrow> u)))"

text \<open>\<open>ListenError\<close> is the \<open>error\<close> event of the HTTP server: it is logged, nothing else.\<close>

datatype 'p server_event =
    Start
  | Stop
  | Callback server_await
  | ListenError
  | SetProcessor "'p option"
  | Request nat
  | WsConnection nat "string option"

fun server_step ::
  "(string \<Rightarrow> 'q) \<Rightarrow> ('p, 'q) server \<Rightarrow> 'p server_event \<Rightarrow> ('p, 'q) server"
where
  "server_step parse_query s Start = server_start s"
| "server_step parse_query s Stop = server_stop s"
| "server_step parse_query s (Callback a) = server_resume s a"
| "server_step parse_query s ListenError = s"
| "server_step parse_query s (SetProcessor v) = set_processor s v"
| "server_step parse_query s (Request r) = on_request s r"
| "server_step parse_query s (WsConnection ws url) = on_connection parse_query s ws url"

section \<open>The state machine\<close>

text \<open>The transitions that the code can make.\<close>

inductive transition :: "server_state \<Rightarrow> server_state \<Rightarrow> bool" where
  "transition Idle Started"
| "transition Started Run"
| "transition Run Stopped"
| "transition Stopped Idle"

inductive_simps transition_simps [simp]:
  "transition Idle s" "transition Started s" "transition Run s" "transition Stopped s" "transition Aborted s"

text \<open>What is suspended in a state.\<close>

fun awaits_of :: "server_state \<Rightarrow> server_await list set" where
  "awaits_of Idle = {[]}"
| "awaits_of Started = {[AwaitListening]}"
| "awaits_of Run = {[]}"
| "awaits_of Stopped = {[AwaitWsClose], [AwaitHttpClose]}"
| "awaits_of Aborted = {}"

definition server_inv :: "('p, 'q) server \<Rightarrow> bool" where
  "server_inv s \<longleftrightarrow> sv_awaits s \<in> awaits_of (sv_state s) \<and> (sv_state s \<noteq> Idle \<longrightarrow> sv_hasServers s)"

text \<open>The logged changes are edges of the state machine, and they lead from idle to the present state.\<close>

definition changes_wf :: "('p, 'q) server \<Rightarrow> bool" where
  "changes_wf s \<longleftrightarrow> list_all (\<lambda>(a, b). transition a b) (sv_changes s) \<and>
     map fst (sv_changes s) @ [sv_state s] = Idle # map snd (sv_changes s)"

lemma sv_simps [simp]:
  "sv_state (sv_log s x) = sv_state s" "sv_awaits (sv_log s x) = sv_awaits s"
  "sv_hasServers (sv_log s x) = sv_hasServers s" "sv_processor (sv_log s x) = sv_processor s"
  "sv_state (setState s v) = v" "sv_awaits (setState s v) = sv_awaits s"
  "sv_hasServers (setState s v) = sv_hasServers s" "sv_processor (setState s v) = sv_processor s"
  by (simp_all add: sv_log_def setState_def)

lemma server_frame:
  "sv_state (set_processor s v) = sv_state s" "sv_awaits (set_processor s v) = sv_awaits s"
  "sv_hasServers (set_processor s v) = sv_hasServers s"
  "sv_state (on_request s r) = sv_state s" "sv_awaits (on_request s r) = sv_awaits s"
  "sv_hasServers (on_request s r) = sv_hasServers s"
  "sv_state (on_connection pq s ws url) = sv_state s" "sv_awaits (on_connection pq s ws url) = sv_awaits s"
  "sv_hasServers (on_connection pq s ws url) = sv_hasServers s"
  by (simp_all add: set_processor_def on_request_def on_connection_def split: option.splits)

lemma server_step_inv:
  assumes "server_inv s"
  shows "server_inv (server_step pq s e) \<and>
    (sv_state (server_step pq s e) = sv_state s \<or> transition (sv_state s) (sv_state (server_step pq s e)))"
proof (cases e)
  case Start
  then show ?thesis
    using assms by (cases "sv_state s") (auto simp: server_inv_def server_start_def)
next
  case Stop
  then show ?thesis
    using assms by (cases "sv_state s") (auto simp: server_inv_def server_stop_def)
next
  case (Callback a)
  then show ?thesis
    using assms by (cases "sv_state s"; cases a) (auto simp: server_inv_def server_resume_def)
qed (use assms in \<open>simp_all add: server_inv_def server_frame\<close>)

text \<open>A step makes no change, or one, which it logs.\<close>

definition one_change :: "('p, 'q) server \<Rightarrow> ('p, 'q) server \<Rightarrow> bool" where
  "one_change s s' \<longleftrightarrow> sv_state s' = sv_state s \<and> sv_changes s' = sv_changes s \<or>
     transition (sv_state s) (sv_state s') \<and> sv_changes s' = sv_changes s @ [(sv_state s, sv_state s')]"

lemma server_changes_frame:
  "sv_changes (set_processor s v) = sv_changes s" "sv_changes (on_request s r) = sv_changes s"
  "sv_changes (on_connection pq s ws url) = sv_changes s"
  by (simp_all add: set_processor_def on_request_def on_connection_def sv_log_def split: option.splits)

lemma server_step_change: "server_inv s \<Longrightarrow> one_change s (server_step pq s e)"
proof (cases e)
  case Start
  then show ?thesis
    by (cases "sv_state s") (simp_all add: one_change_def server_start_def sv_log_def setState_def)
next
  case Stop
  assume "server_inv s"
  with Stop show ?thesis
    by (cases "sv_state s") (simp_all add: one_change_def server_inv_def server_stop_def sv_log_def setState_def)
next
  case (Callback a)
  assume "server_inv s"
  with Callback show ?thesis
    by (cases "sv_state s"; cases a)
      (auto simp: one_change_def server_inv_def server_resume_def sv_log_def setState_def)
qed (simp_all add: one_change_def server_frame server_changes_frame)

lemma one_change_wf: "one_change s s' \<Longrightarrow> changes_wf s \<Longrightarrow> changes_wf s'"
  by (auto simp: one_change_def changes_wf_def)

interpretation server: free_invariant_system "server_step pq" server_inv for pq
  by unfold_locales (simp add: server_step_inv)

definition server_run ::
  "(string \<Rightarrow> 'q) \<Rightarrow> nat \<Rightarrow> 'p server_event list \<Rightarrow> ('p, 'q) server"
where
  "server_run pq port es = foldl (server_step pq) (server_new port) es"

lemma server_run_inv: "server_inv (server_run pq port es)"
  unfolding server_run_def by (rule server.free_run_inv) (simp add: server_inv_def server_new_def)

section \<open>Properties\<close>

lemma server_run_changes: "changes_wf (server_run pq port es)"
proof (induction es rule: rev_induct)
  case (snoc e es)
  then show ?case
    using one_change_wf[OF server_step_change[OF server_run_inv[of pq port es], of pq e]]
    by (simp add: server_run_def)
qed (simp add: changes_wf_def server_run_def server_new_def)

text \<open>
  C28. The server moves only along idle, started, run, stopped, idle: in every run each logged change of the state is
  such an edge, the first one starts at idle, each one starts where the one before ended, and the state is where the last one
  ended; an event makes at most one change; \<open>start\<close> is suspended exactly in the state started and \<open>stop\<close> exactly in
  the state stopped, so no two of them are ever under way together and the state is never \<open>aborted\<close>.
\<close>

theorem server_state_machine:
  "let s = server_run pq port es; s' = server_run pq port (es @ [e]) in
     list_all (\<lambda>(a, b). transition a b) (sv_changes s) \<and>
     map fst (sv_changes s) @ [sv_state s] = Idle # map snd (sv_changes s) \<and>
     sv_changes s' \<in> {sv_changes s, sv_changes s @ [(sv_state s, sv_state s')]} \<and>
     sv_awaits s \<in> awaits_of (sv_state s)"
proof -
  have "server_run pq port (es @ [e]) = server_step pq (server_run pq port es) e"
    by (simp add: server_run_def)
  then show ?thesis
    using server_run_changes[of pq port es] server_run_inv[of pq port es]
      server_step_change[OF server_run_inv[of pq port es], of pq e]
    by (auto simp: Let_def changes_wf_def server_inv_def one_change_def)
qed

lemma wedged_step:
  assumes "sv_state s = Started" "e \<noteq> Callback AwaitListening"
    and "sv_awaits s = [AwaitListening]"
  shows "sv_state (server_step pq s e) = Started \<and> sv_awaits (server_step pq s e) = [AwaitListening]"
proof (cases e)
  case (Callback a)
  then show ?thesis
    using assms by (cases a) (simp_all add: server_resume_def)
qed (use assms in \<open>simp_all add: server_start_def server_stop_def server_frame\<close>)

text \<open>
  A server that cannot listen is stuck: \<open>start\<close> waits only for the listening callback, so
  after an error of \<open>listen\<close> (the port is in use) no sequence of events without that callback
  leaves the state started; neither \<open>stop\<close> nor another \<open>start\<close> does anything, and the
  promise of \<open>start\<close> is never settled.
\<close>

theorem listen_error_wedges_server:
  assumes idle: "sv_state (server_run pq port es) = Idle"
    and fs: "Callback AwaitListening \<notin> set fs"
  shows "sv_state (server_run pq port (es @ [Start, ListenError] @ fs)) = Started \<and>
    sv_awaits (server_run pq port (es @ [Start, ListenError] @ fs)) = [AwaitListening]"
proof -
  let ?s = "server_run pq port es"
  have "sv_awaits ?s = []"
    using server_run_inv[of pq port es] idle by (simp add: server_inv_def)
  then have "sv_state (server_start ?s) = Started" "sv_awaits (server_start ?s) = [AwaitListening]"
    using idle by (simp_all add: server_start_def)
  then have "sv_state (foldl (server_step pq) (server_start ?s) fs) = Started \<and>
      sv_awaits (foldl (server_step pq) (server_start ?s) fs) = [AwaitListening]"
    using fs
  proof (induction fs rule: rev_induct)
    case (snoc f fs)
    then show ?case by (auto simp: wedged_step)
  qed simp
  then show ?thesis
    by (simp add: server_run_def)
qed

lemma listen_error_wedges_server_witness:
  "sv_state (server_run (\<lambda>u. u) 8080 ([SetProcessor (Some (0 :: nat))] @ [Start, ListenError] @ [Stop, Start])) = Started"
proof -
  have "sv_state (server_run (\<lambda>u. u) 8080 [SetProcessor (Some (0 :: nat))]) = Idle"
    by code_simp
  from listen_error_wedges_server[OF this, of "[Stop, Start]"] show ?thesis
    by simp
qed

end
