(* ===== verification/SfuMain.thy ===== *)
theory SfuMain
  imports Rooms ObserverClients Middleware Server
begin

text \<open>
  How the SFU is put together, \<^verbatim>\<open>sfu/src/main.ts\<close>: the server announces web socket connections, which
  go to the rooms; a room attaches its listeners to the socket of a client when the client is added;
  samples of the monitor go to the observer's client; HTTP requests go to the processor. The model
  starts where \<open>main\<close> has its configuration and its worker. It keeps which client object of
  which room listens on a socket: a frame on a socket without listeners reaches nobody.
\<close>

section \<open>State and operations\<close>

type_synonym url_query = "string \<Rightarrow> string option"

text \<open>What nobody in the service catches: an exception of a listener, a rejected promise without a handler.\<close>

datatype sfu_fault = UncaughtException | UnhandledRejection

record sfu_main =
  sm_server :: "(unit, url_query) server"
  sm_rooms :: sfu
  sm_observer :: observer_client
  sm_waiting :: "(nat \<times> nat) list"
  sm_sockets :: "nat \<Rightarrow> (nat \<times> nat) option"
  sm_lost :: "(nat \<times> message) list"
  sm_http :: "(nat \<times> http_out step_out list) list"
  sm_faults :: "sfu_fault list"

definition sm_fault :: "bool \<Rightarrow> sfu_fault \<Rightarrow> sfu_main \<Rightarrow> sfu_main" where
  "sm_fault b f s = (if b then s\<lparr>sm_faults := sm_faults s @ [f]\<rparr> else s)"

text \<open>The query string that the observer's client connects with.\<close>

definition sfu_query_string :: "string \<Rightarrow> string" where
  "sfu_query_string sfuId =
     foldl (\<lambda>str (key, val). str @ ''&'' @ key @ ''='' @ val) '''' [(''sfuId'', sfuId)]"

text \<open>From the created worker on: \<open>main\<close> connects the observer's client and starts the server that it has made before.\<close>

definition sfu_main_from :: "(unit, url_query) server \<Rightarrow> string \<Rightarrow> string \<Rightarrow> string \<Rightarrow> sfu_main" where
  "sfu_main_from server serverIp announcedIp sfuId =
     \<lparr>sm_server = server_start (set_processor server (Some ())),
      sm_rooms = sfu_new serverIp announcedIp,
      sm_observer = oc_connect (oc_new True) (sfu_query_string sfuId),
      sm_waiting = [], sm_sockets = (\<lambda>_. None), sm_lost = [], sm_http = [], sm_faults = []\<rparr>"

definition sfu_main_start :: "nat \<Rightarrow> string \<Rightarrow> string \<Rightarrow> string \<Rightarrow> sfu_main" where
  "sfu_main_start port serverIp announcedIp sfuId = sfu_main_from (server_new port) serverIp announcedIp sfuId"

text \<open>
  The listener of \<open>websocket-connection\<close>: a client that is added at once gets the listeners of the next
  client object of the room, another one waits with its socket for the promise of the room.
\<close>

definition sfu_connection :: "sfu_main \<Rightarrow> nat \<Rightarrow> url_query \<Rightarrow> sfu_main" where
  "sfu_connection s ws q =
     (let rooms = sm_rooms s;
          s1 = s\<lparr>sm_rooms := websocket_connection rooms ws (q ''roomId'') (q ''clientId'') (q ''userId'')\<rparr>
      in if \<not> str_truthy (q ''roomId'') \<or> \<not> str_truthy (q ''clientId'') then s1
         else
           (case snd (getOrCreateRoom rooms (the (q ''roomId''))) of
              Existing n \<Rightarrow>
                (case s_objs rooms n of
                   None \<Rightarrow> s1
                 | Some r \<Rightarrow> s1\<lparr>sm_sockets := (sm_sockets s1)(ws \<mapsto> (n, r_nobjs r))\<rparr>)
            | Promised p \<Rightarrow> s1\<lparr>sm_waiting := sm_waiting s1 @ [(p, ws)]\<rparr>))"

text \<open>The promise of a room is fulfilled: the clients that waited are added in their order.\<close>

definition seats :: "nat \<Rightarrow> nat list \<Rightarrow> nat \<Rightarrow> (nat \<times> nat) option" where
  "seats n wss = map_of (zip wss (map (Pair n) [0..<length wss]))"

definition sfu_router_created :: "sfu_main \<Rightarrow> nat \<Rightarrow> string \<Rightarrow> json \<Rightarrow> sfu_main" where
  "sfu_router_created s p routerId caps =
     (case map_of (s_promises (sm_rooms s)) p of
        None \<Rightarrow> s
      | Some _ \<Rightarrow>
          s\<lparr>sm_rooms := router_created (sm_rooms s) p routerId caps,
            sm_sockets := sm_sockets s ++
              seats (s_nobjs (sm_rooms s)) (map snd (filter (\<lambda>x. fst x = p) (sm_waiting s))),
            sm_waiting := filter (\<lambda>x. fst x \<noteq> p) (sm_waiting s)\<rparr>)"

definition sfu_router_failed :: "sfu_main \<Rightarrow> nat \<Rightarrow> sfu_main" where
  "sfu_router_failed s p =
     (case map_of (s_promises (sm_rooms s)) p of
        None \<Rightarrow> s
      | Some _ \<Rightarrow>
          s\<lparr>sm_rooms := router_failed (sm_rooms s) p, sm_waiting := filter (\<lambda>x. fst x \<noteq> p) (sm_waiting s)\<rparr>)"

text \<open>What happens on a socket reaches the client object that listens there.\<close>

definition sfu_frame ::
  "(json \<Rightarrow> string \<Rightarrow> string) \<Rightarrow> sfu_main \<Rightarrow> int \<Rightarrow> nat \<Rightarrow> message \<Rightarrow> sfu_main"
where
  "sfu_frame jwt s now ws m =
     (case sm_sockets s ws of
        None \<Rightarrow> s\<lparr>sm_lost := sm_lost s @ [(ws, m)]\<rparr>
      | Some (n, ref) \<Rightarrow> s\<lparr>sm_rooms := room_event jwt (sm_rooms s) n (Receive now ref m)\<rparr>)"

definition sfu_socket_event ::
  "(json \<Rightarrow> string \<Rightarrow> string) \<Rightarrow> sfu_main \<Rightarrow> nat \<Rightarrow> (nat \<Rightarrow> event) \<Rightarrow> sfu_main"
where
  "sfu_socket_event jwt s ws e =
     (case sm_sockets s ws of
        None \<Rightarrow> s
      | Some (n, ref) \<Rightarrow> s\<lparr>sm_rooms := room_event jwt (sm_rooms s) n (e ref)\<rparr>)"

text \<open>What the listeners do with what the server announced or handed to the processor.\<close>

fun sfu_react :: "(nat \<Rightarrow> string option) \<Rightarrow> sfu_main \<Rightarrow> (unit, url_query) server_out \<Rightarrow> sfu_main" where
  "sfu_react url s (Connection ws q) = sfu_connection s ws q"
| "sfu_react url s (Process p r) = s\<lparr>sm_http := sm_http s @ [(r, sfu_processor (url r))]\<rparr>"
| "sfu_react url s _ = s"

definition sfu_server_event ::
  "(nat \<Rightarrow> string option) \<Rightarrow> (string \<Rightarrow> url_query) \<Rightarrow> sfu_main \<Rightarrow> unit server_event \<Rightarrow> sfu_main"
where
  "sfu_server_event url parse_query s e =
     (let sv = server_step parse_query (sm_server s) e in
      foldl (sfu_react url) (s\<lparr>sm_server := sv\<rparr>) (drop (length (sv_out (sm_server s))) (sv_out sv)))"

text \<open>
  The events of the process. \<open>Activity\<close> is an answer or a closing of the media library in a room (no
  other event of a room comes from it), \<open>ObserverSocket\<close> an event of the observer client's socket.
\<close>

fun is_activity :: "event \<Rightarrow> bool" where
  "is_activity (Resume _ _ _) = True"
| "is_activity (event.Callback _) = True"
| "is_activity (RouterClosed _) = True"
| "is_activity _ = False"

fun is_socket_event :: "oc_event \<Rightarrow> bool" where
  "is_socket_event (OcOpened _) = True"
| "is_socket_event (OcError _) = True"
| "is_socket_event (OcClosed _ _) = True"
| "is_socket_event _ = False"

text \<open>
  What is not caught. A frame with the text \<open>null\<close> makes the message listener throw (\<open>TypeErrorThrown\<close> of
  \<open>ClientEvents\<close>). An accepted socket has no listener for its \<open>error\<close> event, nor has that of the observer's client, so the
  emitter throws. A promise without a handler is rejected when a router cannot be made, and when the library
  refuses a call that a handler of a room awaits (\<open>ORejected\<close>).
\<close>

fun is_connection_of :: "nat \<Rightarrow> (unit, url_query) server_out \<Rightarrow> bool" where
  "is_connection_of ws (Connection ws' q) = (ws = ws')"
| "is_connection_of ws _ = False"

fun is_error_thrown :: "oc_out \<Rightarrow> bool" where
  "is_error_thrown (ErrorThrown n) = True"
| "is_error_thrown _ = False"

definition room_rejects :: "(json \<Rightarrow> string \<Rightarrow> string) \<Rightarrow> sfu \<Rightarrow> nat \<Rightarrow> event \<Rightarrow> bool" where
  "room_rejects jwt s n e =
     (case s_objs s n of
        None \<Rightarrow> False
      | Some r \<Rightarrow> ORejected \<in> set (drop (length (r_trace r)) (r_trace (room_step jwt r e))))"

definition observer_throws :: "observer_client \<Rightarrow> observer_client \<Rightarrow> bool" where
  "observer_throws c c' = list_ex is_error_thrown (drop (length (oc_out c)) (oc_out c'))"

datatype sfu_main_event =
    Serve "unit server_event"
  | RouterMade nat string json
  | RouterRefused nat
  | Frame int nat message
  | NullFrame nat
  | SocketError nat
  | FrameOfTypeClose nat "callback list" "callback list" "callback list"
  | SocketEnd nat "callback list" "callback list" "callback list"
  | Activity nat event
  | SampleCreated string
  | ObserverSocket oc_event
  | Sigint

fun sfu_main_step ::
  "(json \<Rightarrow> string \<Rightarrow> string) \<Rightarrow> (nat \<Rightarrow> string option) \<Rightarrow> (string \<Rightarrow> url_query) \<Rightarrow> sfu_main \<Rightarrow> sfu_main_event \<Rightarrow> sfu_main"
where
  "sfu_main_step jwt url pq s (Serve e) = sfu_server_event url pq s e"
| "sfu_main_step jwt url pq s (RouterMade p routerId caps) = sfu_router_created s p routerId caps"
| "sfu_main_step jwt url pq s (RouterRefused p) =
     sm_fault (map_of (s_promises (sm_rooms s)) p \<noteq> None) UnhandledRejection (sfu_router_failed s p)"
| "sfu_main_step jwt url pq s (Frame now ws m) = sfu_frame jwt s now ws m"
| "sfu_main_step jwt url pq s (NullFrame ws) = sm_fault (sm_sockets s ws \<noteq> None) UncaughtException s"
| "sfu_main_step jwt url pq s (SocketError ws) =
     sm_fault (list_ex (is_connection_of ws) (sv_out (sm_server s))) UncaughtException s"
| "sfu_main_step jwt url pq s (FrameOfTypeClose ws snds rcvs routers) =
     sfu_socket_event jwt s ws (\<lambda>ref. CloseFrame ref snds rcvs routers)"
| "sfu_main_step jwt url pq s (SocketEnd ws snds rcvs routers) =
     sfu_socket_event jwt s ws (\<lambda>ref. SocketClosed ref snds rcvs routers)"
| "sfu_main_step jwt url pq s (Activity n e) =
     (if is_activity e
      then sm_fault (room_rejects jwt (sm_rooms s) n e) UnhandledRejection (s\<lparr>sm_rooms := room_event jwt (sm_rooms s) n e\<rparr>)
      else s)"
| "sfu_main_step jwt url pq s (SampleCreated x) = s\<lparr>sm_observer := sfu_observer_step (sm_observer s) (OcSend x)\<rparr>"
| "sfu_main_step jwt url pq s (ObserverSocket e) =
     (if is_socket_event e
      then (let c = sfu_observer_step (sm_observer s) e
            in sm_fault (observer_throws (sm_observer s) c) UncaughtException (s\<lparr>sm_observer := c\<rparr>))
      else s)"
| "sfu_main_step jwt url pq s Sigint = s\<lparr>sm_server := server_stop (sm_server s)\<rparr>"

definition sfu_main_run ::
  "(json \<Rightarrow> string \<Rightarrow> string) \<Rightarrow> (nat \<Rightarrow> string option) \<Rightarrow> (string \<Rightarrow> url_query) \<Rightarrow>
   nat \<Rightarrow> string \<Rightarrow> string \<Rightarrow> string \<Rightarrow> sfu_main_event list \<Rightarrow> sfu_main"
where
  "sfu_main_run jwt url pq port ip announcedIp sfuId es =
     foldl (sfu_main_step jwt url pq) (sfu_main_start port ip announcedIp sfuId) es"

section \<open>The service runs its components\<close>

lemma sm_fault_simps [simp]:
  "sm_server (sm_fault b f s) = sm_server s" "sm_rooms (sm_fault b f s) = sm_rooms s"
  "sm_observer (sm_fault b f s) = sm_observer s" "sm_waiting (sm_fault b f s) = sm_waiting s"
  "sm_sockets (sm_fault b f s) = sm_sockets s" "sm_lost (sm_fault b f s) = sm_lost s" "sm_http (sm_fault b f s) = sm_http s"
  "sm_faults (sm_fault b f s) = sm_faults s @ (if b then [f] else [])"
  by (simp_all add: sm_fault_def)

text \<open>
  What an event of the process is for each component. The server gets what happens to it and the \<open>stop\<close> of the signal, the
  observer's client the samples and what happens to its socket, the rooms every accepted connection with the ids of its
  query, the answers for their routers, and for the client object that listens on a socket what comes from there.
\<close>

fun server_input :: "sfu_main_event \<Rightarrow> unit server_event list" where
  "server_input (Serve e) = [e]"
| "server_input Sigint = [Stop]"
| "server_input _ = []"

fun observer_input :: "sfu_main_event \<Rightarrow> oc_event list" where
  "observer_input (SampleCreated x) = [OcSend x]"
| "observer_input (ObserverSocket e) = (if is_socket_event e then [e] else [])"
| "observer_input _ = []"

definition to_client_of :: "sfu_main \<Rightarrow> nat \<Rightarrow> (nat \<Rightarrow> event) \<Rightarrow> sfu_event list" where
  "to_client_of s ws e = (case sm_sockets s ws of None \<Rightarrow> [] | Some (n, ref) \<Rightarrow> [RoomEvent n (e ref)])"

fun rooms_input :: "(string \<Rightarrow> url_query) \<Rightarrow> sfu_main \<Rightarrow> sfu_main_event \<Rightarrow> sfu_event list" where
  "rooms_input pq s (Serve (WsConnection ws u)) =
     (let q = pq (case u of None \<Rightarrow> '''' | Some u \<Rightarrow> u)
      in [WebSocketConnection ws (q ''roomId'') (q ''clientId'') (q ''userId'')])"
| "rooms_input pq s (RouterMade p routerId caps) = [RouterCreated p routerId caps]"
| "rooms_input pq s (RouterRefused p) = [RouterFailed p]"
| "rooms_input pq s (Frame now ws m) = to_client_of s ws (\<lambda>ref. Receive now ref m)"
| "rooms_input pq s (FrameOfTypeClose ws snds rcvs routers) = to_client_of s ws (\<lambda>ref. CloseFrame ref snds rcvs routers)"
| "rooms_input pq s (SocketEnd ws snds rcvs routers) = to_client_of s ws (\<lambda>ref. SocketClosed ref snds rcvs routers)"
| "rooms_input pq s (Activity n e) = (if is_activity e then [RoomEvent n e] else [])"
| "rooms_input pq s _ = []"

fun rooms_inputs ::
  "(json \<Rightarrow> string \<Rightarrow> string) \<Rightarrow> (nat \<Rightarrow> string option) \<Rightarrow> (string \<Rightarrow> url_query) \<Rightarrow> sfu_main \<Rightarrow> sfu_main_event list \<Rightarrow>
   sfu_event list"
where
  "rooms_inputs jwt url pq s [] = []"
| "rooms_inputs jwt url pq s (e # es) = rooms_input pq s e @ rooms_inputs jwt url pq (sfu_main_step jwt url pq s e) es"

lemma sfu_connection_frame [simp]:
  "sm_server (sfu_connection s ws q) = sm_server s" "sm_observer (sfu_connection s ws q) = sm_observer s"
  "sm_lost (sfu_connection s ws q) = sm_lost s"
  by (simp_all add: sfu_connection_def Let_def split: room_ref.split option.split)

lemma sfu_connection_rooms:
  "sm_rooms (sfu_connection s ws q) = websocket_connection (sm_rooms s) ws (q ''roomId'') (q ''clientId'') (q ''userId'')"
  by (simp add: sfu_connection_def Let_def split: room_ref.split option.split)

lemma sfu_react_frame [simp]:
  "sm_server (sfu_react url s x) = sm_server s" "sm_observer (sfu_react url s x) = sm_observer s"
  "sm_lost (sfu_react url s x) = sm_lost s"
  by (cases x; simp)+

lemma sfu_reacts_frame [simp]:
  "sm_server (foldl (sfu_react url) s xs) = sm_server s" "sm_observer (foldl (sfu_react url) s xs) = sm_observer s"
  "sm_lost (foldl (sfu_react url) s xs) = sm_lost s"
  by (induction xs arbitrary: s) simp_all

text \<open>What the server hands out in a step is at most one thing, and a connection only when one was accepted.\<close>

fun is_connection :: "(unit, url_query) server_out \<Rightarrow> bool" where
  "is_connection (Connection ws q) = True"
| "is_connection _ = False"

definition connections_out :: "(string \<Rightarrow> url_query) \<Rightarrow> unit server_event \<Rightarrow> (unit, url_query) server_out list" where
  "connections_out pq e =
     (case e of WsConnection ws u \<Rightarrow> [Connection ws (pq (case u of None \<Rightarrow> '''' | Some u \<Rightarrow> u))] | _ \<Rightarrow> [])"

lemma server_step_out:
  "\<exists>xs. sv_out (server_step pq sv e) = sv_out sv @ xs \<and> filter is_connection xs = connections_out pq e \<and> length xs \<le> 1"
proof (cases e)
  case (WsConnection ws u)
  then show ?thesis
    by (cases u) (simp_all add: on_connection_def sv_log_def connections_out_def)
qed (auto simp: server_start_def server_stop_def server_resume_def set_processor_def on_request_def sv_log_def setState_def
    connections_out_def Let_def split: option.split server_await.split)

lemma sfu_react_quiet:
  assumes "\<not> is_connection x"
  shows "sm_rooms (sfu_react url s x) = sm_rooms s" "sm_sockets (sfu_react url s x) = sm_sockets s"
    "sm_waiting (sfu_react url s x) = sm_waiting s"
  using assms by (cases x; simp)+

text \<open>A step of the server in the service.\<close>

lemma sfu_server_event_cases:
  fixes s e pq url
  defines "s' \<equiv> sfu_server_event url pq s e"
  shows "sm_server s' = server_step pq (sm_server s) e" "sm_observer s' = sm_observer s" "sm_lost s' = sm_lost s"
    and "connections_out pq e = [] \<Longrightarrow> sm_rooms s' = sm_rooms s \<and> sm_sockets s' = sm_sockets s \<and> sm_waiting s' = sm_waiting s"
    and "connections_out pq e = [Connection ws q] \<Longrightarrow> s' = sfu_connection (s\<lparr>sm_server := server_step pq (sm_server s) e\<rparr>) ws q"
proof -
  obtain xs where xs: "sv_out (server_step pq (sm_server s) e) = sv_out (sm_server s) @ xs"
      "filter is_connection xs = connections_out pq e" "length xs \<le> 1"
    using server_step_out by blast
  have s': "s' = foldl (sfu_react url) (s\<lparr>sm_server := server_step pq (sm_server s) e\<rparr>) xs"
    using xs(1) by (simp add: s'_def sfu_server_event_def Let_def)
  then show "sm_server s' = server_step pq (sm_server s) e" "sm_observer s' = sm_observer s" "sm_lost s' = sm_lost s"
    by simp_all
  consider "xs = []" | x where "xs = [x]"
    using xs(3) by (cases xs) auto
  note xs_cases = this
  show "sm_rooms s' = sm_rooms s \<and> sm_sockets s' = sm_sockets s \<and> sm_waiting s' = sm_waiting s" if "connections_out pq e = []"
    using xs_cases
  proof cases
    case 2
    then show ?thesis
      using that xs(2) sfu_react_quiet[of x] by (simp add: s' split: if_splits)
  qed (simp add: s')
  show "s' = sfu_connection (s\<lparr>sm_server := server_step pq (sm_server s) e\<rparr>) ws q" if "connections_out pq e = [Connection ws q]"
    using xs_cases
  proof cases
    case 2
    then show ?thesis
      using that xs(2) by (simp add: s' split: if_splits)
  qed (use that xs(2) in simp)
qed

lemma server_of_step: "sm_server (sfu_main_step jwt url pq s e) = foldl (server_step pq) (sm_server s) (server_input e)"
  by (cases e) (simp_all add: sfu_server_event_cases sfu_router_created_def sfu_router_failed_def sfu_frame_def sfu_socket_event_def
      Let_def split: option.split)

lemma observer_of_step: "sm_observer (sfu_main_step jwt url pq s e) = foldl sfu_observer_step (sm_observer s) (observer_input e)"
  by (cases e) (simp_all add: sfu_server_event_cases sfu_router_created_def sfu_router_failed_def sfu_frame_def sfu_socket_event_def
      Let_def split: option.split)

lemma rooms_of_step: "sm_rooms (sfu_main_step jwt url pq s e) = foldl (sfu_step jwt) (sm_rooms s) (rooms_input pq s e)"
proof (cases e)
  case (Serve x)
  show ?thesis
  proof (cases x)
    case (WsConnection ws u)
    then show ?thesis
      using Serve sfu_server_event_cases(5)[of pq x ws _ url s]
      by (simp add: connections_out_def Let_def sfu_connection_rooms)
  qed (use Serve sfu_server_event_cases(4)[of pq x url s] in \<open>simp_all add: connections_out_def\<close>)
qed (simp_all add: sfu_router_created_def sfu_router_failed_def router_created_def router_failed_def sfu_frame_def
    sfu_socket_event_def to_client_of_def Let_def split: option.split)

text \<open>
  C20. The SFU service refines its components: in every run of the process the server is in the state of its own run of what
  happened to it and of one \<open>stop\<close> for each signal, the observer's client in the state of its own run, after the connect of
  \<open>main\<close>, of exactly the samples that were created and of what happened to its socket, in that order; and the rooms are in the
  state of their own run of the accepted connections, the settled routers and the frames and closings of each socket,
  handed to the one client object that listens there. What is proved of the runs of a component holds in the service.
\<close>

theorem service_refines_components:
  "let s = sfu_main_run jwt url pq port ip announcedIp sfuId es
    in sm_server s = server_run pq port (SetProcessor (Some ()) # Start # concat (map server_input es)) \<and>
       sm_observer s = foldl sfu_observer_step (oc_new True)
         (OcConnect (sfu_query_string sfuId) # concat (map observer_input es)) \<and>
       sm_rooms s = sfu_run jwt ip announcedIp (rooms_inputs jwt url pq (sfu_main_start port ip announcedIp sfuId) es)"
proof -
  have server: "sm_server (foldl (sfu_main_step jwt url pq) s es) =
      foldl (server_step pq) (sm_server s) (concat (map server_input es))" for s
    by (induction es arbitrary: s) (simp_all add: server_of_step del: sfu_main_step.simps)
  have observer: "sm_observer (foldl (sfu_main_step jwt url pq) s es) =
      foldl sfu_observer_step (sm_observer s) (concat (map observer_input es))" for s
    by (induction es arbitrary: s) (simp_all add: observer_of_step del: sfu_main_step.simps)
  have rooms: "sm_rooms (foldl (sfu_main_step jwt url pq) s es) =
      foldl (sfu_step jwt) (sm_rooms s) (rooms_inputs jwt url pq s es)" for s
    by (induction es arbitrary: s) (simp_all add: rooms_of_step del: sfu_main_step.simps)
  show ?thesis
    unfolding sfu_main_run_def Let_def server observer rooms
    by (simp add: sfu_main_start_def sfu_main_from_def sfu_run_def server_run_def)
qed

section \<open>Sockets and clients\<close>

text \<open>The client object \<open>ref\<close> of the room object \<open>n\<close> is there, under its ids.\<close>

definition seated :: "sfu \<Rightarrow> nat \<times> nat \<Rightarrow> string \<Rightarrow> string \<Rightarrow> bool" where
  "seated s x i c \<longleftrightarrow> (\<exists>r cl. s_objs s (fst x) = Some r \<and> r_roomId r = i \<and>
     r_objs r (snd x) = Some cl \<and> c_clientId cl = c)"

lemma seated_add:
  assumes inv: "sfu_inv s" and x: "seated s x i c"
  shows "seated (add_client s n cid uid) x i c"
proof -
  obtain r cl where r: "s_objs s (fst x) = Some r" "r_roomId r = i" "r_objs r (snd x) = Some cl" "c_clientId cl = c"
    using x by (auto simp: seated_def)
  then have "snd x \<noteq> r_nobjs r"
    using sfu_invD(5)[OF inv r(1)] room_wf_fresh[of r] by (auto simp: room_inv_def)
  with r show ?thesis
    by (auto simp: seated_def add_client_def room_add_def)
qed

lemma seated_add_all:
  "sfu_inv s \<Longrightarrow> seated s x i c \<Longrightarrow>
   seated (foldl (\<lambda>s w. add_client s n (w_clientId w) (w_userId w)) s ws) x i c"
  by (induction ws arbitrary: s) (simp_all add: seated_add sfu_inv_add)

lemma seated_cong: "seated s x i c \<Longrightarrow> s_objs s' (fst x) = s_objs s (fst x) \<Longrightarrow> seated s' x i c"
  by (simp add: seated_def)

lemma getOrCreate_objs [simp]: "s_objs (fst (getOrCreateRoom s i)) = s_objs s"
  by (simp add: getOrCreateRoom_def Let_def split: option.split)

lemma seated_connection:
  assumes inv: "sfu_inv s" and x: "seated s x i c"
  shows "seated (websocket_connection s ws ri ci u) x i c"
proof -
  obtain s' y where y: "getOrCreateRoom s (the ri) = (s', y)"
    by (cases "getOrCreateRoom s (the ri)")
  have "sfu_inv s'" "seated s' x i c"
    using sfu_inv_getOrCreate[OF inv, of "the ri"] seated_cong[OF x, of s'] getOrCreate_objs[of s "the ri"] y by simp_all
  then have "seated (add_client s' n (the ci) u) x i c" for n
    by (rule seated_add)
  moreover have "seated (s\<lparr>s_out := v\<rparr>) x i c" "seated (s'\<lparr>s_waiting := w\<rparr>) x i c" for v w
    using seated_cong[OF x] seated_cong[OF \<open>seated s' x i c\<close>] by simp_all
  ultimately show ?thesis
    using y by (cases y) (simp_all add: websocket_connection_def)
qed

lemma seated_room_event:
  assumes inv: "sfu_inv s" and x: "seated s x i c"
  shows "seated (room_event jwt s n e) x i c"
proof (cases "fst x = n \<and> (\<nexists>a b. e = Add a b)")
  case False
  then show ?thesis
    by (intro seated_cong[OF x]; cases e) (auto simp: room_event_def Let_def split: option.split)
next
  case True
  then obtain r cl where r: "s_objs s n = Some r" "r_roomId r = i" "r_objs r (snd x) = Some cl" "c_clientId cl = c"
    using x by (auto simp: seated_def)
  have wf: "room_wf r" "close_wf r"
    using sfu_invD(5)[OF inv r(1)] by (simp_all add: room_inv_def)
  let ?r' = "room_step jwt r e"
  have m: "micros r ?r'"
    by (rule micros_room_step[OF wf])
  have "s_objs (room_event jwt s n e) n = Some ?r'"
    using r(1) True by (cases e) (simp_all add: room_event_def Let_def del: room_step.simps)
  then show ?thesis
    using True r micros_objs[OF m wf(1) r(3)] micros_roomId[OF m] by (auto simp: seated_def simp del: room_step.simps)
qed

lemma seated_fresh: "sfu_inv s \<Longrightarrow> seated s x i c \<Longrightarrow> fst x \<noteq> s_nobjs s"
  using sfu_invD(4) by (fastforce simp: seated_def)

text \<open>The state right after a router was made: the new room, before its clients are added.\<close>

lemma router_created_split:
  assumes inv: "sfu_inv s" and p: "map_of (s_promises s) p = Some i"
  obtains s1 where "sfu_inv s1" "s_objs s1 = (s_objs s)(s_nobjs s \<mapsto> room_new i k caps (s_ip s) (s_announcedIp s))"
    "router_created s p k caps = foldl (\<lambda>s w. add_client s (s_nobjs s1 - 1) (w_clientId w) (w_userId w)) s1
       (filter (\<lambda>w. w_promise w = p) (s_waiting s))"
    "s_nobjs s1 = Suc (s_nobjs s)"
proof -
  let ?s1 = "(settle_promise s p i)
      \<lparr>s_objs := (s_objs s)(s_nobjs s \<mapsto> room_new i k caps (s_ip s) (s_announcedIp s)),
       s_nobjs := Suc (s_nobjs s), s_rooms := map_set (s_rooms s) i (s_nobjs s)\<rparr>"
  have "map_get (s_rooms s) i = None"
    by (rule sfu_invD(9)[OF inv map_of_SomeD[OF p]])
  then have "sfu_inv ?s1"
    using sfu_inv_new_room[OF sfu_inv_settle[OF inv p], of i "room_new i k caps (s_ip s) (s_announcedIp s)"]
      room_inv_new by (simp add: map_get_delete)
  then show ?thesis
    by (rule that) (use p in \<open>simp_all add: router_created_def Let_def\<close>)
qed

lemma seated_created:
  assumes inv: "sfu_inv s" and x: "seated s x i c"
  shows "seated (router_created s p k caps) x i c"
proof (cases "map_of (s_promises s) p")
  case None
  with x show ?thesis
    by (simp add: router_created_def)
next
  case (Some j)
  obtain s1 where s1: "sfu_inv s1" "s_objs s1 = (s_objs s)(s_nobjs s \<mapsto> room_new j k caps (s_ip s) (s_announcedIp s))"
    "router_created s p k caps = foldl (\<lambda>s w. add_client s (s_nobjs s1 - 1) (w_clientId w) (w_userId w)) s1
       (filter (\<lambda>w. w_promise w = p) (s_waiting s))"
    by (rule router_created_split[OF inv Some, of k caps])
  have "seated s1 x i c"
    by (rule seated_cong[OF x]) (simp add: s1(2) seated_fresh[OF inv x])
  then show ?thesis
    unfolding s1(3) by (rule seated_add_all[OF s1(1)])
qed

lemma seated_step: "sfu_inv s \<Longrightarrow> seated s x i c \<Longrightarrow> seated (sfu_step jwt s e) x i c"
proof (cases e)
  case (RouterFailed p)
  assume "sfu_inv s" "seated s x i c"
  then show ?thesis
    using RouterFailed by (auto simp: router_failed_def intro: seated_cong split: option.split)
qed (simp_all add: seated_connection seated_created seated_room_event)

text \<open>The objects that adding clients in a row makes.\<close>

lemma room_adds_below:
  "ref < r_nobjs r \<Longrightarrow> r_objs (foldl (\<lambda>r w. room_add r (w_clientId w) (w_userId w)) r ws) ref = r_objs r ref"
  by (induction ws arbitrary: r) (simp_all add: room_add_def)

lemma room_adds_at:
  "j < length ws \<Longrightarrow>
   \<exists>c. r_objs (foldl (\<lambda>r w. room_add r (w_clientId w) (w_userId w)) r ws) (r_nobjs r + j) = Some c \<and>
     c_clientId c = w_clientId (ws ! j)"
proof (induction ws arbitrary: r j)
  case (Cons w ws)
  let ?r = "room_add r (w_clientId w) (w_userId w)"
  show ?case
  proof (cases j)
    case 0
    then show ?thesis
      using room_adds_below[of "r_nobjs r" ?r ws] by (simp add: room_add_def client_new_def)
  next
    case (Suc m)
    then show ?thesis
      using Cons.IH[of m ?r] Cons.prems by (simp add: room_add_def)
  qed
qed simp

lemma room_adds_ids:
  "r_roomId (foldl (\<lambda>r w. room_add r (w_clientId w) (w_userId w)) r ws) = r_roomId r"
  "r_trace (foldl (\<lambda>r w. room_add r (w_clientId w) (w_userId w)) r ws) = r_trace r"
  by (induction ws arbitrary: r) (simp_all add: room_add_def)

lemma router_created_room:
  assumes inv: "sfu_inv s" and p: "map_of (s_promises s) p = Some i"
  shows "s_objs (router_created s p k caps) (s_nobjs s) =
      Some (foldl (\<lambda>r w. room_add r (w_clientId w) (w_userId w)) (room_new i k caps (s_ip s) (s_announcedIp s))
        (filter (\<lambda>w. w_promise w = p) (s_waiting s)))"
    and "map_get (s_rooms (router_created s p k caps)) i = Some (s_nobjs s)"
  using p by (simp_all add: router_created_def Let_def add_all_room add_all_frame map_get_set)

section \<open>Every socket has its client\<close>

text \<open>What is known of a socket that a client object listens on, and of one that waits.\<close>

definition heard :: "sfu_main \<Rightarrow> nat \<Rightarrow> nat \<times> nat \<Rightarrow> bool" where
  "heard s ws x \<longleftrightarrow> (\<exists>q i c. Connection ws q \<in> set (sv_out (sm_server s)) \<and>
     q ''roomId'' = Some i \<and> q ''clientId'' = Some c \<and> seated (sm_rooms s) x i c)"

definition awaited :: "sfu_main \<Rightarrow> nat \<times> nat \<Rightarrow> pending_client \<Rightarrow> bool" where
  "awaited s x w \<longleftrightarrow> fst x = w_promise w \<and> (\<exists>q i. Connection (snd x) q \<in> set (sv_out (sm_server s)) \<and>
     q ''roomId'' = Some i \<and> q ''clientId'' = Some (w_clientId w) \<and> (fst x, i) \<in> set (s_promises (sm_rooms s)))"

definition seating_inv :: "sfu_main \<Rightarrow> bool" where
  "seating_inv s \<longleftrightarrow> sfu_inv (sm_rooms s) \<and>
     (\<forall>ws x. sm_sockets s ws = Some x \<longrightarrow> heard s ws x) \<and>
     (\<forall>ws ws' x. sm_sockets s ws = Some x \<longrightarrow> sm_sockets s ws' = Some x \<longrightarrow> ws = ws') \<and>
     list_all2 (awaited s) (sm_waiting s) (s_waiting (sm_rooms s))"

lemma seating_invI:
  assumes "sfu_inv (sm_rooms s)" "\<And>ws x. sm_sockets s ws = Some x \<Longrightarrow> heard s ws x"
    and "\<And>ws ws' x. sm_sockets s ws = Some x \<Longrightarrow> sm_sockets s ws' = Some x \<Longrightarrow> ws = ws'"
    and "list_all2 (awaited s) (sm_waiting s) (s_waiting (sm_rooms s))"
  shows "seating_inv s"
  using assms unfolding seating_inv_def by blast

lemma seating_invD:
  assumes "seating_inv s"
  shows "sfu_inv (sm_rooms s)" "sm_sockets s ws = Some x \<Longrightarrow> heard s ws x"
    and "sm_sockets s ws = Some x \<Longrightarrow> sm_sockets s ws' = Some x \<Longrightarrow> ws = ws'"
    and "list_all2 (awaited s) (sm_waiting s) (s_waiting (sm_rooms s))"
  using assms unfolding seating_inv_def by blast+

text \<open>What was announced stays announced; the rooms make a step.\<close>

lemma heard_mono:
  assumes "heard s ws x" and "set (sv_out (sm_server s)) \<subseteq> set (sv_out (sm_server s'))"
    and "\<And>i c. seated (sm_rooms s) x i c \<Longrightarrow> seated (sm_rooms s') x i c"
  shows "heard s' ws x"
  using assms unfolding heard_def by blast

lemma awaited_mono:
  assumes "list_all2 (awaited s) xs ws" and "set (sv_out (sm_server s)) \<subseteq> set (sv_out (sm_server s'))"
    and "\<And>x i. x \<in> set xs \<Longrightarrow> (fst x, i) \<in> set (s_promises (sm_rooms s)) \<Longrightarrow> (fst x, i) \<in> set (s_promises (sm_rooms s'))"
  shows "list_all2 (awaited s') xs ws"
  by (rule list.rel_mono_strong[OF assms(1)]) (use assms(2,3) in \<open>auto simp: awaited_def; blast\<close>)

lemma seating_mono:
  assumes "seating_inv s" and "sm_rooms s' = sfu_step jwt (sm_rooms s) e \<or> sm_rooms s' = sm_rooms s"
    and "set (sv_out (sm_server s)) \<subseteq> set (sv_out (sm_server s'))"
    and "sm_sockets s' = sm_sockets s" "sm_waiting s' = sm_waiting s"
    and "s_waiting (sm_rooms s') = s_waiting (sm_rooms s)" "s_promises (sm_rooms s') = s_promises (sm_rooms s)"
  shows "seating_inv s'"
proof -
  note d = seating_invD[OF assms(1)]
  have "sfu_inv (sm_rooms s')"
    using assms(2) d(1) sfu_inv_step by metis
  moreover have "seated (sm_rooms s') x i c" if "seated (sm_rooms s) x i c" for x i c
    using assms(2) seated_step[OF d(1) that] that by metis
  then have "heard s' ws x" if "sm_sockets s' ws = Some x" for ws x
    using heard_mono[OF d(2) assms(3)] that assms(4) by metis
  moreover have "list_all2 (awaited s') (sm_waiting s) (s_waiting (sm_rooms s))"
    using awaited_mono[OF d(4) assms(3)] assms(7) by simp
  ultimately show ?thesis
    using d(3) assms(4-6) unfolding seating_inv_def by metis
qed

lemma room_event_waiting [simp]:
  "s_waiting (room_event jwt s n e) = s_waiting s" "s_promises (room_event jwt s n e) = s_promises s"
  by (simp_all add: room_event_def Let_def split: option.split event.split)

lemma seating_room_event:
  assumes "seating_inv s"
  shows "seating_inv (s\<lparr>sm_rooms := room_event jwt (sm_rooms s) n e\<rparr>)"
  by (rule seating_mono[OF assms, where e = "RoomEvent n e" and jwt = jwt]) simp_all

text \<open>A new connection.\<close>

lemma getOrCreate_promised:
  assumes "sfu_inv s" "getOrCreateRoom s i = (s', Promised p)"
  shows "(p, i) \<in> set (s_promises s')" "set (s_promises s) \<subseteq> set (s_promises s')" "s_waiting s' = s_waiting s"
  using assms sfu_invD(7)[OF assms(1)] by (auto simp: getOrCreateRoom_def Let_def split: option.splits)

lemma getOrCreate_existing:
  "getOrCreateRoom s i = (s', Existing n) \<Longrightarrow> s' = s \<and> map_get (s_rooms s) i = Some n"
  by (auto simp: getOrCreateRoom_def Let_def split: option.splits)

lemma seating_connection:
  assumes s: "seating_inv s" and ws: "Connection ws q \<in> set (sv_out (sm_server s))"
  shows "seating_inv (sfu_connection s ws q)"
proof -
  note d = seating_invD[OF s]
  let ?rooms = "websocket_connection (sm_rooms s) ws (q ''roomId'') (q ''clientId'') (q ''userId'')"
  let ?s1 = "s\<lparr>sm_rooms := ?rooms\<rparr>"
  have inv: "sfu_inv ?rooms"
    by (rule sfu_inv_connection[OF d(1)])
  have seat: "seated ?rooms x i c" if "seated (sm_rooms s) x i c" for x i c
    by (rule seated_connection[OF d(1) that])
  show ?thesis
  proof (cases "str_truthy (q ''roomId'') \<and> str_truthy (q ''clientId'')")
    case False
    have "seating_inv ?s1"
      by (rule seating_mono[OF s, where e = "WebSocketConnection ws (q ''roomId'') (q ''clientId'') (q ''userId'')"])
        (use False in \<open>auto simp: websocket_connection_def\<close>)
    with False show ?thesis
      by (auto simp: sfu_connection_def Let_def)
  next
    case True
    then obtain i c where ic: "q ''roomId'' = Some i" "q ''clientId'' = Some c" "i \<noteq> []" "c \<noteq> []"
      by (cases "q ''roomId''"; cases "q ''clientId''") auto
    obtain s' y where y: "getOrCreateRoom (sm_rooms s) i = (s', y)"
      by (cases "getOrCreateRoom (sm_rooms s) i")
    show ?thesis
    proof (cases y)
      case (Existing n)
      have e: "s' = sm_rooms s" "map_get (s_rooms (sm_rooms s)) i = Some n"
        using getOrCreate_existing[of "sm_rooms s" i s' n] y Existing by simp_all
      then obtain r where r: "s_objs (sm_rooms s) n = Some r" "r_roomId r = i"
        using sfu_invD(6)[OF d(1), of i n] by blast
      have rooms: "?rooms = add_client (sm_rooms s) n c (q ''userId'')"
        using ic y Existing e by (simp add: websocket_connection_def)
      have new: "seated ?rooms (n, r_nobjs r) i c"
        unfolding rooms using r by (simp add: seated_def add_client_def room_add_def client_new_def)
      have fresh: "sm_sockets s w \<noteq> Some (n, r_nobjs r)" for w
      proof
        assume "sm_sockets s w = Some (n, r_nobjs r)"
        then have "r_objs r (r_nobjs r) \<noteq> None"
          using d(2)[of w "(n, r_nobjs r)"] r(1) by (auto simp: heard_def seated_def)
        then show False
          using sfu_invD(5)[OF d(1) r(1)] room_wf_fresh[of r] by (auto simp: room_inv_def)
      qed
      have conn: "sfu_connection s ws q = ?s1\<lparr>sm_sockets := (sm_sockets s)(ws \<mapsto> (n, r_nobjs r))\<rparr>" (is "_ = ?s2")
        using ic y Existing r(1) by (simp add: sfu_connection_def Let_def)
      have "heard ?s2 w x" if "sm_sockets s w = Some x" for w x
        by (rule heard_mono[OF d(2)[OF that]]) (use seat in simp_all)
      moreover have "heard ?s2 ws (n, r_nobjs r)"
        using ws ic new by (auto simp: heard_def)
      moreover have "list_all2 (awaited ?s2) (sm_waiting s) (s_waiting (sm_rooms s))"
        by (rule awaited_mono[OF d(4)]) (simp_all add: rooms add_client_def)
      moreover have "s_waiting ?rooms = s_waiting (sm_rooms s)"
        by (simp add: rooms add_client_def)
      ultimately show ?thesis
        unfolding conn seating_inv_def using inv fresh d(3) by (auto split: if_splits)
    next
      case (Promised p)
      note g = getOrCreate_promised[OF d(1) y[unfolded Promised]]
      have rooms: "?rooms = s'\<lparr>s_waiting := s_waiting s' @
          [\<lparr>w_promise = p, w_clientId = c, w_userId = q ''userId''\<rparr>]\<rparr>"
        using ic y Promised by (simp add: websocket_connection_def)
      have conn: "sfu_connection s ws q = ?s1\<lparr>sm_waiting := sm_waiting s @ [(p, ws)]\<rparr>" (is "_ = ?s2")
        using ic y Promised by (simp add: sfu_connection_def Let_def)
      have "heard ?s2 w x" if "sm_sockets s w = Some x" for w x
        by (rule heard_mono[OF d(2)[OF that]]) (use seat in simp_all)
      moreover have "list_all2 (awaited ?s2) (sm_waiting s) (s_waiting (sm_rooms s))"
        by (rule awaited_mono[OF d(4)]) (use g(2) in \<open>auto simp: rooms\<close>)
      moreover have "awaited ?s2 (p, ws) \<lparr>w_promise = p, w_clientId = c, w_userId = q ''userId''\<rparr>"
        using ws ic g(1) rooms[unfolded ic(1,2)] by (auto simp: awaited_def)
      ultimately show ?thesis
        unfolding conn seating_inv_def using inv d(3) g(3) by (auto simp: rooms intro: list_all2_appendI)
    qed
  qed
qed

text \<open>A router was made, or refused.\<close>

lemma list_all2_filter:
  "list_all2 R xs ys \<Longrightarrow> (\<And>x y. R x y \<Longrightarrow> P x = Q y) \<Longrightarrow> list_all2 R (filter P xs) (filter Q ys)"
  by (induction rule: list_all2_induct) auto

lemma awaited_promise: "awaited s x w \<Longrightarrow> (fst x = p) = (w_promise w = p)"
  by (simp add: awaited_def)

lemma seats_Some: "seats n wss ws = Some x \<Longrightarrow> \<exists>j < length wss. wss ! j = ws \<and> x = (n, j)"
  unfolding seats_def by (auto dest!: map_of_SomeD simp: set_zip)

lemma router_promises:
  assumes "map_of (s_promises s) p = Some i"
  shows "s_promises (router_created s p k caps) = filter (\<lambda>x. fst x \<noteq> p) (s_promises s)"
    and "s_waiting (router_created s p k caps) = filter (\<lambda>w. w_promise w \<noteq> p) (s_waiting s)"
proof -
  have "s_promises (foldl (\<lambda>s w. add_client s n (w_clientId w) (w_userId w)) s ws) = s_promises s"
    for n s and ws :: "pending_client list"
    by (induction ws arbitrary: s) (simp_all add: add_client_def)
  then show "s_promises (router_created s p k caps) = filter (\<lambda>x. fst x \<noteq> p) (s_promises s)"
    using assms by (simp add: router_created_def Let_def settle_promise_def)
  show "s_waiting (router_created s p k caps) = filter (\<lambda>w. w_promise w \<noteq> p) (s_waiting s)"
    using assms by (simp add: router_created_def Let_def add_all_frame settle_promise_def)
qed

lemma seating_router_created:
  assumes s: "seating_inv s"
  shows "seating_inv (sfu_router_created s p k caps)"
proof (cases "map_of (s_promises (sm_rooms s)) p")
  case None
  with s show ?thesis
    by (simp add: sfu_router_created_def)
next
  case (Some i)
  note d = seating_invD[OF s]
  let ?n = "s_nobjs (sm_rooms s)"
  let ?rooms = "router_created (sm_rooms s) p k caps"
  let ?wss = "map snd (filter (\<lambda>x. fst x = p) (sm_waiting s))"
  let ?ws = "filter (\<lambda>w. w_promise w = p) (s_waiting (sm_rooms s))"
  have s': "sfu_router_created s p k caps = s\<lparr>sm_rooms := ?rooms, sm_sockets := sm_sockets s ++ seats ?n ?wss,
      sm_waiting := filter (\<lambda>x. fst x \<noteq> p) (sm_waiting s)\<rparr>" (is "_ = ?s'")
    using Some by (simp add: sfu_router_created_def)
  have pw: "list_all2 (awaited s) (filter (\<lambda>x. fst x = p) (sm_waiting s)) ?ws"
    by (rule list_all2_filter[OF d(4)]) (rule awaited_promise)
  have len: "length ?wss = length ?ws"
    using list_all2_lengthD[OF pw] by simp
  have old: "heard ?s' ws x" if "sm_sockets s ws = Some x" for ws x
    by (rule heard_mono[OF d(2)[OF that]]) (simp_all add: seated_created[OF d(1)])
  have oldn: "fst x \<noteq> ?n" if "sm_sockets s ws = Some x" for ws x
    using d(2)[OF that] seated_fresh[OF d(1)] unfolding heard_def by blast
  have new: "heard ?s' (?wss ! j) (?n, j)" if j: "j < length ?wss" for j
  proof -
    have "awaited s (filter (\<lambda>x. fst x = p) (sm_waiting s) ! j) (?ws ! j)"
      using j by (intro list_all2_nthD[OF pw]) simp
    then obtain q i' where q: "Connection (?wss ! j) q \<in> set (sv_out (sm_server s))" "q ''roomId'' = Some i'"
        "q ''clientId'' = Some (w_clientId (?ws ! j))" "(fst (filter (\<lambda>x. fst x = p) (sm_waiting s) ! j), i') \<in> set (s_promises (sm_rooms s))"
      using j by (auto simp: awaited_def)
    have "fst (filter (\<lambda>x. fst x = p) (sm_waiting s) ! j) = p"
      using j nth_mem[of j "filter (\<lambda>x. fst x = p) (sm_waiting s)"] by simp
    then have "i' = i"
      using q(4) Some map_of_is_SomeI[OF sfu_invD(3)[OF d(1)]] by fastforce
    moreover have "seated ?rooms (?n, j) i (w_clientId (?ws ! j))"
      using router_created_room(1)[OF d(1) Some, of k caps] j len
        room_adds_at[of j ?ws "room_new i k caps (s_ip (sm_rooms s)) (s_announcedIp (sm_rooms s))"]
      by (auto simp: seated_def room_adds_ids) (auto simp: room_new_def)
    ultimately show ?thesis
      using q(1-3) unfolding heard_def by auto
  qed
  have cases: "sm_sockets s ws = Some x \<and> fst x \<noteq> ?n \<or> (\<exists>j < length ?wss. ?wss ! j = ws \<and> x = (?n, j))"
    if "sm_sockets ?s' ws = Some x" for ws x
    using that oldn seats_Some[of ?n ?wss ws x] by (auto simp: map_add_def split: option.splits)
  show ?thesis
    unfolding s'
  proof (rule seating_invI)
    show "heard ?s' ws x" if "sm_sockets ?s' ws = Some x" for ws x
      using cases[OF that] old new by blast
    show "ws = ws'" if "sm_sockets ?s' ws = Some x" "sm_sockets ?s' ws' = Some x" for ws ws' x
      using cases[OF that(1)] cases[OF that(2)] d(3)[of ws x ws'] by fastforce
    have "list_all2 (awaited ?s') (filter (\<lambda>x. fst x \<noteq> p) (sm_waiting s))
        (filter (\<lambda>w. w_promise w \<noteq> p) (s_waiting (sm_rooms s)))"
      by (rule awaited_mono[OF list_all2_filter[OF d(4)]]) (auto simp: awaited_promise router_promises(1)[OF Some])
    then show "list_all2 (awaited ?s') (sm_waiting ?s') (s_waiting (sm_rooms ?s'))"
      by (simp add: router_promises(2)[OF Some])
    show "sfu_inv (sm_rooms ?s')"
      by (simp add: sfu_inv_created[OF d(1)])
  qed
qed

lemma seating_router_failed:
  assumes s: "seating_inv s"
  shows "seating_inv (sfu_router_failed s p)"
proof (cases "map_of (s_promises (sm_rooms s)) p")
  case None
  with s show ?thesis
    by (simp add: sfu_router_failed_def)
next
  case (Some i)
  note d = seating_invD[OF s]
  let ?rooms = "router_failed (sm_rooms s) p"
  have f: "s_waiting ?rooms = filter (\<lambda>w. w_promise w \<noteq> p) (s_waiting (sm_rooms s))"
      "s_promises ?rooms = filter (\<lambda>x. fst x \<noteq> p) (s_promises (sm_rooms s))"
    using Some by (simp_all add: router_failed_def settle_promise_def)
  have seat: "seated ?rooms x i c" if "seated (sm_rooms s) x i c" for x i c
    using seated_step[OF d(1) that, of undefined "RouterFailed p"] by simp
  have s': "sfu_router_failed s p = s\<lparr>sm_rooms := ?rooms, sm_waiting := filter (\<lambda>x. fst x \<noteq> p) (sm_waiting s)\<rparr>" (is "_ = ?s'")
    using Some by (simp add: sfu_router_failed_def)
  have "heard ?s' ws x" if "sm_sockets s ws = Some x" for ws x
    by (rule heard_mono[OF d(2)[OF that]]) (use seat in simp_all)
  moreover have "list_all2 (awaited ?s') (filter (\<lambda>x. fst x \<noteq> p) (sm_waiting s)) (s_waiting ?rooms)"
    unfolding f(1) by (rule awaited_mono[OF list_all2_filter[OF d(4)]]) (auto simp: awaited_promise f(2))
  moreover have "sfu_inv ?rooms"
    using sfu_inv_step[OF d(1), of undefined "RouterFailed p"] by simp
  ultimately show ?thesis
    unfolding s' seating_inv_def using d(3) by simp
qed

lemma seating_server_step:
  assumes "seating_inv s"
  shows "seating_inv (s\<lparr>sm_server := server_step pq (sm_server s) e\<rparr>)"
proof -
  have "set (sv_out (sm_server s)) \<subseteq> set (sv_out (server_step pq (sm_server s) e))"
    by (cases e) (auto simp: server_start_def server_stop_def server_resume_def set_processor_def on_request_def
        on_connection_def sv_log_def setState_def Let_def split: option.split server_await.split)
  then show ?thesis
    by (intro seating_mono[OF assms]) simp_all
qed

lemma seating_fault [simp]: "seating_inv (sm_fault b f s) = seating_inv s"
proof -
  have "awaited (sm_fault b f s) = awaited s" "heard (sm_fault b f s) = heard s"
    by (simp_all add: awaited_def heard_def fun_eq_iff)
  then show ?thesis
    by (simp add: seating_inv_def)
qed

lemma seating_reacts:
  assumes "seating_inv s" "set xs \<subseteq> set (sv_out (sm_server s))"
  shows "seating_inv (foldl (sfu_react url) s xs)"
  using assms
proof (induction xs arbitrary: s)
  case (Cons x xs)
  have "seating_inv (sfu_react url s x)"
  proof (cases x)
    case (Process p r)
    then show ?thesis
      by (intro seating_mono[OF Cons.prems(1)]) simp_all
  qed (use Cons.prems in \<open>simp_all add: seating_connection\<close>)
  then show ?case
    using Cons.prems(2) by (simp add: Cons.IH)
qed simp

lemma seating_step:
  assumes s: "seating_inv s"
  shows "seating_inv (sfu_main_step jwt url pq s e)"
proof (cases e)
  case (Serve x)
  then show ?thesis
    by (simp add: sfu_server_event_def Let_def seating_reacts[OF seating_server_step[OF s]] set_drop_subset)
next
  case (Frame now ws m)
  have "seating_inv (s\<lparr>sm_lost := v\<rparr>)" for v
    by (rule seating_mono[OF s]) simp_all
  then show ?thesis
    using Frame s by (simp add: sfu_frame_def seating_room_event split: option.split)
next
  case (SampleCreated x)
  then show ?thesis
    by (intro seating_mono[OF s]) simp_all
next
  case (ObserverSocket x)
  have "seating_inv (s\<lparr>sm_observer := c\<rparr>)" for c
    by (rule seating_mono[OF s]) simp_all
  then show ?thesis
    using s ObserverSocket by (simp add: Let_def)
next
  case Sigint
  then show ?thesis
    using seating_server_step[OF s, of pq Stop] by simp
qed (use s in \<open>simp_all add: seating_router_created seating_router_failed sfu_socket_event_def
      seating_room_event split: option.split\<close>)

interpretation seating: free_invariant_system "sfu_main_step jwt url pq" seating_inv for jwt url pq
  by unfold_locales (rule seating_step)

lemma seating_run: "seating_inv (sfu_main_run jwt url pq port ip announcedIp sfuId es)"
  unfolding sfu_main_run_def
  by (rule seating.free_run_inv)
    (use sfu_inv_new in \<open>simp add: seating_inv_def sfu_main_start_def sfu_main_from_def\<close>, simp add: sfu_new_def)

text \<open>
  C16. Every socket has its own client: in any run of the service, a client object that listens on a socket
  belongs to the room and carries the client id that the query of that socket named, and it listens on no
  other socket. So a frame reaches the client of its connection and nobody else.
\<close>

theorem every_socket_its_client:
  assumes "s = sfu_main_run jwt url pq port ip announcedIp sfuId es" and "sm_sockets s ws = Some (n, ref)"
  shows "\<exists>r c q. s_objs (sm_rooms s) n = Some r \<and> r_objs r ref = Some c \<and>
    Connection ws q \<in> set (sv_out (sm_server s)) \<and>
    q ''roomId'' = Some (r_roomId r) \<and> q ''clientId'' = Some (c_clientId c) \<and>
    (\<forall>ws'. sm_sockets s ws' = Some (n, ref) \<longrightarrow> ws' = ws)"
proof -
  have inv: "seating_inv s"
    unfolding assms(1) by (rule seating_run)
  show ?thesis
    using seating_invD(2)[OF inv assms(2)] seating_invD(3)[OF inv assms(2)] unfolding heard_def seated_def by auto
qed

text \<open>A client waits for its room, which is made.\<close>

definition one_socket :: "sfu_main_event list" where
  "one_socket = [Serve (WsConnection 8 (Some ''b'')), RouterMade 0 ''call'' JNull]"

definition socket_query :: "string \<Rightarrow> url_query" where
  "socket_query u k = (if k = ''roomId'' then Some ''r'' else if k = ''clientId'' then Some u else None)"

lemmas witness_defs =
  sfu_main_start_def sfu_main_from_def server_start_def set_processor_def server_new_def sv_log_def setState_def sfu_server_event_def
  on_connection_def sfu_connection_def socket_query_def getOrCreateRoom_def sfu_new_def websocket_connection_def
  sfu_router_created_def seats_def map_new_def map_get_def Let_def

lemma every_socket_its_client_witness:
  "let s = sfu_main_run (\<lambda>_ _. ''token'') (\<lambda>_. None) socket_query 8080 ''ip'' ''aip'' ''sfu'' one_socket
   in sm_sockets s 8 = Some (0, 0) \<and> (\<forall>ws'. sm_sockets s ws' = Some (0, 0) \<longrightarrow> ws' = 8)"
proof -
  have "sm_sockets (sfu_main_run (\<lambda>_ _. ''token'') (\<lambda>_. None) socket_query 8080 ''ip'' ''aip'' ''sfu'' one_socket) 8 =
      Some (0, 0)"
    unfolding one_socket_def sfu_main_run_def
    by (simp add: witness_defs)
  with every_socket_its_client[OF refl this] show ?thesis
    unfolding Let_def by blast
qed

text \<open>
  C38. A client is deaf while its room is being created: whatever it sends reaches nobody, and when its
  socket closes nobody hears that either; when the router is there, the closed client is registered in
  the new room all the same, in which nothing was received, sent or closed.
\<close>

theorem early_frames_are_lost:
  assumes s: "s = sfu_main_run jwt url pq port ip announcedIp sfuId es"
    and w: "(p, ws) \<in> set (sm_waiting s)" "sm_sockets s ws = None"
    and s': "s' = foldl (sfu_main_step jwt url pq) s [Frame now ws m, SocketEnd ws snds rcvs routers, RouterMade p k caps]"
  shows "sm_lost s' = sm_lost s @ [(ws, m)] \<and>
    (\<exists>q i c n r. Connection ws q \<in> set (sv_out (sm_server s)) \<and> q ''roomId'' = Some i \<and> q ''clientId'' = Some c \<and>
       map_get (s_rooms (sm_rooms s')) i = Some n \<and> s_objs (sm_rooms s') n = Some r \<and>
       map_get (r_clients r) c \<noteq> None \<and> r_trace r = [])"
proof -
  have inv: "seating_inv s"
    unfolding s by (rule seating_run)
  obtain j where j: "j < length (sm_waiting s)" "sm_waiting s ! j = (p, ws)"
    using w(1) by (auto simp: in_set_conv_nth)
  define x where "x = s_waiting (sm_rooms s) ! j"
  have "awaited s (p, ws) x"
    using list_all2_nthD[OF seating_invD(4)[OF inv] j(1)] j(2) by (simp add: x_def)
  then obtain q i where q: "Connection ws q \<in> set (sv_out (sm_server s))" "q ''roomId'' = Some i"
      "q ''clientId'' = Some (w_clientId x)" "(p, i) \<in> set (s_promises (sm_rooms s))" "w_promise x = p"
    unfolding awaited_def fst_conv snd_conv by blast
  have p: "map_of (s_promises (sm_rooms s)) p = Some i"
    by (rule map_of_is_SomeI[OF sfu_invD(3)[OF seating_invD(1)[OF inv]] q(4)])
  have x: "x \<in> set (filter (\<lambda>w. w_promise w = p) (s_waiting (sm_rooms s)))"
    using j(1) list_all2_lengthD[OF seating_invD(4)[OF inv]] q(5) by (simp add: x_def)
  have rooms: "sm_rooms s' = router_created (sm_rooms s) p k caps" and lost: "sm_lost s' = sm_lost s @ [(ws, m)]"
    unfolding s' using w(2) p by (simp_all add: sfu_frame_def sfu_socket_event_def sfu_router_created_def)
  let ?r = "foldl (\<lambda>r w. room_add r (w_clientId w) (w_userId w)) (room_new i k caps (s_ip (sm_rooms s)) (s_announcedIp (sm_rooms s)))
    (filter (\<lambda>w. w_promise w = p) (s_waiting (sm_rooms s)))"
  have "w_clientId x \<in> set (map_keys (r_clients ?r))"
    using x by (simp add: room_adds)
  then have r: "map_get (r_clients ?r) (w_clientId x) \<noteq> None" "r_trace ?r = []"
    by (simp_all add: map_keys_get room_adds_ids) (simp add: room_new_def)
  note new = router_created_room[OF seating_invD(1)[OF inv] p, of k caps]
  show ?thesis
    unfolding rooms
    by (rule conjI[OF lost], rule exI[of _ q], rule exI[of _ i], rule exI[of _ "w_clientId x"],
        rule exI[of _ "s_nobjs (sm_rooms s)"], rule exI[of _ ?r]) (intro conjI q(1-3) new r)
qed

lemma early_frames_are_lost_witness:
  "let s = sfu_main_run (\<lambda>_ _. ''token'') (\<lambda>_. None) socket_query 8080 ''ip'' ''aip'' ''sfu'' (take 1 one_socket);
       s' = foldl (sfu_main_step (\<lambda>_ _. ''token'') (\<lambda>_. None) socket_query) s
         [Frame 0 8 (Req (GetRouterCapabilitiesRequest ''1'')), SocketEnd 8 [] [] [], RouterMade 0 ''call'' JNull]
   in sm_lost s' = [(8, Req (GetRouterCapabilitiesRequest ''1''))]"
proof -
  let ?s = "sfu_main_run (\<lambda>_ _. ''token'') (\<lambda>_. None) socket_query 8080 ''ip'' ''aip'' ''sfu'' (take 1 one_socket)"
  have "(0, 8) \<in> set (sm_waiting ?s) \<and> sm_sockets ?s 8 = None \<and> sm_lost ?s = []"
    unfolding one_socket_def sfu_main_run_def
    by (simp add: witness_defs)
  then have w: "(0, 8) \<in> set (sm_waiting ?s)" "sm_sockets ?s 8 = None" "sm_lost ?s = []"
    by blast+
  note f = early_frames_are_lost[OF refl w(1,2) refl, THEN conjunct1, unfolded w(3) append_Nil]
  show ?thesis
    unfolding Let_def by (rule f)
qed

end
