(* ===== verification/AppConfig.thy ===== *)
theory AppConfig
  imports Prelude
begin

text \<open>
  The configuration of the two services, \<^verbatim>\<open>sfu/src/appconfig.ts\<close> and
  \<^verbatim>\<open>observer/src/appconfig.ts\<close>. The environment and the parsed command line are arguments
  (\<open>None\<close> where a name is not set); the result of the DNS lookup is an argument of the SFU's
  \<open>loadConfig\<close>.
\<close>

section \<open>Schemas\<close>

record schema_entry =
  se_argv :: string
  se_env :: string
  se_doc :: string
  se_default :: json

definition sfu_schema :: "(string \<times> schema_entry) list" where
  "sfu_schema =
     [(''serverIp'', \<lparr>se_argv = ''serverIp'', se_env = ''SERVER_IP'',
        se_doc = ''The IP of the server'', se_default = JStr ''127.0.0.1''\<rparr>),
      (''announcedIp'', \<lparr>se_argv = ''announcedIp'', se_env = ''ANNOUNCED_IP'',
        se_doc = ''The announced IP the mediasoup will use for RTC connections'', se_default = JStr ''127.0.0.1''\<rparr>),
      (''hostname'', \<lparr>se_argv = ''hostname'', se_env = ''HOSTNAME'',
        se_doc = ''The hostname of the server'', se_default = JStr ''localhost''\<rparr>),
      (''logLevel'', \<lparr>se_argv = ''logLevel'', se_env = ''LOG_LEVEL'',
        se_doc = ''The logLevel of the server'', se_default = JStr ''debug''\<rparr>),
      (''port'', \<lparr>se_argv = ''port'', se_env = ''PORT'',
        se_doc = ''The port number the server listens'', se_default = JNum 8080\<rparr>),
      (''rtcMinPort'', \<lparr>se_argv = ''rtcMinPort'', se_env = ''RTC_MIN_PORT'',
        se_doc = ''The minimum port the server accepts RTC connections'', se_default = JNum 5000\<rparr>),
      (''rtcMaxPort'', \<lparr>se_argv = ''rtcMaxPort'', se_env = ''RTC_MAX_PORT'',
        se_doc = ''The maximum port the server accepts RTC connections'', se_default = JNum 5100\<rparr>)]"

definition observer_schema :: "(string \<times> schema_entry) list" where
  "observer_schema =
     [(''serviceId'', \<lparr>se_argv = ''serviceId'', se_env = ''SERVICE_ID'',
        se_doc = ''The serviceId used in the observer'', se_default = JStr ''observertc''\<rparr>),
      (''mediaUnitId'', \<lparr>se_argv = ''mediaUnitId'', se_env = ''MEDIIA_UNIT_ID'',
        se_doc = ''the meida unit id used in the observer'', se_default = JStr ''demo-app''\<rparr>),
      (''logLevel'', \<lparr>se_argv = ''logLevel'', se_env = ''LOG_LEVEL'',
        se_doc = ''The logLevel of the server'', se_default = JStr ''debug''\<rparr>),
      (''port'', \<lparr>se_argv = ''port'', se_env = ''PORT'',
        se_doc = ''The port number the server listens'', se_default = JNum 7080\<rparr>)]"

section \<open>Loading\<close>

type_synonym environment = "string \<Rightarrow> string option"
type_synonym arguments = "string \<Rightarrow> json option"

text \<open>The operator \<open>??\<close> passes over \<open>null\<close> as over an absent value.\<close>

definition present :: "json option \<Rightarrow> json option" where
  "present v = (if v = Some JNull then None else v)"

definition loadConfigEntry ::
  "environment \<Rightarrow> arguments \<Rightarrow> schema_entry \<Rightarrow> json option \<Rightarrow> json"
where
  "loadConfigEntry env argv e defaultValue =
     the (nullish (map_option JStr (env (se_env e)))
       (nullish (present (argv (se_argv e)))
         (nullish (present defaultValue) (Some (se_default e)))))"

definition entry_of :: "(string \<times> schema_entry) list \<Rightarrow> string \<Rightarrow> schema_entry" where
  "entry_of schema key = the (map_of schema key)"

definition sfu_loadConfig ::
  "(json \<Rightarrow> string option) \<Rightarrow> environment \<Rightarrow> arguments \<Rightarrow> (string \<times> json) list"
where
  "sfu_loadConfig lookup env argv =
     (let load = (\<lambda>key. loadConfigEntry env argv (entry_of sfu_schema key));
          hostname = load ''hostname'' None;
          serverIp = lookup hostname
      in [(''serverIp'', load ''serverIp'' (map_option JStr serverIp)),
          (''announcedIp'', load ''announcedIp'' None),
          (''hostname'', hostname),
          (''port'', load ''port'' None),
          (''rtcMinPort'', load ''rtcMinPort'' None),
          (''rtcMaxPort'', load ''rtcMaxPort'' None),
          (''logLevel'', load ''logLevel'' None)])"

definition observer_loadConfig :: "environment \<Rightarrow> arguments \<Rightarrow> (string \<times> json) list" where
  "observer_loadConfig env argv =
     (let load = (\<lambda>key. loadConfigEntry env argv (entry_of observer_schema key) None)
      in [(''serviceId'', load ''serviceId''), (''mediaUnitId'', load ''mediaUnitId''),
          (''port'', load ''port''), (''logLevel'', load ''logLevel'')])"

definition help_text :: "(string \<times> schema_entry) list \<Rightarrow> string list" where
  "help_text schema =
     map (\<lambda>(key, e). [CHR 0x09] @ ''--'' @ key @ '': '' @ se_doc e @ '' (env: '' @ se_env e @ '')'') schema"

section \<open>Properties\<close>

lemma entry_precedence:
  "loadConfigEntry env argv e d =
     (case env (se_env e) of
        Some v \<Rightarrow> JStr v
      | None \<Rightarrow> (case present (argv (se_argv e)) of
          Some v \<Rightarrow> v
        | None \<Rightarrow> (case present d of Some v \<Rightarrow> v | None \<Rightarrow> se_default e)))"
  by (simp add: loadConfigEntry_def split: option.splits)

text \<open>
  The configuration of the SFU: every key of its schema is loaded, a variable of the
  environment wins over the command line, and only without either does the default count;
  for \<open>serverIp\<close> the address that the configured host name resolves to comes before it.
\<close>

theorem sfu_config_precedence:
  "set (map fst (sfu_loadConfig lookup env argv)) = set (map fst sfu_schema) \<and>
   (\<forall>(key, v) \<in> set (sfu_loadConfig lookup env argv).
      v = (case env (se_env (entry_of sfu_schema key)) of
             Some x \<Rightarrow> JStr x
           | None \<Rightarrow> (case present (argv (se_argv (entry_of sfu_schema key))) of
               Some x \<Rightarrow> x
             | None \<Rightarrow>
                 (case (if key = ''serverIp'' then lookup (the (map_of (sfu_loadConfig lookup env argv) ''hostname''))
                        else None) of
                    Some ip \<Rightarrow> JStr ip
                  | None \<Rightarrow> se_default (entry_of sfu_schema key)))))"
proof -
  have "set (map fst (sfu_loadConfig lookup env argv)) = set (map fst sfu_schema)"
    unfolding sfu_loadConfig_def sfu_schema_def Let_def by (simp add: insert_commute)
  moreover have h: "map_of (sfu_loadConfig lookup env argv) ''hostname'' =
      Some (loadConfigEntry env argv (entry_of sfu_schema ''hostname'') None)"
    by (simp add: sfu_loadConfig_def Let_def)
  have p: "present (Some (JStr x)) = Some (JStr x)" "present None = None" for x
    by (simp_all add: present_def)
  have e: "loadConfigEntry env argv e (map_option JStr d) =
      (case env (se_env e) of Some x \<Rightarrow> JStr x | None \<Rightarrow> (case present (argv (se_argv e)) of Some x \<Rightarrow> x
        | None \<Rightarrow> (case d of Some ip \<Rightarrow> JStr ip | None \<Rightarrow> se_default e)))" for e d
    by (cases d) (simp_all add: entry_precedence p cong: option.case_cong)
  note e0 = e[of _ None, unfolded option.map]
  define hn where "hn = loadConfigEntry env argv (entry_of sfu_schema ''hostname'') None"
  ultimately show ?thesis
    unfolding h hn_def[symmetric] option.sel
    unfolding sfu_loadConfig_def Let_def hn_def[symmetric]
    by (simp add: e e0) (simp add: hn_def e0)
qed

lemma sfu_config_precedence_witness:
  "set (map fst (sfu_loadConfig (\<lambda>_. None) (\<lambda>_. None) (\<lambda>_. None))) = set (map fst sfu_schema)"
  using sfu_config_precedence[of "\<lambda>_. None" "\<lambda>_. None" "\<lambda>_. None"] by (rule conjunct1)

text \<open>
  Setting \<open>MEDIA_UNIT_ID\<close> in the environment of the observer changes nothing; the variable
  that its schema reads has another name.
\<close>

theorem media_unit_id_variable_ignored:
  "observer_loadConfig (env(''MEDIA_UNIT_ID'' := v)) argv = observer_loadConfig env argv \<and>
   map_of (observer_loadConfig (env(''MEDIIA_UNIT_ID'' := Some u)) argv) ''mediaUnitId'' = Some (JStr u)"
  by (simp add: observer_loadConfig_def observer_schema_def entry_of_def entry_precedence Let_def)

end
