(* ===== verification/Logger.thy ===== *)
theory Logger
  imports JsMap
begin

text \<open>
  The loggers: \<^verbatim>\<open>common/logger.ts\<close> of the SFU and the observer (one file twice) and
  \<^verbatim>\<open>webapp/src/utils/logger.tsx\<close>. A module's logger caches which severities it prints when it
  is initialised, and the registry re-initialises it when the level changes. What is printed
  is recorded as the underlying logger (by the number of the factory that made it), the
  severity and the module.
\<close>

section \<open>Levels\<close>

datatype log_level = Trace | Debug | Info | Warn | Error | Silent

fun level_rank :: "log_level \<Rightarrow> nat" where
  "level_rank Trace = 0"
| "level_rank Debug = 1"
| "level_rank Info = 2"
| "level_rank Warn = 3"
| "level_rank Error = 4"
| "level_rank Silent = 5"

lemma level_rank_inj: "level_rank a = level_rank b \<longleftrightarrow> a = b"
  by (cases a; cases b) simp_all

instantiation log_level :: linorder
begin

definition less_eq_log_level :: "log_level \<Rightarrow> log_level \<Rightarrow> bool" where
  "a \<le> b \<longleftrightarrow> level_rank a \<le> level_rank b"

definition less_log_level :: "log_level \<Rightarrow> log_level \<Rightarrow> bool" where
  "a < b \<longleftrightarrow> level_rank a < level_rank b"

instance
  by standard (auto simp: less_eq_log_level_def less_log_level_def level_rank_inj)

end

section \<open>The loggers of the SFU and the observer\<close>

record wrapped_logger =
  wl_moduleName :: string
  wl_target :: nat
  wl_logger :: nat
  wl_level :: "log_level option"
  wl_isTrace :: bool
  wl_isDebug :: bool
  wl_isInfo :: bool
  wl_isWarning :: bool
  wl_isError :: bool

record logging =
  lg_defaultLevel :: log_level
  lg_factory :: nat
  lg_loggers :: "(string, wrapped_logger) jsmap"
  lg_out :: "(nat \<times> log_level \<times> string) list"

definition logging_new :: "log_level \<Rightarrow> logging" where
  "logging_new level = \<lparr>lg_defaultLevel = level, lg_factory = 0, lg_loggers = map_new, lg_out = []\<rparr>"

definition wrapLogger :: "nat \<Rightarrow> string \<Rightarrow> log_level option \<Rightarrow> wrapped_logger" where
  "wrapLogger logger moduleName logLevel =
     \<lparr>wl_moduleName = moduleName, wl_target = logger, wl_logger = logger, wl_level = logLevel,
      wl_isTrace = False, wl_isDebug = False, wl_isInfo = False, wl_isWarning = False, wl_isError = False\<rparr>"

definition effective_level :: "log_level \<Rightarrow> wrapped_logger \<Rightarrow> log_level" where
  "effective_level defaultLevel w = (case wl_level w of None \<Rightarrow> defaultLevel | Some l \<Rightarrow> l)"

definition logger_init :: "log_level \<Rightarrow> wrapped_logger \<Rightarrow> wrapped_logger" where
  "logger_init defaultLevel w =
     (let l = effective_level defaultLevel w in
      w\<lparr>wl_isTrace := List.member [Trace] l,
        wl_isDebug := List.member [Trace, Debug] l,
        wl_isInfo := List.member [Trace, Debug, Info] l,
        wl_isWarning := List.member [Trace, Debug, Info, Warn] l,
        wl_isError := List.member [Trace, Debug, Info, Warn, Error] l\<rparr>)"

fun prints :: "wrapped_logger \<Rightarrow> log_level \<Rightarrow> bool" where
  "prints w Trace = wl_isTrace w"
| "prints w Debug = wl_isDebug w"
| "prints w Info = wl_isInfo w"
| "prints w Warn = wl_isWarning w"
| "prints w Error = wl_isError w"
| "prints w Silent = False"

definition createLogger :: "logging \<Rightarrow> string \<Rightarrow> log_level option \<Rightarrow> logging" where
  "createLogger s moduleName logLevel =
     (let level = nullish logLevel (Some (lg_defaultLevel s));
          w = (case map_get (lg_loggers s) moduleName of
                 None \<Rightarrow> wrapLogger (lg_factory s) moduleName level
               | Some w \<Rightarrow> w\<lparr>wl_level := level\<rparr>)
      in s\<lparr>lg_loggers := map_set (lg_loggers s) moduleName (logger_init (lg_defaultLevel s) w)\<rparr>)"

definition setLogLevel :: "logging \<Rightarrow> log_level \<Rightarrow> logging" where
  "setLogLevel s level =
     foldl (\<lambda>s moduleName. createLogger s moduleName (Some level))
       (s\<lparr>lg_defaultLevel := level\<rparr>) (map_keys (lg_loggers s))"

definition setLoggerFactory :: "logging \<Rightarrow> nat \<Rightarrow> logging" where
  "setLoggerFactory s factory =
     foldl (\<lambda>s e. createLogger s (fst (snd e)) (wl_level (snd (snd e))))
       (s\<lparr>lg_factory := factory\<rparr>) (m_entries (lg_loggers s))"

text \<open>A call of one of the five methods: it uses the logger it was wrapped around.\<close>

definition log_message :: "logging \<Rightarrow> string \<Rightarrow> log_level \<Rightarrow> logging" where
  "log_message s moduleName severity =
     (case map_get (lg_loggers s) moduleName of
        None \<Rightarrow> s
      | Some w \<Rightarrow> if prints w severity then s\<lparr>lg_out := lg_out s @ [(wl_target w, severity, moduleName)]\<rparr> else s)"

section \<open>The loggers of the web application\<close>

definition web_logger_init :: "wrapped_logger \<Rightarrow> wrapped_logger" where
  "web_logger_init w =
     (let l = the (wl_level w) in
      w\<lparr>wl_isTrace := List.member [Trace] l,
        wl_isDebug := List.member [Trace, Debug] l,
        wl_isInfo := List.member [Trace, Debug, Info] l,
        wl_isWarning := List.member [Trace, Debug, Info, Warn] l,
        wl_isError := List.member [Trace, Debug, Info, Warn, Error] l\<rparr>)"

definition web_createLogger :: "logging \<Rightarrow> string \<Rightarrow> log_level option \<Rightarrow> logging" where
  "web_createLogger s moduleName logLevel =
     (let level = nullish logLevel (Some (lg_defaultLevel s));
          w = (case map_get (lg_loggers s) moduleName of
                 None \<Rightarrow> wrapLogger 0 moduleName level
               | Some w \<Rightarrow> w\<lparr>wl_level := level\<rparr>)
      in s\<lparr>lg_loggers := map_set (lg_loggers s) moduleName (web_logger_init w)\<rparr>)"

definition web_setLogLevel :: "logging \<Rightarrow> log_level \<Rightarrow> logging" where
  "web_setLogLevel s level =
     s\<lparr>lg_defaultLevel := level,
       lg_loggers := map_mapv (\<lambda>w. web_logger_init (w\<lparr>wl_level := Some level\<rparr>)) (lg_loggers s)\<rparr>"

section \<open>Facts\<close>

lemma init_prints:
  "prints (logger_init d w) x \<longleftrightarrow> effective_level d w \<le> x \<and> x \<noteq> Silent"
  by (cases x; cases "effective_level d w")
    (simp_all add: logger_init_def Let_def less_eq_log_level_def effective_level_def)

lemma web_init_prints:
  "wl_level w = Some l \<Longrightarrow> prints (web_logger_init w) x \<longleftrightarrow> l \<le> x \<and> x \<noteq> Silent"
  by (cases x; cases l) (simp_all add: web_logger_init_def Let_def less_eq_log_level_def)

lemma init_frame [simp]:
  "wl_target (logger_init d w) = wl_target w" "wl_level (logger_init d w) = wl_level w"
  "wl_target (web_logger_init w) = wl_target w" "wl_level (web_logger_init w) = wl_level w"
  by (simp_all add: logger_init_def web_logger_init_def Let_def)

lemma create_frame [simp]:
  "lg_defaultLevel (createLogger s m l) = lg_defaultLevel s" "lg_factory (createLogger s m l) = lg_factory s"
  "lg_out (createLogger s m l) = lg_out s"
  by (simp_all add: createLogger_def Let_def)

lemma create_existing:
  "map_get (lg_loggers s) m = Some w \<Longrightarrow>
   map_get (lg_loggers (createLogger s m (Some l))) k =
     (if k = m then Some (logger_init (lg_defaultLevel s) (w\<lparr>wl_level := Some l\<rparr>)) else map_get (lg_loggers s) k)"
  by (simp add: createLogger_def Let_def map_get_set)

text \<open>Re-creating loggers never changes what they print to.\<close>

lemma create_target:
  assumes "map_get (lg_loggers s) m = Some w"
  shows "\<exists>w'. map_get (lg_loggers (createLogger s k l)) m = Some w' \<and> wl_target w' = wl_target w"
  using assms by (cases "k = m") (simp_all add: createLogger_def Let_def map_get_set)

lemma set_level_loop:
  assumes "\<forall>m \<in> set ms. map_get (lg_loggers s) m \<noteq> None" "map_get (lg_loggers s) k = Some w" "lg_defaultLevel s = l"
  shows "\<exists>w'. map_get (lg_loggers (foldl (\<lambda>s m. createLogger s m (Some l)) s ms)) k = Some w' \<and>
    wl_target w' = wl_target w \<and> (k \<in> set ms \<longrightarrow> (\<forall>x. prints w' x \<longleftrightarrow> l \<le> x \<and> x \<noteq> Silent)) \<and>
    (k \<notin> set ms \<longrightarrow> w' = w)"
  using assms
proof (induction ms arbitrary: s w)
  case (Cons m ms)
  obtain v where v: "map_get (lg_loggers s) m = Some v"
    using Cons.prems(1) by auto
  let ?s1 = "createLogger s m (Some l)"
  note g = create_existing[OF v, of l]
  define w1 where "w1 = (if k = m then logger_init l (v\<lparr>wl_level := Some l\<rparr>) else w)"
  have w1: "map_get (lg_loggers ?s1) k = Some w1" "wl_target w1 = wl_target w"
    using v g Cons.prems(2,3) by (auto simp: w1_def)
  have all: "\<forall>m' \<in> set ms. map_get (lg_loggers ?s1) m' \<noteq> None"
    using Cons.prems(1) by (simp add: g)
  obtain w' where w': "map_get (lg_loggers (foldl (\<lambda>s m. createLogger s m (Some l)) ?s1 ms)) k = Some w'"
      "wl_target w' = wl_target w1" "k \<in> set ms \<longrightarrow> (\<forall>x. prints w' x \<longleftrightarrow> l \<le> x \<and> x \<noteq> Silent)"
      "k \<notin> set ms \<longrightarrow> w' = w1"
    using Cons.IH[OF all w1(1)] Cons.prems(3) by auto
  have "prints w1 x \<longleftrightarrow> l \<le> x \<and> x \<noteq> Silent" if "k = m" for x
    using that by (simp add: w1_def init_prints effective_level_def)
  then show ?case
    using w' w1(2) by (cases "k \<in> set ms") (auto simp: w1_def)
qed simp

section \<open>Properties\<close>

text \<open>
  \<open>setLogLevel\<close> reaches every logger: whatever was registered and configured before, after it
  every existing module prints exactly the messages of the given level and above, and \<open>silent\<close>
  prints nothing. The same holds for the loggers of the web application.
\<close>

theorem set_log_level_reaches_all:
  assumes "map_get (lg_loggers s) m = Some w"
  shows "lg_out (log_message (setLogLevel s level) m severity) =
      lg_out s @ (if level \<le> severity \<and> severity \<noteq> Silent then [(wl_target w, severity, m)] else []) \<and>
    lg_out (log_message (web_setLogLevel s level) m severity) =
      lg_out s @ (if level \<le> severity \<and> severity \<noteq> Silent then [(wl_target w, severity, m)] else [])"
proof -
  have k: "m \<in> set (map_keys (lg_loggers s))"
    using assms by (simp add: map_keys_get)
  have all: "\<forall>m \<in> set (map_keys (lg_loggers s)). map_get (lg_loggers (s\<lparr>lg_defaultLevel := level\<rparr>)) m \<noteq> None"
    by (simp add: map_keys_get)
  obtain w' where w': "map_get (lg_loggers (setLogLevel s level)) m = Some w'" "wl_target w' = wl_target w"
      "\<forall>x. prints w' x \<longleftrightarrow> level \<le> x \<and> x \<noteq> Silent"
    using set_level_loop[OF all] assms k unfolding setLogLevel_def by fastforce
  have "lg_out (foldl (\<lambda>s m. createLogger s m (Some level)) s' ms) = lg_out s'" for s' ms
    by (induction ms arbitrary: s') simp_all
  then have "lg_out (setLogLevel s level) = lg_out s"
    by (simp add: setLogLevel_def)
  then have "lg_out (log_message (setLogLevel s level) m severity) =
      lg_out s @ (if level \<le> severity \<and> severity \<noteq> Silent then [(wl_target w, severity, m)] else [])"
    using w' by (simp add: log_message_def)
  then show ?thesis
    using assms web_init_prints[of "w\<lparr>wl_level := Some level\<rparr>" level severity]
    by (simp add: log_message_def web_setLogLevel_def map_get_mapv)
qed

lemma set_log_level_reaches_all_witness:
  "lg_out (log_message (setLogLevel (createLogger (logging_new Error) ''Room'' None) Info) ''Room'' Warn) =
   [(0, Warn, ''Room'')]"
proof -
  let ?s = "createLogger (logging_new Error) ''Room'' None"
  have "map_get (lg_loggers ?s) ''Room'' = Some (logger_init Error (wrapLogger 0 ''Room'' (Some Error)))"
    by (simp add: createLogger_def Let_def logging_new_def map_get_set)
  from set_log_level_reaches_all[OF this, of Info Warn] show ?thesis
    by (simp add: less_eq_log_level_def) (simp add: logging_new_def wrapLogger_def)
qed

text \<open>
  \<open>setLoggerFactory\<close> does not replace anything: a module that has a logger keeps printing
  to the one the old factory made, although the function re-registers every module.
\<close>

theorem logger_factory_ignored_by_existing:
  assumes "map_get (lg_loggers s) m = Some w"
  shows "\<exists>w'. map_get (lg_loggers (setLoggerFactory s factory)) m = Some w' \<and> wl_target w' = wl_target w"
proof -
  have loop: "\<exists>w'. map_get (lg_loggers (foldl (\<lambda>s e. createLogger s (fst (snd e)) (wl_level (snd (snd e)))) s' es)) m = Some w' \<and>
      wl_target w' = wl_target w" if "map_get (lg_loggers s') m = Some v" "wl_target v = wl_target w" for s' es v
    using that
  proof (induction es arbitrary: s' v)
    case (Cons e es)
    obtain v' where "map_get (lg_loggers (createLogger s' (fst (snd e)) (wl_level (snd (snd e))))) m = Some v'"
        "wl_target v' = wl_target v"
      using create_target[OF Cons.prems(1)] by blast
    then show ?case
      using Cons.IH Cons.prems(2) by simp
  qed simp
  show ?thesis
    unfolding setLoggerFactory_def by (rule loop[of _ w]) (simp_all add: assms)
qed

lemma logger_factory_ignored_by_existing_witness:
  "\<exists>w'. map_get (lg_loggers (setLoggerFactory (createLogger (logging_new Error) ''Room'' None) 1)) ''Room'' = Some w' \<and>
     wl_target w' = 0"
proof -
  have "map_get (lg_loggers (createLogger (logging_new Error) ''Room'' None)) ''Room'' =
      Some (logger_init Error (wrapLogger 0 ''Room'' (Some Error)))"
    by (simp add: createLogger_def Let_def logging_new_def map_get_set)
  from logger_factory_ignored_by_existing[OF this, of 1] show ?thesis
    by (simp add: wrapLogger_def)
qed

end
