(* ===== verification/Startup.thy ===== *)
theory Startup
  imports AppConfig Logger
begin

text \<open>
  What the \<^verbatim>\<open>main.ts\<close> of both services do first: the loggers of the modules that are loaded, the level that the
  configuration gives them, and the branch that prints the help text.
\<close>

definition load_modules :: "string list \<Rightarrow> logging" where
  "load_modules ms = foldl (\<lambda>s m. createLogger s m None) (logging_new Error) ms"

text \<open>A level of another name enables no severity, as \<open>silent\<close> does.\<close>

definition log_level_of :: "json option \<Rightarrow> log_level" where
  "log_level_of v =
     (if v = Some (JStr ''trace'') then Trace
      else if v = Some (JStr ''debug'') then Debug
      else if v = Some (JStr ''info'') then Info
      else if v = Some (JStr ''warn'') then Warn
      else if v = Some (JStr ''error'') then Error
      else Silent)"

definition wants_help :: "arguments \<Rightarrow> bool" where
  "wants_help argv \<longleftrightarrow> js_truthy (argv ''help'') \<or> js_truthy (argv ''h'')"

definition help_message :: "(string \<times> schema_entry) list \<Rightarrow> string" where
  "help_message schema = join_with [CHR 0x0A] (help_text schema)"

end
