(* ===== verification/SfuProcess.thy ===== *)
theory SfuProcess
  imports SfuMain Startup
begin

text \<open>
  The SFU as a process, \<^verbatim>\<open>sfu/src/main.ts\<close> from its first line to its exit: the help text, the configuration
  with its DNS lookup, the media worker, then the service of \<open>SfuMain\<close>, and the handler of \<open>SIGINT\<close> with its timer.
  The handler is registered only when the worker is there: a signal that comes before ends the process, which is what
  Node does without a handler. What the process finds around it is a record: the environment, the command
  line, the id of the monitor, how configured values become a port and addresses, and whether Node ends the process when a
  rejected promise has no handler, as it does by default from version 15 on. An exception that nobody catches
  ends it with code 1 in every version.
\<close>

section \<open>State\<close>

record sfu_world =
  w_env :: environment
  w_argv :: arguments
  w_port_of :: "json option \<Rightarrow> nat"
  w_ip_of :: "json option \<Rightarrow> string"
  w_sfuId :: string
  w_jwt :: "json \<Rightarrow> string \<Rightarrow> string"
  w_url :: "nat \<Rightarrow> string option"
  w_query :: "string \<Rightarrow> url_query"
  w_rejections_end :: bool

definition sfu_modules :: "string list" where
  "sfu_modules = [''Server'', ''ClientEvents'', ''Room'', ''main'']"

text \<open>
  Where \<open>main\<close> is: at an \<open>await\<close>, past the last one, or rejected. The server object is made before the worker is
  asked for.
\<close>

datatype sfu_phase =
    Loaded
  | Resolving json
  | Spawning "(string \<times> json) list" "(unit, url_query) server"
  | Serving sfu_main
  | Failed

datatype exit_reason = ExitCode int | Killed

record sfu_process =
  sp_phase :: sfu_phase
  sp_console :: "string list"
  sp_exit :: "exit_reason option"
  sp_timers :: nat
  sp_logging :: logging
  sp_collector_closes :: nat

definition sfu_loaded :: sfu_process where
  "sfu_loaded =
     \<lparr>sp_phase = Loaded, sp_console = [], sp_exit = None, sp_timers = 0,
      sp_logging = load_modules sfu_modules, sp_collector_closes = 0\<rparr>"

section \<open>Operations\<close>

text \<open>Up to the first \<open>await\<close>: the lookup of the configured host name.\<close>

definition sfu_boot :: "sfu_world \<Rightarrow> sfu_process" where
  "sfu_boot w =
     (if wants_help (w_argv w)
      then sfu_loaded\<lparr>sp_console := [help_message sfu_schema], sp_exit := Some (ExitCode 1)\<rparr>
      else sfu_loaded\<lparr>sp_phase := Resolving (loadConfigEntry (w_env w) (w_argv w) (entry_of sfu_schema ''hostname'') None)\<rparr>)"

text \<open>The lookup answered, with no address when it failed.\<close>

definition lookup_done :: "sfu_world \<Rightarrow> sfu_process \<Rightarrow> string option \<Rightarrow> sfu_process" where
  "lookup_done w p address =
     (case sp_phase p of
        Resolving hostname \<Rightarrow>
          (let config = sfu_loadConfig (\<lambda>_. address) (w_env w) (w_argv w)
           in p\<lparr>sp_logging := setLogLevel (sp_logging p) (log_level_of (map_of config ''logLevel'')),
                sp_phase := Spawning config (server_new (w_port_of w (map_of config ''port'')))\<rparr>)
      | _ \<Rightarrow> p)"

text \<open>The worker was created, or the library refused: then \<open>main\<close> is rejected and only logs.\<close>

definition service_start :: "sfu_world \<Rightarrow> (string \<times> json) list \<Rightarrow> (unit, url_query) server \<Rightarrow> sfu_main" where
  "service_start w config server =
     sfu_main_from server (w_ip_of w (map_of config ''serverIp'')) (w_ip_of w (map_of config ''announcedIp'')) (w_sfuId w)"

definition worker_done :: "sfu_world \<Rightarrow> sfu_process \<Rightarrow> bool \<Rightarrow> sfu_process" where
  "worker_done w p created =
     (case sp_phase p of
        Spawning config server \<Rightarrow> p\<lparr>sp_phase := (if created then Serving (service_start w config server) else Failed)\<rparr>
      | _ \<Rightarrow> p)"

definition sfu_sigint :: "sfu_world \<Rightarrow> sfu_process \<Rightarrow> sfu_process" where
  "sfu_sigint w p =
     (case sp_phase p of
        Serving s \<Rightarrow>
          p\<lparr>sp_phase := Serving (sfu_main_step (w_jwt w) (w_url w) (w_query w) s Sigint),
            sp_collector_closes := Suc (sp_collector_closes p),
            sp_timers := Suc (sp_timers p)\<rparr>
      | _ \<Rightarrow> p\<lparr>sp_exit := Some Killed\<rparr>)"

definition sfu_exit_timer :: "sfu_process \<Rightarrow> sfu_process" where
  "sfu_exit_timer p = (if sp_timers p = 0 then p else p\<lparr>sp_exit := Some (ExitCode 0)\<rparr>)"

text \<open>\<open>start\<close>, \<open>stop\<close>, the processor and the signal reach the service through \<open>main\<close> only.\<close>

fun sfu_outside :: "sfu_main_event \<Rightarrow> bool" where
  "sfu_outside (Serve Start) = False"
| "sfu_outside (Serve Stop) = False"
| "sfu_outside (Serve (SetProcessor _)) = False"
| "sfu_outside Sigint = False"
| "sfu_outside _ = True"

text \<open>An event of the service, and what Node does about what nobody caught in it.\<close>

definition ends_process :: "sfu_world \<Rightarrow> sfu_fault list \<Rightarrow> bool" where
  "ends_process w fs = list_ex (\<lambda>f. f = UncaughtException \<or> w_rejections_end w) fs"

definition sfu_happens :: "sfu_world \<Rightarrow> sfu_process \<Rightarrow> sfu_main_event \<Rightarrow> sfu_process" where
  "sfu_happens w p e =
     (case sp_phase p of
        Serving s \<Rightarrow>
          (if sfu_outside e
           then (let s' = sfu_main_step (w_jwt w) (w_url w) (w_query w) s e; p' = p\<lparr>sp_phase := Serving s'\<rparr>
                 in if ends_process w (drop (length (sm_faults s)) (sm_faults s'))
                    then p'\<lparr>sp_exit := Some (ExitCode 1)\<rparr> else p')
           else p)
      | _ \<Rightarrow> p)"

datatype sfu_process_event =
    LookupDone "string option"
  | WorkerDone bool
  | SfuHappens sfu_main_event
  | SfuSigInt
  | SfuExitTimer

definition sfu_process_step :: "sfu_world \<Rightarrow> sfu_process \<Rightarrow> sfu_process_event \<Rightarrow> sfu_process" where
  "sfu_process_step w p e =
     (if sp_exit p \<noteq> None then p
      else
        (case e of
           LookupDone address \<Rightarrow> lookup_done w p address
         | WorkerDone created \<Rightarrow> worker_done w p created
         | SfuHappens x \<Rightarrow> sfu_happens w p x
         | SfuSigInt \<Rightarrow> sfu_sigint w p
         | SfuExitTimer \<Rightarrow> sfu_exit_timer p))"

definition sfu_process_run :: "sfu_world \<Rightarrow> sfu_process_event list \<Rightarrow> sfu_process" where
  "sfu_process_run w es = foldl (sfu_process_step w) (sfu_boot w) es"

section \<open>The process runs the service\<close>

lemmas sfu_process_defs =
  sfu_process_step_def lookup_done_def worker_done_def sfu_happens_def sfu_sigint_def sfu_exit_timer_def

abbreviation sfu_step_of :: "sfu_world \<Rightarrow> sfu_main \<Rightarrow> sfu_main_event \<Rightarrow> sfu_main" where
  "sfu_step_of w \<equiv> sfu_main_step (w_jwt w) (w_url w) (w_query w)"

text \<open>
  What holds in each phase, in terms of the address that the lookup gave and of what the service went through:
  events from outside, and one signal for each time that the collector was closed.
\<close>

definition configured :: "sfu_world \<Rightarrow> (string \<times> json) list \<Rightarrow> bool" where
  "configured w config \<longleftrightarrow> (\<exists>address. config = sfu_loadConfig (\<lambda>_. address) (w_env w) (w_argv w))"

abbreviation service_of :: "sfu_world \<Rightarrow> (string \<times> json) list \<Rightarrow> sfu_main" where
  "service_of w config \<equiv> service_start w config (server_new (w_port_of w (map_of config ''port'')))"

definition phase_inv :: "sfu_world \<Rightarrow> sfu_process \<Rightarrow> bool" where
  "phase_inv w p \<longleftrightarrow>
     (case sp_phase p of
        Spawning config server \<Rightarrow>
          configured w config \<and> server = server_new (w_port_of w (map_of config ''port'')) \<and> sp_collector_closes p = 0
      | Serving s \<Rightarrow>
          (\<exists>config fs. configured w config \<and> s = foldl (sfu_step_of w) (service_of w config) fs \<and>
             (\<forall>f \<in> set fs. sfu_outside f \<or> f = Sigint) \<and> tally (\<lambda>f. f = Sigint) fs = sp_collector_closes p)
      | _ \<Rightarrow> sp_collector_closes p = 0)"

lemma phase_invI:
  assumes "sp_phase p = Serving s" "configured w config" "s = foldl (sfu_step_of w) (service_of w config) fs"
    "\<forall>f \<in> set fs. sfu_outside f \<or> f = Sigint" "tally (\<lambda>f. f = Sigint) fs = sp_collector_closes p"
  shows "phase_inv w p"
  using assms unfolding phase_inv_def by auto

lemma phase_inv_serves:
  assumes inv: "phase_inv w p" and s: "sp_phase p = Serving s" and e: "sfu_outside e \<or> e = Sigint"
    and p': "sp_phase p' = Serving (sfu_step_of w s e)"
      "sp_collector_closes p' = sp_collector_closes p + of_bool (e = Sigint)"
  shows "phase_inv w p'"
proof -
  obtain config fs where fs: "configured w config" "s = foldl (sfu_step_of w) (service_of w config) fs"
      "\<forall>f \<in> set fs. sfu_outside f \<or> f = Sigint" "tally (\<lambda>f. f = Sigint) fs = sp_collector_closes p"
    using inv s by (auto simp: phase_inv_def)
  show ?thesis
    by (rule phase_invI[OF p'(1) fs(1), of "fs @ [e]"]) (use fs e p'(2) in \<open>auto simp del: sfu_main_step.simps\<close>)
qed

lemma phase_inv_step: "phase_inv w p \<Longrightarrow> phase_inv w (sfu_process_step w p e)"
proof -
  assume inv: "phase_inv w p"
  have keep: "phase_inv w p'" if "sp_phase p' = sp_phase p" "sp_collector_closes p' = sp_collector_closes p" for p'
    using inv unfolding phase_inv_def that .
  show ?thesis
  proof (cases "sp_exit p \<noteq> None")
    case False
    show ?thesis
    proof (cases e)
      case (LookupDone address)
      then show ?thesis
        using False inv by (auto simp: sfu_process_defs Let_def phase_inv_def configured_def split: sfu_phase.split)
    next
      case (WorkerDone created)
      show ?thesis
      proof (cases "\<exists>config server. sp_phase p = Spawning config server \<and> created \<and> sp_collector_closes p = 0")
        case True
        then obtain config server where c: "sp_phase p = Spawning config server" "created"
          by blast
        show ?thesis
          by (rule phase_invI[of _ "service_of w config" _ config "[]"])
            (use False WorkerDone inv c in \<open>simp_all add: sfu_process_defs phase_inv_def\<close>)
      qed (use False WorkerDone inv in \<open>auto simp: sfu_process_defs phase_inv_def split: sfu_phase.splits\<close>)
    next
      case (SfuHappens x)
      show ?thesis
      proof (cases "\<exists>s. sp_phase p = Serving s \<and> sfu_outside x")
        case True
        then obtain s where s: "sp_phase p = Serving s" "sfu_outside x"
          by blast
        then have "x \<noteq> Sigint"
          by auto
        with s show ?thesis
          by (intro phase_inv_serves[OF inv s(1), of x])
            (use False SfuHappens in \<open>simp_all add: sfu_process_defs Let_def del: sfu_main_step.simps\<close>)
      qed (use False SfuHappens in \<open>auto intro!: keep simp: sfu_process_defs split: sfu_phase.split\<close>)
    next
      case SfuSigInt
      show ?thesis
      proof (cases "\<exists>s. sp_phase p = Serving s")
        case True
        then obtain s where s: "sp_phase p = Serving s" ..
        show ?thesis
          by (rule phase_inv_serves[OF inv s, of Sigint])
            (use False SfuSigInt s in \<open>simp_all add: sfu_process_defs del: sfu_main_step.simps\<close>)
      qed (use False SfuSigInt in \<open>auto intro!: keep simp: sfu_process_defs split: sfu_phase.split\<close>)
    qed (use False in \<open>auto intro!: keep simp: sfu_process_defs\<close>)
  qed (use inv in \<open>simp add: sfu_process_step_def\<close>)
qed

interpretation phases: free_invariant_system "sfu_process_step w" "phase_inv w" for w
  by unfold_locales (rule phase_inv_step)

lemma phase_inv_boot: "phase_inv w (sfu_boot w)"
  by (simp add: phase_inv_def sfu_boot_def sfu_loaded_def)

lemma phase_inv_run: "phase_inv w (sfu_process_run w es)"
  unfolding sfu_process_run_def by (rule phases.free_run_inv[OF phase_inv_boot])

text \<open>
  The SFU's process runs its service: whenever it serves, its service is in the state of a run from the configuration
  that the environment, the command line and the answer of the lookup give, in which only \<open>main\<close> has
  touched the server, and the server was stopped once for each time that the collector was closed. What
  is proved of every run of the service holds in the process.
\<close>

theorem sfu_process_refines_service:
  assumes "sp_phase (sfu_process_run w es) = Serving s"
  shows "\<exists>address fs. let config = sfu_loadConfig (\<lambda>_. address) (w_env w) (w_argv w) in
    s = sfu_main_run (w_jwt w) (w_url w) (w_query w) (w_port_of w (map_of config ''port''))
          (w_ip_of w (map_of config ''serverIp'')) (w_ip_of w (map_of config ''announcedIp'')) (w_sfuId w) fs \<and>
    (\<forall>f \<in> set fs. sfu_outside f \<or> f = Sigint) \<and>
    tally (\<lambda>f. f = Sigint) fs = sp_collector_closes (sfu_process_run w es)"
  using phase_inv_run[of w es] assms
  unfolding phase_inv_def configured_def service_start_def sfu_main_start_def sfu_main_run_def Let_def by auto

section \<open>How the process ends\<close>



lemma ends_simps [simp]: "ends_process w [] = False" "ends_process w [UncaughtException]"
  "ends_process w [UnhandledRejection] = w_rejections_end w"
  by (simp_all add: ends_process_def)

lemma sm_faults_router [simp]:
  "sm_faults (sfu_router_created s p k caps) = sm_faults s" "sm_faults (sfu_router_failed s p) = sm_faults s"
  "sm_faults (sfu_frame jwt s now ws m) = sm_faults s" "sm_faults (sfu_socket_event jwt s ws f) = sm_faults s"
  "sm_faults (sfu_connection s ws q) = sm_faults s"
  by (simp_all add: sfu_router_created_def sfu_router_failed_def sfu_frame_def sfu_socket_event_def sfu_connection_def Let_def
      split: option.split room_ref.split)

lemma sm_faults_server [simp]: "sm_faults (sfu_server_event url pq s e) = sm_faults s"
proof -
  have "sm_faults (sfu_react url s x) = sm_faults s" for s x
    by (cases x) simp_all
  then have "sm_faults (foldl (sfu_react url) s xs) = sm_faults s" for s xs
    by (induction xs arbitrary: s) simp_all
  then show ?thesis
    by (simp add: sfu_server_event_def Let_def)
qed










section \<open>Signals\<close>

lemma main_server_inv_step:
  "server_inv (sm_server s) \<Longrightarrow> server_inv (sm_server (sfu_main_step jwt url pq s e))"
  unfolding server_of_step by (rule server.free_run_inv)

interpretation main_server: free_invariant_system "sfu_main_step jwt url pq" "\<lambda>s. server_inv (sm_server s)" for jwt url pq
  by unfold_locales (rule main_server_inv_step)

lemma serving_server_inv:
  assumes "sp_phase (sfu_process_run w es) = Serving s"
  shows "server_inv (sm_server s)"
proof -
  obtain config fs where "s = foldl (sfu_step_of w) (service_of w config) fs"
    using phase_inv_run[of w es] assms unfolding phase_inv_def by auto
  moreover have "server_inv (sm_server (service_of w config))" for config
    by (simp add: service_start_def sfu_main_start_def sfu_main_from_def server_start_def set_processor_def server_new_def server_inv_def
        sv_log_def setState_def)
  ultimately show ?thesis
    using main_server.free_run_inv by blast
qed

text \<open>
  A second signal is not lost: when the signal comes while the server is being started, it has no effect on
  the server, but the one that comes when the server listens closes it.
\<close>

theorem second_signal_closes_sfu:
  assumes "sp_exit (sfu_process_run w es) = None" "sp_phase (sfu_process_run w es) = Serving s"
    "sv_state (sm_server s) = Started"
  shows "\<exists>s'. sp_phase (sfu_process_run w (es @ [SfuSigInt, SfuHappens (Serve (server_event.Callback AwaitListening)), SfuSigInt])) =
      Serving s' \<and> sv_state (sm_server s') = Stopped \<and> sv_out (sm_server s') = sv_out (sm_server s) @ [CloseWsServer]"
proof -
  have "server_inv (sm_server s)"
    by (rule serving_server_inv[OF assms(2)])
  then have "sv_awaits (sm_server s) = [AwaitListening]" "sv_hasServers (sm_server s)"
    using assms(3) by (simp_all add: server_inv_def)
  then show ?thesis
    using assms unfolding sfu_process_run_def
    by (simp add: sfu_process_defs sfu_server_event_def Let_def server_stop_def server_resume_def setState_def sv_log_def)
qed

section \<open>A run\<close>

definition demo_world :: sfu_world where
  "demo_world =
     \<lparr>w_env = (\<lambda>_. None), w_argv = (\<lambda>_. None), w_port_of = (\<lambda>_. 8080), w_ip_of = (\<lambda>_. ''127.0.0.1''), w_sfuId = ''sfu'',
      w_jwt = (\<lambda>_ _. ''t''), w_url = (\<lambda>_. None), w_query = (\<lambda>_ _. None), w_rejections_end = True\<rparr>"

lemma demo_serving:
  "sp_phase (sfu_process_run demo_world [LookupDone None, WorkerDone True]) =
     Serving (service_of demo_world (sfu_loadConfig (\<lambda>_. None) (\<lambda>_. None) (\<lambda>_. None)))"
  "sp_exit (sfu_process_run demo_world [LookupDone None, WorkerDone True]) = None"
  by (simp_all add: sfu_process_run_def sfu_boot_def sfu_loaded_def wants_help_def demo_world_def sfu_process_defs Let_def)

lemma sfu_process_refines_service_witness:
  "\<exists>address fs. let config = sfu_loadConfig (\<lambda>_. address) (w_env demo_world) (w_argv demo_world) in
    service_of demo_world (sfu_loadConfig (\<lambda>_. None) (\<lambda>_. None) (\<lambda>_. None)) =
      sfu_main_run (w_jwt demo_world) (w_url demo_world) (w_query demo_world) (w_port_of demo_world (map_of config ''port''))
          (w_ip_of demo_world (map_of config ''serverIp'')) (w_ip_of demo_world (map_of config ''announcedIp''))
          (w_sfuId demo_world) fs \<and>
    (\<forall>f \<in> set fs. sfu_outside f \<or> f = Sigint) \<and>
    tally (\<lambda>f. f = Sigint) fs = sp_collector_closes (sfu_process_run demo_world [LookupDone None, WorkerDone True])"
  by (rule sfu_process_refines_service[OF demo_serving(1)])

lemma second_signal_closes_sfu_witness:
  "\<exists>s'. sp_phase (sfu_process_run demo_world ([LookupDone None, WorkerDone True] @
      [SfuSigInt, SfuHappens (Serve (server_event.Callback AwaitListening)), SfuSigInt])) = Serving s' \<and>
    sv_state (sm_server s') = Stopped \<and> sv_out (sm_server s') = [Listen 8080, CloseWsServer]"
proof -
  let ?s = "service_of demo_world (sfu_loadConfig (\<lambda>_. None) (\<lambda>_. None) (\<lambda>_. None))"
  have "sv_state (sm_server ?s) = Started" "sv_out (sm_server ?s) = [Listen 8080]"
    by (simp_all add: service_start_def demo_world_def sfu_main_start_def sfu_main_from_def server_start_def set_processor_def server_new_def
        sv_log_def setState_def)
  with second_signal_closes_sfu[OF demo_serving(2,1)] show ?thesis
    by simp
qed

end
