(* ===== verification/Sources.thy ===== *)
theory Sources
  imports JsMap
begin

text \<open>
  What the two tables of the observer share, \<^verbatim>\<open>observer/src/sources/ObservedClients.ts\<close> and
  \<^verbatim>\<open>observer/src/sources/ObservedSfus.ts\<close>: the entry of a media component, the web sockets with
  their listeners, the sources of the observer library (by number, with their \<open>closed\<close> flag)
  and what is done to the library and the sockets. The interface \<open>source_table\<close> states in terms
  of four moves what an operation may do to a table; its lemmas hold for both.
\<close>

section \<open>Data\<close>

record entry =
  e_id :: string
  e_source :: nat
  e_disconnected :: "nat option"
  e_webSocket :: "nat option"

datatype source_out =
    CreateSource nat "(string \<times> string option) list"
  | AcceptSample nat string
  | CloseSource nat
  | CloseWebSocket nat int string

record observed =
  ob_maxDisconnectingTimeInMs :: int
  ob_entries :: "(string, entry) jsmap"
  ob_sockets :: "nat \<Rightarrow> (string \<times> nat) option"
  ob_closed :: "nat \<Rightarrow> bool"
  ob_nsources :: nat
  ob_out :: "source_out list"

definition observed_new :: "int \<Rightarrow> observed" where
  "observed_new maxTime =
     \<lparr>ob_maxDisconnectingTimeInMs = maxTime, ob_entries = map_new, ob_sockets = (\<lambda>_. None),
      ob_closed = (\<lambda>_. False), ob_nsources = 0, ob_out = []\<rparr>"

text \<open>The time stamp \<open>disconnected\<close> is tested as a boolean: 0 counts as connected.\<close>

definition is_disconnected :: "entry \<Rightarrow> bool" where
  "is_disconnected e = (case e_disconnected e of None \<Rightarrow> False | Some t \<Rightarrow> t \<noteq> 0)"

definition disconnected_since :: "entry \<Rightarrow> nat" where
  "disconnected_since e = (case e_disconnected e of None \<Rightarrow> 0 | Some t \<Rightarrow> t)"

definition ob_log :: "observed \<Rightarrow> source_out \<Rightarrow> observed" where
  "ob_log s x = s\<lparr>ob_out := ob_out s @ [x]\<rparr>"

text \<open>The message listener of a socket: it feeds the source it was set up with.\<close>

definition ob_message :: "observed \<Rightarrow> nat \<Rightarrow> string \<Rightarrow> observed" where
  "ob_message s ws data =
     (case ob_sockets s ws of None \<Rightarrow> s | Some (_, src) \<Rightarrow> ob_log s (AcceptSample src data))"

text \<open>\<open>source.close()\<close> called, or closed by the library.\<close>

definition ob_source_closed :: "observed \<Rightarrow> nat \<Rightarrow> observed" where
  "ob_source_closed s src = s\<lparr>ob_closed := (ob_closed s)(src := True)\<rparr>"

section \<open>Moves of a table\<close>

fun is_close :: "source_out \<Rightarrow> bool" where
  "is_close (CloseSource _) = True"
| "is_close _ = False"

text \<open>
  The operations are sequences of: logging anything but a close; changing an entry but for its
  id and its source; adding an entry with the next source under a new id; dropping the entry
  of an id, with or without closing its source; emptying the table.
\<close>

inductive table_move :: "observed \<Rightarrow> observed \<Rightarrow> bool" where
  move_frame: "ob_entries s' = ob_entries s \<Longrightarrow> ob_nsources s' = ob_nsources s \<Longrightarrow>
    ob_out s' = ob_out s @ os \<Longrightarrow> list_all (\<lambda>x. \<not> is_close x) os \<Longrightarrow> table_move s s'"
| move_touch: "map_get (ob_entries s) k = Some e \<Longrightarrow> e_id e' = e_id e \<Longrightarrow> e_source e' = e_source e \<Longrightarrow>
    table_move s (s\<lparr>ob_entries := map_set (ob_entries s) k e'\<rparr>)"
| move_create: "map_get (ob_entries s) k = None \<Longrightarrow> e_id e = k \<Longrightarrow> e_source e = ob_nsources s \<Longrightarrow>
    table_move s (s\<lparr>ob_entries := map_set (ob_entries s) k e, ob_nsources := Suc (ob_nsources s)\<rparr>)"
| move_drop: "map_get (ob_entries s) k = Some e \<Longrightarrow> os = [] \<or> os = [CloseSource (e_source e)] \<Longrightarrow>
    table_move s (s\<lparr>ob_entries := map_delete (ob_entries s) k, ob_out := ob_out s @ os\<rparr>)"
| move_clear: "table_move s (s\<lparr>ob_entries := map_clear (ob_entries s)\<rparr>)"

abbreviation table_moves :: "observed \<Rightarrow> observed \<Rightarrow> bool" where
  "table_moves \<equiv> table_move\<^sup>*\<^sup>*"

text \<open>
  Well-formed: the entries stand under their ids, have different sources that exist, and no
  source of an entry was closed by the table; no source was closed twice.
\<close>

definition closes :: "observed \<Rightarrow> nat \<Rightarrow> nat" where
  "closes s src = tally (\<lambda>x. x = CloseSource src) (ob_out s)"

definition table_wf :: "observed \<Rightarrow> bool" where
  "table_wf s \<longleftrightarrow> map_wf (ob_entries s) \<and>
     (\<forall>k e. map_get (ob_entries s) k = Some e \<longrightarrow>
        e_id e = k \<and> e_source e < ob_nsources s \<and> closes s (e_source e) = 0) \<and>
     (\<forall>k e k' e'. map_get (ob_entries s) k = Some e \<longrightarrow> map_get (ob_entries s) k' = Some e' \<longrightarrow>
        e_source e = e_source e' \<longrightarrow> k = k') \<and>
     (\<forall>src. closes s src \<le> Suc 0 \<and> (ob_nsources s \<le> src \<longrightarrow> closes s src = 0))"

lemma table_wfD:
  assumes "table_wf s"
  shows "map_wf (ob_entries s)"
    and "map_get (ob_entries s) k = Some e \<Longrightarrow> e_id e = k"
    and "map_get (ob_entries s) k = Some e \<Longrightarrow> e_source e < ob_nsources s"
    and "map_get (ob_entries s) k = Some e \<Longrightarrow> closes s (e_source e) = 0"
    and "map_get (ob_entries s) k = Some e \<Longrightarrow> map_get (ob_entries s) k' = Some e' \<Longrightarrow>
      e_source e = e_source e' \<Longrightarrow> k = k'"
    and "closes s src \<le> Suc 0" and "ob_nsources s \<le> src \<Longrightarrow> closes s src = 0"
  using assms unfolding table_wf_def by blast+

lemma table_wfI:
  assumes "map_wf (ob_entries s)"
    and "\<And>k e. map_get (ob_entries s) k = Some e \<Longrightarrow> e_id e = k"
    and "\<And>k e. map_get (ob_entries s) k = Some e \<Longrightarrow> e_source e < ob_nsources s"
    and "\<And>k e. map_get (ob_entries s) k = Some e \<Longrightarrow> closes s (e_source e) = 0"
    and "\<And>k e k' e'. map_get (ob_entries s) k = Some e \<Longrightarrow> map_get (ob_entries s) k' = Some e' \<Longrightarrow>
      e_source e = e_source e' \<Longrightarrow> k = k'"
    and "\<And>src. closes s src \<le> Suc 0" and "\<And>src. ob_nsources s \<le> src \<Longrightarrow> closes s src = 0"
  shows "table_wf s"
  using assms unfolding table_wf_def by blast

lemma closes_simps [simp]:
  "closes (s\<lparr>ob_entries := m\<rparr>) src = closes s src"
  "closes (s\<lparr>ob_entries := m, ob_nsources := n\<rparr>) src = closes s src"
  "closes (s\<lparr>ob_entries := m, ob_out := ob_out s @ os\<rparr>) src =
     closes s src + tally (\<lambda>x. x = CloseSource src) os"
  by (simp_all add: closes_def)

lemma closes_frame:
  "ob_out s' = ob_out s @ os \<Longrightarrow> list_all (\<lambda>x. \<not> is_close x) os \<Longrightarrow> closes s' src = closes s src"
  by (auto simp: closes_def list_all_iff intro!: tally_zero)

text \<open>Entries may go and may change, as long as id and source stay.\<close>

lemma table_wf_sub:
  assumes wf: "table_wf s" and m: "map_wf (ob_entries s')" and n: "ob_nsources s' = ob_nsources s"
    and sub: "\<And>k e. map_get (ob_entries s') k = Some e \<Longrightarrow>
      \<exists>e0. map_get (ob_entries s) k = Some e0 \<and> e_id e = e_id e0 \<and> e_source e = e_source e0"
    and c: "\<And>k e. map_get (ob_entries s') k = Some e \<Longrightarrow> closes s' (e_source e) = closes s (e_source e)"
      "\<And>src. closes s' src \<le> Suc 0" "\<And>src. ob_nsources s \<le> src \<Longrightarrow> closes s' src = 0"
  shows "table_wf s'"
proof (rule table_wfI)
  note w = table_wfD[OF wf]
  fix k e
  assume e: "map_get (ob_entries s') k = Some e"
  then obtain e0 where e0: "map_get (ob_entries s) k = Some e0" "e_id e = e_id e0" "e_source e = e_source e0"
    using sub by blast
  show "e_id e = k"
    using w(2)[OF e0(1)] e0(2) by simp
  show "e_source e < ob_nsources s'"
    using w(3)[OF e0(1)] e0(3) n by simp
  show "closes s' (e_source e) = 0"
    by (rule trans[OF c(1)[OF e]]) (unfold e0(3), rule w(4)[OF e0(1)])
  fix k' e'
  assume e': "map_get (ob_entries s') k' = Some e'" "e_source e = e_source e'"
  obtain e1 where e1: "map_get (ob_entries s) k' = Some e1" "e_source e' = e_source e1"
    using sub[OF e'(1)] by blast
  show "k = k'"
    by (rule w(5)[OF e0(1) e1(1)]) (use e0(3) e'(2) e1(2) in simp)
qed (use m n c(2,3) in simp_all)

lemma table_move_wf: "table_move s s' \<Longrightarrow> table_wf s \<Longrightarrow> table_wf s'"
proof (induction rule: table_move.induct)
  case (move_frame s' s os)
  note c = closes_frame[OF move_frame(3,4)] and w = table_wfD[OF move_frame(5)]
  show ?case
    by (rule table_wf_sub[OF move_frame(5)]) (simp_all add: w(1,6,7) c move_frame(1,2))
next
  case (move_touch s k e e')
  note w = table_wfD[OF move_touch(4)]
  show ?case
  proof (rule table_wf_sub[OF move_touch(4)])
    fix l f
    assume "map_get (ob_entries (s\<lparr>ob_entries := map_set (ob_entries s) k e'\<rparr>)) l = Some f"
    then show "\<exists>e0. map_get (ob_entries s) l = Some e0 \<and> e_id f = e_id e0 \<and> e_source f = e_source e0"
      using move_touch(1-3) by (cases "l = k") (simp_all add: map_get_set)
  qed (use w(1,6,7) in \<open>simp_all add: map_wf_set\<close>)
next
  case (move_create s k e)
  note w = table_wfD[OF move_create(4)]
  let ?s' = "s\<lparr>ob_entries := map_set (ob_entries s) k e, ob_nsources := Suc (ob_nsources s)\<rparr>"
  show ?case
  proof (rule table_wfI)
    fix l f
    assume f: "map_get (ob_entries ?s') l = Some f"
    then consider "l = k" "f = e" | "l \<noteq> k" "map_get (ob_entries s) l = Some f"
      by (cases "l = k") (simp_all add: map_get_set)
    note f_cases = this
    show "e_id f = l"
      using f_cases by cases (simp_all add: w(2) move_create(2))
    show "e_source f < ob_nsources ?s'"
      using f_cases by cases (simp_all add: w(3) move_create(3) less_SucI)
    show "closes ?s' (e_source f) = 0"
      using f_cases by cases (simp_all add: w(4,7) move_create(3))
    fix l' f'
    assume "map_get (ob_entries ?s') l' = Some f'" and src: "e_source f = e_source f'"
    then consider "l' = k" "f' = e" | "l' \<noteq> k" "map_get (ob_entries s) l' = Some f'"
      by (cases "l' = k") (simp_all add: map_get_set)
    then show "l = l'"
    proof cases
      case 1
      then have n: "e_source f = ob_nsources s"
        using src move_create(3) by simp
      from f_cases show ?thesis
      proof cases
        case 2
        then show ?thesis using w(3)[OF 2(2)] n by simp
      qed (use 1 in simp)
    next
      case 2
      then have n: "e_source f < ob_nsources s"
        using w(3)[OF 2(2)] src by simp
      from f_cases show ?thesis
      proof cases
        case 1
        then show ?thesis using n move_create(3) by simp
      next
        case 2
        then show ?thesis
          using w(5)[OF 2(2) _ src] \<open>map_get (ob_entries s) l' = Some f'\<close> by simp
      qed
    qed
  qed (use w(1,6,7) in \<open>simp_all add: map_wf_set\<close>)
next
  case (move_drop s k e os)
  note w = table_wfD[OF move_drop(3)]
  have one: "tally (\<lambda>x. x = CloseSource src) os \<le> of_bool (src = e_source e)" for src
    using move_drop(2) by auto
  show ?case
  proof (rule table_wf_sub[OF move_drop(3)])
    fix l f
    assume "map_get (ob_entries (s\<lparr>ob_entries := map_delete (ob_entries s) k, ob_out := ob_out s @ os\<rparr>)) l = Some f"
    then have f: "l \<noteq> k" "map_get (ob_entries s) l = Some f"
      by (auto simp: map_get_delete split: if_splits)
    then have "e_source f \<noteq> e_source e"
      using w(5)[OF f(2) move_drop(1)] by auto
    then show "closes (s\<lparr>ob_entries := map_delete (ob_entries s) k, ob_out := ob_out s @ os\<rparr>) (e_source f) =
        closes s (e_source f)"
      using one[of "e_source f"] by (simp only: closes_simps) simp
    show "\<exists>e0. map_get (ob_entries s) l = Some e0 \<and> e_id f = e_id e0 \<and> e_source f = e_source e0"
      using f by blast
  next
    fix src
    show "closes (s\<lparr>ob_entries := map_delete (ob_entries s) k, ob_out := ob_out s @ os\<rparr>) src \<le> Suc 0"
      using one[of src] w(4)[OF move_drop(1)] w(6)[of src] by (cases "src = e_source e") simp_all
    assume "ob_nsources s \<le> src"
    then show "closes (s\<lparr>ob_entries := map_delete (ob_entries s) k, ob_out := ob_out s @ os\<rparr>) src = 0"
      using one[of src] w(3)[OF move_drop(1)] w(7)[of src] by simp
  qed (use w(1) in \<open>simp_all add: map_wf_delete\<close>)
next
  case (move_clear s)
  note w = table_wfD[OF move_clear]
  show ?case
    by (rule table_wf_sub[OF move_clear]) (use w in \<open>simp_all add: map_get_clear map_wf_clear\<close>)
qed

lemma table_moves_wf: "table_moves s s' \<Longrightarrow> table_wf s \<Longrightarrow> table_wf s'"
  by (induction rule: rtranclp_induct) (auto intro: table_move_wf)

lemma table_wf_new [simp]: "table_wf (observed_new t)"
  by (simp add: table_wf_def observed_new_def closes_def)

section \<open>The interface of a table\<close>

locale source_table =
  fixes step :: "observed \<Rightarrow> 'e \<Rightarrow> observed"
  assumes step_moves: "table_wf s \<Longrightarrow> table_moves s (step s e)"
begin

lemma run_wf: "table_wf s \<Longrightarrow> table_wf (foldl step s es)"
  by (induction es arbitrary: s) (auto intro: table_moves_wf step_moves)

text \<open>The two guarantees every client of a table has: sources are closed at most once, and never
  while the table still holds them.\<close>

lemma closed_once: "closes (foldl step (observed_new t) es) src \<le> 1"
  using table_wfD(6)[OF run_wf[OF table_wf_new[of t], of es], of src] by simp

lemma held_not_closed:
  "map_get (ob_entries (foldl step (observed_new t) es)) k = Some e \<Longrightarrow>
   closes (foldl step (observed_new t) es) (e_source e) = 0"
  by (rule table_wfD(4)[OF run_wf[OF table_wf_new]])

lemma sources_distinct:
  "map_get (ob_entries (foldl step (observed_new t) es)) k = Some e \<Longrightarrow>
   map_get (ob_entries (foldl step (observed_new t) es)) k' = Some e' \<Longrightarrow>
   e_source e = e_source e' \<Longrightarrow> k = k'"
  by (rule table_wfD(5)[OF run_wf[OF table_wf_new]])

end

section \<open>Moves of the shared operations\<close>

lemma moves_step: "table_move s s' \<Longrightarrow> table_moves s s'"
  by (rule r_into_rtranclp)

lemma moves_trans: "table_moves s s' \<Longrightarrow> table_moves s' s'' \<Longrightarrow> table_moves s s''"
  by (rule rtranclp_trans)

lemma moves_if: "(b \<Longrightarrow> table_moves s x) \<Longrightarrow> (\<not> b \<Longrightarrow> table_moves s y) \<Longrightarrow> table_moves s (if b then x else y)"
  by simp

lemma moves_frame:
  "ob_entries s' = ob_entries s \<Longrightarrow> ob_nsources s' = ob_nsources s \<Longrightarrow> ob_out s' = ob_out s \<Longrightarrow>
   table_moves s s'"
  by (intro moves_step move_frame[where os = "[]"]) simp_all

lemma moves_log: "\<not> is_close x \<Longrightarrow> table_moves s (ob_log s x)"
  by (intro moves_step move_frame[where os = "[x]"]) (simp_all add: ob_log_def)

lemma moves_message [inv_intros]: "table_moves s (ob_message s ws data)"
  by (auto simp: ob_message_def split: option.splits intro: moves_log)

lemma moves_source_closed [inv_intros]: "table_moves s (ob_source_closed s src)"
  by (rule moves_frame) (simp_all add: ob_source_closed_def)

text \<open>The change of an entry, with changes of sockets around it.\<close>

lemma moves_touch:
  assumes "map_get (ob_entries s) k = Some e" "e_id e' = e_id e" "e_source e' = e_source e"
    and "s' = s\<lparr>ob_entries := map_set (ob_entries s) k e', ob_sockets := f\<rparr>"
  shows "table_moves s s'"
proof -
  have "table_moves s (s\<lparr>ob_entries := map_set (ob_entries s) k e'\<rparr>)"
    using assms(1-3) by (intro moves_step move_touch)
  moreover have "table_moves (s\<lparr>ob_entries := map_set (ob_entries s) k e'\<rparr>) s'"
    by (rule moves_frame) (simp_all add: assms(4))
  ultimately show ?thesis
    by (rule moves_trans)
qed

lemma moves_fold:
  assumes "\<And>s x. P s \<Longrightarrow> table_moves s (f s x)" "\<And>s s'. P s \<Longrightarrow> table_moves s s' \<Longrightarrow> P s'" "P s"
  shows "table_moves s (foldl f s xs)"
  using assms(3)
proof (induction xs arbitrary: s)
  case (Cons x xs)
  from assms(1)[OF Cons.prems] have m: "table_moves s (f s x)" .
  with assms(2)[OF Cons.prems m] show ?case
    using Cons.IH moves_trans by simp
qed simp

end
