(* ===== verification/ObservedClients.thy ===== *)
theory ObservedClients
  imports Sources
begin

text \<open>
  The clients the observer receives samples from, \<^verbatim>\<open>observer/src/sources/ObservedClients.ts\<close>: a
  client keeps its source over reconnections, and is dropped by \<open>check\<close> when it has been
  disconnected for too long.
\<close>

section \<open>Operations\<close>

record client_query =
  cq_clientId :: "string option"
  cq_serviceId :: "string option"
  cq_mediaUnitId :: "string option"
  cq_roomId :: "string option"
  cq_callId :: "string option"

definition client_setup :: "observed \<Rightarrow> entry \<Rightarrow> nat \<Rightarrow> observed" where
  "client_setup s e ws =
     s\<lparr>ob_entries := map_set (ob_entries s) (e_id e) (e\<lparr>e_webSocket := Some ws, e_disconnected := None\<rparr>),
       ob_sockets := (ob_sockets s)(ws \<mapsto> (e_id e, e_source e))\<rparr>"

definition client_accept :: "observed \<Rightarrow> nat \<Rightarrow> client_query \<Rightarrow> observed" where
  "client_accept s ws q =
     (if \<not> str_truthy (cq_clientId q) \<or> \<not> str_truthy (cq_roomId q) \<or> \<not> str_truthy (cq_callId q)
      then ob_log s (CloseWebSocket ws 4001
             ''clientId, roomId, callId are mandatory fields in query string'')
      else
        (case map_get (ob_entries s) (the (cq_clientId q)) of
           Some existing \<Rightarrow> client_setup s existing ws
         | None \<Rightarrow>
             let src = ob_nsources s;
                 e = \<lparr>e_id = the (cq_clientId q), e_source = src, e_disconnected = None, e_webSocket = None\<rparr>;
                 s1 = ob_log s (CreateSource src
                   [(''serviceId'', cq_serviceId q), (''mediaUnitId'', cq_mediaUnitId q),
                    (''callId'', cq_callId q), (''clientId'', cq_clientId q), (''roomId'', cq_roomId q)])
             in client_setup (s1\<lparr>ob_entries := map_set (ob_entries s1) (e_id e) e,
                                ob_nsources := Suc src\<rparr>) e ws))"

definition client_disconnect :: "observed \<Rightarrow> nat \<Rightarrow> string \<Rightarrow> observed" where
  "client_disconnect s now clientId =
     (case map_get (ob_entries s) clientId of
        None \<Rightarrow> s
      | Some e \<Rightarrow>
          if is_disconnected e then s
          else s\<lparr>ob_entries := map_set (ob_entries s) clientId (e\<lparr>e_disconnected := Some now\<rparr>)\<rparr>)"

definition client_remove :: "observed \<Rightarrow> string \<Rightarrow> observed" where
  "client_remove s clientId =
     (case map_get (ob_entries s) clientId of
        None \<Rightarrow> s
      | Some e \<Rightarrow>
          let s1 = s\<lparr>ob_entries := map_delete (ob_entries s) clientId\<rparr>
          in if ob_closed s1 (e_source e) then s1
             else ob_source_closed (ob_log s1 (CloseSource (e_source e))) (e_source e))"

definition client_check :: "observed \<Rightarrow> nat \<Rightarrow> observed" where
  "client_check s now =
     foldl (\<lambda>s e. if is_disconnected e \<and>
                     ob_maxDisconnectingTimeInMs s < int now - int (disconnected_since e)
                  then client_remove s (e_id e) else s)
       s (map_values (ob_entries s))"

definition client_clear :: "observed \<Rightarrow> nat \<Rightarrow> observed" where
  "client_clear s now =
     (let s1 = foldl (\<lambda>s k. client_disconnect s now k) s (map_keys (ob_entries s))
      in s1\<lparr>ob_entries := map_clear (ob_entries s1)\<rparr>)"

text \<open>The \<open>close\<close> listener of a socket that was set up: the message listener goes first.\<close>

definition client_socket_closed :: "observed \<Rightarrow> nat \<Rightarrow> nat \<Rightarrow> observed" where
  "client_socket_closed s now ws =
     (case ob_sockets s ws of
        None \<Rightarrow> s
      | Some (clientId, _) \<Rightarrow>
          client_disconnect (s\<lparr>ob_sockets := (ob_sockets s)(ws := None)\<rparr>) now clientId)"

datatype client_event =
    ClientAccept nat client_query
  | ClientMessage nat string
  | ClientSocketClosed nat nat
  | ClientCheck nat
  | ClientClear nat
  | ClientSourceClosed nat

fun client_step :: "observed \<Rightarrow> client_event \<Rightarrow> observed" where
  "client_step s (ClientAccept ws q) = client_accept s ws q"
| "client_step s (ClientMessage ws data) = ob_message s ws data"
| "client_step s (ClientSocketClosed now ws) = client_socket_closed s now ws"
| "client_step s (ClientCheck now) = client_check s now"
| "client_step s (ClientClear now) = client_clear s now"
| "client_step s (ClientSourceClosed src) = ob_source_closed s src"

section \<open>The operations are moves\<close>

lemma client_setup_moves:
  "map_get (ob_entries s) (e_id e) = Some e \<Longrightarrow> table_moves s (client_setup s e ws)"
  by (rule moves_touch[where e = e and k = "e_id e" and
        e' = "e\<lparr>e_webSocket := Some ws, e_disconnected := None\<rparr>" and
        f = "(ob_sockets s)(ws \<mapsto> (e_id e, e_source e))"]) (simp_all add: client_setup_def)

lemma client_create_moves:
  assumes "map_get (ob_entries s) k = None" "e_id e = k" "e_source e = ob_nsources s"
  shows "table_moves s (client_setup ((ob_log s (CreateSource (ob_nsources s) fs))
    \<lparr>ob_entries := map_set (ob_entries s) k e, ob_nsources := Suc (ob_nsources s)\<rparr>) e ws)"
proof -
  define s1 where "s1 = ob_log s (CreateSource (ob_nsources s) fs)"
  have frame: "ob_entries s1 = ob_entries s" "ob_nsources s1 = ob_nsources s"
    by (simp_all add: s1_def ob_log_def)
  have "table_moves s s1"
    unfolding s1_def by (rule moves_log) simp
  moreover have "table_move s1 (s1\<lparr>ob_entries := map_set (ob_entries s) k e, ob_nsources := Suc (ob_nsources s)\<rparr>)"
    using move_create[of s1 k e] assms by (simp add: frame)
  moreover have "table_moves (s1\<lparr>ob_entries := map_set (ob_entries s) k e, ob_nsources := Suc (ob_nsources s)\<rparr>)
      (client_setup (s1\<lparr>ob_entries := map_set (ob_entries s) k e, ob_nsources := Suc (ob_nsources s)\<rparr>) e ws)"
    by (rule client_setup_moves) (simp add: map_get_set assms(2))
  ultimately show ?thesis
    unfolding s1_def by (meson moves_step moves_trans)
qed

lemma client_accept_moves: "table_wf s \<Longrightarrow> table_moves s (client_accept s ws q)"
proof (cases "map_get (ob_entries s) (the (cq_clientId q))")
  case (Some e)
  assume "table_wf s"
  then have "map_get (ob_entries s) (e_id e) = Some e"
    using table_wfD(2) Some by metis
  then show ?thesis
    unfolding client_accept_def Some option.case
    by (intro client_setup_moves moves_log moves_if) simp
next
  case None
  show ?thesis
    unfolding client_accept_def None option.case Let_def
    by (intro moves_if moves_log) (use client_create_moves[OF None] in \<open>simp_all add: ob_log_def\<close>)
qed

lemma client_disconnect_moves: "table_moves s (client_disconnect s now k)"
proof (cases "map_get (ob_entries s) k")
  case (Some e)
  have "table_moves s (s\<lparr>ob_entries := map_set (ob_entries s) k (e\<lparr>e_disconnected := Some now\<rparr>)\<rparr>)"
    by (intro moves_step move_touch[OF Some]) simp_all
  with Some show ?thesis
    by (simp add: client_disconnect_def)
qed (simp add: client_disconnect_def)

lemma client_remove_moves: "table_moves s (client_remove s k)"
proof (cases "map_get (ob_entries s) k")
  case (Some e)
  let ?s1 = "s\<lparr>ob_entries := map_delete (ob_entries s) k, ob_out := ob_out s @ [CloseSource (e_source e)]\<rparr>"
  have "table_moves s (s\<lparr>ob_entries := map_delete (ob_entries s) k, ob_out := ob_out s @ []\<rparr>)"
    by (intro moves_step move_drop[OF Some]) simp
  moreover have "table_moves s ?s1"
    by (intro moves_step move_drop[OF Some]) simp
  then have "table_moves s (ob_source_closed ?s1 (e_source e))"
    using moves_source_closed by (rule moves_trans)
  ultimately show ?thesis
    using Some by (simp add: client_remove_def Let_def ob_log_def)
qed (simp add: client_remove_def)

lemma client_step_moves: "table_wf s \<Longrightarrow> table_moves s (client_step s e)"
proof (cases e)
  case (ClientSocketClosed now ws)
  have "table_moves s (s\<lparr>ob_sockets := (ob_sockets s)(ws := None)\<rparr>)"
    by (rule moves_frame) simp_all
  then have "table_moves s (client_disconnect (s\<lparr>ob_sockets := (ob_sockets s)(ws := None)\<rparr>) now k)" for k
    using client_disconnect_moves by (rule moves_trans)
  then show ?thesis
    using ClientSocketClosed by (auto simp: client_socket_closed_def split: option.splits)
next
  case (ClientCheck now)
  have "table_moves s (client_check s now)"
    unfolding client_check_def
    by (rule moves_fold[where P = "\<lambda>_. True"]) (simp_all add: client_remove_moves)
  then show ?thesis
    using ClientCheck by simp
next
  case (ClientClear now)
  let ?s1 = "foldl (\<lambda>s k. client_disconnect s now k) s (map_keys (ob_entries s))"
  have "table_moves s ?s1"
    by (rule moves_fold[where P = "\<lambda>_. True"]) (simp_all add: client_disconnect_moves)
  also have "table_move ?s1 (client_clear s now)"
    unfolding client_clear_def Let_def by (rule move_clear)
  finally show ?thesis
    using ClientClear by simp
qed (simp_all add: client_accept_moves inv_intros)

interpretation clients: source_table client_step
  by unfold_locales (rule client_step_moves)

section \<open>Checking\<close>

definition client_overdue :: "observed \<Rightarrow> nat \<Rightarrow> entry \<Rightarrow> bool" where
  "client_overdue s now e \<longleftrightarrow>
     is_disconnected e \<and> ob_maxDisconnectingTimeInMs s < int now - int (disconnected_since e)"

lemma client_remove_some:
  "map_get (ob_entries s) k = Some e \<Longrightarrow>
   ob_entries (client_remove s k) = map_delete (ob_entries s) k \<and>
   ob_maxDisconnectingTimeInMs (client_remove s k) = ob_maxDisconnectingTimeInMs s \<and>
   ob_sockets (client_remove s k) = ob_sockets s \<and>
   ob_closed (client_remove s k) = (ob_closed s)(e_source e := True)"
  by (auto simp: client_remove_def Let_def ob_log_def ob_source_closed_def fun_eq_iff)

abbreviation check_loop :: "nat \<Rightarrow> observed \<Rightarrow> entry list \<Rightarrow> observed" where
  "check_loop now \<equiv> foldl (\<lambda>s e. if is_disconnected e \<and>
     ob_maxDisconnectingTimeInMs s < int now - int (disconnected_since e)
     then client_remove s (e_id e) else s)"

text \<open>The loop over a snapshot of the values removes the overdue ones of the snapshot.\<close>

lemma check_loop:
  assumes "distinct (map e_id es)" "\<And>e. e \<in> set es \<Longrightarrow> map_get (ob_entries s) (e_id e) = Some e"
  shows "m_entries (ob_entries (check_loop now s es)) =
      filter (\<lambda>x. \<not> (\<exists>e \<in> set es. client_overdue s now e \<and> e_id e = fst (snd x))) (m_entries (ob_entries s)) \<and>
    ob_sockets (check_loop now s es) = ob_sockets s \<and>
    (\<forall>src. ob_closed (check_loop now s es) src \<longleftrightarrow>
      ob_closed s src \<or> (\<exists>e \<in> set es. client_overdue s now e \<and> e_source e = src))"
  using assms
proof (induction es arbitrary: s)
  case (Cons e es)
  show ?case
  proof (cases "client_overdue s now e")
    case False
    then have "check_loop now s (e # es) = check_loop now s es"
      by (auto simp: client_overdue_def)
    then show ?thesis
      using Cons False by simp
  next
    case True
    let ?s1 = "client_remove s (e_id e)"
    have loop: "check_loop now s (e # es) = check_loop now ?s1 es"
      using True by (simp add: client_overdue_def)
    note r = client_remove_some[OF Cons.prems(2)[of e]]
    have od: "client_overdue ?s1 now f = client_overdue s now f" for f
      using r by (simp add: client_overdue_def)
    have "map_get (ob_entries ?s1) (e_id f) = Some f" if "f \<in> set es" for f
    proof -
      have "e_id f \<noteq> e_id e"
        using imageI[OF that, of e_id] Cons.prems(1) by auto
      then show ?thesis
        using that r Cons.prems(2) by (simp add: map_get_delete)
    qed
    from Cons.IH[OF _ this] Cons.prems(1)
    have ih: "m_entries (ob_entries (check_loop now ?s1 es)) =
        filter (\<lambda>x. \<not> (\<exists>f \<in> set es. client_overdue s now f \<and> e_id f = fst (snd x))) (m_entries (ob_entries ?s1))"
      "ob_sockets (check_loop now ?s1 es) = ob_sockets ?s1"
      "\<forall>src. ob_closed (check_loop now ?s1 es) src \<longleftrightarrow>
        ob_closed ?s1 src \<or> (\<exists>f \<in> set es. client_overdue s now f \<and> e_source f = src)"
      by (simp_all add: od)
    show ?thesis
      unfolding loop using ih r True by (auto simp: map_delete_def intro!: filter_cong)
  qed
qed simp

lemma values_of_wf:
  assumes "table_wf s"
  shows "distinct (map e_id (map_values (ob_entries s)))"
    and "e \<in> set (map_values (ob_entries s)) \<Longrightarrow> map_get (ob_entries s) (e_id e) = Some e"
proof -
  note w = table_wfD[OF assms]
  have id: "e_id (snd (snd x)) = fst (snd x)" if "x \<in> set (m_entries (ob_entries s))" for x
    using that w(2) entry_map_get[OF w(1), of "fst x" "fst (snd x)" "snd (snd x)"] by simp
  then have "map e_id (map_values (ob_entries s)) = map_keys (ob_entries s)"
    by (simp add: map_values_def map_keys_def)
  then show "distinct (map e_id (map_values (ob_entries s)))"
    using w(1) by (simp add: map_wf_def)
  show "map_get (ob_entries s) (e_id e) = Some e" if e: "e \<in> set (map_values (ob_entries s))"
  proof -
    obtain x where x: "x \<in> set (m_entries (ob_entries s))" "e = snd (snd x)"
      using e by (auto simp: map_values_def)
    then show ?thesis
      using id[OF x(1)] entry_map_get[OF w(1), of "fst x" "fst (snd x)" "snd (snd x)"] by simp
  qed
qed

lemma check_spec:
  assumes "table_wf s"
  shows "m_entries (ob_entries (client_check s now)) =
      filter (\<lambda>x. \<not> client_overdue s now (snd (snd x))) (m_entries (ob_entries s))"
    and "ob_sockets (client_check s now) = ob_sockets s"
    and "ob_closed (client_check s now) src \<longleftrightarrow>
      ob_closed s src \<or> (\<exists>e \<in> set (map_values (ob_entries s)). client_overdue s now e \<and> e_source e = src)"
proof -
  note v = values_of_wf[OF assms]
  note l = check_loop[OF v, of now]
  have "(\<exists>e \<in> set (map_values (ob_entries s)). client_overdue s now e \<and> e_id e = fst (snd x)) \<longleftrightarrow>
      client_overdue s now (snd (snd x))" if "x \<in> set (m_entries (ob_entries s))" for x
  proof -
    note w = table_wfD[OF assms]
    have g: "map_get (ob_entries s) (fst (snd x)) = Some (snd (snd x))"
      using that entry_map_get[OF w(1), of "fst x" "fst (snd x)" "snd (snd x)"] by simp
    have "e = snd (snd x)" if "e \<in> set (map_values (ob_entries s))" "e_id e = fst (snd x)" for e
      using v(2)[OF that(1)] that(2) g by simp
    moreover have "snd (snd x) \<in> set (map_values (ob_entries s))"
      using that by (simp add: map_values_def)
    ultimately show ?thesis
      using w(2)[OF g] by blast
  qed
  then have eq: "filter (\<lambda>x. \<not> (\<exists>e \<in> set (map_values (ob_entries s)). client_overdue s now e \<and> e_id e = fst (snd x)))
      (m_entries (ob_entries s)) = filter (\<lambda>x. \<not> client_overdue s now (snd (snd x))) (m_entries (ob_entries s))"
    by (intro filter_cong) simp_all
  show "m_entries (ob_entries (client_check s now)) =
      filter (\<lambda>x. \<not> client_overdue s now (snd (snd x))) (m_entries (ob_entries s))"
    unfolding client_check_def by (rule trans[OF conjunct1[OF l] eq])
  show "ob_sockets (client_check s now) = ob_sockets s"
    unfolding client_check_def by (rule conjunct1[OF conjunct2[OF l]])
  show "ob_closed (client_check s now) src \<longleftrightarrow>
      ob_closed s src \<or> (\<exists>e \<in> set (map_values (ob_entries s)). client_overdue s now e \<and> e_source e = src)"
    unfolding client_check_def by (rule spec[OF conjunct2[OF conjunct2[OF l]]])
qed

section \<open>Properties\<close>

definition client_run :: "int \<Rightarrow> client_event list \<Rightarrow> observed" where
  "client_run maxTime es = foldl client_step (observed_new maxTime) es"

lemma client_run_wf: "table_wf (client_run t es)"
  unfolding client_run_def by (rule clients.run_wf[OF table_wf_new])

text \<open>
  C25. The observer closes the source of a client at most once, and it has closed no source whose client is in the
  table, at every interleaving of connections, messages, closings, checks and clearings.
\<close>

theorem client_source_closed_once:
  "tally (\<lambda>x. x = CloseSource src) (ob_out (client_run maxTime es)) \<le> 1 \<and>
   e_source ` set (map_values (ob_entries (client_run maxTime es))) \<inter>
     {src. CloseSource src \<in> set (ob_out (client_run maxTime es))} = {}"
proof -
  have "CloseSource (e_source e) \<notin> set (ob_out (client_run maxTime es))"
    if "e \<in> set (map_values (ob_entries (client_run maxTime es)))" for e
  proof -
    have "closes (client_run maxTime es) (e_source e) = 0"
      using values_of_wf(2)[OF client_run_wf that] clients.held_not_closed[of maxTime es "e_id e" e]
      by (simp add: client_run_def)
    then show ?thesis
      using tally_pos[of "\<lambda>x. x = CloseSource (e_source e)" "ob_out (client_run maxTime es)"] by (simp add: closes_def)
  qed
  moreover have "tally (\<lambda>x. x = CloseSource src) (ob_out (client_run maxTime es)) \<le> 1"
    using clients.closed_once[of maxTime es src] by (simp add: closes_def client_run_def)
  ultimately show ?thesis
    by blast
qed

text \<open>
  \<open>check\<close> does what its name says: in every reachable state it removes exactly the clients
  that have been disconnected for longer than the configured time, keeps the others unchanged
  and in their order, leaves every socket alone, and closes exactly the sources of the
  removed clients.
\<close>

theorem check_removes_overdue:
  assumes s: "s = client_run maxTime es" and s': "s' = client_step s (ClientCheck now)"
  shows "m_entries (ob_entries s') =
      filter (\<lambda>(_, _, e). \<not> client_overdue s now e) (m_entries (ob_entries s)) \<and>
    ob_sockets s' = ob_sockets s \<and>
    {src. ob_closed s' src} = {src. ob_closed s src} \<union>
      {e_source e |e. e \<in> set (map_values (ob_entries s)) \<and> client_overdue s now e}"
proof -
  have wf: "table_wf s"
    unfolding s by (rule client_run_wf)
  note c = check_spec[OF wf, of now]
  have "s' = client_check s now"
    by (simp add: s')
  moreover have "filter (\<lambda>x. \<not> client_overdue s now (snd (snd x))) (m_entries (ob_entries s)) =
      filter (\<lambda>(_, _, e). \<not> client_overdue s now e) (m_entries (ob_entries s))"
    by (rule filter_cong) auto
  ultimately show ?thesis
    using c(1,2) c(3) by auto
qed

text \<open>
  A client that reconnects keeps its source: the table gets no new source and none is
  closed, the client counts as connected, and what the new socket receives is handed to the
  source the client had before.
\<close>

theorem reconnect_keeps_source:
  assumes s: "s = client_run maxTime es" and e: "map_get (ob_entries s) k = Some e"
    and q: "cq_clientId q = Some k" "k \<noteq> []" "str_truthy (cq_roomId q)" "str_truthy (cq_callId q)"
    and s': "s' = client_step s (ClientAccept ws q)"
  shows "ob_out s' = ob_out s \<and> ob_nsources s' = ob_nsources s \<and>
    map_get (ob_entries s') k = Some (e\<lparr>e_webSocket := Some ws, e_disconnected := None\<rparr>) \<and>
    ob_out (client_step s' (ClientMessage ws data)) = ob_out s @ [AcceptSample (e_source e) data]"
proof -
  have "table_wf s"
    unfolding s by (rule client_run_wf)
  from table_wfD(2)[OF this e] have id: "e_id e = k" .
  have "s' = client_setup s e ws"
    using q e by (simp add: s' client_accept_def)
  then show ?thesis
    by (simp add: client_setup_def id map_get_set ob_message_def ob_log_def)
qed

definition demo_query :: client_query where
  "demo_query = \<lparr>cq_clientId = Some ''c'', cq_serviceId = None, cq_mediaUnitId = None,
     cq_roomId = Some ''r'', cq_callId = Some ''k''\<rparr>"

definition demo_entry :: entry where
  "demo_entry = \<lparr>e_id = ''c'', e_source = 0, e_disconnected = Some 1000, e_webSocket = Some 1\<rparr>"

definition demo_clients :: "client_event list" where
  "demo_clients = [ClientAccept 1 demo_query, ClientSocketClosed 1000 1]"

lemma demo_clients_entry: "map_get (ob_entries (client_run 5000 demo_clients)) ''c'' = Some demo_entry"
  by code_simp

lemma check_removes_overdue_witness:
  "m_entries (ob_entries (client_step (client_run 5000 demo_clients) (ClientCheck 7000))) =
   filter (\<lambda>(_, _, e). \<not> client_overdue (client_run 5000 demo_clients) 7000 e)
     (m_entries (ob_entries (client_run 5000 demo_clients)))"
  using check_removes_overdue[OF refl refl, of 5000 demo_clients 7000] by (rule conjunct1)

lemma reconnect_keeps_source_witness:
  "ob_out (client_step (client_step (client_run 5000 demo_clients) (ClientAccept 2 demo_query))
      (ClientMessage 2 ''sample'')) =
   ob_out (client_run 5000 demo_clients) @ [AcceptSample 0 ''sample'']"
  using reconnect_keeps_source[OF refl demo_clients_entry _ _ _ _ refl, of demo_query 2 "''sample''"]
  by (simp add: demo_query_def demo_entry_def)

text \<open>
  A late \<open>close\<close> of the socket a client has replaced disconnects the client: after a
  reconnection, the close of the old socket marks the entry as disconnected although the new
  socket is open, and the next check after the configured time removes the client and
  closes its source, while the new socket still feeds it.
\<close>

theorem stale_close_drops_connected_client:
  assumes s: "s = client_run maxTime es" and e: "map_get (ob_entries s) k = Some e"
    and old: "ob_sockets s old = Some (k, e_source e)" "old \<noteq> ws"
    and q: "cq_clientId q = Some k" "k \<noteq> []" "str_truthy (cq_roomId q)" "str_truthy (cq_callId q)"
    and t: "0 < t1" "maxTime < int t2 - int t1" "ob_maxDisconnectingTimeInMs s = maxTime"
    and s': "s' = foldl client_step s [ClientAccept ws q, ClientSocketClosed t1 old, ClientCheck t2]"
  shows "map_get (ob_entries s') k = None \<and> ob_closed s' (e_source e) \<and>
    ob_sockets s' ws = Some (k, e_source e)"
proof -
  have id: "e_id e = k"
    using table_wfD(2)[OF client_run_wf e[unfolded s]] .
  let ?s1 = "client_setup s e ws"
  let ?e2 = "e\<lparr>e_webSocket := Some ws, e_disconnected := Some t1\<rparr>"
  let ?s2 = "client_step ?s1 (ClientSocketClosed t1 old)"
  have a: "client_accept s ws q = ?s1"
    using q e by (simp add: client_accept_def)
  have wf2: "table_wf ?s2"
    using clients.run_wf[OF client_run_wf, of maxTime es "[ClientAccept ws q, ClientSocketClosed t1 old]"] a
    by (simp add: s)
  have e2: "map_get (ob_entries ?s2) k = Some ?e2" "ob_sockets ?s2 ws = Some (k, e_source e)"
      "ob_maxDisconnectingTimeInMs ?s2 = maxTime"
    using old t(3) by (auto simp: client_setup_def id client_socket_closed_def client_disconnect_def
        map_get_set is_disconnected_def)
  have od: "client_overdue ?s2 t2 ?e2"
    using t e2(3) by (simp add: client_overdue_def is_disconnected_def disconnected_since_def)
  have eq: "s' = client_check ?s2 t2"
    unfolding s' by (simp add: a)
  note c = check_spec[OF wf2, of t2]
  obtain st where st: "(st, k, ?e2) \<in> set (m_entries (ob_entries ?s2))"
    using map_get_entry[OF e2(1)] by blast
  then have "?e2 \<in> set (map_values (ob_entries ?s2))"
    by (force simp: map_values_def)
  then have "ob_closed s' (e_source e)"
    unfolding eq c(3) using od by auto
  moreover have "map_get (ob_entries s') k = None"
  proof (rule ccontr)
    assume "map_get (ob_entries s') k \<noteq> None"
    then obtain f where "map_get (ob_entries s') k = Some f"
      by blast
    then obtain st' where f: "(st', k, f) \<in> set (m_entries (ob_entries ?s2))" "\<not> client_overdue ?s2 t2 f"
      using map_get_entry[of "ob_entries s'" k f] unfolding eq c(1) by auto
    then have "f = ?e2"
      using entry_map_get[OF table_wfD(1)[OF wf2] f(1)] e2(1) by simp
    with f(2) od show False
      by simp
  qed
  moreover have "ob_sockets s' ws = Some (k, e_source e)"
    unfolding eq c(2) by (rule e2(2))
  ultimately show ?thesis
    by blast
qed

lemma demo_client_open:
  "map_get (ob_entries (client_run 5000 [ClientAccept 1 demo_query])) ''c'' =
     Some \<lparr>e_id = ''c'', e_source = 0, e_disconnected = None, e_webSocket = Some 1\<rparr>"
  "ob_sockets (client_run 5000 [ClientAccept 1 demo_query]) 1 = Some (''c'', 0)"
  "ob_maxDisconnectingTimeInMs (client_run 5000 [ClientAccept 1 demo_query]) = 5000"
  by code_simp+

lemma stale_close_drops_connected_client_witness:
  "ob_closed (foldl client_step (client_run 5000 [ClientAccept 1 demo_query])
     [ClientAccept 2 demo_query, ClientSocketClosed 10 1, ClientCheck 6000]) 0"
  using stale_close_drops_connected_client[OF refl demo_client_open(1) _ _ _ _ _ _ _ _ _ refl,
      of 1 2 demo_query 10 6000] demo_client_open(2,3)
  by (simp add: demo_query_def)

end
