(* ===== verification/ObservedSfus.thy ===== *)
theory ObservedSfus
  imports ObservedClients
begin

text \<open>
  The SFUs the observer receives samples from, \<^verbatim>\<open>observer/src/sources/ObservedSfus.ts\<close>. The class
  is a second version of \<open>ObservedClients\<close> with its own query and one difference: a
  disconnected entry loses its web socket. The table of SFUs is proved to be the table of clients read as one of SFUs.
\<close>

section \<open>Operations\<close>

record sfu_query =
  sq_sfuId :: "string option"
  sq_serviceId :: "string option"
  sq_mediaUnitId :: "string option"

definition sfu_setup :: "observed \<Rightarrow> entry \<Rightarrow> nat \<Rightarrow> observed" where
  "sfu_setup s e ws =
     s\<lparr>ob_entries := map_set (ob_entries s) (e_id e) (e\<lparr>e_webSocket := Some ws, e_disconnected := None\<rparr>),
       ob_sockets := (ob_sockets s)(ws \<mapsto> (e_id e, e_source e))\<rparr>"

definition sfu_accept :: "observed \<Rightarrow> nat \<Rightarrow> sfu_query \<Rightarrow> observed" where
  "sfu_accept s ws q =
     (if \<not> str_truthy (sq_sfuId q)
      then ob_log s (CloseWebSocket ws 4001 ''sfuId, is mandatory field in query string'')
      else
        (case map_get (ob_entries s) (the (sq_sfuId q)) of
           Some existing \<Rightarrow> sfu_setup s existing ws
         | None \<Rightarrow>
             let src = ob_nsources s;
                 e = \<lparr>e_id = the (sq_sfuId q), e_source = src, e_disconnected = None, e_webSocket = None\<rparr>;
                 s1 = ob_log s (CreateSource src
                   [(''serviceId'', sq_serviceId q), (''mediaUnitId'', sq_mediaUnitId q),
                    (''sfuId'', sq_sfuId q)])
             in sfu_setup (s1\<lparr>ob_entries := map_set (ob_entries s1) (e_id e) e,
                             ob_nsources := Suc src\<rparr>) e ws))"

definition sfu_disconnect :: "observed \<Rightarrow> nat \<Rightarrow> string \<Rightarrow> observed" where
  "sfu_disconnect s now sfuId =
     (case map_get (ob_entries s) sfuId of
        None \<Rightarrow> s
      | Some e \<Rightarrow>
          if is_disconnected e then s
          else s\<lparr>ob_entries := map_set (ob_entries s) sfuId
                  (e\<lparr>e_disconnected := Some now, e_webSocket := None\<rparr>)\<rparr>)"

definition sfu_remove :: "observed \<Rightarrow> string \<Rightarrow> observed" where
  "sfu_remove s sfuId =
     (case map_get (ob_entries s) sfuId of
        None \<Rightarrow> s
      | Some e \<Rightarrow>
          let s1 = s\<lparr>ob_entries := map_delete (ob_entries s) sfuId\<rparr>
          in if ob_closed s1 (e_source e) then s1
             else ob_source_closed (ob_log s1 (CloseSource (e_source e))) (e_source e))"

definition sfu_check :: "observed \<Rightarrow> nat \<Rightarrow> observed" where
  "sfu_check s now =
     foldl (\<lambda>s e. if is_disconnected e \<and>
                     ob_maxDisconnectingTimeInMs s < int now - int (disconnected_since e)
                  then sfu_remove s (e_id e) else s)
       s (map_values (ob_entries s))"

definition sfu_clear :: "observed \<Rightarrow> nat \<Rightarrow> observed" where
  "sfu_clear s now =
     (let s1 = foldl (\<lambda>s k. sfu_disconnect s now k) s (map_keys (ob_entries s))
      in s1\<lparr>ob_entries := map_clear (ob_entries s1)\<rparr>)"

definition sfu_socket_closed :: "observed \<Rightarrow> nat \<Rightarrow> nat \<Rightarrow> observed" where
  "sfu_socket_closed s now ws =
     (case ob_sockets s ws of
        None \<Rightarrow> s
      | Some (sfuId, _) \<Rightarrow>
          sfu_disconnect (s\<lparr>ob_sockets := (ob_sockets s)(ws := None)\<rparr>) now sfuId)"

datatype sfu_table_event =
    SfuAccept nat sfu_query
  | SfuMessage nat string
  | SfuSocketClosed nat nat
  | SfuCheck nat
  | SfuClear nat
  | SfuSourceClosed nat

fun sfu_table_step :: "observed \<Rightarrow> sfu_table_event \<Rightarrow> observed" where
  "sfu_table_step s (SfuAccept ws q) = sfu_accept s ws q"
| "sfu_table_step s (SfuMessage ws data) = ob_message s ws data"
| "sfu_table_step s (SfuSocketClosed now ws) = sfu_socket_closed s now ws"
| "sfu_table_step s (SfuCheck now) = sfu_check s now"
| "sfu_table_step s (SfuClear now) = sfu_clear s now"
| "sfu_table_step s (SfuSourceClosed src) = ob_source_closed s src"

section \<open>The table of clients read as a table of SFUs\<close>

text \<open>
  The query of a client reads as one of an SFU that has the client's id, or no id when the client's query is not
  complete. Of what a table of clients does, the fields of a new source and the text of a refusal are
  those of an SFU; an entry that was disconnected has no web socket.
\<close>

definition as_sfu_query :: "client_query \<Rightarrow> sfu_query" where
  "as_sfu_query q =
     \<lparr>sq_sfuId = (if str_truthy (cq_roomId q) \<and> str_truthy (cq_callId q) then cq_clientId q else None),
      sq_serviceId = cq_serviceId q, sq_mediaUnitId = cq_mediaUnitId q\<rparr>"

fun as_sfu_event :: "client_event \<Rightarrow> sfu_table_event" where
  "as_sfu_event (ClientAccept ws q) = SfuAccept ws (as_sfu_query q)"
| "as_sfu_event (ClientMessage ws data) = SfuMessage ws data"
| "as_sfu_event (ClientSocketClosed now ws) = SfuSocketClosed now ws"
| "as_sfu_event (ClientCheck now) = SfuCheck now"
| "as_sfu_event (ClientClear now) = SfuClear now"
| "as_sfu_event (ClientSourceClosed src) = SfuSourceClosed src"

definition as_sfu_fields :: "(string \<times> string option) list \<Rightarrow> (string \<times> string option) list" where
  "as_sfu_fields fs =
     map (\<lambda>(name, from). (name, case map_of fs from of None \<Rightarrow> None | Some v \<Rightarrow> v))
       [(''serviceId'', ''serviceId''), (''mediaUnitId'', ''mediaUnitId''), (''sfuId'', ''clientId'')]"

fun as_sfu_out :: "source_out \<Rightarrow> source_out" where
  "as_sfu_out (CreateSource src fs) = CreateSource src (as_sfu_fields fs)"
| "as_sfu_out (CloseWebSocket ws code reason) = CloseWebSocket ws code ''sfuId, is mandatory field in query string''"
| "as_sfu_out x = x"

definition as_sfu_entry :: "entry \<Rightarrow> entry" where
  "as_sfu_entry e = (if e_disconnected e = None then e else e\<lparr>e_webSocket := None\<rparr>)"

definition as_sfu :: "observed \<Rightarrow> observed" where
  "as_sfu s = s\<lparr>ob_entries := map_mapv as_sfu_entry (ob_entries s), ob_out := map as_sfu_out (ob_out s)\<rparr>"

lemma as_sfu_entry_simps [simp]:
  "e_id (as_sfu_entry e) = e_id e" "e_source (as_sfu_entry e) = e_source e"
  "e_disconnected (as_sfu_entry e) = e_disconnected e"
  "is_disconnected (as_sfu_entry e) = is_disconnected e" "disconnected_since (as_sfu_entry e) = disconnected_since e"
  by (simp_all add: as_sfu_entry_def is_disconnected_def disconnected_since_def)

lemma as_sfu_simps [simp]:
  "ob_maxDisconnectingTimeInMs (as_sfu s) = ob_maxDisconnectingTimeInMs s" "ob_sockets (as_sfu s) = ob_sockets s"
  "ob_closed (as_sfu s) = ob_closed s" "ob_nsources (as_sfu s) = ob_nsources s"
  "ob_out (as_sfu s) = map as_sfu_out (ob_out s)"
  "map_get (ob_entries (as_sfu s)) k = map_option as_sfu_entry (map_get (ob_entries s) k)"
  "map_keys (ob_entries (as_sfu s)) = map_keys (ob_entries s)"
  "map_values (ob_entries (as_sfu s)) = map as_sfu_entry (map_values (ob_entries s))"
  by (simp_all add: as_sfu_def map_get_mapv map_mapv_keys map_mapv_values)

lemma as_sfu_new: "as_sfu (observed_new t) = observed_new t"
  by (simp add: as_sfu_def observed_new_def map_mapv_def map_new_def)

section \<open>Each operation is that of the clients\<close>

lemma as_sfu_log: "ob_log (as_sfu s) (as_sfu_out x) = as_sfu (ob_log s x)"
  by (simp add: as_sfu_def ob_log_def)

lemma as_sfu_source_closed: "ob_source_closed (as_sfu s) src = as_sfu (ob_source_closed s src)"
  by (simp add: as_sfu_def ob_source_closed_def)

lemma as_sfu_setup: "sfu_setup (as_sfu s) (as_sfu_entry e) ws = as_sfu (client_setup s e ws)"
  by (simp add: as_sfu_def sfu_setup_def client_setup_def map_mapv_set) (simp add: as_sfu_entry_def)

lemma as_sfu_accept: "sfu_accept (as_sfu s) ws (as_sfu_query q) = as_sfu (client_accept s ws q)"
proof (cases "str_truthy (cq_clientId q) \<and> str_truthy (cq_roomId q) \<and> str_truthy (cq_callId q)")
  case False
  then show ?thesis
    using as_sfu_log[of s "CloseWebSocket ws 4001 ''clientId, roomId, callId are mandatory fields in query string''"]
    by (auto simp: sfu_accept_def client_accept_def as_sfu_query_def)
next
  case True
  then have q: "as_sfu_query q = \<lparr>sq_sfuId = cq_clientId q, sq_serviceId = cq_serviceId q, sq_mediaUnitId = cq_mediaUnitId q\<rparr>"
    by (simp add: as_sfu_query_def)
  show ?thesis
  proof (cases "map_get (ob_entries s) (the (cq_clientId q))")
    case (Some e)
    then show ?thesis
      using True by (simp add: sfu_accept_def client_accept_def q as_sfu_setup)
  next
    case None
    let ?k = "the (cq_clientId q)"
    let ?e = "\<lparr>e_id = ?k, e_source = ob_nsources s, e_disconnected = None, e_webSocket = None\<rparr>"
    let ?fs = "[(''serviceId'', cq_serviceId q), (''mediaUnitId'', cq_mediaUnitId q), (''callId'', cq_callId q),
        (''clientId'', cq_clientId q), (''roomId'', cq_roomId q)]"
    let ?s1 = "ob_log s (CreateSource (ob_nsources s) ?fs)"
    have e: "as_sfu_entry ?e = ?e"
      by (simp add: as_sfu_entry_def)
    have fs: "as_sfu_fields ?fs = [(''serviceId'', cq_serviceId q), (''mediaUnitId'', cq_mediaUnitId q), (''sfuId'', cq_clientId q)]"
      by (simp add: as_sfu_fields_def)
    have "(as_sfu ?s1)\<lparr>ob_entries := map_set (ob_entries (as_sfu ?s1)) ?k ?e, ob_nsources := Suc (ob_nsources s)\<rparr> =
        as_sfu (?s1\<lparr>ob_entries := map_set (ob_entries ?s1) ?k ?e, ob_nsources := Suc (ob_nsources s)\<rparr>)"
      using e by (simp add: as_sfu_def map_mapv_set)
    then show ?thesis
      using True None as_sfu_setup[of "?s1\<lparr>ob_entries := map_set (ob_entries ?s1) ?k ?e, ob_nsources := Suc (ob_nsources s)\<rparr>" ?e ws]
        as_sfu_log[of s "CreateSource (ob_nsources s) ?fs"]
      by (simp add: sfu_accept_def client_accept_def q Let_def e fs)
  qed
qed

lemma as_sfu_disconnect: "sfu_disconnect (as_sfu s) now k = as_sfu (client_disconnect s now k)"
  by (cases "map_get (ob_entries s) k")
    (simp_all add: sfu_disconnect_def client_disconnect_def, simp add: as_sfu_def map_mapv_set as_sfu_entry_def)

lemma as_sfu_remove: "sfu_remove (as_sfu s) k = as_sfu (client_remove s k)"
proof (cases "map_get (ob_entries s) k")
  case (Some e)
  have d: "(as_sfu s)\<lparr>ob_entries := map_delete (ob_entries (as_sfu s)) k\<rparr> =
      as_sfu (s\<lparr>ob_entries := map_delete (ob_entries s) k\<rparr>)"
    by (simp add: as_sfu_def map_mapv_delete)
  show ?thesis
    using Some as_sfu_log[of "s\<lparr>ob_entries := map_delete (ob_entries s) k\<rparr>" "CloseSource (e_source e)"]
    by (simp add: sfu_remove_def client_remove_def Let_def d as_sfu_source_closed)
qed (simp add: sfu_remove_def client_remove_def)

lemma as_sfu_check: "sfu_check (as_sfu s) now = as_sfu (client_check s now)"
proof -
  have "foldl (\<lambda>s e. if is_disconnected e \<and> ob_maxDisconnectingTimeInMs s < int now - int (disconnected_since e)
        then sfu_remove s (e_id e) else s) (as_sfu s) (map as_sfu_entry es) = as_sfu (check_loop now s es)" for es
    by (induction es arbitrary: s) (simp_all add: as_sfu_remove)
  then show ?thesis
    by (simp add: sfu_check_def client_check_def)
qed

lemma as_sfu_clear: "sfu_clear (as_sfu s) now = as_sfu (client_clear s now)"
proof -
  have "foldl (\<lambda>s k. sfu_disconnect s now k) (as_sfu s) ks = as_sfu (foldl (\<lambda>s k. client_disconnect s now k) s ks)" for ks
    by (induction ks arbitrary: s) (simp_all add: as_sfu_disconnect)
  then show ?thesis
    by (simp add: sfu_clear_def client_clear_def Let_def) (simp add: as_sfu_def map_mapv_clear)
qed

lemma as_sfu_message: "ob_message (as_sfu s) ws data = as_sfu (ob_message s ws data)"
  using as_sfu_log[of s "AcceptSample src data" for src] by (auto simp: ob_message_def split: option.split)

lemma as_sfu_socket_closed: "sfu_socket_closed (as_sfu s) now ws = as_sfu (client_socket_closed s now ws)"
proof -
  have "(as_sfu s)\<lparr>ob_sockets := f\<rparr> = as_sfu (s\<lparr>ob_sockets := f\<rparr>)" for f
    by (simp add: as_sfu_def)
  then show ?thesis
    by (auto simp: sfu_socket_closed_def client_socket_closed_def as_sfu_disconnect split: option.split)
qed

lemma as_sfu_step: "sfu_table_step (as_sfu s) (as_sfu_event e) = as_sfu (client_step s e)"
  by (cases e) (simp_all add: as_sfu_accept as_sfu_message as_sfu_socket_closed as_sfu_check as_sfu_clear as_sfu_source_closed)

section \<open>Properties\<close>

lemma as_sfu_run: "foldl sfu_table_step (as_sfu s) (map as_sfu_event es) = as_sfu (foldl client_step s es)"
  by (induction es arbitrary: s) (simp_all add: as_sfu_step)

text \<open>
  C26. The two tables of the observer are one: at every sequence of events, the table of SFUs is the table of
  clients read as one of SFUs. It has the same entries in the same order, with the same sources and the same
  times of disconnection, the same sockets and closed sources, and it has done the same to the library and the sockets
  in the same order, with the id, the service and the media unit of each SFU passed on to its new source. The one
  difference is that a disconnected entry keeps no web socket.
\<close>

theorem sfu_table_simulates_client_table:
  "foldl sfu_table_step (observed_new maxTime) (map as_sfu_event es) = as_sfu (client_run maxTime es)"
  using as_sfu_run[of "observed_new maxTime" es] by (simp add: client_run_def as_sfu_new)

lemma as_sfu_event_surj: "\<exists>e. as_sfu_event e = f"
proof (cases f)
  case (SfuAccept ws q)
  have "as_sfu_query \<lparr>cq_clientId = sq_sfuId q, cq_serviceId = sq_serviceId q,
      cq_mediaUnitId = sq_mediaUnitId q, cq_roomId = Some ''r'', cq_callId = Some ''k''\<rparr> = q"
    by (simp add: as_sfu_query_def)
  then show ?thesis
    using SfuAccept by (metis as_sfu_event.simps(1))
qed (metis as_sfu_event.simps)+

lemma as_sfu_events_surj: "\<exists>es. map as_sfu_event es = fs"
  using as_sfu_event_surj by (metis surj_def list.map_comp surj_iff_all map_idI comp_apply)

lemma as_sfu_out_close: "as_sfu_out x = CloseSource src \<longleftrightarrow> x = CloseSource src"
  by (cases x) simp_all

text \<open>
  The observer closes the source of an SFU at most once, at every interleaving of
  connections, messages, closings, checks and clearings.
\<close>

theorem sfu_source_closed_once:
  "tally (\<lambda>x. x = CloseSource src) (ob_out (foldl sfu_table_step (observed_new maxTime) fs)) \<le> 1"
proof -
  obtain es where es: "map as_sfu_event es = fs"
    using as_sfu_events_surj by blast
  show ?thesis
    using clients.closed_once[of maxTime es src] as_sfu_run[of "observed_new maxTime" es]
    by (simp add: es as_sfu_new closes_def tally_def filter_map comp_def as_sfu_out_close)
qed

end
