(* ===== verification/ObserverMain.thy ===== *)
theory ObserverMain
  imports ObservedSfus Middleware Server
begin

text \<open>
  How the observer service is put together, \<^verbatim>\<open>observer/src/main.ts\<close>: the server announces web socket
  connections, which go by their subprotocol to one of the two tables of sources or are closed;
  HTTP requests go to the processor. What a socket's negotiated subprotocol is and what URL a
  request has are the arguments \<open>protocol\<close> and \<open>url\<close>.
\<close>

section \<open>State and operations\<close>

type_synonym query = "string \<Rightarrow> string option"

record observer_main =
  om_server :: "(unit, query) server"
  om_clients :: observed
  om_sfus :: observed
  om_closed :: "(nat \<times> string) list"
  om_http :: "(nat \<times> http_out step_out list) list"

text \<open>\<open>main\<close> up to the start of the server: both tables wait 5 seconds.\<close>

definition observer_main_start :: "nat \<Rightarrow> observer_main" where
  "observer_main_start port =
     \<lparr>om_server = server_start (set_processor (server_new port) (Some ())), om_clients = observed_new 5000,
      om_sfus = observed_new 5000, om_closed = [], om_http = []\<rparr>"

definition client_query_of :: "query \<Rightarrow> client_query" where
  "client_query_of q =
     \<lparr>cq_clientId = q ''clientId'', cq_serviceId = q ''serviceId'', cq_mediaUnitId = q ''mediaUnitId'',
      cq_roomId = q ''roomId'', cq_callId = q ''callId''\<rparr>"

definition sfu_query_of :: "query \<Rightarrow> sfu_query" where
  "sfu_query_of q =
     \<lparr>sq_sfuId = q ''sfuId'', sq_serviceId = q ''serviceId'', sq_mediaUnitId = q ''mediaUnitId''\<rparr>"

text \<open>The listener of \<open>websocket-connection\<close>.\<close>

definition observer_connection :: "(nat \<Rightarrow> string) \<Rightarrow> observer_main \<Rightarrow> nat \<Rightarrow> query \<Rightarrow> observer_main" where
  "observer_connection protocol s ws q =
     (if protocol ws = ''client-sample''
      then s\<lparr>om_clients := client_step (om_clients s) (ClientAccept ws (client_query_of q))\<rparr>
      else if protocol ws = ''sfu-sample''
      then s\<lparr>om_sfus := sfu_table_step (om_sfus s) (SfuAccept ws (sfu_query_of q))\<rparr>
      else s\<lparr>om_closed := om_closed s @ [(ws, ''Unrecognized protocol '' @ protocol ws)]\<rparr>)"

text \<open>What the listeners do with what the server announced or handed to the processor.\<close>

fun observer_react ::
  "(nat \<Rightarrow> string) \<Rightarrow> (nat \<Rightarrow> string option) \<Rightarrow> observer_main \<Rightarrow> (unit, query) server_out \<Rightarrow> observer_main"
where
  "observer_react protocol url s (Connection ws q) = observer_connection protocol s ws q"
| "observer_react protocol url s (Process p r) = s\<lparr>om_http := om_http s @ [(r, observer_processor (url r))]\<rparr>"
| "observer_react protocol url s _ = s"

text \<open>\<open>SocketMessage\<close> and \<open>SocketClosed\<close> reach the listeners that were registered on the socket.\<close>

datatype observer_event =
    ServerEvent "unit server_event"
  | SocketMessage nat string
  | SocketClosed nat nat
  | ClientSourceEnded nat
  | SfuSourceEnded nat

fun observer_step ::
  "(nat \<Rightarrow> string) \<Rightarrow> (nat \<Rightarrow> string option) \<Rightarrow> (string \<Rightarrow> query) \<Rightarrow> observer_main \<Rightarrow> observer_event \<Rightarrow> observer_main"
where
  "observer_step protocol url parse_query s (ServerEvent e) =
     (let sv = server_step parse_query (om_server s) e in
      foldl (observer_react protocol url) (s\<lparr>om_server := sv\<rparr>) (drop (length (sv_out (om_server s))) (sv_out sv)))"
| "observer_step protocol url parse_query s (SocketMessage ws data) =
     s\<lparr>om_clients := client_step (om_clients s) (ClientMessage ws data),
       om_sfus := sfu_table_step (om_sfus s) (SfuMessage ws data)\<rparr>"
| "observer_step protocol url parse_query s (SocketClosed now ws) =
     s\<lparr>om_clients := client_step (om_clients s) (ClientSocketClosed now ws),
       om_sfus := sfu_table_step (om_sfus s) (SfuSocketClosed now ws)\<rparr>"
| "observer_step protocol url parse_query s (ClientSourceEnded src) =
     s\<lparr>om_clients := client_step (om_clients s) (ClientSourceClosed src)\<rparr>"
| "observer_step protocol url parse_query s (SfuSourceEnded src) =
     s\<lparr>om_sfus := sfu_table_step (om_sfus s) (SfuSourceClosed src)\<rparr>"

section \<open>Dispatch\<close>

text \<open>The sockets with listeners of a table have its subprotocol; no source was closed.\<close>

definition table_of :: "(nat \<Rightarrow> string) \<Rightarrow> string \<Rightarrow> observed \<Rightarrow> bool" where
  "table_of protocol p t \<longleftrightarrow>
     (\<forall>ws x. ob_sockets t ws = Some x \<longrightarrow> protocol ws = p) \<and> list_all (\<lambda>x. \<not> is_close x) (ob_out t)"

definition dispatch_inv :: "(nat \<Rightarrow> string) \<Rightarrow> observer_main \<Rightarrow> bool" where
  "dispatch_inv protocol s \<longleftrightarrow>
     table_of protocol ''client-sample'' (om_clients s) \<and> table_of protocol ''sfu-sample'' (om_sfus s)"

lemma table_of_log: "table_of protocol p t \<Longrightarrow> \<not> is_close x \<Longrightarrow> table_of protocol p (ob_log t x)"
  by (simp add: table_of_def ob_log_def)

lemma table_of_cong:
  "table_of protocol p t \<Longrightarrow> ob_sockets t' = ob_sockets t \<Longrightarrow> ob_out t' = ob_out t \<Longrightarrow> table_of protocol p t'"
  by (simp add: table_of_def)

lemma table_of_setup:
  assumes "table_of protocol p t" "protocol ws = p"
  shows "table_of protocol p (client_setup t e ws)" "table_of protocol p (sfu_setup t e ws)"
  using assms by (simp_all add: table_of_def client_setup_def sfu_setup_def)

lemma table_of_accept:
  assumes "table_of protocol p t" "protocol ws = p"
  shows "table_of protocol p (client_accept t ws q)" "table_of protocol p (sfu_accept t ws q')"
proof -
  have log: "table_of protocol p ((ob_log t x)\<lparr>ob_entries := m, ob_nsources := n\<rparr>)" if "\<not> is_close x" for x m n
    by (rule table_of_cong[OF table_of_log[OF assms(1) that]]) simp_all
  show "table_of protocol p (client_accept t ws q)" "table_of protocol p (sfu_accept t ws q')"
    using assms by (simp_all add: client_accept_def sfu_accept_def Let_def table_of_log log table_of_setup split: option.split)
qed

lemma table_of_message: "table_of protocol p t \<Longrightarrow> table_of protocol p (ob_message t ws data)"
  by (simp add: ob_message_def table_of_log split: option.split)

lemma table_of_closed:
  assumes "table_of protocol p t"
  shows "table_of protocol p (client_socket_closed t now ws)" "table_of protocol p (sfu_socket_closed t now ws)"
  using assms
  by (auto simp: table_of_def client_socket_closed_def client_disconnect_def sfu_socket_closed_def sfu_disconnect_def
      split: option.split)

lemma dispatch_react: "dispatch_inv protocol s \<Longrightarrow> dispatch_inv protocol (observer_react protocol url s x)"
  by (cases x) (auto simp: dispatch_inv_def observer_connection_def table_of_accept)

lemma dispatch_step: "dispatch_inv protocol s \<Longrightarrow> dispatch_inv protocol (observer_step protocol url pq s e)"
proof (cases e)
  case (ServerEvent e')
  have "dispatch_inv protocol (foldl (observer_react protocol url) s' xs)" if "dispatch_inv protocol s'" for s' xs
    using that by (induction xs arbitrary: s') (simp_all add: dispatch_react)
  then show "dispatch_inv protocol s \<Longrightarrow> ?thesis"
    using ServerEvent by (simp add: Let_def dispatch_inv_def)
qed (simp_all add: dispatch_inv_def table_of_message table_of_closed, simp_all add: table_of_def ob_source_closed_def)

interpretation dispatching: free_invariant_system "observer_step protocol url pq" "dispatch_inv protocol" for protocol url pq
  by unfold_locales (rule dispatch_step)

lemma dispatch_run: "dispatch_inv protocol (foldl (observer_step protocol url pq) (observer_main_start port) es)"
  by (rule dispatching.free_run_inv)
    (simp add: dispatch_inv_def table_of_def observer_main_start_def observed_new_def)

text \<open>
  Samples stay in their table: in any run of the service, a message on a socket changes nothing in
  the table of clients unless the socket's subprotocol is \<open>client-sample\<close>, and nothing in the table
  of SFUs unless it is \<open>sfu-sample\<close>.
\<close>

theorem samples_stay_in_their_table:
  assumes "s = foldl (observer_step protocol url pq) (observer_main_start port) es"
  shows "(protocol ws \<noteq> ''client-sample'' \<longrightarrow>
      om_clients (observer_step protocol url pq s (SocketMessage ws data)) = om_clients s) \<and>
    (protocol ws \<noteq> ''sfu-sample'' \<longrightarrow>
      om_sfus (observer_step protocol url pq s (SocketMessage ws data)) = om_sfus s)"
proof -
  have inv: "dispatch_inv protocol s"
    unfolding assms by (rule dispatch_run)
  have other: "ob_message t ws data = t" if "table_of protocol p t" "protocol ws \<noteq> p" for t p
    using that by (auto simp: ob_message_def table_of_def split: option.split)
  show ?thesis
    using inv other[of "''client-sample''" "om_clients s"] other[of "''sfu-sample''" "om_sfus s"]
    by (simp add: dispatch_inv_def)
qed

text \<open>An SFU's socket and a sample on it.\<close>

lemma samples_stay_in_their_table_witness:
  "let protocol = (\<lambda>_. ''sfu-sample''); pq = (\<lambda>_ k. if k = ''sfuId'' then Some ''s1'' else None);
       s = foldl (observer_step protocol (\<lambda>_. None) pq) (observer_main_start 7080) [ServerEvent (WsConnection 4 None)]
   in ob_sockets (om_sfus s) 4 = Some (''s1'', 0) \<and>
      om_clients (observer_step protocol (\<lambda>_. None) pq s (SocketMessage 4 ''sample'')) = om_clients s"
proof -
  let ?pq = "\<lambda>_ k. if k = ''sfuId'' then Some ''s1'' else None"
  let ?s = "foldl (observer_step (\<lambda>_. ''sfu-sample'') (\<lambda>_. None) ?pq) (observer_main_start 7080) [ServerEvent (WsConnection 4 None)]"
  have "ob_sockets (om_sfus ?s) 4 = Some (''s1'', 0)"
    by code_simp
  then show ?thesis
    using samples_stay_in_their_table[OF refl, of "\<lambda>_. ''sfu-sample''" 4 "\<lambda>_. None" ?pq 7080
        "[ServerEvent (WsConnection 4 None)]" "''sample''"]
    by (simp only: Let_def) simp
qed

text \<open>
  The service never closes a source: nothing calls \<open>check\<close>, so in every run, however long a
  client or an SFU has been disconnected, no source is closed by the tables and the configured
  \<open>maxDisconnectingTimeInMs\<close> has no effect.
\<close>

theorem observer_never_closes_sources:
  "list_all (\<lambda>x. \<not> is_close x)
     (ob_out (om_clients (foldl (observer_step protocol url pq) (observer_main_start port) es)) @
      ob_out (om_sfus (foldl (observer_step protocol url pq) (observer_main_start port) es)))"
  using dispatch_run[of protocol url pq port es] by (simp add: dispatch_inv_def table_of_def)

end
