(* ===== verification/Evaluators.thy ===== *)
theory Evaluators
  imports Complex_Main JsMap
begin

text \<open>
  The evaluators of the observer, \<^verbatim>\<open>observer/src/evaluators\<close>: what they read from an evaluation
  context of the observer library and what they do to their metrics. Counters and gauges are
  the state of the model; the histogram and the reports are recorded. JavaScript's division
  is exact here (\<open>rat\<close>), with \<open>None\<close> for a result that is not finite.
\<close>

section \<open>The evaluation context\<close>

record ended_call =
  ec_serviceId :: "string option"
  ec_roomId :: "string option"
  ec_callId :: "string option"
  ec_started :: int
  ec_ended :: int

record ice_candidate =
  ic_id :: string
  ic_candidateType :: string

record peer_connection =
  pc_clientId :: "string option"
  pc_iceRemoteCandidates :: "ice_candidate list"
  pc_iceCandidatePairs :: "string option list"

text \<open>
  The storages as the lists they iterate over; for a candidate pair only its
  \<open>remoteCandidateId\<close> matters. The id lists of the counters are kept by the name of the field.
\<close>

record eval_context =
  cx_ids :: "string \<Rightarrow> string list"
  cx_endedCalls :: "ended_call list"
  cx_callStorage :: "(string \<times> string list) list"
  cx_clientStorage :: "string list"
  cx_peerConnectionStorage :: "(string \<times> peer_connection) list"
  cx_sfuInboundRtpPads :: nat
  cx_sfuOutboundRtpPads :: nat

section \<open>The common evaluator\<close>

text \<open>The counters in the order of the source, each with the field it counts.\<close>

definition common_counters :: "(string \<times> string) list" where
  "common_counters =
     [(''added_inbound_audio_track_ids'', ''addedInboundAudioTrackIds''),
      (''added_inbound_video_track_ids'', ''addedInboundVideoTrackIds''),
      (''added_outbound_audio_track_ids'', ''addedOutboundAudioTrackIds''),
      (''added_outbound_video_track_ids'', ''addedOutboundVideoTrackIds''),
      (''opened_peer_connection_ids'', ''openedPeerConnectionIds''),
      (''joined_client_ids'', ''joinedClientIds''),
      (''started_call_ids'', ''startedCallIds''),
      (''added_sfu_inbound_rtp_pad_ids'', ''addedSfuInbounRtpPadIds''),
      (''added_sfu_outbound_rtp_pad_ids'', ''addedSfuOutbounRtpPadIds''),
      (''opened_sfu_sctp_channel_ids'', ''openedSfuSctpChannelIds''),
      (''opened_sfu_transport_ids'', ''openedSfuTransportIds''),
      (''removed_inbound_audio_track_ids'', ''removedInboundAudioTracks''),
      (''removed_inbound_video_track_ids'', ''removedInboundVideoTracks''),
      (''removed_outbound_audio_track_ids'', ''removedOutboundAudioTracks''),
      (''removed_outbound_video_track_ids'', ''removedOutboundVideoTracks''),
      (''closed_peer_connection_ids'', ''closedPeerConnections''),
      (''detached_client_ids'', ''detachedClients''),
      (''ended_call_ids'', ''endedCalls''),
      (''removed_sfu_inbound_rtp_pad_ids'', ''removedSfuInbounRtpPadIds''),
      (''removed_sfu_outbound_rtp_pad_ids'', ''removedSfuOutbounRtpPadIds''),
      (''closed_sfu_sctp_channel_ids'', ''closedSfuSctpChannels''),
      (''closed_sfu_transport_ids'', ''closedSfuTransports'')]"

definition field_length :: "eval_context \<Rightarrow> string \<Rightarrow> nat" where
  "field_length cx f = (if f = ''endedCalls'' then length (cx_endedCalls cx) else length (cx_ids cx f))"

definition common_evaluator :: "(string \<Rightarrow> nat) \<Rightarrow> eval_context \<Rightarrow> (string \<Rightarrow> nat)" where
  "common_evaluator counters cx =
     foldl (\<lambda>cs (name, f). cs(name := cs name + field_length cx f)) counters common_counters"

section \<open>The calls evaluator\<close>

record call_report =
  cr_serviceId :: string
  cr_timestamp :: int
  cr_callId :: string
  cr_roomId :: "string option"
  cr_maxParticipants :: nat

record calls_state =
  cs_durations :: "rat list"
  cs_summaries :: "(string, nat) jsmap"
  cs_reports :: "call_report list"

definition calls_new :: calls_state where
  "calls_new = \<lparr>cs_durations = [], cs_summaries = map_new, cs_reports = []\<rparr>"

definition observe_duration :: "calls_state \<Rightarrow> ended_call \<Rightarrow> calls_state" where
  "observe_duration s c =
     s\<lparr>cs_durations := cs_durations s @ [of_int (ec_ended c - ec_started c) / of_int (60 * 1000)]\<rparr>"

definition report_call :: "int \<Rightarrow> calls_state \<Rightarrow> ended_call \<Rightarrow> calls_state" where
  "report_call now s c =
     (if \<not> str_truthy (ec_callId c) then s
      else
        (case map_get (cs_summaries s) (the (ec_callId c)) of
           None \<Rightarrow> s
         | Some maxParticipants \<Rightarrow>
             s\<lparr>cs_reports := cs_reports s @
                 [\<lparr>cr_serviceId = the (nullish (ec_serviceId c) (Some ''myServiceId'')),
                   cr_timestamp = now, cr_callId = the (ec_callId c), cr_roomId = ec_roomId c,
                   cr_maxParticipants = maxParticipants\<rparr>],
               cs_summaries := map_delete (cs_summaries s) (the (ec_callId c))\<rparr>))"

definition update_summary :: "calls_state \<Rightarrow> string \<times> string list \<Rightarrow> calls_state" where
  "update_summary s x =
     s\<lparr>cs_summaries := map_set (cs_summaries s) (fst x)
         (max (case map_get (cs_summaries s) (fst x) of None \<Rightarrow> 0 | Some m \<Rightarrow> m) (length (snd x)))\<rparr>"

definition calls_evaluator :: "calls_state \<Rightarrow> int \<times> eval_context \<Rightarrow> calls_state" where
  "calls_evaluator s x =
     (let (now, cx) = x;
          s1 = foldl observe_duration s (cx_endedCalls cx);
          s2 = foldl (report_call now) s1 (cx_endedCalls cx)
      in foldl update_summary s2 (cx_callStorage cx))"

section \<open>The SFU and the TURN evaluator\<close>

definition sfu_evaluator :: "eval_context \<Rightarrow> nat" where
  "sfu_evaluator cx = cx_sfuInboundRtpPads cx + cx_sfuOutboundRtpPads cx"

definition uses_turn :: "peer_connection \<Rightarrow> bool" where
  "uses_turn pc =
     (let turnCandidateIds = map ic_id (filter (\<lambda>c. ic_candidateType c = ''relay'') (pc_iceRemoteCandidates pc))
      in 0 < length (filter (\<lambda>r. case r of None \<Rightarrow> False | Some i \<Rightarrow> List.member turnCandidateIds i)
                      (pc_iceCandidatePairs pc)))"

fun turn_loop :: "string list \<Rightarrow> (string \<times> peer_connection) list \<Rightarrow> string list" where
  "turn_loop users [] = users"
| "turn_loop users ((_, pc) # pcs) =
     (if \<not> str_truthy (pc_clientId pc) then turn_loop users pcs
      else if uses_turn pc then turn_loop (List.insert (the (pc_clientId pc)) users) pcs
      else turn_loop users pcs)"

definition js_div :: "nat \<Rightarrow> nat \<Rightarrow> rat option" where
  "js_div a b = (if b = 0 then None else Some (of_nat a / of_nat b))"

definition turn_evaluator :: "eval_context \<Rightarrow> rat option" where
  "turn_evaluator cx =
     map_option (\<lambda>q. q * 100)
       (js_div (length (turn_loop [] (cx_peerConnectionStorage cx))) (length (cx_clientStorage cx)))"

section \<open>Facts\<close>

lemma inc_loop:
  assumes "distinct (map fst xs)"
  shows "foldl (\<lambda>cs (name, f). cs(name := cs name + field_length cx f)) c xs n =
    c n + (case map_of xs n of None \<Rightarrow> 0 | Some f \<Rightarrow> field_length cx f)"
  using assms
proof (induction xs arbitrary: c)
  case (Cons x xs)
  obtain a b where x: "x = (a, b)"
    by (cases x)
  have "map_of xs n = None" if "a = n"
    using Cons.prems x that by (simp add: map_of_eq_None_iff)
  then show ?case
    using Cons x by (cases "a = n") simp_all
qed simp

lemma counter_names_distinct: "distinct (map fst common_counters)"
  by (simp add: common_counters_def)

lemma counter_fields_distinct: "distinct (map snd common_counters)"
  by (simp add: common_counters_def)

lemma counters_total:
  "foldl common_evaluator counters cxs name =
     counters name + (case map_of common_counters name of
        None \<Rightarrow> 0 | Some f \<Rightarrow> (\<Sum>cx\<leftarrow>cxs. field_length cx f))"
proof (induction cxs arbitrary: counters)
  case (Cons cx cxs)
  show ?case
    using Cons.IH[of "common_evaluator counters cx"] inc_loop[OF counter_names_distinct, of cx counters name]
    by (simp add: common_evaluator_def split: option.splits)
qed (simp split: option.splits)

text \<open>
  The common evaluator counts each of its fields, and nothing else, on its own counter: over
  any sequence of evaluations a counter grows by the total length of its field, and no two
  counters share a field or a name.
\<close>

theorem counters_accumulate:
  "foldl common_evaluator counters cxs name =
     counters name + (case map_of common_counters name of
        None \<Rightarrow> 0 | Some f \<Rightarrow> (\<Sum>cx\<leftarrow>cxs. field_length cx f)) \<and>
   distinct (map fst common_counters) \<and> distinct (map snd common_counters)"
  using counters_total counter_names_distinct counter_fields_distinct by blast

section \<open>Calls\<close>

text \<open>What a context contributes to the summary of a call, and the maximum over several.\<close>

definition participants :: "string \<Rightarrow> eval_context \<Rightarrow> nat list" where
  "participants call cx = map (\<lambda>x. length (snd x)) (filter (\<lambda>x. fst x = call) (cx_callStorage cx))"

definition summary_after :: "nat option \<Rightarrow> nat list \<Rightarrow> nat option" where
  "summary_after m ns = (if ns = [] then m else Some (foldl max (case m of None \<Rightarrow> 0 | Some n \<Rightarrow> n) ns))"

lemma summary_after_append: "summary_after (summary_after m ns) ks = summary_after m (ns @ ks)"
  by (simp add: summary_after_def)

lemma update_loop:
  "map_get (cs_summaries (foldl update_summary s xs)) call =
     summary_after (map_get (cs_summaries s) call) (map (\<lambda>x. length (snd x)) (filter (\<lambda>x. fst x = call) xs))"
proof (induction xs arbitrary: s)
  case (Cons x xs)
  show ?case
    unfolding foldl_Cons Cons.IH
    by (auto simp: update_summary_def map_get_set summary_after_def)
qed (simp add: summary_after_def)

lemma update_loop_frame [simp]:
  "cs_reports (foldl update_summary s xs) = cs_reports s"
  by (induction xs arbitrary: s) (simp_all add: update_summary_def)

lemma observe_loop [simp]:
  "cs_summaries (foldl observe_duration s xs) = cs_summaries s"
  "cs_reports (foldl observe_duration s xs) = cs_reports s"
  by (induction xs arbitrary: s) (simp_all add: observe_duration_def)

lemma report_other:
  "\<forall>c \<in> set cs. ec_callId c \<noteq> Some call \<Longrightarrow>
   map_get (cs_summaries (foldl (report_call now) s cs)) call = map_get (cs_summaries s) call \<and>
   filter (\<lambda>r. cr_callId r = call) (cs_reports (foldl (report_call now) s cs)) =
     filter (\<lambda>r. cr_callId r = call) (cs_reports s)"
proof (induction cs arbitrary: s)
  case (Cons c cs)
  have "map_get (cs_summaries (report_call now s c)) call = map_get (cs_summaries s) call \<and>
      filter (\<lambda>r. cr_callId r = call) (cs_reports (report_call now s c)) = filter (\<lambda>r. cr_callId r = call) (cs_reports s)"
    using Cons.prems by (auto simp: report_call_def map_get_delete str_truthy_def split: option.splits)
  then show ?case
    using Cons by simp
qed simp

lemma calls_not_ended:
  assumes "\<forall>c \<in> set (cx_endedCalls cx). ec_callId c \<noteq> Some call"
  shows "map_get (cs_summaries (calls_evaluator s (now, cx))) call =
      summary_after (map_get (cs_summaries s) call) (participants call cx)"
    and "filter (\<lambda>r. cr_callId r = call) (cs_reports (calls_evaluator s (now, cx))) =
      filter (\<lambda>r. cr_callId r = call) (cs_reports s)"
  using report_other[OF assms] by (simp_all add: calls_evaluator_def Let_def update_loop participants_def)

lemma calls_run:
  "\<forall>x \<in> set xs. \<forall>c \<in> set (cx_endedCalls (snd x)). ec_callId c \<noteq> Some call \<Longrightarrow>
   map_get (cs_summaries (foldl calls_evaluator s xs)) call =
     summary_after (map_get (cs_summaries s) call) (concat (map (participants call \<circ> snd) xs)) \<and>
   filter (\<lambda>r. cr_callId r = call) (cs_reports (foldl calls_evaluator s xs)) =
     filter (\<lambda>r. cr_callId r = call) (cs_reports s)"
proof (induction xs arbitrary: s)
  case (Cons x xs)
  obtain now cx where x: "x = (now, cx)"
    by (cases x)
  have "\<forall>c \<in> set (cx_endedCalls cx). ec_callId c \<noteq> Some call"
    using Cons.prems x by simp
  note one = calls_not_ended[OF this, of s now]
  show ?case
    using Cons.IH[of "calls_evaluator s x"] Cons.prems one by (simp add: x summary_after_append)
qed (simp add: summary_after_def)

lemma foldl_max: "foldl max a ns = Max (insert a (set ns))" for a :: nat
proof (induction ns arbitrary: a)
  case (Cons n ns)
  have "Max (insert (max a n) (set ns)) = Max (insert a (insert n (set ns)))"
    by (cases "ns = []") (simp_all add: max.assoc)
  with Cons show ?case by simp
qed simp

text \<open>
  The summary of a call: when the calls evaluator has seen a call in its storage over any
  number of evaluations and the call is then reported as ended once, it adds exactly one
  report for it, with the largest number of participants that any of these evaluations saw;
  a call that was never seen gets no report.
\<close>

theorem call_summary_reports_maximum:
  assumes running: "\<forall>x \<in> set xs. \<forall>c \<in> set (cx_endedCalls (snd x)). ec_callId c \<noteq> Some call"
    and ended: "cx_endedCalls cx = before @ [c] @ after" "ec_callId c = Some call" "call \<noteq> []"
      "\<forall>d \<in> set (before @ after). ec_callId d \<noteq> Some call"
    and seen: "ns = concat (map (participants call \<circ> snd) xs)"
    and s': "s' = calls_evaluator (foldl calls_evaluator calls_new xs) (now, cx)"
  shows "filter (\<lambda>r. cr_callId r = call) (cs_reports s') =
    (if ns = [] then []
     else [\<lparr>cr_serviceId = the (nullish (ec_serviceId c) (Some ''myServiceId'')), cr_timestamp = now,
            cr_callId = call, cr_roomId = ec_roomId c, cr_maxParticipants = Max (set ns)\<rparr>])"
proof -
  let ?s = "foldl calls_evaluator calls_new xs"
  let ?s1 = "foldl observe_duration ?s (cx_endedCalls cx)"
  let ?s2 = "foldl (report_call now) ?s1 before"
  let ?s3 = "report_call now ?s2 c"
  have max: "foldl max 0 ns = Max (set ns)" if "ns \<noteq> []" for ns :: "nat list"
    using that by (simp add: foldl_max)
  have run: "map_get (cs_summaries ?s) call = summary_after None ns"
      "filter (\<lambda>r. cr_callId r = call) (cs_reports ?s) = []"
    using calls_run[OF running, of calls_new] unfolding seen by (simp_all add: calls_new_def)
  have b: "map_get (cs_summaries ?s2) call = summary_after None ns"
      "filter (\<lambda>r. cr_callId r = call) (cs_reports ?s2) = []"
    using report_other[of before call now ?s1] ended(4) run by simp_all
  have rest: "filter (\<lambda>r. cr_callId r = call) (cs_reports s') = filter (\<lambda>r. cr_callId r = call) (cs_reports ?s3)"
    using report_other[of after call now ?s3] ended unfolding s'
    by (simp add: calls_evaluator_def Let_def)
  show ?thesis
    unfolding rest using b ended(2,3) max[of ns]
    by (simp add: report_call_def summary_after_def)
qed

definition demo_context :: eval_context where
  "demo_context = \<lparr>cx_ids = (\<lambda>_. []), cx_endedCalls = [], cx_callStorage = [(''k'', [''a'', ''b''])],
     cx_clientStorage = [''a'', ''b''], cx_peerConnectionStorage = [], cx_sfuInboundRtpPads = 0,
     cx_sfuOutboundRtpPads = 0\<rparr>"

definition demo_call :: ended_call where
  "demo_call = \<lparr>ec_serviceId = None, ec_roomId = None, ec_callId = Some ''k'', ec_started = 0, ec_ended = 60000\<rparr>"

lemma call_summary_reports_maximum_witness:
  "map cr_maxParticipants (filter (\<lambda>r. cr_callId r = ''k'') (cs_reports
     (calls_evaluator (foldl calls_evaluator calls_new [(0, demo_context)])
       (1, demo_context\<lparr>cx_endedCalls := [demo_call], cx_callStorage := []\<rparr>)))) = [2]"
proof -
  have "\<forall>x \<in> set [(0, demo_context)]. \<forall>c \<in> set (cx_endedCalls (snd x)). ec_callId c \<noteq> Some ''k''"
    by (simp add: demo_context_def)
  from call_summary_reports_maximum[OF this, where before = "[]" and after = "[]" and c = demo_call,
      OF _ _ _ _ refl refl, of "demo_context\<lparr>cx_endedCalls := [demo_call], cx_callStorage := []\<rparr>" 1]
  show ?thesis
    by (simp add: demo_call_def) (simp add: demo_context_def participants_def)
qed

section \<open>TURN\<close>

lemma turn_loop_set:
  "distinct users \<Longrightarrow> distinct (turn_loop users pcs) \<and>
   set (turn_loop users pcs) = set users \<union>
     {c. \<exists>x \<in> set pcs. pc_clientId (snd x) = Some c \<and> c \<noteq> [] \<and> uses_turn (snd x)}"
proof (induction users pcs rule: turn_loop.induct)
  case (2 users k pc pcs)
  then show ?case
    by (cases "pc_clientId pc") (auto simp: str_truthy_def split: if_splits)
qed simp

text \<open>
  The TURN gauge is a percentage: if the client storage lists every client that has a
  peer connection, the gauge is the share of clients with a relayed candidate pair, between 0
  and 100.
\<close>

theorem turn_usage_is_percentage:
  assumes stored: "\<forall>x \<in> set (cx_peerConnectionStorage cx). \<forall>c. pc_clientId (snd x) = Some c \<longrightarrow> c \<in> set (cx_clientStorage cx)"
    and clients: "distinct (cx_clientStorage cx)" "cx_clientStorage cx \<noteq> []"
  shows "\<exists>q. turn_evaluator cx = Some q \<and> 0 \<le> q \<and> q \<le> 100 \<and>
    q = of_nat (card {c. \<exists>x \<in> set (cx_peerConnectionStorage cx). pc_clientId (snd x) = Some c \<and> c \<noteq> [] \<and>
           uses_turn (snd x)}) / of_nat (card (set (cx_clientStorage cx))) * 100"
proof -
  let ?us = "turn_loop [] (cx_peerConnectionStorage cx)"
  let ?n = "length (cx_clientStorage cx)"
  have us: "distinct ?us" "set ?us = {c. \<exists>x \<in> set (cx_peerConnectionStorage cx). pc_clientId (snd x) = Some c \<and>
      c \<noteq> [] \<and> uses_turn (snd x)}"
    using turn_loop_set[of "[]" "cx_peerConnectionStorage cx"] by simp_all
  have "set ?us \<subseteq> set (cx_clientStorage cx)"
    unfolding us(2) using stored by auto
  then have "card (set ?us) \<le> card (set (cx_clientStorage cx))"
    by (intro card_mono) simp_all
  then have le: "length ?us \<le> ?n"
    using us(1) clients(1) by (simp add: distinct_card)
  have n: "?n \<noteq> 0"
    using clients(2) by simp
  define x :: rat where "x = of_nat (length ?us) / of_nat ?n"
  have "turn_evaluator cx = Some (x * 100)"
    using n by (simp add: turn_evaluator_def js_div_def x_def)
  moreover have "0 \<le> x" "x \<le> 1"
    using le n by (simp_all add: x_def divide_le_eq_1)
  then have "0 \<le> x * 100" "x * 100 \<le> 100"
    by simp_all
  moreover have "x = of_nat (card (set ?us)) / of_nat (card (set (cx_clientStorage cx)))"
    using us(1) clients(1) by (simp add: x_def distinct_card)
  ultimately show ?thesis
    unfolding us(2)[symmetric] by blast
qed

lemma turn_usage_is_percentage_witness:
  "\<exists>q. turn_evaluator demo_context = Some q \<and> 0 \<le> q \<and> q \<le> 100"
proof -
  have "\<forall>x \<in> set (cx_peerConnectionStorage demo_context). \<forall>c. pc_clientId (snd x) = Some c \<longrightarrow>
      c \<in> set (cx_clientStorage demo_context)" "distinct (cx_clientStorage demo_context)"
    "cx_clientStorage demo_context \<noteq> []"
    by (simp_all add: demo_context_def)
  from turn_usage_is_percentage[OF this] show ?thesis
    by blast
qed

end
