(* ===== verification/ObserverProcess.thy ===== *)
theory ObserverProcess
  imports ObserverMain Evaluators Startup
begin

text \<open>
  The observer as a process, \<^verbatim>\<open>observer/src/main.ts\<close> from its first line to its exit: the help text, the
  configuration, the level of the loggers, the service of \<open>ObserverMain\<close>, the evaluators that the
  observer library calls with a context, and the handler of \<open>SIGINT\<close> with its timer. The observer library itself
  and the sink, which only logs, are left out. How a configured port becomes a number is the argument \<open>port_of\<close>.
\<close>

section \<open>Start-up\<close>

text \<open>The loggers that the modules create when they are loaded.\<close>

definition observer_modules :: "string list" where
  "observer_modules =
     [''Server'', ''CommonEvaluator'', ''TurnEvaluator'', ''CallsEvaluator'', ''ObservedClients'', ''ObservedSfus'', ''main'']"

record observer_process =
  op_console :: "string list"
  op_exit :: "int option"
  op_timers :: nat
  op_logging :: logging
  op_service :: "observer_main option"
  op_stopped :: bool
  op_counters :: "string \<Rightarrow> nat"
  op_calls :: calls_state
  op_turn :: "rat option"
  op_streams :: nat

definition observer_loaded :: observer_process where
  "observer_loaded =
     \<lparr>op_console = [], op_exit = None, op_timers = 0, op_logging = load_modules observer_modules,
      op_service = None, op_stopped = False, op_counters = (\<lambda>_. 0), op_calls = calls_new, op_turn = Some 0, op_streams = 0\<rparr>"

definition observer_boot :: "(json option \<Rightarrow> nat) \<Rightarrow> environment \<Rightarrow> arguments \<Rightarrow> observer_process" where
  "observer_boot port_of env argv =
     (if wants_help argv
      then observer_loaded\<lparr>op_console := [help_message observer_schema], op_exit := Some 1\<rparr>
      else
        (let config = observer_loadConfig env argv in
         observer_loaded\<lparr>op_logging := setLogLevel (op_logging observer_loaded) (log_level_of (map_of config ''logLevel'')),
           op_service := Some (observer_main_start (port_of (map_of config ''port'')))\<rparr>))"

section \<open>Running\<close>

text \<open>The four evaluators of one evaluation, in the order of their registration; the fifth does nothing.\<close>

definition observer_evaluate :: "observer_process \<Rightarrow> int \<Rightarrow> eval_context \<Rightarrow> observer_process" where
  "observer_evaluate p now cx =
     p\<lparr>op_counters := common_evaluator (op_counters p) cx,
       op_calls := calls_evaluator (op_calls p) (now, cx),
       op_turn := turn_evaluator cx,
       op_streams := sfu_evaluator cx\<rparr>"

text \<open>\<open>SIGINT\<close>: the first one stops the server, and each one starts a timer of three seconds.\<close>

definition observer_sigint :: "observer_process \<Rightarrow> observer_process" where
  "observer_sigint p =
     (case op_service p of
        None \<Rightarrow> p
      | Some s \<Rightarrow>
          (let p1 = (if \<not> op_stopped p
                     then p\<lparr>op_service := Some (s\<lparr>om_server := server_stop (om_server s)\<rparr>), op_stopped := True\<rparr>
                     else p)
           in p1\<lparr>op_timers := Suc (op_timers p1)\<rparr>))"

definition exit_timer :: "observer_process \<Rightarrow> observer_process" where
  "exit_timer p = (if op_timers p = 0 then p else p\<lparr>op_exit := Some 0\<rparr>)"

datatype observer_process_event =
    Happens observer_event
  | Evaluate int eval_context
  | SigInt
  | ExitTimer

text \<open>\<open>start\<close>, \<open>stop\<close> and the processor are called by \<open>main\<close> only.\<close>

fun from_outside :: "observer_event \<Rightarrow> bool" where
  "from_outside (ServerEvent Start) = False"
| "from_outside (ServerEvent Stop) = False"
| "from_outside (ServerEvent (SetProcessor _)) = False"
| "from_outside _ = True"

definition observer_happens ::
  "(nat \<Rightarrow> string) \<Rightarrow> (nat \<Rightarrow> string option) \<Rightarrow> (string \<Rightarrow> query) \<Rightarrow> observer_process \<Rightarrow> observer_event \<Rightarrow> observer_process"
where
  "observer_happens protocol url pq p e =
     (case op_service p of
        None \<Rightarrow> p
      | Some s \<Rightarrow> if from_outside e then p\<lparr>op_service := Some (observer_step protocol url pq s e)\<rparr> else p)"

definition observer_process_step ::
  "(nat \<Rightarrow> string) \<Rightarrow> (nat \<Rightarrow> string option) \<Rightarrow> (string \<Rightarrow> query) \<Rightarrow> observer_process \<Rightarrow> observer_process_event \<Rightarrow> observer_process"
where
  "observer_process_step protocol url pq p e =
     (if op_exit p \<noteq> None then p
      else
        (case e of
           Happens x \<Rightarrow> observer_happens protocol url pq p x
         | Evaluate now cx \<Rightarrow> observer_evaluate p now cx
         | SigInt \<Rightarrow> observer_sigint p
         | ExitTimer \<Rightarrow> exit_timer p))"

definition observer_process_run ::
  "(nat \<Rightarrow> string) \<Rightarrow> (nat \<Rightarrow> string option) \<Rightarrow> (string \<Rightarrow> query) \<Rightarrow> observer_process \<Rightarrow> observer_process_event list \<Rightarrow> observer_process"
where
  "observer_process_run protocol url pq p es = foldl (observer_process_step protocol url pq) p es"

section \<open>The process runs the service\<close>

text \<open>
  What the process leads the service through: outside events and at most one \<open>stop\<close>, and the flag tells
  whether it was called.
\<close>

definition service_of :: "(nat \<Rightarrow> string) \<Rightarrow> (nat \<Rightarrow> string option) \<Rightarrow> (string \<Rightarrow> query) \<Rightarrow> nat \<Rightarrow> observer_process \<Rightarrow> bool" where
  "service_of protocol url pq port p \<longleftrightarrow>
     (\<exists>fs. op_service p = Some (foldl (observer_step protocol url pq) (observer_main_start port) fs) \<and>
        (\<forall>f \<in> set fs. from_outside f \<or> f = ServerEvent Stop) \<and>
        tally (\<lambda>f. f = ServerEvent Stop) fs = of_bool (op_stopped p))"

lemma stop_is_event:
  "sv_out (server_stop (om_server s)) = sv_out (om_server s) \<or>
   sv_out (server_stop (om_server s)) = sv_out (om_server s) @ [CloseWsServer]"
  by (simp add: server_stop_def sv_log_def setState_def)

lemma stop_step: "observer_step protocol url pq s (ServerEvent Stop) = s\<lparr>om_server := server_stop (om_server s)\<rparr>"
  using stop_is_event[of s] by (auto simp: Let_def)

lemma service_of_step:
  assumes "service_of protocol url pq port p"
  shows "service_of protocol url pq port (observer_process_step protocol url pq p e)"
proof -
  obtain fs where s: "op_service p = Some (foldl (observer_step protocol url pq) (observer_main_start port) fs)"
    and fs: "\<forall>f \<in> set fs. from_outside f \<or> f = ServerEvent Stop" "tally (\<lambda>f. f = ServerEvent Stop) fs = of_bool (op_stopped p)"
    using assms unfolding service_of_def by blast
  have keep: "service_of protocol url pq port p'" if "op_service p' = op_service p" "op_stopped p' = op_stopped p" for p'
    using assms that by (simp add: service_of_def)
  have happens: "service_of protocol url pq port (observer_happens protocol url pq p x)" for x
  proof (cases "from_outside x")
    case True
    then have "x \<noteq> ServerEvent Stop"
      by auto
    then show ?thesis
      using s fs True unfolding service_of_def
      by (intro exI[of _ "fs @ [x]"]) (simp add: observer_happens_def)
  qed (use s in \<open>auto simp: observer_happens_def intro: keep\<close>)
  have sig: "service_of protocol url pq port (observer_sigint p)"
  proof (cases "op_stopped p")
    case False
    then show ?thesis
      using s fs stop_step unfolding service_of_def
      by (intro exI[of _ "fs @ [ServerEvent Stop]"]) (simp add: observer_sigint_def Let_def del: observer_step.simps)
  qed (use s in \<open>auto simp: observer_sigint_def intro: keep\<close>)
  show ?thesis
    by (cases e) (auto simp: observer_process_step_def observer_evaluate_def exit_timer_def happens sig intro: keep assms)
qed

interpretation process: free_invariant_system "observer_process_step protocol url pq" "service_of protocol url pq port"
  for protocol url pq port
  by unfold_locales (rule service_of_step)

text \<open>
  The observer's process runs its service: started without a request for help, the process is in every run in a state
  of the service that a run from the configured port reaches, in which nobody but \<open>main\<close> has started or stopped the server
  and it was stopped at most once. What is proved of every run of the service holds in the process.
\<close>

theorem observer_process_refines_service:
  assumes "\<not> wants_help argv"
  shows "\<exists>fs. op_service (observer_process_run protocol url pq (observer_boot port_of env argv) es) =
      Some (foldl (observer_step protocol url pq)
        (observer_main_start (port_of (map_of (observer_loadConfig env argv) ''port''))) fs) \<and>
    tally (\<lambda>f. f = ServerEvent Stop) fs \<le> 1 \<and> ServerEvent Start \<notin> set fs"
proof -
  let ?port = "port_of (map_of (observer_loadConfig env argv) ''port'')"
  have "service_of protocol url pq ?port (observer_boot port_of env argv)"
    using assms by (auto simp: service_of_def observer_boot_def observer_loaded_def Let_def intro: exI[of _ "[]"])
  then have "service_of protocol url pq ?port (observer_process_run protocol url pq (observer_boot port_of env argv) es)"
    unfolding observer_process_run_def by (rule process.free_run_inv)
  then show ?thesis
    unfolding service_of_def by (elim exE conjE, intro exI conjI) auto
qed

section \<open>Signals\<close>

lemma react_server [simp]: "om_server (observer_react protocol url s x) = om_server s"
  by (cases x) (simp_all add: observer_connection_def)

lemma reacts_server [simp]: "om_server (foldl (observer_react protocol url) s xs) = om_server s"
  by (induction xs arbitrary: s) simp_all

lemma step_server:
  "om_server (observer_step protocol url pq s e) =
     (case e of ServerEvent x \<Rightarrow> server_step pq (om_server s) x | _ \<Rightarrow> om_server s)"
  by (cases e) (simp_all add: Let_def)

text \<open>Only \<open>stop\<close> closes the web socket server, and nothing from outside starts the server.\<close>

lemma outside_step:
  assumes "from_outside (ServerEvent x)"
  shows "CloseWsServer \<in> set (sv_out (server_step pq sv x)) \<Longrightarrow> CloseWsServer \<in> set (sv_out sv)"
    and "server_inv sv \<Longrightarrow> sv_state (server_step pq sv x) \<in> {Started, Run} \<Longrightarrow> sv_state sv \<in> {Started, Run}"
proof -
  show "CloseWsServer \<in> set (sv_out (server_step pq sv x)) \<Longrightarrow> CloseWsServer \<in> set (sv_out sv)"
    using assms by (cases x) (auto simp: Let_def server_resume_def sv_log_def setState_def on_request_def
        on_connection_def split: if_splits server_await.splits option.splits)
  show "server_inv sv \<Longrightarrow> sv_state (server_step pq sv x) \<in> {Started, Run} \<Longrightarrow> sv_state sv \<in> {Started, Run}"
    using assms by (cases x; cases "sv_state sv")
      (auto simp: server_frame server_resume_def server_inv_def Let_def split: server_await.splits if_splits)
qed

lemma outside_keeps:
  assumes "from_outside e"
  shows "CloseWsServer \<in> set (sv_out (om_server (observer_step protocol url pq s e))) \<Longrightarrow>
      CloseWsServer \<in> set (sv_out (om_server s))"
    and "server_inv (om_server s) \<Longrightarrow> server_inv (om_server (observer_step protocol url pq s e))"
    and "server_inv (om_server s) \<Longrightarrow> sv_state (om_server (observer_step protocol url pq s e)) \<in> {Started, Run} \<Longrightarrow>
      sv_state (om_server s) \<in> {Started, Run}"
  using assms outside_step server_step_inv unfolding step_server by (cases e; fastforce)+

text \<open>A closed server was stopped and is past the states in which it is up.\<close>

definition closing_inv :: "observer_process \<Rightarrow> bool" where
  "closing_inv p \<longleftrightarrow>
     (case op_service p of
        None \<Rightarrow> True
      | Some s \<Rightarrow> server_inv (om_server s) \<and>
          (CloseWsServer \<in> set (sv_out (om_server s)) \<longrightarrow> op_stopped p \<and> sv_state (om_server s) \<notin> {Started, Run}))"

lemma closing_step: "closing_inv p \<Longrightarrow> closing_inv (observer_process_step protocol url pq p e)"
proof -
  assume inv: "closing_inv p"
  have happens: "closing_inv (observer_happens protocol url pq p x)" for x
  proof (cases "op_service p")
    case (Some s)
    let ?s' = "observer_step protocol url pq s x"
    show ?thesis
    proof (cases "from_outside x")
      case True
      note k = outside_keeps[OF True, where s = s and protocol = protocol and url = url and pq = pq]
      have "server_inv (om_server ?s')"
        using inv Some k(2) by (simp add: closing_inv_def)
      moreover have "op_stopped p \<and> sv_state (om_server ?s') \<notin> {Started, Run}"
        if "CloseWsServer \<in> set (sv_out (om_server ?s'))"
        using inv Some k(1)[OF that] k(3) unfolding closing_inv_def by auto
      ultimately show ?thesis
        using Some True by (simp add: closing_inv_def observer_happens_def del: observer_step.simps)
    qed (use inv Some in \<open>simp add: closing_inv_def observer_happens_def\<close>)
  qed (use inv in \<open>simp add: closing_inv_def observer_happens_def\<close>)
  have stop: "server_inv (server_stop sv)" if "server_inv sv" for sv :: "(unit, query) server"
    using server_step_inv[OF that, of _ Stop] by simp
  have closed: "sv_state (server_stop sv) \<notin> {Started, Run}"
    if "CloseWsServer \<in> set (sv_out (server_stop sv))" "CloseWsServer \<notin> set (sv_out sv)" for sv :: "(unit, query) server"
    using that by (simp add: server_stop_def split: if_splits)
  have sig: "closing_inv (observer_sigint p)"
  proof (cases "op_service p")
    case (Some s)
    show ?thesis
    proof (cases "op_stopped p")
      case False
      then have "CloseWsServer \<notin> set (sv_out (om_server s))"
        using inv Some by (auto simp: closing_inv_def)
      then show ?thesis
        using inv Some False stop closed by (simp add: closing_inv_def observer_sigint_def)
    qed (use inv Some in \<open>simp add: closing_inv_def observer_sigint_def\<close>)
  qed (use inv in \<open>simp add: observer_sigint_def\<close>)
  have keep: "closing_inv p'" if "op_service p' = op_service p" "op_stopped p' = op_stopped p" for p'
    using inv unfolding closing_inv_def that .
  show ?thesis
    using happens sig by (cases e) (auto simp: observer_process_step_def observer_evaluate_def exit_timer_def intro: keep inv)
qed

interpretation closing: free_invariant_system "observer_process_step protocol url pq" closing_inv for protocol url pq
  by unfold_locales (rule closing_step)

lemma closing_boot: "closing_inv (observer_boot port_of env argv)"
  by (simp add: closing_inv_def observer_boot_def observer_loaded_def Let_def observer_main_start_def server_new_def
      server_start_def set_processor_def server_inv_def sv_log_def setState_def)

text \<open>Once \<open>SIGINT\<close> was handled, nobody calls \<open>stop\<close> again.\<close>

definition never_closed :: "observer_process \<Rightarrow> bool" where
  "never_closed p \<longleftrightarrow> op_stopped p \<and>
     (case op_service p of None \<Rightarrow> True | Some s \<Rightarrow> CloseWsServer \<notin> set (sv_out (om_server s)))"

lemma never_closed_step: "never_closed p \<Longrightarrow> never_closed (observer_process_step protocol url pq p e)"
  using outside_keeps(1)[of _ protocol url pq]
  by (cases e)
    (auto simp: never_closed_def observer_process_step_def observer_happens_def observer_sigint_def observer_evaluate_def
      exit_timer_def simp del: observer_step.simps split: option.splits)

interpretation open_for_good: free_invariant_system "observer_process_step protocol url pq" never_closed for protocol url pq
  by unfold_locales (rule never_closed_step)

text \<open>
  C34. A signal that comes too early is swallowed: when \<open>SIGINT\<close> arrives while the server is still being started, \<open>stop\<close> does
  nothing, the handler remembers that it has stopped the server, and in every continuation, also with further signals and
  when the server is up, the web socket server is never closed.
\<close>

theorem early_sigint_is_swallowed:
  assumes p: "p = observer_process_run protocol url pq (observer_boot port_of env argv) es"
    and s: "op_exit p = None" "op_service p = Some s" "sv_state (om_server s) = Started"
    and later: "op_service (observer_process_run protocol url pq p (SigInt # later)) = Some s'"
  shows "CloseWsServer \<notin> set (sv_out (om_server s'))"
proof -
  have "closing_inv p"
    unfolding p observer_process_run_def by (rule closing.free_run_inv[OF closing_boot])
  then have "CloseWsServer \<notin> set (sv_out (om_server s))"
    using s by (auto simp: closing_inv_def)
  then have "never_closed (observer_process_step protocol url pq p SigInt)"
    using s by (auto simp: never_closed_def observer_process_step_def observer_sigint_def server_stop_def)
  then have "never_closed (observer_process_run protocol url pq p (SigInt # later))"
    unfolding observer_process_run_def foldl_Cons by (rule open_for_good.free_run_inv)
  then show ?thesis
    using later by (simp add: never_closed_def)
qed

text \<open>The signal comes before the server listens; then it listens, and a second signal is too late.\<close>

lemma early_sigint_is_swallowed_witness:
  "let p = observer_boot (\<lambda>_. 7080) (\<lambda>_. None) (\<lambda>_. None);
       p' = observer_process_run (\<lambda>_. ''client-sample'') (\<lambda>_. None) (\<lambda>_ _. None) p
         [SigInt, Happens (ServerEvent (Callback AwaitListening)), SigInt]
   in \<exists>s'. op_service p' = Some s' \<and> sv_state (om_server s') = Run \<and> CloseWsServer \<notin> set (sv_out (om_server s'))"
proof -
  let ?p = "observer_boot (\<lambda>_. 7080) (\<lambda>_. None) (\<lambda>_. None)"
  let ?run = "observer_process_run (\<lambda>_. ''client-sample'') (\<lambda>_. None) (\<lambda>_ _. None)"
  have p: "?p = ?run (observer_boot (\<lambda>_. 7080) (\<lambda>_. None) (\<lambda>_. None)) []"
    by (simp add: observer_process_run_def)
  have b: "op_exit ?p = None" "op_service ?p = Some (observer_main_start 7080)"
    by (simp_all add: observer_boot_def wants_help_def observer_loaded_def Let_def)
  have st: "sv_state (om_server (observer_main_start 7080)) = Started"
    by (simp add: observer_main_start_def server_start_def set_processor_def server_new_def)
  have "\<exists>s'. op_service (?run ?p (SigInt # [Happens (ServerEvent (Callback AwaitListening)), SigInt])) = Some s' \<and>
      sv_state (om_server s') = Run"
    by (simp add: observer_process_run_def observer_process_step_def observer_sigint_def observer_happens_def b Let_def
        observer_main_start_def server_start_def set_processor_def server_new_def server_stop_def server_resume_def
        sv_log_def setState_def)
  then obtain s' where s': "op_service (?run ?p (SigInt # [Happens (ServerEvent (Callback AwaitListening)), SigInt])) = Some s'"
      "sv_state (om_server s') = Run"
    by blast
  have "CloseWsServer \<notin> set (sv_out (om_server s'))"
    by (rule early_sigint_is_swallowed[OF p b(1,2) st s'(1)])
  with s' show ?thesis
    by (simp add: Let_def)
qed

section \<open>Metrics\<close>

fun contexts :: "observer_process_event list \<Rightarrow> eval_context list" where
  "contexts [] = []"
| "contexts (Evaluate now cx # es) = cx # contexts es"
| "contexts (_ # es) = contexts es"

lemma exit_is_final: "op_exit (observer_process_step protocol url pq p e) = None \<Longrightarrow> op_exit p = None"
  by (auto simp: observer_process_step_def split: if_splits)

lemma metrics_step:
  assumes "op_exit p = None"
  shows "op_counters (observer_process_step protocol url pq p e) = foldl common_evaluator (op_counters p) (contexts [e])"
    and "op_streams (observer_process_step protocol url pq p e) = foldl (\<lambda>_. sfu_evaluator) (op_streams p) (contexts [e])"
    and "op_turn (observer_process_step protocol url pq p e) = foldl (\<lambda>_. turn_evaluator) (op_turn p) (contexts [e])"
  using assms by (cases e; simp add: observer_process_step_def observer_happens_def observer_evaluate_def
      observer_sigint_def exit_timer_def split: option.split)+

lemma foldl_last: "foldl (\<lambda>_. f) a xs = (if xs = [] then a else f (last xs))"
  by (induction xs rule: rev_induct) simp_all

lemma contexts_append: "contexts (es @ fs) = contexts es @ contexts fs"
  by (induction es rule: contexts.induct) simp_all

text \<open>
  The metrics are those of the evaluations: while the process runs, each counter is the sum of the lengths of its
  field over all contexts that were evaluated, whatever happened in between, and the two gauges show the last context.
\<close>

theorem metrics_follow_evaluations:
  assumes "p = observer_process_run protocol url pq (observer_boot port_of env argv) es" "op_exit p = None"
  shows "op_counters p name =
      (case map_of common_counters name of None \<Rightarrow> 0 | Some f \<Rightarrow> (\<Sum>cx\<leftarrow>contexts es. field_length cx f)) \<and>
    op_streams p = (if contexts es = [] then 0 else sfu_evaluator (last (contexts es))) \<and>
    op_turn p = (if contexts es = [] then Some 0 else turn_evaluator (last (contexts es)))"
proof -
  let ?p0 = "observer_boot port_of env argv"
  have "op_counters p = foldl common_evaluator (op_counters ?p0) (contexts es) \<and>
      op_streams p = foldl (\<lambda>_. sfu_evaluator) (op_streams ?p0) (contexts es) \<and>
      op_turn p = foldl (\<lambda>_. turn_evaluator) (op_turn ?p0) (contexts es)"
    using assms unfolding observer_process_run_def
  proof (induction es arbitrary: p rule: rev_induct)
    case (snoc e es)
    let ?q = "foldl (observer_process_step protocol url pq) ?p0 es"
    have p: "p = observer_process_step protocol url pq ?q e"
      using snoc.prems(1) by simp
    have q: "op_exit ?q = None"
      using snoc.prems(2) exit_is_final unfolding p by blast
    show ?case
      unfolding p metrics_step[OF q] contexts_append foldl_append using snoc.IH[OF refl q] by simp
  qed simp
  moreover have "op_counters ?p0 = (\<lambda>_. 0)" "op_streams ?p0 = 0" "op_turn ?p0 = Some 0"
    by (simp_all add: observer_boot_def observer_loaded_def Let_def)
  ultimately show ?thesis
    using counters_total[of "\<lambda>_. 0" "contexts es" name] by (simp add: foldl_last)
qed

lemma observer_process_refines_service_witness:
  "\<exists>fs. op_service (observer_process_run (\<lambda>_. ''sfu-sample'') (\<lambda>_. None) (\<lambda>_ _. None)
      (observer_boot (\<lambda>_. 7080) (\<lambda>_. None) (\<lambda>_. None)) [SigInt, SigInt]) =
      Some (foldl (observer_step (\<lambda>_. ''sfu-sample'') (\<lambda>_. None) (\<lambda>_ _. None)) (observer_main_start 7080) fs) \<and>
    tally (\<lambda>f. f = ServerEvent Stop) fs \<le> 1 \<and> ServerEvent Start \<notin> set fs"
  by (rule observer_process_refines_service) (simp add: wants_help_def)

lemma metrics_follow_evaluations_witness:
  "let cx = demo_context\<lparr>cx_sfuInboundRtpPads := 3\<rparr>;
       p = observer_process_run (\<lambda>_. ''client-sample'') (\<lambda>_. None) (\<lambda>_ _. None)
         (observer_boot (\<lambda>_. 7080) (\<lambda>_. None) (\<lambda>_. None)) [Evaluate 0 demo_context, SigInt, Evaluate 1 cx]
   in op_streams p = 3 \<and> op_turn p = turn_evaluator cx"
proof -
  let ?cx = "demo_context\<lparr>cx_sfuInboundRtpPads := 3\<rparr>"
  let ?es = "[Evaluate 0 demo_context, SigInt, Evaluate 1 ?cx]"
  let ?p = "observer_process_run (\<lambda>_. ''client-sample'') (\<lambda>_. None) (\<lambda>_ _. None) (observer_boot (\<lambda>_. 7080) (\<lambda>_. None) (\<lambda>_. None)) ?es"
  have "op_exit ?p = None"
    by (simp add: observer_process_run_def observer_process_step_def observer_sigint_def observer_evaluate_def
        observer_boot_def wants_help_def observer_loaded_def Let_def split: option.split)
  from metrics_follow_evaluations[OF refl this] show ?thesis
    by (simp add: Let_def sfu_evaluator_def demo_context_def)
qed

end
