(* ===== verification/SfuFeed.thy ===== *)
theory SfuFeed
  imports ObserverMain
begin

text \<open>
  What one SFU sees of the observer: the samples that its source was given, how the events of other peers leave
  them alone, and what a connection, a sample and the end of the connection do to them. The tables of the observer service
  never drop an entry, so an SFU keeps its source.
\<close>

section \<open>The samples of a source\<close>

fun accepted_by :: "nat \<Rightarrow> source_out \<Rightarrow> string list" where
  "accepted_by src (AcceptSample s x) = (if s = src then [x] else [])"
| "accepted_by src _ = []"

definition fed :: "observed \<Rightarrow> nat \<Rightarrow> string list" where
  "fed t src = concat (map (accepted_by src) (ob_out t))"

text \<open>Listening sockets and entries agree, the sources are different, and the next source was given nothing.\<close>

definition feed_inv :: "observed \<Rightarrow> bool" where
  "feed_inv t \<longleftrightarrow>
     (\<forall>ws i src. ob_sockets t ws = Some (i, src) \<longrightarrow> (\<exists>e. map_get (ob_entries t) i = Some e \<and> e_source e = src)) \<and>
     (\<forall>i e. map_get (ob_entries t) i = Some e \<longrightarrow> e_id e = i \<and> e_source e < ob_nsources t) \<and>
     (\<forall>i e j f. map_get (ob_entries t) i = Some e \<longrightarrow> map_get (ob_entries t) j = Some f \<longrightarrow>
        e_source e = e_source f \<longrightarrow> i = j) \<and>
     (\<forall>src. ob_nsources t \<le> src \<longrightarrow> fed t src = [])"

lemma feed_invD:
  assumes "feed_inv t"
  shows "ob_sockets t ws = Some (i, src) \<Longrightarrow> \<exists>e. map_get (ob_entries t) i = Some e \<and> e_source e = src"
    and "map_get (ob_entries t) i = Some e \<Longrightarrow> e_id e = i"
    and "map_get (ob_entries t) i = Some e \<Longrightarrow> e_source e < ob_nsources t"
    and "map_get (ob_entries t) i = Some e \<Longrightarrow> map_get (ob_entries t) j = Some f \<Longrightarrow> e_source e = e_source f \<Longrightarrow> i = j"
    and "ob_nsources t \<le> src \<Longrightarrow> fed t src = []"
  using assms unfolding feed_inv_def by blast+

lemma feed_invI:
  assumes "\<And>ws i src. ob_sockets t ws = Some (i, src) \<Longrightarrow> \<exists>e. map_get (ob_entries t) i = Some e \<and> e_source e = src"
    and "\<And>i e. map_get (ob_entries t) i = Some e \<Longrightarrow> e_id e = i"
    and "\<And>i e. map_get (ob_entries t) i = Some e \<Longrightarrow> e_source e < ob_nsources t"
    and "\<And>i e j f. map_get (ob_entries t) i = Some e \<Longrightarrow> map_get (ob_entries t) j = Some f \<Longrightarrow>
      e_source e = e_source f \<Longrightarrow> i = j"
    and "\<And>src. ob_nsources t \<le> src \<Longrightarrow> fed t src = []"
  shows "feed_inv t"
  using assms unfolding feed_inv_def by blast

lemma fed_log [simp]: "fed (ob_log t x) src = fed t src @ accepted_by src x"
  by (simp add: fed_def ob_log_def)

lemma fed_frame [simp]:
  "fed (t\<lparr>ob_entries := m\<rparr>) src = fed t src" "fed (t\<lparr>ob_sockets := f\<rparr>) src = fed t src"
  "fed (t\<lparr>ob_closed := c\<rparr>) src = fed t src" "fed (t\<lparr>ob_nsources := n\<rparr>) src = fed t src"
  by (simp_all add: fed_def)

text \<open>An entry keeps its id and its source.\<close>

definition same_entry :: "entry option \<Rightarrow> entry option \<Rightarrow> bool" where
  "same_entry x y \<longleftrightarrow> map_option (\<lambda>e. (e_id e, e_source e)) x = map_option (\<lambda>e. (e_id e, e_source e)) y"

lemma feed_inv_touch:
  assumes inv: "feed_inv t" and en: "\<And>i. same_entry (map_get (ob_entries t') i) (map_get (ob_entries t) i)"
    and so: "\<And>ws i src. ob_sockets t' ws = Some (i, src) \<Longrightarrow> \<exists>e. map_get (ob_entries t) i = Some e \<and> e_source e = src"
    and ns: "ob_nsources t' = ob_nsources t" and fe: "\<And>src. ob_nsources t \<le> src \<Longrightarrow> fed t' src = []"
  shows "feed_inv t'"
proof -
  have old: "\<exists>g. map_get (ob_entries t) i = Some g \<and> e_id g = e_id e \<and> e_source g = e_source e"
    if "map_get (ob_entries t') i = Some e" for i e
    using en[of i] that by (cases "map_get (ob_entries t) i") (auto simp: same_entry_def)
  have new: "\<exists>g. map_get (ob_entries t') i = Some g \<and> e_source g = e_source e"
    if "map_get (ob_entries t) i = Some e" for i e
    using en[of i] that by (cases "map_get (ob_entries t') i") (auto simp: same_entry_def)
  note w = feed_invD[OF inv]
  show ?thesis
  proof (rule feed_invI)
    show "\<exists>e. map_get (ob_entries t') i = Some e \<and> e_source e = src" if "ob_sockets t' ws = Some (i, src)" for ws i src
      using so[OF that] new by fastforce
    show "e_id e = i" if "map_get (ob_entries t') i = Some e" for i e
      using old[OF that] w(2) by metis
    show "e_source e < ob_nsources t'" if "map_get (ob_entries t') i = Some e" for i e
      using old[OF that] w(3) ns by metis
    show "i = j" if "map_get (ob_entries t') i = Some e" "map_get (ob_entries t') j = Some f" "e_source e = e_source f" for i e j f
      using old[OF that(1)] old[OF that(2)] that(3) w(4) by metis
  qed (use ns fe in simp)
qed

section \<open>Events of the table\<close>

text \<open>The events that the service passes on: no check and no clear.\<close>

fun passed_on :: "sfu_table_event \<Rightarrow> bool" where
  "passed_on (SfuCheck _) = False"
| "passed_on (SfuClear _) = False"
| "passed_on _ = True"

lemma fed_setup [simp]: "fed (sfu_setup t e ws) src = fed t src"
  by (simp add: sfu_setup_def fed_def)

lemma feed_setup:
  assumes inv: "feed_inv t" and e: "map_get (ob_entries t) (e_id e) = Some e'" "e_id e' = e_id e" "e_source e' = e_source e"
  shows "feed_inv (sfu_setup t e ws)"
proof (rule feed_inv_touch[OF inv])
  show "same_entry (map_get (ob_entries (sfu_setup t e ws)) i) (map_get (ob_entries t) i)" for i
    using e by (simp add: sfu_setup_def same_entry_def map_get_set)
  show "\<exists>e. map_get (ob_entries t) i = Some e \<and> e_source e = src" if "ob_sockets (sfu_setup t e ws) ws' = Some (i, src)" for ws' i src
    using that e feed_invD(1)[OF inv] by (auto simp: sfu_setup_def split: if_splits)
qed (simp_all add: sfu_setup_def feed_invD(5)[OF inv])

lemma feed_accept: "feed_inv t \<Longrightarrow> feed_inv (sfu_accept t ws q)"
proof -
  assume inv: "feed_inv t"
  note w = feed_invD[OF inv]
  have log: "feed_inv (ob_log t x)" if "\<And>src. accepted_by src x = []" for x
    by (rule feed_inv_touch[OF inv]) (simp_all add: same_entry_def w(5) that w(1) ob_log_def[of t x] fed_log[unfolded ob_log_def])
  show ?thesis
  proof (cases "str_truthy (sq_sfuId q) \<and> map_get (ob_entries t) (the (sq_sfuId q)) = None")
    case True
    let ?i = "the (sq_sfuId q)"
    let ?e = "\<lparr>e_id = ?i, e_source = ob_nsources t, e_disconnected = None, e_webSocket = None\<rparr>"
    let ?x = "CreateSource (ob_nsources t) [(''serviceId'', sq_serviceId q), (''mediaUnitId'', sq_mediaUnitId q), (''sfuId'', sq_sfuId q)]"
    let ?t = "(ob_log t ?x)\<lparr>ob_entries := map_set (ob_entries t) ?i ?e, ob_nsources := Suc (ob_nsources t)\<rparr>"
    have "feed_inv ?t"
    proof (rule feed_invI)
      show "\<exists>e. map_get (ob_entries ?t) j = Some e \<and> e_source e = src" if "ob_sockets ?t ws' = Some (j, src)" for ws' j src
        using that w(1)[of ws' j src] True by (auto simp: map_get_set ob_log_def)
      show "j = k" if "map_get (ob_entries ?t) j = Some e" "map_get (ob_entries ?t) k = Some f" "e_source e = e_source f" for j e k f
        using that w(3)[of j e] w(3)[of k f] w(4)[of j e k f] by (auto simp: map_get_set split: if_splits)
    qed (use w(2,3,5) in \<open>auto simp: map_get_set less_Suc_eq split: if_splits\<close>)
    then show ?thesis
      using True by (auto simp: sfu_accept_def Let_def ob_log_def map_get_set intro!: feed_setup)
  next
    case False
    then show ?thesis
      using feed_setup[OF inv] w(2) log by (auto simp: sfu_accept_def split: option.split)
  qed
qed

lemma feed_step: "feed_inv t \<Longrightarrow> passed_on e \<Longrightarrow> feed_inv (sfu_table_step t e)"
proof -
  assume inv: "feed_inv t" and p: "passed_on e"
  note w = feed_invD[OF inv]
  show ?thesis
  proof (cases e)
    case (SfuMessage ws data)
    show ?thesis
    proof (cases "ob_sockets t ws")
      case (Some x)
      obtain i src where x: "x = (i, src)"
        by (cases x)
      have "src < ob_nsources t"
        using w(1)[OF Some[unfolded x]] w(3) by blast
      then show ?thesis
        using SfuMessage Some x
        by (intro feed_inv_touch[OF inv]) (auto simp: ob_message_def same_entry_def w(1,5) simp: ob_log_def[of t "AcceptSample src data"] fed_log[unfolded ob_log_def])
    qed (use SfuMessage inv in \<open>simp add: ob_message_def\<close>)
  next
    case (SfuSocketClosed now ws)
    then show ?thesis
      by (intro feed_inv_touch[OF inv])
        (auto simp: sfu_socket_closed_def sfu_disconnect_def same_entry_def map_get_set w(1,5) split: option.splits if_splits)
  next
    case (SfuSourceClosed src)
    then show ?thesis
      by (intro feed_inv_touch[OF inv]) (simp_all add: ob_source_closed_def same_entry_def w(1,5))
  qed (use p inv in \<open>simp_all add: feed_accept\<close>)
qed

interpretation feed: invariant_system sfu_table_step "\<lambda>_. passed_on" feed_inv
  by unfold_locales (rule feed_step)

section \<open>One SFU\<close>

text \<open>
  The SFU \<open>i\<close> has the source \<open>src\<close>, and the socket \<open>w\<close> (or none) is the only one whose samples go
  there. The events of others are on other sockets and connect under other ids.
\<close>

definition holds :: "observed \<Rightarrow> string \<Rightarrow> nat option \<Rightarrow> nat \<Rightarrow> bool" where
  "holds t i w src \<longleftrightarrow>
     (\<exists>e. map_get (ob_entries t) i = Some e \<and> e_source e = src) \<and>
     (\<forall>ws. (\<exists>src'. ob_sockets t ws = Some (i, src')) \<longleftrightarrow> w = Some ws)"

fun of_others :: "string \<Rightarrow> nat option \<Rightarrow> sfu_table_event \<Rightarrow> bool" where
  "of_others i w (SfuAccept ws q) = (w \<noteq> Some ws \<and> sq_sfuId q \<noteq> Some i)"
| "of_others i w (SfuMessage ws data) = (w \<noteq> Some ws)"
| "of_others i w (SfuSocketClosed now ws) = (w \<noteq> Some ws)"
| "of_others i w (SfuSourceClosed src) = True"
| "of_others i w _ = False"

lemma of_others_passed_on: "of_others i w e \<Longrightarrow> passed_on e"
  by (cases e) simp_all

lemma holds_socket: "feed_inv t \<Longrightarrow> holds t i (Some ws) src \<Longrightarrow> ob_sockets t ws = Some (i, src)"
  using feed_invD(1) unfolding holds_def by fastforce

text \<open>Another socket has another source.\<close>

lemma other_source:
  assumes inv: "feed_inv t" and h: "holds t i w src" and ws: "w \<noteq> Some ws" "ob_sockets t ws = Some (j, src')"
  shows "j \<noteq> i \<and> src' \<noteq> src"
proof -
  have "j \<noteq> i"
    using h ws by (auto simp: holds_def)
  moreover have "j = i" if "src' = src"
    using feed_invD(1)[OF inv ws(2)] h that feed_invD(4)[OF inv] unfolding holds_def by blast
  ultimately show ?thesis
    by blast
qed

lemma str_truthy_the: "str_truthy x \<Longrightarrow> x \<noteq> Some i \<Longrightarrow> the x \<noteq> i"
  by (cases x) simp_all

text \<open>What the connection of another one changes.\<close>

lemma accept_others:
  assumes inv: "feed_inv t" and q: "sq_sfuId q \<noteq> Some i"
  shows "map_get (ob_entries (sfu_accept t ws q)) i = map_get (ob_entries t) i"
    and "ob_sockets (sfu_accept t ws q) = ob_sockets t \<or>
      (\<exists>x. fst x \<noteq> i \<and> ob_sockets (sfu_accept t ws q) = (ob_sockets t)(ws \<mapsto> x))"
    and "fed (sfu_accept t ws q) src = fed t src"
proof -
  have "map_get (ob_entries (sfu_accept t ws q)) i = map_get (ob_entries t) i \<and>
    (ob_sockets (sfu_accept t ws q) = ob_sockets t \<or>
      (\<exists>x. fst x \<noteq> i \<and> ob_sockets (sfu_accept t ws q) = (ob_sockets t)(ws \<mapsto> x))) \<and>
    fed (sfu_accept t ws q) src = fed t src"
  proof (cases "str_truthy (sq_sfuId q)")
    case True
    note d = str_truthy_the[OF True q]
    show ?thesis
    proof (cases "map_get (ob_entries t) (the (sq_sfuId q))")
      case (Some e)
      then have "e_id e = the (sq_sfuId q)"
        by (rule feed_invD(2)[OF inv])
      then show ?thesis
        using True Some d by (auto simp: sfu_accept_def) (auto simp: sfu_setup_def map_get_set)
    qed (use True d in \<open>auto simp: sfu_accept_def Let_def\<close>, auto simp: sfu_setup_def map_get_set ob_log_def)
  qed (simp add: sfu_accept_def, simp add: ob_log_def)
  then show "map_get (ob_entries (sfu_accept t ws q)) i = map_get (ob_entries t) i"
    and "ob_sockets (sfu_accept t ws q) = ob_sockets t \<or>
      (\<exists>x. fst x \<noteq> i \<and> ob_sockets (sfu_accept t ws q) = (ob_sockets t)(ws \<mapsto> x))"
    and "fed (sfu_accept t ws q) src = fed t src"
    by blast+
qed

lemma holds_others:
  assumes inv: "feed_inv t" and h: "holds t i w src" and e: "of_others i w e"
  shows "holds (sfu_table_step t e) i w src" "fed (sfu_table_step t e) src = fed t src"
proof -
  have "holds (sfu_table_step t e) i w src \<and> fed (sfu_table_step t e) src = fed t src"
  proof (cases e)
    case (SfuAccept ws q)
    then have q: "sq_sfuId q \<noteq> Some i" "w \<noteq> Some ws"
      using e by simp_all
    note a = accept_others(1,2)[OF inv q(1), where ws = ws]
    have "(\<exists>src'. ob_sockets (sfu_accept t ws q) ws' = Some (i, src')) \<longleftrightarrow> (\<exists>src'. ob_sockets t ws' = Some (i, src'))" for ws'
      using a(2) q(2) h by (cases "ws' = ws") (auto simp: holds_def)
    then show ?thesis
      using h a(1) accept_others(3)[OF inv q(1), of ws src] SfuAccept by (simp add: holds_def)
  next
    case (SfuMessage ws data)
    then show ?thesis
      using h e other_source[OF inv h] by (auto simp: ob_message_def holds_def ob_log_def[of t] fed_log[unfolded ob_log_def] split: option.split)
  next
    case (SfuSocketClosed now ws)
    show ?thesis
    proof (cases "ob_sockets t ws")
      case (Some x)
      obtain j src' where x: "x = (j, src')"
        by (cases x)
      have "j \<noteq> i" "w \<noteq> Some ws"
        using other_source[OF inv h] e SfuSocketClosed Some x by auto
      then show ?thesis
        using SfuSocketClosed Some x h
        by (auto simp: sfu_socket_closed_def sfu_disconnect_def holds_def map_get_set split: option.split)
    qed (use SfuSocketClosed h in \<open>simp add: sfu_socket_closed_def\<close>)
  qed (use e h in \<open>auto simp: ob_source_closed_def holds_def\<close>)
  then show "holds (sfu_table_step t e) i w src" "fed (sfu_table_step t e) src = fed t src"
    by blast+
qed

lemma absent_others:
  assumes inv: "feed_inv t" and a: "map_get (ob_entries t) i = None" and e: "of_others i w e"
  shows "map_get (ob_entries (sfu_table_step t e)) i = None"
proof (cases e)
  case (SfuSocketClosed now ws)
  then show ?thesis
    using a by (auto simp: sfu_socket_closed_def sfu_disconnect_def map_get_set split: option.split)
qed (use a e accept_others(1)[OF inv] in \<open>auto simp: ob_message_def ob_source_closed_def ob_log_def split: option.split\<close>)

text \<open>The first connection of an SFU, a sample on it, and its end.\<close>

lemma holds_accept:
  assumes inv: "feed_inv t" and a: "map_get (ob_entries t) i = None" and q: "sq_sfuId q = Some i" "i \<noteq> []"
  shows "holds (sfu_accept t ws q) i (Some ws) (ob_nsources t)" "fed (sfu_accept t ws q) (ob_nsources t) = []"
proof -
  have "\<nexists>src' ws'. ob_sockets t ws' = Some (i, src')"
    using feed_invD(1)[OF inv] a by fastforce
  then show "holds (sfu_accept t ws q) i (Some ws) (ob_nsources t)" "fed (sfu_accept t ws q) (ob_nsources t) = []"
    using q a feed_invD(5)[OF inv, of "ob_nsources t"]
    by (auto simp: sfu_accept_def Let_def holds_def) (auto simp: sfu_setup_def map_get_set ob_log_def split: if_splits)
qed

lemma holds_message:
  assumes inv: "feed_inv t" and h: "holds t i (Some ws) src"
  shows "holds (ob_message t ws data) i (Some ws) src" "fed (ob_message t ws data) src = fed t src @ [data]"
  using h holds_socket[OF inv h] by (auto simp: ob_message_def holds_def) (auto simp: ob_log_def)

lemma holds_closed:
  assumes inv: "feed_inv t" and h: "holds t i (Some ws) src"
  shows "holds (sfu_socket_closed t now ws) i None src" "fed (sfu_socket_closed t now ws) src = fed t src"
  using h holds_socket[OF inv h]
  by (auto simp: sfu_socket_closed_def sfu_disconnect_def holds_def map_get_set split: option.split)

section \<open>Through the service\<close>

text \<open>The events of the table of SFUs that an event of the service causes.\<close>

fun sfu_events :: "(nat \<Rightarrow> string) \<Rightarrow> (string \<Rightarrow> query) \<Rightarrow> observer_event \<Rightarrow> sfu_table_event list" where
  "sfu_events protocol pq (ServerEvent (WsConnection ws u)) =
     (if protocol ws = ''sfu-sample''
      then [SfuAccept ws (sfu_query_of (pq (case nullish u (Some '''') of None \<Rightarrow> '''' | Some u \<Rightarrow> u)))] else [])"
| "sfu_events protocol pq (ServerEvent _) = []"
| "sfu_events protocol pq (SocketMessage ws data) = [SfuMessage ws data]"
| "sfu_events protocol pq (SocketClosed now ws) = [SfuSocketClosed now ws]"
| "sfu_events protocol pq (ClientSourceEnded src) = []"
| "sfu_events protocol pq (SfuSourceEnded src) = [SfuSourceClosed src]"

lemma observer_sfus:
  "om_sfus (observer_step protocol url pq s e) = foldl sfu_table_step (om_sfus s) (sfu_events protocol pq e)"
proof (cases e)
  case (ServerEvent x)
  then show ?thesis
    by (cases x)
      (auto simp: Let_def server_start_def server_stop_def server_resume_def set_processor_def on_request_def
        on_connection_def sv_log_def setState_def observer_connection_def split: option.split server_await.split)
qed simp_all
end
