(* ===== verification/Telemetry.thy ===== *)
theory Telemetry
  imports SfuProcess ObserverProcess SfuFeed "HOL-Library.Sublist"
begin

text \<open>
  The SFU and the observer together: what the monitor of the SFU samples goes through \<open>ObserverServiceClient\<close> of
  the SFU over a web socket to the server of the observer, and through the table of SFUs to the source of
  this SFU. Both services run whole, other peers of the observer act in between, and the wire is a queue: the frames of one
  connection arrive in order until it is cut. A cut is a closing of the connection; an error of the SFU's socket would end the SFU
  (\<open>SfuProcess\<close>).
\<close>

section \<open>State and steps\<close>

record telemetry_world =
  tw_sfu :: sfu_world
  tw_protocol :: "nat \<Rightarrow> string"
  tw_url :: "nat \<Rightarrow> string option"
  tw_query :: "string \<Rightarrow> query"

text \<open>The connection, by the number that its socket has at the observer; the SFU's end opens later than the observer's.\<close>

datatype link = LinkNone | LinkAccepted nat | LinkUp nat | LinkDown nat

fun link_socket :: "link \<Rightarrow> nat option" where
  "link_socket (LinkAccepted ws) = Some ws"
| "link_socket (LinkUp ws) = Some ws"
| "link_socket _ = None"

record telemetry =
  tl_sfu :: sfu_main
  tl_observer :: observer_main
  tl_link :: link
  tl_wire :: "string list"

abbreviation tl_client :: "telemetry \<Rightarrow> observer_client" where
  "tl_client t \<equiv> sm_observer (tl_sfu t)"

abbreviation tl_table :: "telemetry \<Rightarrow> observed" where
  "tl_table t \<equiv> om_sfus (tl_observer t)"

definition sent_samples :: "observer_client \<Rightarrow> string list" where
  "sent_samples c = concat (map sample_of (oc_out c))"

definition telemetry_start :: "telemetry_world \<Rightarrow> nat \<Rightarrow> nat \<Rightarrow> string \<Rightarrow> string \<Rightarrow> telemetry" where
  "telemetry_start w sfu_port observer_port ip announcedIp =
     \<lparr>tl_sfu = sfu_main_start sfu_port ip announcedIp (w_sfuId (tw_sfu w)),
      tl_observer = observer_main_start observer_port, tl_link = LinkNone, tl_wire = []\<rparr>"

text \<open>What the client newly sends goes onto the wire of the open connection.\<close>

definition tl_sfu_acts :: "telemetry_world \<Rightarrow> telemetry \<Rightarrow> sfu_main_event \<Rightarrow> telemetry" where
  "tl_sfu_acts w t e =
     (let s = sfu_step_of (tw_sfu w) (tl_sfu t) e;
          sent = concat (map sample_of (drop (length (oc_out (tl_client t))) (oc_out (sm_observer s))))
      in t\<lparr>tl_sfu := s, tl_wire := (case tl_link t of LinkUp _ \<Rightarrow> tl_wire t @ sent | _ \<Rightarrow> tl_wire t)\<rparr>)"

definition tl_observer_acts :: "telemetry_world \<Rightarrow> telemetry \<Rightarrow> observer_event \<Rightarrow> telemetry" where
  "tl_observer_acts w t e = t\<lparr>tl_observer := observer_step (tw_protocol w) (tw_url w) (tw_query w) (tl_observer t) e\<rparr>"

datatype telemetry_event =
    TlSfu sfu_main_event
  | TlObserver observer_event
  | TlAccept nat
  | TlEstablished
  | TlDeliver
  | TlCut nat

fun tl_step :: "telemetry_world \<Rightarrow> telemetry \<Rightarrow> telemetry_event \<Rightarrow> telemetry" where
  "tl_step w t (TlSfu e) = tl_sfu_acts w t e"
| "tl_step w t (TlObserver e) = tl_observer_acts w t e"
| "tl_step w t (TlAccept ws) =
     (case (oc_pending (tl_client t), link_socket (tl_link t)) of
        (Some (n, tried, query), None) \<Rightarrow>
          (tl_observer_acts w t (ServerEvent (WsConnection ws (Some (''/?'' @ query)))))\<lparr>tl_link := LinkAccepted ws\<rparr>
      | _ \<Rightarrow> t)"
| "tl_step w t TlEstablished =
     (case (oc_pending (tl_client t), tl_link t) of
        (Some (n, tried, query), LinkAccepted ws) \<Rightarrow>
          tl_sfu_acts w (t\<lparr>tl_link := LinkUp ws\<rparr>) (ObserverSocket (OcOpened n))
      | _ \<Rightarrow> t)"
| "tl_step w t TlDeliver =
     (case (tl_link t, tl_wire t) of
        (LinkUp ws, x # xs) \<Rightarrow> (tl_observer_acts w t (SocketMessage ws x))\<lparr>tl_wire := xs\<rparr>
      | _ \<Rightarrow> t)"
| "tl_step w t (TlCut now) =
     (case (tl_link t, oc_ws (tl_client t)) of
        (LinkUp ws, Some n) \<Rightarrow>
          tl_sfu_acts w ((tl_observer_acts w t (observer_event.SocketClosed now ws))\<lparr>tl_link := LinkDown ws, tl_wire := []\<rparr>)
            (ObserverSocket (OcClosed n 1006))
      | _ \<Rightarrow> t)"

text \<open>
  What is assumed of the rest of the world: the SFU's events are those of its process, the other peers have sockets
  of their own and do not use this SFU's id, and the connection has the subprotocol that the client asks for.
\<close>

fun tl_ok :: "telemetry_world \<Rightarrow> telemetry \<Rightarrow> telemetry_event \<Rightarrow> bool" where
  "tl_ok w t (TlSfu e) = ((sfu_outside e \<or> e = Sigint) \<and> (case e of ObserverSocket _ \<Rightarrow> False | _ \<Rightarrow> True))"
| "tl_ok w t (TlObserver e) =
     ((from_outside e \<or> e = ServerEvent Stop) \<and>
      list_all (of_others (w_sfuId (tw_sfu w)) (link_socket (tl_link t))) (sfu_events (tw_protocol w) (tw_query w) e))"
| "tl_ok w t (TlAccept ws) = (tw_protocol w ws = ''sfu-sample'')"
| "tl_ok w t _ = True"

definition telemetry_run :: "telemetry_world \<Rightarrow> telemetry \<Rightarrow> telemetry_event list \<Rightarrow> telemetry" where
  "telemetry_run w t es = foldl (tl_step w) t es"

text \<open>The samples that the monitor created.\<close>

fun created_by :: "telemetry_event \<Rightarrow> string list" where
  "created_by (TlSfu (SampleCreated x)) = [x]"
| "created_by _ = []"

definition created :: "telemetry_event list \<Rightarrow> string list" where
  "created es = concat (map created_by es)"

section \<open>The client in the service\<close>

lemma client_step:
  "sm_observer (sfu_step_of w s e) =
     (case e of
        SampleCreated x \<Rightarrow> oc_send (sm_observer s) x
      | ObserverSocket x \<Rightarrow> if is_socket_event x then sfu_observer_step (sm_observer s) x else sm_observer s
      | _ \<Rightarrow> sm_observer s)"
  unfolding observer_of_step by (cases e) simp_all

text \<open>A client that was never closed: what a sample does before the socket is there and afterwards.\<close>

lemma send_buffers: "oc_ws c = None \<Longrightarrow> \<not> oc_closed c \<Longrightarrow> oc_send c x = c\<lparr>oc_buffer := oc_buffer c @ [x]\<rparr>"
  by (simp add: oc_send_def)

lemma send_flushes:
  "oc_ws c = Some n \<Longrightarrow> \<not> oc_closed c \<Longrightarrow>
   oc_send c x = c\<lparr>oc_buffer := [], oc_out := oc_out c @ map (SendSample n) (oc_buffer c @ [x])\<rparr>"
  by (simp add: oc_send_def flush_samples) (simp add: oc_log_def)

section \<open>The invariant\<close>

definition query_parses :: "telemetry_world \<Rightarrow> bool" where
  "query_parses w \<longleftrightarrow> w_sfuId (tw_sfu w) \<noteq> [] \<and>
     tw_query w (''/?'' @ sfu_query_string (w_sfuId (tw_sfu w))) ''sfuId'' = Some (w_sfuId (tw_sfu w))"

text \<open>
  Before the connection the client waits for its socket and the table does not know the SFU; afterwards the source of
  the SFU was given what the client sent, up to what is on the wire; after a cut, a prefix of that.
\<close>

definition link_inv :: "string \<Rightarrow> link \<Rightarrow> observer_client \<Rightarrow> observed \<Rightarrow> string list \<Rightarrow> bool" where
  "link_inv i l c o' wire \<longleftrightarrow>
     (case l of
        LinkNone \<Rightarrow> map_get (ob_entries o') i = None
      | LinkAccepted ws \<Rightarrow> \<exists>src. holds o' i (Some ws) src \<and> fed o' src = []
      | LinkUp ws \<Rightarrow> \<exists>src. holds o' i (Some ws) src \<and> fed o' src @ wire = sent_samples c
      | LinkDown ws \<Rightarrow> \<exists>src. holds o' i None src \<and> prefix (fed o' src) (sent_samples c)) \<and>
     (if \<exists>ws. l = LinkUp ws \<or> l = LinkDown ws then oc_pending c = None \<and> oc_ws c = Some 0
      else oc_pending c = Some (0, 0, sfu_query_string i) \<and> oc_ws c = None \<and> wire = [] \<and> sent_samples c = [])"

definition telemetry_inv :: "telemetry_world \<Rightarrow> telemetry \<Rightarrow> bool" where
  "telemetry_inv w t \<longleftrightarrow>
     feed_inv (tl_table t) \<and> \<not> oc_closed (tl_client t) \<and> oc_waiters (tl_client t) = [] \<and>
     link_inv (w_sfuId (tw_sfu w)) (tl_link t) (tl_client t) (tl_table t) (tl_wire t)"

text \<open>The SFU's side: one sample more is sent, or kept while there is no socket.\<close>

lemma sfu_acts:
  assumes inv: "telemetry_inv w t" and ok: "tl_ok w t (TlSfu e)"
  shows "telemetry_inv w (tl_sfu_acts w t e)"
    and "samples (tl_client (tl_sfu_acts w t e)) = samples (tl_client t) @ created_by (TlSfu e)"
proof -
  let ?c = "tl_client t"
  let ?c' = "case e of SampleCreated x \<Rightarrow> oc_send ?c x | _ \<Rightarrow> ?c"
  have c: "tl_client (tl_sfu_acts w t e) = ?c'"
    using ok client_step[of "tw_sfu w" "tl_sfu t" e] by (cases e) (simp_all add: tl_sfu_acts_def Let_def)
  have d: "\<not> oc_closed ?c" "oc_waiters ?c = []"
    using inv by (simp_all add: telemetry_inv_def)
  show "samples (tl_client (tl_sfu_acts w t e)) = samples ?c @ created_by (TlSfu e)"
    unfolding c using d by (cases e) (simp_all add: samples_send)
  show "telemetry_inv w (tl_sfu_acts w t e)"
  proof (cases "\<exists>x. e = SampleCreated x")
    case True
    then obtain x where e: "e = SampleCreated x" ..
    show ?thesis
    proof (cases "oc_ws ?c")
      case None
      then have "sent_samples ?c' = sent_samples ?c" "oc_ws ?c' = None" "oc_pending ?c' = oc_pending ?c"
          "\<not> oc_closed ?c'" "oc_waiters ?c' = []" "oc_out ?c' = oc_out ?c"
        using d by (simp_all add: e send_buffers sent_samples_def)
      then show ?thesis
        using inv None unfolding telemetry_inv_def link_inv_def c
        by (auto simp: tl_sfu_acts_def Let_def client_step e split: link.splits)
    next
      case (Some n)
      have s: "?c' = ?c\<lparr>oc_buffer := [], oc_out := oc_out ?c @ map (SendSample n) (oc_buffer ?c @ [x])\<rparr>"
        using send_flushes[OF Some d(1)] by (simp add: e)
      have new: "tl_wire (tl_sfu_acts w t e) =
          (case tl_link t of LinkUp _ \<Rightarrow> tl_wire t @ oc_buffer ?c @ [x] | _ \<Rightarrow> tl_wire t)"
        using s by (simp add: tl_sfu_acts_def Let_def client_step e split: link.split)
      have sent: "sent_samples ?c' = sent_samples ?c @ oc_buffer ?c @ [x]"
        unfolding s by (simp add: sent_samples_def)
      have frame: "oc_ws ?c' = Some n" "oc_pending ?c' = oc_pending ?c" "\<not> oc_closed ?c'" "oc_waiters ?c' = []"
        unfolding s using Some d by simp_all
      have other: "tl_link (tl_sfu_acts w t e) = tl_link t" "tl_observer (tl_sfu_acts w t e) = tl_observer t"
        by (simp_all add: tl_sfu_acts_def Let_def)
      show ?thesis
        using inv Some frame sent new unfolding telemetry_inv_def link_inv_def c other
        by (auto split: link.splits intro: prefix_prefix)
    qed
  next
    case False
    then have same: "?c' = ?c"
      by (cases e) simp_all
    have "oc_out (sm_observer (sfu_step_of (tw_sfu w) (tl_sfu t) e)) = oc_out ?c"
      using c same by (simp add: tl_sfu_acts_def Let_def)
    then have "tl_wire (tl_sfu_acts w t e) = tl_wire t" "tl_link (tl_sfu_acts w t e) = tl_link t"
        "tl_observer (tl_sfu_acts w t e) = tl_observer t"
      by (simp_all add: tl_sfu_acts_def Let_def split: link.split)
    then show ?thesis
      using inv c same unfolding telemetry_inv_def by simp
  qed
qed

text \<open>Events of others go through the table one by one.\<close>

lemma holds_run:
  assumes "feed_inv o'" "holds o' i w src" "list_all (of_others i w) es"
  shows "holds (foldl sfu_table_step o' es) i w src \<and> fed (foldl sfu_table_step o' es) src = fed o' src"
  using assms
proof (induction es arbitrary: o')
  case (Cons e es)
  have e: "of_others i w e" "list_all (of_others i w) es"
    using Cons.prems(3) by simp_all
  note h = holds_others[OF Cons.prems(1,2) e(1)]
  have inv: "feed_inv (sfu_table_step o' e)"
    by (rule feed_step[OF Cons.prems(1) of_others_passed_on[OF e(1)]])
  show ?case
    using Cons.IH[OF inv h(1) e(2)] h(2) by simp
qed simp

lemma absent_run:
  assumes "feed_inv o'" "map_get (ob_entries o') i = None" "list_all (of_others i w) es"
  shows "map_get (ob_entries (foldl sfu_table_step o' es)) i = None"
  using assms
proof (induction es arbitrary: o')
  case (Cons e es)
  then have "of_others i w e"
    by simp
  then show ?case
    using Cons absent_others[of o' i w e] feed_step[OF Cons.prems(1)] of_others_passed_on by simp
qed simp

lemma feed_run: "feed_inv o' \<Longrightarrow> list_all passed_on es \<Longrightarrow> feed_inv (foldl sfu_table_step o' es)"
  by (induction es arbitrary: o') (simp_all add: feed_step)

lemma link_inv_others:
  assumes f: "feed_inv o'" and es: "list_all (of_others i (link_socket l)) es" and inv: "link_inv i l c o' wire"
  shows "link_inv i l c (foldl sfu_table_step o' es) wire"
proof (cases l)
  case LinkNone
  then show ?thesis
    using inv absent_run[OF f _ es] by (simp add: link_inv_def)
qed (use inv holds_run[OF f _ es] in \<open>unfold link_inv_def, simp, metis\<close>)+

lemma observer_acts:
  assumes inv: "telemetry_inv w t" and ok: "tl_ok w t (TlObserver e)"
  shows "telemetry_inv w (tl_observer_acts w t e)"
proof -
  let ?es = "sfu_events (tw_protocol w) (tw_query w) e"
  have es: "list_all (of_others (w_sfuId (tw_sfu w)) (link_socket (tl_link t))) ?es"
    using ok by simp
  then have "list_all passed_on ?es"
    using of_others_passed_on by (auto simp: list_all_iff)
  then show ?thesis
    using inv link_inv_others[OF _ es] feed_run
    by (simp add: telemetry_inv_def tl_observer_acts_def observer_sfus)
qed

text \<open>The connection is accepted, established, used and cut.\<close>

lemma telemetry_invD:
  assumes "telemetry_inv w t"
  shows "feed_inv (tl_table t)" "\<not> oc_closed (tl_client t)" "oc_waiters (tl_client t) = []"
    "link_inv (w_sfuId (tw_sfu w)) (tl_link t) (tl_client t) (tl_table t) (tl_wire t)"
  using assms by (simp_all add: telemetry_inv_def)

lemma acts_table:
  "tl_table (tl_observer_acts w t x) = foldl sfu_table_step (tl_table t) (sfu_events (tw_protocol w) (tw_query w) x)"
  by (simp add: tl_observer_acts_def observer_sfus)

lemma accept_inv:
  assumes p: "query_parses w" and inv: "telemetry_inv w t" and ok: "tl_ok w t (TlAccept ws)"
  shows "telemetry_inv w (tl_step w t (TlAccept ws))"
proof (cases "tl_link t = LinkNone")
  case True
  let ?i = "w_sfuId (tw_sfu w)"
  let ?q = "sfu_query_of (tw_query w (''/?'' @ sfu_query_string ?i))"
  note base = telemetry_invD[OF inv]
  have c: "map_get (ob_entries (tl_table t)) ?i = None" "oc_pending (tl_client t) = Some (0, 0, sfu_query_string ?i)"
      "oc_ws (tl_client t) = None" "tl_wire t = []" "sent_samples (tl_client t) = []"
    using base(4) True by (simp_all add: link_inv_def)
  have q: "sq_sfuId ?q = Some ?i" "?i \<noteq> []"
    using p by (simp_all add: query_parses_def sfu_query_of_def)
  have t': "tl_table (tl_step w t (TlAccept ws)) = sfu_accept (tl_table t) ws ?q"
      "tl_link (tl_step w t (TlAccept ws)) = LinkAccepted ws" "tl_client (tl_step w t (TlAccept ws)) = tl_client t"
      "tl_wire (tl_step w t (TlAccept ws)) = []"
    using True c ok by (simp_all add: acts_table) (simp_all add: tl_observer_acts_def)
  show ?thesis
    using holds_accept[OF base(1) c(1) q] feed_accept[OF base(1)] c base
    unfolding telemetry_inv_def link_inv_def t' by auto
next
  case False
  have "tl_step w t (TlAccept ws) = t"
    using telemetry_invD(4)[OF inv] False by (auto simp: link_inv_def split: link.splits)
  then show ?thesis
    using inv by simp
qed

lemma established_inv:
  assumes inv: "telemetry_inv w t"
  shows "telemetry_inv w (tl_step w t TlEstablished)"
proof (cases "\<exists>ws. tl_link t = LinkAccepted ws")
  case True
  then obtain ws where l: "tl_link t = LinkAccepted ws" ..
  note base = telemetry_invD[OF inv]
  let ?c' = "(tl_client t)\<lparr>oc_pending := None, oc_ws := Some 0, oc_connecting := Resolved, oc_waiters := []\<rparr>"
  have c: "oc_pending (tl_client t) = Some (0, 0, sfu_query_string (w_sfuId (tw_sfu w)))" "tl_wire t = []"
      "sent_samples (tl_client t) = []"
    using base(4) l by (simp_all add: link_inv_def)
  have t': "tl_client (tl_step w t TlEstablished) = ?c'" "tl_link (tl_step w t TlEstablished) = LinkUp ws"
      "tl_observer (tl_step w t TlEstablished) = tl_observer t" "tl_wire (tl_step w t TlEstablished) = []"
    using l c(1,2) base(3) by (simp_all add: tl_sfu_acts_def Let_def client_step sfu_socket_opened_def)
  have "sent_samples ?c' = []"
    using c(3) by (simp add: sent_samples_def)
  then show ?thesis
    using base l unfolding telemetry_inv_def link_inv_def t' by auto
next
  case False
  have "tl_step w t TlEstablished = t"
    using False by (auto split: option.split prod.split link.split)
  then show ?thesis
    using inv by simp
qed

lemma deliver_inv:
  assumes inv: "telemetry_inv w t"
  shows "telemetry_inv w (tl_step w t TlDeliver)"
proof (cases "\<exists>ws x xs. tl_link t = LinkUp ws \<and> tl_wire t = x # xs")
  case True
  then obtain ws x xs where l: "tl_link t = LinkUp ws" "tl_wire t = x # xs"
    by blast
  note base = telemetry_invD[OF inv]
  obtain src where src: "holds (tl_table t) (w_sfuId (tw_sfu w)) (Some ws) src"
      "fed (tl_table t) src @ x # xs = sent_samples (tl_client t)"
    using base(4) l by (auto simp: link_inv_def)
  have t': "tl_table (tl_step w t TlDeliver) = ob_message (tl_table t) ws x" "tl_link (tl_step w t TlDeliver) = LinkUp ws"
      "tl_client (tl_step w t TlDeliver) = tl_client t" "tl_wire (tl_step w t TlDeliver) = xs"
    using l by (simp_all add: acts_table) (simp_all add: tl_observer_acts_def)
  show ?thesis
    using base l holds_message[OF base(1) src(1), of x] src(2) feed_step[OF base(1), of "SfuMessage ws x"]
    unfolding telemetry_inv_def link_inv_def t' by auto
next
  case False
  have "tl_step w t TlDeliver = t"
    using False by (auto split: link.split list.split)
  then show ?thesis
    using inv by simp
qed

lemma cut_inv:
  assumes inv: "telemetry_inv w t"
  shows "telemetry_inv w (tl_step w t (TlCut now))"
proof (cases "\<exists>ws. tl_link t = LinkUp ws")
  case True
  then obtain ws where l: "tl_link t = LinkUp ws" ..
  note base = telemetry_invD[OF inv]
  obtain src where src: "holds (tl_table t) (w_sfuId (tw_sfu w)) (Some ws) src"
      "fed (tl_table t) src @ tl_wire t = sent_samples (tl_client t)"
      "oc_pending (tl_client t) = None" "oc_ws (tl_client t) = Some 0"
    using base(4) l by (auto simp: link_inv_def)
  have t': "tl_table (tl_step w t (TlCut now)) = sfu_socket_closed (tl_table t) now ws"
      "tl_link (tl_step w t (TlCut now)) = LinkDown ws" "tl_client (tl_step w t (TlCut now)) = tl_client t"
      "tl_wire (tl_step w t (TlCut now)) = []"
    using l src(4) by (simp_all add: tl_sfu_acts_def Let_def client_step acts_table tl_observer_acts_def observer_sfus)
  have "prefix (fed (tl_table t) src) (sent_samples (tl_client t))"
    unfolding src(2)[symmetric] by simp
  then show ?thesis
    using base l holds_closed[OF base(1) src(1), of now] src(3,4) feed_step[OF base(1), of "SfuSocketClosed now ws"]
    unfolding telemetry_inv_def link_inv_def t' by auto
next
  case False
  have "tl_step w t (TlCut now) = t"
    using False by (auto split: link.split option.split)
  then show ?thesis
    using inv by simp
qed

lemma tl_step_inv: "query_parses w \<Longrightarrow> telemetry_inv w t \<Longrightarrow> tl_ok w t e \<Longrightarrow> telemetry_inv w (tl_step w t e)"
  using sfu_acts(1) observer_acts accept_inv established_inv deliver_inv cut_inv
  by (cases e) (simp_all del: tl_step.simps add: tl_step.simps(1,2))

interpretation telemetry: invariant_system "tl_step w" "tl_ok w" "\<lambda>t. query_parses w \<and> telemetry_inv w t" for w
  by unfold_locales (use tl_step_inv in blast)

lemma observer_acts_client [simp]: "tl_sfu (tl_observer_acts w t e) = tl_sfu t"
  by (simp add: tl_observer_acts_def)

lemma socket_event_samples:
  "is_socket_event x \<Longrightarrow> samples (tl_client (tl_sfu_acts w t (ObserverSocket x))) = samples (tl_client t)"
  by (cases x) (simp_all add: tl_sfu_acts_def Let_def client_step sfu_samples.step_samples del: sfu_observer_step.simps)

lemma tl_step_samples:
  assumes "telemetry_inv w t" "tl_ok w t e"
  shows "samples (tl_client (tl_step w t e)) = samples (tl_client t) @ created_by e"
  using sfu_acts(2)[OF assms(1)] assms(2)
  by (cases e) (auto simp: socket_event_samples split: option.split prod.split link.split list.split)

lemma telemetry_start_inv:
  "telemetry_inv w (telemetry_start w p q ip a)" "samples (tl_client (telemetry_start w p q ip a)) = []"
  by (simp_all add: telemetry_inv_def link_inv_def telemetry_start_def sfu_main_start_def sfu_main_from_def oc_connect_def oc_new_def
      oc_open_def oc_log_def observer_main_start_def observed_new_def feed_inv_def fed_def sent_samples_def samples_def)

lemma telemetry_run_inv:
  "query_parses w \<Longrightarrow> ok_run (tl_step w) (tl_ok w) t es \<Longrightarrow> telemetry_inv w t \<Longrightarrow> telemetry_inv w (telemetry_run w t es)"
  using telemetry.run_inv[of w t es] by (simp add: telemetry_run_def)

lemma telemetry_run_samples:
  assumes "query_parses w" "ok_run (tl_step w) (tl_ok w) t es" "telemetry_inv w t"
  shows "samples (tl_client (telemetry_run w t es)) = samples (tl_client t) @ created es"
  using assms(2)
proof (induction es rule: rev_induct)
  case (snoc e es)
  then have ok: "ok_run (tl_step w) (tl_ok w) t es" "tl_ok w (telemetry_run w t es) e"
    by (simp_all add: ok_run_append telemetry_run_def)
  show ?case
    using snoc.IH[OF ok(1)] tl_step_samples[OF telemetry_run_inv[OF assms(1) ok(1) assms(3)] ok(2)]
    by (simp add: telemetry_run_def created_def)
qed (simp add: telemetry_run_def created_def)

lemma telemetry_run_start:
  assumes "query_parses w" "ok_run (tl_step w) (tl_ok w) (telemetry_start w p q ip a) es"
  shows "telemetry_inv w (telemetry_run w (telemetry_start w p q ip a) es)"
    and "sent_samples (tl_client (telemetry_run w (telemetry_start w p q ip a) es)) @
      oc_buffer (tl_client (telemetry_run w (telemetry_start w p q ip a) es)) = created es"
  using telemetry_run_inv[OF assms] telemetry_run_samples[OF assms] telemetry_start_inv[of w p q ip a]
  by (simp_all add: samples_def sent_samples_def)

lemma up_source:
  assumes "telemetry_inv w t" "tl_link t = LinkUp ws"
  shows "\<exists>src. ob_sockets (tl_table t) ws = Some (w_sfuId (tw_sfu w), src) \<and>
    fed (tl_table t) src @ tl_wire t = sent_samples (tl_client t)"
  using telemetry_invD[OF assms(1)] assms(2) holds_socket unfolding link_inv_def by fastforce

lemma down_source:
  assumes "telemetry_inv w t" "tl_link t = LinkDown ws"
  shows "\<exists>e. map_get (ob_entries (tl_table t)) (w_sfuId (tw_sfu w)) = Some e \<and>
    prefix (fed (tl_table t) (e_source e)) (sent_samples (tl_client t))"
  using telemetry_invD(4)[OF assms(1)] assms(2) unfolding link_inv_def holds_def by auto

section \<open>Samples arrive in order\<close>

text \<open>
  C7. The observer is fed with what the monitor samples: in every run of the two services, while the connection is up the
  samples that the source of the SFU was given, those on the wire and those the client still keeps are together the
  samples that the monitor created, in this order and each once; before that the client keeps all of
  them, and after the connection was cut the source has a prefix.
\<close>

theorem telemetry_in_order:
  assumes "query_parses w" "t0 = telemetry_start w p q ip a" "ok_run (tl_step w) (tl_ok w) t0 es"
  shows "let t = telemetry_run w t0 es; i = w_sfuId (tw_sfu w) in
    case tl_link t of
      LinkUp ws \<Rightarrow> \<exists>src. ob_sockets (tl_table t) ws = Some (i, src) \<and>
        fed (tl_table t) src @ tl_wire t @ oc_buffer (tl_client t) = created es
    | LinkDown ws \<Rightarrow> \<exists>e. map_get (ob_entries (tl_table t)) i = Some e \<and> prefix (fed (tl_table t) (e_source e)) (created es)
    | _ \<Rightarrow> oc_buffer (tl_client t) = created es"
proof -
  let ?t = "telemetry_run w t0 es"
  have inv: "telemetry_inv w ?t" and s: "sent_samples (tl_client ?t) @ oc_buffer (tl_client ?t) = created es"
    using telemetry_run_start[OF assms(1)] assms(2,3) by simp_all
  show ?thesis
  proof (cases "tl_link ?t")
    case (LinkUp ws)
    then show ?thesis
      using up_source[OF inv LinkUp] s by (auto simp: Let_def simp flip: append_assoc)
  next
    case (LinkDown ws)
    obtain e where e: "map_get (ob_entries (tl_table ?t)) (w_sfuId (tw_sfu w)) = Some e"
        "prefix (fed (tl_table ?t) (e_source e)) (sent_samples (tl_client ?t))"
      using down_source[OF inv LinkDown] by blast
    have "prefix (fed (tl_table ?t) (e_source e)) (created es)"
      unfolding s[symmetric] by (rule prefix_prefix[OF e(2)])
    then show ?thesis
      using LinkDown e(1) by (simp add: Let_def)
  qed (use telemetry_invD(4)[OF inv] s in \<open>simp_all add: link_inv_def Let_def\<close>)
qed

lemma deliver_one:
  "tl_link t = LinkUp ws \<Longrightarrow> tl_wire t = x # xs \<Longrightarrow>
   tl_wire (tl_step w t TlDeliver) = xs \<and> tl_link (tl_step w t TlDeliver) = LinkUp ws \<and>
   tl_sfu (tl_step w t TlDeliver) = tl_sfu t"
  by (simp add: tl_observer_acts_def)

lemma deliver_all:
  "tl_link t = LinkUp ws \<Longrightarrow> n = length (tl_wire t) \<Longrightarrow>
   let t' = telemetry_run w t (replicate n TlDeliver) in
   tl_wire t' = [] \<and> tl_link t' = LinkUp ws \<and> tl_sfu t' = tl_sfu t"
proof (induction n arbitrary: t)
  case (Suc n)
  then obtain x xs where "tl_wire t = x # xs"
    by (cases "tl_wire t") simp_all
  with deliver_one[OF Suc.prems(1) this, of w] Suc.IH[of "tl_step w t TlDeliver"] Suc.prems show ?case
    by (simp add: telemetry_run_def Let_def del: tl_step.simps)
qed (simp add: telemetry_run_def)

text \<open>
  C8. Nothing gets stuck: when the connection is up, one more sample makes the client send what it kept, and once the wire
  is empty the source has been given all samples up to this one.
\<close>

theorem telemetry_arrives:
  assumes "query_parses w" "t0 = telemetry_start w p q ip a" "ok_run (tl_step w) (tl_ok w) t0 es"
    and "tl_link (telemetry_run w t0 es) = LinkUp ws"
  shows "\<exists>n src. let t = telemetry_run w t0 (es @ TlSfu (SampleCreated x) # replicate n TlDeliver) in
    tl_wire t = [] \<and> ob_sockets (tl_table t) ws = Some (w_sfuId (tw_sfu w), src) \<and>
    fed (tl_table t) src = created es @ [x]"
proof -
  define t1 where "t1 = telemetry_run w t0 (es @ [TlSfu (SampleCreated x)])"
  define n where "n = length (tl_wire t1)"
  define t2 where "t2 = telemetry_run w t1 (replicate n TlDeliver)"
  have ok1: "ok_run (tl_step w) (tl_ok w) t0 (es @ [TlSfu (SampleCreated x)])"
    using assms(3) by (simp add: ok_run_append)
  have inv1: "telemetry_inv w t1" and s1: "samples (tl_client t1) = created es @ [x]"
    using telemetry_run_start[OF assms(1)] ok1 assms(2) by (simp_all add: t1_def samples_def sent_samples_def created_def)
  have t1: "t1 = tl_sfu_acts w (telemetry_run w t0 es) (SampleCreated x)"
    by (simp add: t1_def telemetry_run_def)
  have c: "oc_ws (tl_client (telemetry_run w t0 es)) = Some 0" "\<not> oc_closed (tl_client (telemetry_run w t0 es))"
    using telemetry_run_start(1)[OF assms(1), of p q ip a es] assms(2-4) telemetry_invD(2,4) unfolding link_inv_def by fastforce+
  have u1: "tl_link t1 = LinkUp ws" "oc_buffer (tl_client t1) = []"
    unfolding t1 using assms(4) send_flushes[OF c] by (simp_all add: tl_sfu_acts_def Let_def client_step)
  have t2: "tl_wire t2 = []" "tl_link t2 = LinkUp ws" "tl_sfu t2 = tl_sfu t1"
    using deliver_all[OF u1(1) n_def, of w] by (simp_all add: t2_def Let_def)
  have "ok_run (tl_step w) (tl_ok w) t1 (replicate n TlDeliver)"
    by (induction n arbitrary: t1) (simp_all del: tl_step.simps)
  then have "telemetry_inv w t2"
    unfolding t2_def by (rule telemetry_run_inv[OF assms(1) _ inv1])
  then obtain src where "ob_sockets (tl_table t2) ws = Some (w_sfuId (tw_sfu w), src)"
      "fed (tl_table t2) src = sent_samples (tl_client t2)"
    using up_source[OF _ t2(2)] t2(1) by fastforce
  moreover have "sent_samples (tl_client t2) = created es @ [x]"
    using s1 u1(2) by (simp add: t2(3) samples_def sent_samples_def)
  moreover have "t2 = telemetry_run w t0 (es @ TlSfu (SampleCreated x) # replicate n TlDeliver)"
    by (simp add: t2_def t1_def telemetry_run_def)
  ultimately show ?thesis
    using t2(1) unfolding Let_def by metis
qed

section \<open>After a cut\<close>

definition lost_inv :: "telemetry_world \<Rightarrow> nat \<Rightarrow> string list \<Rightarrow> telemetry \<Rightarrow> bool" where
  "lost_inv w src xs t \<longleftrightarrow>
     query_parses w \<and> telemetry_inv w t \<and> (\<exists>ws. tl_link t = LinkDown ws) \<and>
     holds (tl_table t) (w_sfuId (tw_sfu w)) None src \<and> fed (tl_table t) src = xs"

lemma lost_step: "lost_inv w src xs t \<Longrightarrow> tl_ok w t e \<Longrightarrow> lost_inv w src xs (tl_step w t e)"
proof -
  assume l: "lost_inv w src xs t" and ok: "tl_ok w t e"
  then obtain ws where ws: "tl_link t = LinkDown ws"
    by (auto simp: lost_inv_def)
  have inv: "telemetry_inv w (tl_step w t e)"
    using l ok tl_step_inv by (auto simp: lost_inv_def)
  have p: "oc_pending (tl_client t) = None"
    using l ws telemetry_invD(4) unfolding lost_inv_def link_inv_def by fastforce
  show ?thesis
  proof (cases e)
    case (TlSfu x)
    then show ?thesis
      using l inv ws by (simp add: lost_inv_def tl_sfu_acts_def Let_def)
  next
    case (TlObserver x)
    then have "list_all (of_others (w_sfuId (tw_sfu w)) None) (sfu_events (tw_protocol w) (tw_query w) x)"
      using ok ws by simp
    moreover have "telemetry_inv w t" "holds (tl_table t) (w_sfuId (tw_sfu w)) None src" "fed (tl_table t) src = xs"
      using l by (simp_all add: lost_inv_def)
    ultimately have
      "holds (tl_table (tl_step w t e)) (w_sfuId (tw_sfu w)) None src \<and> fed (tl_table (tl_step w t e)) src = xs"
      using holds_run[OF telemetry_invD(1)] TlObserver acts_table[of w t x] by simp
    then show ?thesis
      using l inv ws TlObserver by (simp add: lost_inv_def tl_observer_acts_def)
  qed (use l ws p in simp_all)
qed

interpretation lost: invariant_system "tl_step w" "tl_ok w" "lost_inv w src xs" for w src xs
  by unfold_locales (rule lost_step)

text \<open>
  C32. After a cut the observer gets nothing more from the SFU: in every continuation of the run, whatever the monitor
  creates, the SFU keeps its entry in the table but its source is given no further sample.
\<close>

theorem cut_telemetry_is_lost:
  assumes "query_parses w" "t0 = telemetry_start w p q ip a" "ok_run (tl_step w) (tl_ok w) t0 (es @ fs)"
    and "tl_link (telemetry_run w t0 es) = LinkDown ws"
  shows "let t = telemetry_run w t0 es; t' = telemetry_run w t0 (es @ fs); i = w_sfuId (tw_sfu w) in
    \<exists>src. map_option e_source (map_get (ob_entries (tl_table t)) i) = Some src \<and>
      map_option e_source (map_get (ob_entries (tl_table t')) i) = Some src \<and>
      fed (tl_table t') src = fed (tl_table t) src"
proof -
  let ?t = "telemetry_run w t0 es"
  have ok: "ok_run (tl_step w) (tl_ok w) t0 es" "ok_run (tl_step w) (tl_ok w) ?t fs"
    using assms(3) by (simp_all add: ok_run_append telemetry_run_def)
  have inv: "telemetry_inv w ?t"
    using telemetry_run_start(1)[OF assms(1)] ok(1) by (simp add: assms(2))
  obtain src where src: "holds (tl_table ?t) (w_sfuId (tw_sfu w)) None src"
    using telemetry_invD(4)[OF inv] assms(4) by (auto simp: link_inv_def)
  then have "lost_inv w src (fed (tl_table ?t) src) ?t"
    using assms(1,4) inv by (simp add: lost_inv_def)
  from lost.run_inv[OF this ok(2)] have "lost_inv w src (fed (tl_table ?t) src) (telemetry_run w t0 (es @ fs))"
    by (simp add: telemetry_run_def)
  then show ?thesis
    using src unfolding lost_inv_def holds_def Let_def by auto
qed

section \<open>A run\<close>

definition demo_telemetry :: telemetry_world where
  "demo_telemetry =
     \<lparr>tw_sfu = demo_world, tw_protocol = (\<lambda>_. ''sfu-sample''), tw_url = (\<lambda>_. None),
      tw_query = (\<lambda>_ k. if k = ''sfuId'' then Some ''sfu'' else None)\<rparr>"

abbreviation demo_telemetry_start :: telemetry where
  "demo_telemetry_start \<equiv> telemetry_start demo_telemetry 8080 7080 ''ip'' ''ip''"

text \<open>Two samples before the connection, one on it; then it is cut and another sample is created.\<close>

definition demo_up :: "telemetry_event list" where
  "demo_up = [TlSfu (SampleCreated ''a''), TlAccept 3, TlSfu (SampleCreated ''b''), TlEstablished, TlSfu (SampleCreated ''c''), TlDeliver]"

lemma demo_parses: "query_parses demo_telemetry"
  by (simp add: query_parses_def demo_telemetry_def demo_world_def)

lemmas demo_eval = telemetry_run_def telemetry_start_def demo_telemetry_def demo_world_def sfu_main_start_def sfu_main_from_def
  observer_main_start_def tl_sfu_acts_def tl_observer_acts_def Let_def oc_connect_def oc_new_def oc_open_def oc_log_def
  oc_send_def sfu_socket_opened_def on_connection_def sv_log_def server_start_def set_processor_def server_new_def
  setState_def observer_connection_def sfu_accept_def sfu_query_of_def sfu_setup_def ob_log_def ob_message_def observed_new_def

lemma demo_up_run:
  "ok_run (tl_step demo_telemetry) (tl_ok demo_telemetry) demo_telemetry_start demo_up"
  "tl_link (telemetry_run demo_telemetry demo_telemetry_start demo_up) = LinkUp 3"
  "tl_wire (telemetry_run demo_telemetry demo_telemetry_start demo_up) = [''b'', ''c'']"
  "oc_ws (tl_client (telemetry_run demo_telemetry demo_telemetry_start demo_up)) = Some 0"
  by (simp_all add: demo_up_def demo_eval)

lemma telemetry_in_order_witness:
  "\<exists>src. ob_sockets (tl_table (telemetry_run demo_telemetry demo_telemetry_start demo_up)) 3 = Some (''sfu'', src) \<and>
     fed (tl_table (telemetry_run demo_telemetry demo_telemetry_start demo_up)) src @ [''b'', ''c''] @
       oc_buffer (tl_client (telemetry_run demo_telemetry demo_telemetry_start demo_up)) = [''a'', ''b'', ''c'']"
proof -
  have "created demo_up = [''a'', ''b'', ''c'']" "w_sfuId (tw_sfu demo_telemetry) = ''sfu''"
    by (simp_all add: created_def demo_up_def demo_telemetry_def demo_world_def)
  then show ?thesis
    using telemetry_in_order[OF demo_parses refl demo_up_run(1)] demo_up_run(2,3) by (simp add: Let_def)
qed

lemma telemetry_arrives_witness:
  "\<exists>n src. let t = telemetry_run demo_telemetry demo_telemetry_start
      (demo_up @ TlSfu (SampleCreated ''d'') # replicate n TlDeliver) in
    tl_wire t = [] \<and> ob_sockets (tl_table t) 3 = Some (''sfu'', src) \<and>
    fed (tl_table t) src = [''a'', ''b'', ''c'', ''d'']"
proof -
  have "created demo_up = [''a'', ''b'', ''c'']" "w_sfuId (tw_sfu demo_telemetry) = ''sfu''"
    by (simp_all add: created_def demo_up_def demo_telemetry_def demo_world_def)
  then show ?thesis
    using telemetry_arrives[OF demo_parses refl demo_up_run(1,2), of "''d''"] by simp
qed

lemma demo_down_run:
  "ok_run (tl_step demo_telemetry) (tl_ok demo_telemetry) demo_telemetry_start
     ((demo_up @ [TlCut 9]) @ [TlSfu (SampleCreated ''d''), TlDeliver])"
  "tl_link (telemetry_run demo_telemetry demo_telemetry_start (demo_up @ [TlCut 9])) = LinkDown 3"
  by (simp_all add: demo_up_def demo_eval)

lemma cut_telemetry_is_lost_witness:
  "let t = telemetry_run demo_telemetry demo_telemetry_start (demo_up @ [TlCut 9]);
       t' = telemetry_run demo_telemetry demo_telemetry_start ((demo_up @ [TlCut 9]) @ [TlSfu (SampleCreated ''d''), TlDeliver])
   in \<exists>src. map_option e_source (map_get (ob_entries (tl_table t')) ''sfu'') = Some src \<and>
      fed (tl_table t') src = fed (tl_table t) src"
proof -
  have "w_sfuId (tw_sfu demo_telemetry) = ''sfu''"
    by (simp add: demo_telemetry_def demo_world_def)
  then show ?thesis
    using cut_telemetry_is_lost[OF demo_parses refl demo_down_run] by (simp add: Let_def) blast
qed

end
