(* ===== verification/ClientFeed.thy ===== *)
theory ClientFeed
  imports SfuFeed
begin

text \<open>
  What a web application sees of the observer: the facts of \<open>SfuFeed\<close> for the table of clients. Read as one of SFUs
  (\<^const>\<open>as_sfu\<close>), the table of clients does what that table does, and none of the notions of \<open>SfuFeed\<close> looks at what the
  reading changes, so they carry over. A client that comes again under its id keeps its source.
\<close>

section \<open>The notions are the same of the table read as one of SFUs\<close>

lemma accepted_as_sfu [simp]: "accepted_by src (as_sfu_out x) = accepted_by src x"
  by (cases x) simp_all

lemma fed_as_sfu [simp]: "fed (as_sfu t) src = fed t src"
  by (simp add: fed_def comp_def)

lemma holds_as_sfu [simp]: "holds (as_sfu t) i w src = holds t i w src"
  by (simp add: holds_def) (metis as_sfu_entry_simps(2))

lemma map_option_quantifiers:
  "(\<forall>y. map_option f x = Some y \<longrightarrow> P y) = (\<forall>z. x = Some z \<longrightarrow> P (f z))"
  "(\<exists>y. map_option f x = Some y \<and> P y) = (\<exists>z. x = Some z \<and> P (f z))"
  by auto

lemma feed_as_sfu [simp]: "feed_inv (as_sfu t) = feed_inv t"
  by (simp add: feed_inv_def map_option_quantifiers del: map_option_eq_Some)

section \<open>The table of clients\<close>

lemma client_feed_step: "feed_inv t \<Longrightarrow> passed_on (as_sfu_event e) \<Longrightarrow> feed_inv (client_step t e)"
  using feed_step[of "as_sfu t" "as_sfu_event e"] by (simp add: as_sfu_step)

lemma client_holds_others:
  assumes "feed_inv t" "holds t i w src" "of_others i w (as_sfu_event e)"
  shows "holds (client_step t e) i w src" "fed (client_step t e) src = fed t src"
  using holds_others[of "as_sfu t" i w src "as_sfu_event e"] assms by (simp_all add: as_sfu_step)

lemma client_absent_others:
  "feed_inv t \<Longrightarrow> map_get (ob_entries t) i = None \<Longrightarrow> of_others i w (as_sfu_event e) \<Longrightarrow>
   map_get (ob_entries (client_step t e)) i = None"
  using absent_others[of "as_sfu t" i w "as_sfu_event e"] by (simp add: as_sfu_step)

text \<open>A complete query of the client \<open>i\<close>.\<close>

definition complete_query :: "string \<Rightarrow> client_query \<Rightarrow> bool" where
  "complete_query i q \<longleftrightarrow> i \<noteq> [] \<and> cq_clientId q = Some i \<and> str_truthy (cq_roomId q) \<and> str_truthy (cq_callId q)"

lemma complete_as_sfu: "complete_query i q \<Longrightarrow> sq_sfuId (as_sfu_query q) = Some i \<and> i \<noteq> []"
  by (simp add: complete_query_def as_sfu_query_def)

lemma client_holds_accept:
  assumes "feed_inv t" "map_get (ob_entries t) i = None" "complete_query i q"
  shows "holds (client_accept t ws q) i (Some ws) (ob_nsources t)" "fed (client_accept t ws q) (ob_nsources t) = []"
proof -
  have q: "sq_sfuId (as_sfu_query q) = Some i" "i \<noteq> []"
    using complete_as_sfu[OF assms(3)] by simp_all
  show "holds (client_accept t ws q) i (Some ws) (ob_nsources t)" "fed (client_accept t ws q) (ob_nsources t) = []"
    using holds_accept[of "as_sfu t" i "as_sfu_query q" ws] assms(1,2) q by (simp_all add: as_sfu_accept)
qed

text \<open>Coming again under the same id.\<close>

lemma holds_again:
  assumes inv: "feed_inv t" and h: "holds t i None src" and q: "sq_sfuId q = Some i" "i \<noteq> []"
  shows "holds (sfu_accept t ws q) i (Some ws) src" "fed (sfu_accept t ws q) src = fed t src"
proof -
  obtain e where e: "map_get (ob_entries t) i = Some e" "e_source e = src" "e_id e = i"
    using h feed_invD(2)[OF inv] by (auto simp: holds_def)
  then show "holds (sfu_accept t ws q) i (Some ws) src" "fed (sfu_accept t ws q) src = fed t src"
    using h q by (auto simp: sfu_accept_def holds_def) (auto simp: sfu_setup_def map_get_set split: if_splits)
qed

lemma client_holds_again:
  assumes "feed_inv t" "holds t i None src" "complete_query i q"
  shows "holds (client_accept t ws q) i (Some ws) src" "fed (client_accept t ws q) src = fed t src"
proof -
  have q: "sq_sfuId (as_sfu_query q) = Some i" "i \<noteq> []"
    using complete_as_sfu[OF assms(3)] by simp_all
  show "holds (client_accept t ws q) i (Some ws) src" "fed (client_accept t ws q) src = fed t src"
    using holds_again[of "as_sfu t" i src "as_sfu_query q" ws] assms(1,2) q by (simp_all add: as_sfu_accept)
qed

lemma client_holds_closed:
  assumes "feed_inv t" "holds t i (Some ws) src"
  shows "holds (client_socket_closed t now ws) i None src" "fed (client_socket_closed t now ws) src = fed t src"
  using holds_closed[of "as_sfu t" i ws src now] assms by (simp_all add: as_sfu_socket_closed)

text \<open>The events of the table of clients that an event of the service causes.\<close>

fun client_events :: "(nat \<Rightarrow> string) \<Rightarrow> (string \<Rightarrow> query) \<Rightarrow> observer_event \<Rightarrow> client_event list" where
  "client_events protocol pq (ServerEvent (WsConnection ws u)) =
     (if protocol ws = ''client-sample''
      then [ClientAccept ws (client_query_of (pq (case nullish u (Some '''') of None \<Rightarrow> '''' | Some u \<Rightarrow> u)))] else [])"
| "client_events protocol pq (ServerEvent _) = []"
| "client_events protocol pq (SocketMessage ws data) = [ClientMessage ws data]"
| "client_events protocol pq (SocketClosed now ws) = [ClientSocketClosed now ws]"
| "client_events protocol pq (ClientSourceEnded src) = [ClientSourceClosed src]"
| "client_events protocol pq (SfuSourceEnded src) = []"

lemma observer_clients:
  "om_clients (observer_step protocol url pq s e) = foldl client_step (om_clients s) (client_events protocol pq e)"
proof (cases e)
  case (ServerEvent x)
  then show ?thesis
    by (cases x)
      (auto simp: Let_def server_start_def server_stop_def server_resume_def set_processor_def on_request_def
        on_connection_def sv_log_def setState_def observer_connection_def split: option.split server_await.split)
qed simp_all

text \<open>Sequences of events of others.\<close>

lemma client_feed_run: "feed_inv t \<Longrightarrow> list_all (\<lambda>e. passed_on (as_sfu_event e)) es \<Longrightarrow> feed_inv (foldl client_step t es)"
  by (induction es arbitrary: t) (simp_all add: client_feed_step)

lemma client_holds_run:
  assumes "feed_inv t" "holds t i w src" "list_all (\<lambda>e. of_others i w (as_sfu_event e)) es"
  shows "holds (foldl client_step t es) i w src \<and> fed (foldl client_step t es) src = fed t src"
  using assms
proof (induction es arbitrary: t)
  case (Cons e es)
  have e: "of_others i w (as_sfu_event e)" "list_all (\<lambda>e. of_others i w (as_sfu_event e)) es"
    using Cons.prems(3) by simp_all
  note h = client_holds_others[OF Cons.prems(1,2) e(1)]
  show ?case
    using Cons.IH[OF client_feed_step[OF Cons.prems(1) of_others_passed_on[OF e(1)]] h(1) e(2)] h(2) by simp
qed simp

lemma client_absent_run:
  assumes "feed_inv t" "map_get (ob_entries t) i = None" "list_all (\<lambda>e. of_others i w (as_sfu_event e)) es"
  shows "map_get (ob_entries (foldl client_step t es)) i = None"
  using assms
proof (induction es arbitrary: t)
  case (Cons e es)
  then have "of_others i w (as_sfu_event e)"
    by simp
  then show ?case
    using Cons client_absent_others[of t i w e] client_feed_step[OF Cons.prems(1)] of_others_passed_on by simp
qed simp

end
