(* ===== verification/WebTelemetry.thy ===== *)
theory WebTelemetry
  imports Telemetry ClientFeed
begin

text \<open>
  A web application and the observer together: the samples of its monitor go through the application's
  \<open>ObserverServiceClient\<close> over a web socket to the table of clients and to the source of this client. In contrast to the SFU
  the client notices that its connection is cut or refused and tries again; the samples that were on the wire are the only
  ones that are lost. Both ends notice a cut at the same time, so an old connection has ended before the
  next one is accepted.
\<close>

section \<open>State and steps\<close>

record web_world =
  ww_clientId :: string
  ww_queryString :: string
  ww_protocol :: "nat \<Rightarrow> string"
  ww_url :: "nat \<Rightarrow> string option"
  ww_query :: "string \<Rightarrow> query"

record web_telemetry =
  wt_client :: observer_client
  wt_observer :: observer_main
  wt_link :: link
  wt_wire :: "string list"

abbreviation wt_table :: "web_telemetry \<Rightarrow> observed" where
  "wt_table t \<equiv> om_clients (wt_observer t)"

definition web_telemetry_start :: "web_world \<Rightarrow> nat \<Rightarrow> web_telemetry" where
  "web_telemetry_start w port =
     \<lparr>wt_client = oc_connect (oc_new True) (ww_queryString w), wt_observer = observer_main_start port,
      wt_link = LinkNone, wt_wire = []\<rparr>"

definition wt_client_acts :: "web_telemetry \<Rightarrow> oc_event \<Rightarrow> web_telemetry" where
  "wt_client_acts t e =
     (let c = web_observer_step (wt_client t) e;
          sent = concat (map sample_of (drop (length (oc_out (wt_client t))) (oc_out c)))
      in t\<lparr>wt_client := c, wt_wire := (case wt_link t of LinkUp _ \<Rightarrow> wt_wire t @ sent | _ \<Rightarrow> wt_wire t)\<rparr>)"

definition wt_observer_acts :: "web_world \<Rightarrow> web_telemetry \<Rightarrow> observer_event \<Rightarrow> web_telemetry" where
  "wt_observer_acts w t e = t\<lparr>wt_observer := observer_step (ww_protocol w) (ww_url w) (ww_query w) (wt_observer t) e\<rparr>"

datatype web_telemetry_event =
    WtSample string
  | WtObserver observer_event
  | WtAccept nat
  | WtEstablished
  | WtRefused
  | WtTimer
  | WtDeliver
  | WtCut nat nat

fun wt_step :: "web_world \<Rightarrow> web_telemetry \<Rightarrow> web_telemetry_event \<Rightarrow> web_telemetry" where
  "wt_step w t (WtSample x) = wt_client_acts t (OcSend x)"
| "wt_step w t (WtObserver e) = wt_observer_acts w t e"
| "wt_step w t (WtAccept ws) =
     (case (oc_pending (wt_client t), link_socket (wt_link t)) of
        (Some (n, tried, query), None) \<Rightarrow>
          (wt_observer_acts w t (ServerEvent (WsConnection ws (Some (''/?'' @ query)))))\<lparr>wt_link := LinkAccepted ws\<rparr>
      | _ \<Rightarrow> t)"
| "wt_step w t WtEstablished =
     (case (oc_pending (wt_client t), wt_link t) of
        (Some (n, tried, query), LinkAccepted ws) \<Rightarrow> wt_client_acts (t\<lparr>wt_link := LinkUp ws\<rparr>) (OcOpened n)
      | _ \<Rightarrow> t)"
| "wt_step w t WtRefused =
     (case (oc_pending (wt_client t), link_socket (wt_link t)) of
        (Some (n, tried, query), None) \<Rightarrow> wt_client_acts t (OcError n)
      | _ \<Rightarrow> t)"
| "wt_step w t WtTimer = wt_client_acts t OcTimer"
| "wt_step w t WtDeliver =
     (case (wt_link t, wt_wire t) of
        (LinkUp ws, x # xs) \<Rightarrow> (wt_observer_acts w t (SocketMessage ws x))\<lparr>wt_wire := xs\<rparr>
      | _ \<Rightarrow> t)"
| "wt_step w t (WtCut now code) =
     (case (wt_link t, oc_ws (wt_client t)) of
        (LinkUp ws, Some n) \<Rightarrow>
          wt_client_acts ((wt_observer_acts w t (observer_event.SocketClosed now ws))\<lparr>wt_link := LinkDown ws, wt_wire := []\<rparr>)
            (OcClosed n code)
      | _ \<Rightarrow> t)"

text \<open>
  The other peers have sockets of their own and do not use this client's id, the connection has the subprotocol that
  the client asks for, and an accepted connection is not closed with a code from 4000 on: the observer does that only
  to connections without their ids or with another subprotocol.
\<close>

fun wt_ok :: "web_world \<Rightarrow> web_telemetry \<Rightarrow> web_telemetry_event \<Rightarrow> bool" where
  "wt_ok w t (WtObserver e) =
     ((from_outside e \<or> e = ServerEvent Stop) \<and>
      list_all (\<lambda>x. of_others (ww_clientId w) (link_socket (wt_link t)) (as_sfu_event x))
        (client_events (ww_protocol w) (ww_query w) e))"
| "wt_ok w t (WtAccept ws) = (ww_protocol w ws = ''client-sample'')"
| "wt_ok w t (WtCut now code) = (code < 4000)"
| "wt_ok w t _ = True"

definition web_telemetry_run :: "web_world \<Rightarrow> web_telemetry \<Rightarrow> web_telemetry_event list \<Rightarrow> web_telemetry" where
  "web_telemetry_run w t es = foldl (wt_step w) t es"

fun wt_sampled :: "web_telemetry_event \<Rightarrow> string list" where
  "wt_sampled (WtSample x) = [x]"
| "wt_sampled _ = []"

definition web_created :: "web_telemetry_event list \<Rightarrow> string list" where
  "web_created es = concat (map wt_sampled es)"

fun is_cut :: "web_telemetry_event \<Rightarrow> bool" where
  "is_cut (WtCut _ _) = True"
| "is_cut _ = False"

section \<open>The flow of samples\<close>

text \<open>What the source of a client was given, and where the samples are that can still get there.\<close>

definition fed_of :: "observed \<Rightarrow> string \<Rightarrow> string list" where
  "fed_of t i = (case map_get (ob_entries t) i of None \<Rightarrow> [] | Some e \<Rightarrow> fed t (e_source e))"

definition web_flow :: "web_world \<Rightarrow> web_telemetry \<Rightarrow> string list" where
  "web_flow w t = fed_of (wt_table t) (ww_clientId w) @ wt_wire t @ oc_buffer (wt_client t)"

lemma fed_of_holds: "holds t i w src \<Longrightarrow> fed_of t i = fed t src"
  by (auto simp: holds_def fed_of_def)

lemma fed_of_absent: "map_get (ob_entries t) i = None \<Longrightarrow> fed_of t i = []"
  by (simp add: fed_of_def)

text \<open>The client has no socket and is trying, or has given up; it has one and listens to its end.\<close>

definition trying :: "string \<Rightarrow> observer_client \<Rightarrow> bool" where
  "trying q c \<longleftrightarrow> oc_ws c = None \<and>
     ((\<exists>n k. oc_pending c = Some (n, k, q)) \<and> oc_retry c = None \<or>
      oc_pending c = None \<and> (\<exists>k. oc_retry c = Some (k, q)) \<or>
      oc_pending c = None \<and> oc_retry c = None)"

definition in_use :: "string \<Rightarrow> observer_client \<Rightarrow> bool" where
  "in_use q c \<longleftrightarrow> (\<exists>n. oc_ws c = Some n \<and> map_of (oc_listening c) n = Some q) \<and>
     oc_pending c = None \<and> oc_retry c = None \<and> oc_connecting c = NotSet"

definition alive :: "string \<Rightarrow> observer_client \<Rightarrow> bool" where
  "alive q c \<longleftrightarrow> \<not> oc_closed c \<and> oc_canConnect c \<and> oc_reconnect c \<and> oc_waiters c = [] \<and>
     (\<forall>x \<in> set (oc_listening c). snd x = q)"

definition web_telemetry_inv :: "web_world \<Rightarrow> web_telemetry \<Rightarrow> bool" where
  "web_telemetry_inv w t \<longleftrightarrow>
     feed_inv (wt_table t) \<and> alive (ww_queryString w) (wt_client t) \<and>
     (case wt_link t of
        LinkUp ws \<Rightarrow> in_use (ww_queryString w) (wt_client t) \<and> (\<exists>src. holds (wt_table t) (ww_clientId w) (Some ws) src)
      | LinkAccepted ws \<Rightarrow> trying (ww_queryString w) (wt_client t) \<and> oc_pending (wt_client t) \<noteq> None \<and> wt_wire t = [] \<and>
          (\<exists>src. holds (wt_table t) (ww_clientId w) (Some ws) src)
      | LinkNone \<Rightarrow> trying (ww_queryString w) (wt_client t) \<and> wt_wire t = [] \<and>
          map_get (ob_entries (wt_table t)) (ww_clientId w) = None
      | LinkDown ws \<Rightarrow> trying (ww_queryString w) (wt_client t) \<and> wt_wire t = [] \<and>
          (\<exists>src. holds (wt_table t) (ww_clientId w) None src))"

lemma web_telemetry_invD:
  assumes "web_telemetry_inv w t"
  shows "feed_inv (wt_table t)" "alive (ww_queryString w) (wt_client t)"
    "wt_link t = LinkUp ws \<Longrightarrow> in_use (ww_queryString w) (wt_client t) \<and>
       (\<exists>src. holds (wt_table t) (ww_clientId w) (Some ws) src)"
    "wt_link t = LinkAccepted ws \<Longrightarrow> trying (ww_queryString w) (wt_client t) \<and> oc_pending (wt_client t) \<noteq> None \<and>
       wt_wire t = [] \<and> (\<exists>src. holds (wt_table t) (ww_clientId w) (Some ws) src)"
    "wt_link t = LinkNone \<Longrightarrow> trying (ww_queryString w) (wt_client t) \<and> wt_wire t = [] \<and>
       map_get (ob_entries (wt_table t)) (ww_clientId w) = None"
    "wt_link t = LinkDown ws \<Longrightarrow> trying (ww_queryString w) (wt_client t) \<and> wt_wire t = [] \<and>
       (\<exists>src. holds (wt_table t) (ww_clientId w) None src)"
  using assms unfolding web_telemetry_inv_def by auto

text \<open>A change of the client only, or of the table only.\<close>

lemma wt_inv_client:
  assumes "web_telemetry_inv w t" "alive (ww_queryString w) c"
    and "trying (ww_queryString w) (wt_client t) \<Longrightarrow> trying (ww_queryString w) c"
    and "in_use (ww_queryString w) (wt_client t) \<Longrightarrow> in_use (ww_queryString w) c"
    and "\<And>ws. wt_link t = LinkAccepted ws \<Longrightarrow> oc_pending c \<noteq> None"
    and "t' = t\<lparr>wt_client := c, wt_wire := v\<rparr>" "(\<nexists>ws. wt_link t = LinkUp ws) \<Longrightarrow> v = []"
  shows "web_telemetry_inv w t'"
  using assms(1-5,7) unfolding assms(6) web_telemetry_inv_def by (cases "wt_link t") simp_all

text \<open>One more sample.\<close>

lemma wt_sample:
  assumes inv: "web_telemetry_inv w t"
  shows "web_telemetry_inv w (wt_step w t (WtSample x)) \<and> web_flow w (wt_step w t (WtSample x)) = web_flow w t @ [x]"
proof (cases "\<exists>ws. wt_link t = LinkUp ws")
  case True
  then obtain ws n where l: "wt_link t = LinkUp ws" "oc_ws (wt_client t) = Some n"
    using web_telemetry_invD(3)[OF inv] by (auto simp: in_use_def)
  have a: "alive (ww_queryString w) (wt_client t)"
    by (rule web_telemetry_invD(2)[OF inv])
  let ?c = "(wt_client t)\<lparr>oc_buffer := [], oc_out := oc_out (wt_client t) @ map (SendSample n) (oc_buffer (wt_client t) @ [x])\<rparr>"
  have t': "wt_step w t (WtSample x) = t\<lparr>wt_client := ?c, wt_wire := wt_wire t @ oc_buffer (wt_client t) @ [x]\<rparr>"
    using send_flushes[OF l(2)] a l(1) by (simp add: wt_client_acts_def Let_def alive_def)
  show ?thesis
    using l(1) a unfolding t'
    by (intro conjI wt_inv_client[OF inv _ _ _ _ refl]) (simp_all add: alive_def trying_def in_use_def web_flow_def)
next
  case False
  have a: "alive (ww_queryString w) (wt_client t)"
    by (rule web_telemetry_invD(2)[OF inv])
  have n: "oc_ws (wt_client t) = None" "wt_wire t = []"
    using web_telemetry_invD(4-6)[OF inv] False by (cases "wt_link t"; auto simp: trying_def)+
  have t': "wt_step w t (WtSample x) =
      t\<lparr>wt_client := (wt_client t)\<lparr>oc_buffer := oc_buffer (wt_client t) @ [x]\<rparr>, wt_wire := []\<rparr>"
    using send_buffers[OF n(1)] a False n(2) by (cases "wt_link t") (simp_all add: wt_client_acts_def Let_def alive_def)
  show ?thesis
    using False a n web_telemetry_invD(4)[OF inv] unfolding t'
    by (intro conjI wt_inv_client[OF inv _ _ _ _ refl]) (simp_all add: alive_def trying_def in_use_def web_flow_def)
qed

text \<open>Events of the client's socket and timer that send nothing and keep the buffer.\<close>

lemma wt_refused:
  assumes inv: "web_telemetry_inv w t"
  shows "web_telemetry_inv w (wt_step w t WtRefused) \<and> web_flow w (wt_step w t WtRefused) = web_flow w t"
proof (cases "oc_pending (wt_client t) = None \<or> link_socket (wt_link t) \<noteq> None")
  case True
  then have "wt_step w t WtRefused = t"
    by (auto split: option.split)
  then show ?thesis
    using inv by simp
next
  case False
  then obtain n k q where p: "oc_pending (wt_client t) = Some (n, k, q)" "link_socket (wt_link t) = None"
    by auto
  have q: "trying (ww_queryString w) (wt_client t)" "wt_wire t = []"
    using web_telemetry_invD(5,6)[OF inv] p(2) by (cases "wt_link t"; simp)+
  define c where "c = web_socket_failed (wt_client t) n"
  have c: "trying (ww_queryString w) c" "alive (ww_queryString w) c" "oc_out c = oc_out (wt_client t)"
      "oc_buffer c = oc_buffer (wt_client t)"
    using p q web_telemetry_invD(2)[OF inv] by (auto simp: c_def web_socket_failed_def trying_def alive_def)
  have t': "wt_step w t WtRefused = t\<lparr>wt_client := c, wt_wire := []\<rparr>"
    using p c(3) q(2) by (cases "wt_link t") (simp_all add: wt_client_acts_def Let_def c_def[symmetric])
  have "\<not> in_use (ww_queryString w) (wt_client t)" "\<nexists>ws. wt_link t = LinkAccepted ws"
    using q(1) p(2) by (auto simp: in_use_def trying_def)
  then show ?thesis
    using c q(2) unfolding t' by (intro conjI wt_inv_client[OF inv _ _ _ _ refl]) (auto simp: web_flow_def)
qed

lemma wt_timer:
  assumes inv: "web_telemetry_inv w t"
  shows "web_telemetry_inv w (wt_step w t WtTimer) \<and> web_flow w (wt_step w t WtTimer) = web_flow w t"
proof (cases "oc_retry (wt_client t)")
  case None
  then have "wt_step w t WtTimer = t"
    by (simp add: wt_client_acts_def web_retry_timer_def Let_def split: link.split)
  then show ?thesis
    using inv by simp
next
  case (Some r)
  obtain k q where r: "oc_retry (wt_client t) = Some (k, q)"
    using Some by (cases r) simp
  have no: "\<not> in_use (ww_queryString w) (wt_client t)"
    using r by (simp add: in_use_def)
  have q: "trying (ww_queryString w) (wt_client t)" "wt_wire t = []" "\<nexists>ws. wt_link t = LinkUp ws"
    using web_telemetry_invD(3-6)[OF inv] no by (cases "wt_link t"; simp)+
  define c where "c = web_retry_timer (wt_client t)"
  have c: "trying (ww_queryString w) c" "alive (ww_queryString w) c" "oc_buffer c = oc_buffer (wt_client t)" "oc_pending c \<noteq> None"
    using r q(1) web_telemetry_invD(2)[OF inv]
    by (auto simp: c_def web_retry_timer_def trying_def alive_def oc_open_def oc_log_def)
  have t': "wt_step w t WtTimer = t\<lparr>wt_client := c, wt_wire := []\<rparr>"
    using q(2,3) by (cases "wt_link t") (simp_all add: wt_client_acts_def Let_def c_def[symmetric])
  show ?thesis
    using c q(2) no unfolding t' by (intro conjI wt_inv_client[OF inv _ _ _ _ refl]) (simp_all add: web_flow_def)
qed

lemma wt_established:
  assumes inv: "web_telemetry_inv w t"
  shows "web_telemetry_inv w (wt_step w t WtEstablished) \<and> web_flow w (wt_step w t WtEstablished) = web_flow w t"
proof (cases "\<exists>ws. wt_link t = LinkAccepted ws")
  case False
  then have "wt_step w t WtEstablished = t"
    by (auto split: option.split prod.split link.split)
  then show ?thesis
    using inv by simp
next
  case True
  then obtain ws where l: "wt_link t = LinkAccepted ws" ..
  note d = web_telemetry_invD(1,2)[OF inv] web_telemetry_invD(4)[OF inv l]
  obtain n k where p: "oc_pending (wt_client t) = Some (n, k, ww_queryString w)" "oc_retry (wt_client t) = None"
    using d(3) by (auto simp: trying_def)
  define c where "c = web_socket_opened (wt_client t) n"
  have "map_of (oc_listening (wt_client t) @ [(n, ww_queryString w)]) n = Some (ww_queryString w)"
    using d(2) by (cases "map_of (oc_listening (wt_client t)) n") (auto simp: alive_def map_add_def dest!: map_of_SomeD)
  then have c: "in_use (ww_queryString w) c" "alive (ww_queryString w) c" "oc_out c = oc_out (wt_client t)"
      "oc_buffer c = oc_buffer (wt_client t)"
    using p d(2) by (auto simp: c_def web_socket_opened_def in_use_def alive_def)
  have t': "wt_step w t WtEstablished = t\<lparr>wt_link := LinkUp ws, wt_client := c, wt_wire := []\<rparr>"
    using l p c(3) d(3) by (simp add: wt_client_acts_def Let_def c_def[symmetric])
  show ?thesis
    using d c unfolding t' by (auto simp: web_telemetry_inv_def web_flow_def)
qed

text \<open>Events at the observer.\<close>

lemma wt_observer_table:
  "wt_table (wt_observer_acts w t e) = foldl client_step (wt_table t) (client_events (ww_protocol w) (ww_query w) e)"
  by (simp add: wt_observer_acts_def observer_clients)

lemma wt_observer_frame [simp]:
  "wt_client (wt_observer_acts w t e) = wt_client t" "wt_link (wt_observer_acts w t e) = wt_link t"
  "wt_wire (wt_observer_acts w t e) = wt_wire t"
  by (simp_all add: wt_observer_acts_def)

lemma wt_others:
  assumes inv: "web_telemetry_inv w t" and ok: "wt_ok w t (WtObserver e)"
  shows "web_telemetry_inv w (wt_step w t (WtObserver e)) \<and> web_flow w (wt_step w t (WtObserver e)) = web_flow w t"
proof -
  let ?es = "client_events (ww_protocol w) (ww_query w) e"
  let ?i = "ww_clientId w"
  have es: "list_all (\<lambda>x. of_others ?i (link_socket (wt_link t)) (as_sfu_event x)) ?es"
    using ok by simp
  note f = web_telemetry_invD(1)[OF inv]
  have "list_all (\<lambda>x. passed_on (as_sfu_event x)) ?es"
    using es of_others_passed_on by (auto simp: list_all_iff)
  then have f': "feed_inv (foldl client_step (wt_table t) ?es)"
    by (rule client_feed_run[OF f])
  have h: "holds (foldl client_step (wt_table t) ?es) ?i (link_socket (wt_link t)) src"
      "fed_of (foldl client_step (wt_table t) ?es) ?i = fed_of (wt_table t) ?i"
    if "holds (wt_table t) ?i (link_socket (wt_link t)) src" for src
    using client_holds_run[OF f that es] fed_of_holds that by metis+
  show ?thesis
  proof (cases "wt_link t = LinkNone")
    case True
    then have "map_get (ob_entries (wt_table t)) ?i = None"
      using web_telemetry_invD(5)[OF inv] by simp
    from this client_absent_run[OF f this es] show ?thesis
      using inv f' True by (simp add: web_telemetry_inv_def web_flow_def wt_observer_table fed_of_absent)
  next
    case False
    then obtain src where src: "holds (wt_table t) ?i (link_socket (wt_link t)) src"
      using web_telemetry_invD(3,4,6)[OF inv] by (cases "wt_link t") auto
    show ?thesis
      using inv f' False h[OF src] unfolding web_telemetry_inv_def web_flow_def
      by (cases "wt_link t") (auto simp: wt_observer_table)
  qed
qed

definition client_parses :: "web_world \<Rightarrow> bool" where
  "client_parses w \<longleftrightarrow> complete_query (ww_clientId w) (client_query_of (ww_query w (''/?'' @ ww_queryString w)))"

lemma wt_accept:
  assumes p: "client_parses w" and inv: "web_telemetry_inv w t" and ok: "wt_ok w t (WtAccept ws)"
  shows "web_telemetry_inv w (wt_step w t (WtAccept ws)) \<and> web_flow w (wt_step w t (WtAccept ws)) = web_flow w t"
proof (cases "oc_pending (wt_client t) = None \<or> link_socket (wt_link t) \<noteq> None")
  case True
  then have "wt_step w t (WtAccept ws) = t"
    by (auto split: option.split)
  then show ?thesis
    using inv by simp
next
  case False
  let ?i = "ww_clientId w"
  let ?q = "client_query_of (ww_query w (''/?'' @ ww_queryString w))"
  note f = web_telemetry_invD(1)[OF inv]
  have no: "link_socket (wt_link t) = None"
    using False by simp
  have c: "trying (ww_queryString w) (wt_client t)" "wt_wire t = []"
    using web_telemetry_invD(5,6)[OF inv] no by (cases "wt_link t"; simp)+
  obtain n k where n: "oc_pending (wt_client t) = Some (n, k, ww_queryString w)"
    using False c(1) by (auto simp: trying_def)
  have q: "complete_query ?i ?q"
    using p by (simp add: client_parses_def)
  have t': "wt_table (wt_step w t (WtAccept ws)) = client_accept (wt_table t) ws ?q"
      "wt_link (wt_step w t (WtAccept ws)) = LinkAccepted ws" "wt_client (wt_step w t (WtAccept ws)) = wt_client t"
      "wt_wire (wt_step w t (WtAccept ws)) = []"
    using n no ok c(2) wt_observer_table by simp_all
  have "\<exists>src. holds (client_accept (wt_table t) ws ?q) ?i (Some ws) src \<and>
      fed (client_accept (wt_table t) ws ?q) src = fed_of (wt_table t) ?i"
  proof (cases "wt_link t = LinkNone")
    case True
    then have a: "map_get (ob_entries (wt_table t)) ?i = None"
      using web_telemetry_invD(5)[OF inv] by simp
    show ?thesis
      using client_holds_accept[OF f a q] fed_of_absent[OF a] by metis
  next
    case False
    then obtain src where src: "holds (wt_table t) ?i None src"
      using web_telemetry_invD(6)[OF inv] no by (cases "wt_link t") auto
    show ?thesis
      using client_holds_again[OF f src q] fed_of_holds[OF src] by metis
  qed
  then obtain src where src: "holds (client_accept (wt_table t) ws ?q) ?i (Some ws) src"
      "fed (client_accept (wt_table t) ws ?q) src = fed_of (wt_table t) ?i"
    by blast
  have "feed_inv (client_accept (wt_table t) ws ?q)"
    using client_feed_step[OF f, of "ClientAccept ws ?q"] by simp
  then show ?thesis
    using src fed_of_holds[OF src(1)] c n web_telemetry_invD(2)[OF inv]
    unfolding web_telemetry_inv_def web_flow_def t' by auto
qed

lemma wt_deliver:
  assumes inv: "web_telemetry_inv w t"
  shows "web_telemetry_inv w (wt_step w t WtDeliver) \<and> web_flow w (wt_step w t WtDeliver) = web_flow w t"
proof (cases "\<exists>ws x xs. wt_link t = LinkUp ws \<and> wt_wire t = x # xs")
  case False
  then have "wt_step w t WtDeliver = t"
    by (auto split: link.split list.split)
  then show ?thesis
    using inv by simp
next
  case True
  then obtain ws x xs where l: "wt_link t = LinkUp ws" "wt_wire t = x # xs"
    by blast
  note f = web_telemetry_invD(1)[OF inv]
  obtain src where src: "holds (wt_table t) (ww_clientId w) (Some ws) src"
    using web_telemetry_invD(3)[OF inv l(1)] by blast
  have t': "wt_table (wt_step w t WtDeliver) = ob_message (wt_table t) ws x" "wt_link (wt_step w t WtDeliver) = LinkUp ws"
      "wt_client (wt_step w t WtDeliver) = wt_client t" "wt_wire (wt_step w t WtDeliver) = xs"
    using l wt_observer_table by simp_all
  note h = holds_message[OF f src, of x]
  have "feed_inv (ob_message (wt_table t) ws x)"
    using client_feed_step[OF f, of "ClientMessage ws x"] by simp
  then show ?thesis
    using h fed_of_holds[OF h(1)] fed_of_holds[OF src] l web_telemetry_invD(2)[OF inv] web_telemetry_invD(3)[OF inv l(1)]
    unfolding web_telemetry_inv_def web_flow_def t' by auto
qed

text \<open>A cut loses what is on the wire, and the client opens its next socket at once.\<close>

lemma wt_cut:
  assumes inv: "web_telemetry_inv w t" and ok: "wt_ok w t (WtCut now code)"
  shows "web_telemetry_inv w (wt_step w t (WtCut now code)) \<and>
    web_flow w (wt_step w t (WtCut now code)) = fed_of (wt_table t) (ww_clientId w) @ oc_buffer (wt_client t)"
proof (cases "\<exists>ws. wt_link t = LinkUp ws")
  case False
  then have "wt_step w t (WtCut now code) = t" "wt_wire t = []"
    using web_telemetry_invD(4-6)[OF inv] by (cases "wt_link t"; simp)+
  then show ?thesis
    using inv by (simp add: web_flow_def)
next
  case True
  then obtain ws where l: "wt_link t = LinkUp ws" ..
  note f = web_telemetry_invD(1)[OF inv] and a = web_telemetry_invD(2)[OF inv]
  obtain src where src: "holds (wt_table t) (ww_clientId w) (Some ws) src" and u: "in_use (ww_queryString w) (wt_client t)"
    using web_telemetry_invD(3)[OF inv l] by blast
  obtain n where n: "oc_ws (wt_client t) = Some n" "map_of (oc_listening (wt_client t)) n = Some (ww_queryString w)"
    using u by (auto simp: in_use_def)
  define c where "c = web_socket_closed (wt_client t) n code"
  have c: "trying (ww_queryString w) c" "alive (ww_queryString w) c" "oc_buffer c = oc_buffer (wt_client t)"
    using u n a ok by (auto simp: c_def web_socket_closed_def web_close_listener_def Let_def oc_connect_def oc_open_def
        oc_log_def trying_def alive_def in_use_def)
  have t': "wt_table (wt_step w t (WtCut now code)) = client_socket_closed (wt_table t) now ws"
      "wt_link (wt_step w t (WtCut now code)) = LinkDown ws" "wt_client (wt_step w t (WtCut now code)) = c"
      "wt_wire (wt_step w t (WtCut now code)) = []"
    using l n(1) by (simp_all add: wt_client_acts_def Let_def c_def wt_observer_acts_def observer_clients)
  note h = client_holds_closed[OF f src, of now]
  have "feed_inv (client_socket_closed (wt_table t) now ws)"
    using client_feed_step[OF f, of "ClientSocketClosed now ws"] by simp
  then show ?thesis
    using h fed_of_holds[OF h(1)] fed_of_holds[OF src] c
    unfolding web_telemetry_inv_def web_flow_def t' by auto
qed

lemma wt_step_inv:
  assumes "client_parses w" "web_telemetry_inv w t" "wt_ok w t e"
  shows "web_telemetry_inv w (wt_step w t e)"
  using assms wt_sample wt_others wt_accept wt_established wt_refused wt_timer wt_deliver wt_cut by (cases e) metis+

lemma wt_step_flow:
  assumes "client_parses w" "web_telemetry_inv w t" "wt_ok w t e" "\<not> is_cut e"
  shows "web_flow w (wt_step w t e) = web_flow w t @ wt_sampled e"
  using assms wt_sample[OF assms(2)] wt_others[OF assms(2)] wt_accept[OF assms(1,2)] wt_established[OF assms(2)]
    wt_refused[OF assms(2)] wt_timer[OF assms(2)] wt_deliver[OF assms(2)]
  by (cases e) (simp_all del: wt_step.simps wt_ok.simps)

interpretation web_telemetry: invariant_system "wt_step w" "wt_ok w" "\<lambda>t. client_parses w \<and> web_telemetry_inv w t" for w
  by unfold_locales (use wt_step_inv in blast)

lemma web_telemetry_start_inv:
  "web_telemetry_inv w (web_telemetry_start w port)" "web_flow w (web_telemetry_start w port) = []"
  by (simp_all add: web_telemetry_inv_def web_telemetry_start_def oc_connect_def oc_new_def oc_open_def oc_log_def
      observer_main_start_def observed_new_def feed_inv_def fed_def alive_def trying_def web_flow_def fed_of_def)

lemma web_telemetry_run_inv:
  "client_parses w \<Longrightarrow> ok_run (wt_step w) (wt_ok w) t es \<Longrightarrow> web_telemetry_inv w t \<Longrightarrow>
   web_telemetry_inv w (web_telemetry_run w t es)"
  using web_telemetry.run_inv[of w t es] by (simp add: web_telemetry_run_def)

lemma web_telemetry_run_flow:
  assumes "client_parses w" "ok_run (wt_step w) (wt_ok w) t es" "web_telemetry_inv w t" "\<not> list_ex is_cut es"
  shows "web_flow w (web_telemetry_run w t es) = web_flow w t @ web_created es"
  using assms(2,4)
proof (induction es rule: rev_induct)
  case (snoc e es)
  then have ok: "ok_run (wt_step w) (wt_ok w) t es" "wt_ok w (web_telemetry_run w t es) e" "\<not> is_cut e" "\<not> list_ex is_cut es"
    by (simp_all add: ok_run_append web_telemetry_run_def)
  show ?case
    using snoc.IH[OF ok(1,4)] wt_step_flow[OF assms(1) web_telemetry_run_inv[OF assms(1) ok(1) assms(3)] ok(2,3)]
    by (simp add: web_telemetry_run_def web_created_def)
qed (simp add: web_telemetry_run_def web_created_def)

section \<open>Properties\<close>

text \<open>
  C9. The observer is fed by a web application in order: in every run, whatever is cut, refused and opened again, what the
  source of the client was given, followed by what is on the wire and what the client keeps, is a subsequence of the
  samples that its monitor created, so nothing is repeated or overtaken; and as long as no established connection was
  cut it is all of them.
\<close>

theorem web_telemetry_in_order:
  assumes "client_parses w" "t0 = web_telemetry_start w port" "ok_run (wt_step w) (wt_ok w) t0 es"
  shows "let t = web_telemetry_run w t0 es;
             flow = fed_of (wt_table t) (ww_clientId w) @ wt_wire t @ oc_buffer (wt_client t)
    in subseq flow (web_created es) \<and> (list_ex is_cut es \<or> flow = web_created es)"
proof -
  have start: "web_telemetry_inv w t0" "web_flow w t0 = []"
    using web_telemetry_start_inv assms(2) by simp_all
  have "subseq (web_flow w (web_telemetry_run w t0 es)) (web_created es)"
    using assms(3)
  proof (induction es rule: rev_induct)
    case (snoc e es)
    let ?t = "web_telemetry_run w t0 es"
    have ok: "ok_run (wt_step w) (wt_ok w) t0 es" "wt_ok w ?t e"
      using snoc.prems by (simp_all add: ok_run_append web_telemetry_run_def)
    have inv: "web_telemetry_inv w ?t"
      by (rule web_telemetry_run_inv[OF assms(1) ok(1) start(1)])
    have "subseq (web_flow w (wt_step w ?t e)) (web_flow w ?t @ wt_sampled e)"
    proof (cases "is_cut e")
      case True
      then obtain now code where "e = WtCut now code"
        by (cases e) simp_all
      then have "web_flow w (wt_step w ?t e) = fed_of (wt_table ?t) (ww_clientId w) @ oc_buffer (wt_client ?t)"
        using wt_cut[OF inv, of now code] ok(2) by (simp del: wt_step.simps)
      moreover have "subseq (oc_buffer (wt_client ?t)) (wt_wire ?t @ oc_buffer (wt_client ?t) @ wt_sampled e)"
        by (intro subseq_drop_many subseq_rev_drop_many subseq_order.order_refl)
      ultimately show ?thesis
        using list_emb_append_mono[of "(=)" "fed_of (wt_table ?t) (ww_clientId w)" "fed_of (wt_table ?t) (ww_clientId w)"]
        by (simp add: web_flow_def[of w ?t])
    qed (simp add: wt_step_flow[OF assms(1) inv ok(2)])
    also have "subseq (web_flow w ?t @ wt_sampled e) (web_created es @ wt_sampled e)"
      using snoc.IH[OF ok(1)] by (rule list_emb_append_mono) simp
    finally show ?case
      by (simp add: web_telemetry_run_def web_created_def)
  qed (simp add: web_telemetry_run_def start(2))
  then show ?thesis
    using web_telemetry_run_flow[OF assms(1,3) start(1)] start(2) by (auto simp: Let_def web_flow_def)
qed

lemma wt_deliver_all:
  "wt_link t = LinkUp ws \<Longrightarrow> n = length (wt_wire t) \<Longrightarrow>
   let t' = web_telemetry_run w t (replicate n WtDeliver) in
   wt_wire t' = [] \<and> wt_link t' = LinkUp ws \<and> wt_client t' = wt_client t"
proof (induction n arbitrary: t)
  case (Suc n)
  then obtain x xs where x: "wt_wire t = x # xs"
    by (cases "wt_wire t") simp_all
  then have "wt_wire (wt_step w t WtDeliver) = xs" "wt_link (wt_step w t WtDeliver) = LinkUp ws"
      "wt_client (wt_step w t WtDeliver) = wt_client t"
    using Suc.prems(1) by simp_all
  then show ?case
    using Suc.IH[of "wt_step w t WtDeliver"] Suc.prems(2) x by (simp add: web_telemetry_run_def Let_def del: wt_step.simps)
qed (simp add: web_telemetry_run_def)

lemma web_drains:
  assumes p: "client_parses w" and inv: "web_telemetry_inv w t" and l: "wt_link t = LinkUp ws"
  shows "\<exists>n. fed_of (wt_table (web_telemetry_run w t (WtSample x # replicate n WtDeliver))) (ww_clientId w) = web_flow w t @ [x]"
proof -
  define t1 where "t1 = wt_step w t (WtSample x)"
  define t2 where "t2 = web_telemetry_run w t1 (replicate (length (wt_wire t1)) WtDeliver)"
  obtain n where n: "oc_ws (wt_client t) = Some n"
    using web_telemetry_invD(3)[OF inv l] by (auto simp: in_use_def)
  have t1: "web_telemetry_inv w t1" "web_flow w t1 = web_flow w t @ [x]"
    using wt_sample[OF inv] by (simp_all add: t1_def del: wt_step.simps)
  have u1: "wt_link t1 = LinkUp ws" "oc_buffer (wt_client t1) = []"
    using l send_flushes[OF n] web_telemetry_invD(2)[OF inv] by (simp_all add: t1_def wt_client_acts_def Let_def alive_def)
  have u2: "wt_wire t2 = []" "wt_client t2 = wt_client t1"
    using wt_deliver_all[OF u1(1) refl, of w] by (simp_all add: t2_def Let_def)
  have "ok_run (wt_step w) (wt_ok w) s (replicate k WtDeliver)" "\<not> list_ex is_cut (replicate k WtDeliver)" for s k
    by (induction k arbitrary: s) (simp_all del: wt_step.simps)
  then have "web_flow w t2 = web_flow w t1"
    using web_telemetry_run_flow[OF p _ t1(1), of "replicate (length (wt_wire t1)) WtDeliver"]
    by (simp add: t2_def web_created_def)
  then have "fed_of (wt_table t2) (ww_clientId w) = web_flow w t @ [x]"
    using t1(2) u1(2) u2 by (simp add: web_flow_def)
  then show ?thesis
    by (intro exI[of _ "length (wt_wire t1)"]) (simp add: t2_def t1_def web_telemetry_run_def)
qed

text \<open>
  C10. A web application recovers from a cut: after any run, when its connection is cut and some time later a connection is up
  again without another cut in between, one more sample and the delivery of what is on the wire bring the source of the
  client what it had, the samples that were kept at the cut and all samples since then: only those that were on the
  wire are missing.
\<close>

theorem web_telemetry_recovers:
  assumes "client_parses w" "t0 = web_telemetry_start w port"
    and "ok_run (wt_step w) (wt_ok w) t0 (es @ WtCut now code # fs)" "\<not> list_ex is_cut fs"
    and "wt_link (web_telemetry_run w t0 (es @ WtCut now code # fs)) = LinkUp ws"
  shows "\<exists>n. let t = web_telemetry_run w t0 es;
      t' = web_telemetry_run w t0 (es @ WtCut now code # fs @ WtSample x # replicate n WtDeliver)
    in fed_of (wt_table t') (ww_clientId w) =
       fed_of (wt_table t) (ww_clientId w) @ oc_buffer (wt_client t) @ web_created fs @ [x]"
proof -
  let ?t = "web_telemetry_run w t0 es"
  let ?c = "wt_step w ?t (WtCut now code)"
  let ?f = "web_telemetry_run w ?c fs"
  have ok: "ok_run (wt_step w) (wt_ok w) t0 es" "wt_ok w ?t (WtCut now code)" "ok_run (wt_step w) (wt_ok w) ?c fs"
    using assms(3) by (simp_all add: ok_run_append web_telemetry_run_def del: wt_step.simps)
  have inv: "web_telemetry_inv w ?t"
    using web_telemetry_run_inv[OF assms(1) ok(1)] web_telemetry_start_inv(1) assms(2) by simp
  note cut = wt_cut[OF inv ok(2)]
  have f: "web_telemetry_inv w ?f" "web_flow w ?f = fed_of (wt_table ?t) (ww_clientId w) @ oc_buffer (wt_client ?t) @ web_created fs"
    using web_telemetry_run_inv[OF assms(1) ok(3)] web_telemetry_run_flow[OF assms(1) ok(3) _ assms(4)] cut
    by (simp_all del: wt_step.simps)
  have run: "web_telemetry_run w t0 (es @ WtCut now code # fs @ gs) = web_telemetry_run w ?f gs" for gs
    by (simp add: web_telemetry_run_def del: wt_step.simps)
  have "wt_link ?f = LinkUp ws"
    using assms(5) run[of "[]"] by (simp add: web_telemetry_run_def del: wt_step.simps)
  from web_drains[OF assms(1) f(1) this, of x] show ?thesis
    unfolding f(2) Let_def run by simp
qed

section \<open>A run\<close>

definition demo_web_world :: web_world where
  "demo_web_world =
     \<lparr>ww_clientId = ''c'', ww_queryString = ''&clientId=c&callId=k&roomId=r'', ww_protocol = (\<lambda>_. ''client-sample''),
      ww_url = (\<lambda>_. None), ww_query = (\<lambda>_ k. if k = ''clientId'' then Some ''c'' else Some ''x'')\<rparr>"

abbreviation demo_web_start :: web_telemetry where
  "demo_web_start \<equiv> web_telemetry_start demo_web_world 7080"

text \<open>One sample arrives, the next is on the wire when the connection is cut; then the client connects again.\<close>

definition demo_web_up :: "web_telemetry_event list" where
  "demo_web_up = [WtSample ''a'', WtAccept 3, WtEstablished, WtSample ''b'', WtDeliver]"

definition demo_web_again :: "web_telemetry_event list" where
  "demo_web_again = [WtSample ''d'', WtRefused, WtTimer, WtAccept 4, WtEstablished]"

lemma demo_web_parses: "client_parses demo_web_world"
  by (simp add: client_parses_def complete_query_def client_query_of_def demo_web_world_def)

lemmas demo_web_eval = web_telemetry_run_def web_telemetry_start_def demo_web_world_def observer_main_start_def
  wt_client_acts_def wt_observer_acts_def Let_def oc_connect_def oc_new_def oc_open_def oc_log_def oc_send_def
  web_observer_defs on_connection_def sv_log_def server_start_def set_processor_def server_new_def setState_def
  observer_connection_def client_accept_def client_query_of_def client_setup_def ob_log_def ob_message_def
  observed_new_def client_socket_closed_def client_disconnect_def is_disconnected_def map_get_set map_get_new

lemma demo_web_run:
  "ok_run (wt_step demo_web_world) (wt_ok demo_web_world) demo_web_start (demo_web_up @ WtCut 9 1006 # demo_web_again)"
  "\<not> list_ex is_cut demo_web_again" "\<not> list_ex is_cut demo_web_up"
  "wt_link (web_telemetry_run demo_web_world demo_web_start (demo_web_up @ WtCut 9 1006 # demo_web_again)) = LinkUp 4"
  "wt_wire (web_telemetry_run demo_web_world demo_web_start demo_web_up) = [''b'']"
  "oc_buffer (wt_client (web_telemetry_run demo_web_world demo_web_start demo_web_up)) = []"
  by (simp_all add: demo_web_up_def demo_web_again_def demo_web_eval web_max_attempt_def)

lemma web_telemetry_in_order_witness:
  "let t = web_telemetry_run demo_web_world demo_web_start demo_web_up
   in fed_of (wt_table t) ''c'' @ [''b''] = [''a'', ''b'']"
proof -
  have ok: "ok_run (wt_step demo_web_world) (wt_ok demo_web_world) demo_web_start demo_web_up"
    using demo_web_run(1) by (simp add: ok_run_append)
  have "web_created demo_web_up = [''a'', ''b'']" "ww_clientId demo_web_world = ''c''"
    by (simp_all add: web_created_def demo_web_up_def demo_web_world_def)
  then show ?thesis
    using web_telemetry_in_order[OF demo_web_parses refl ok] demo_web_run(3,5,6) by (simp add: Let_def)
qed

lemma web_telemetry_recovers_witness:
  "\<exists>n. let t' = web_telemetry_run demo_web_world demo_web_start
       (demo_web_up @ WtCut 9 1006 # demo_web_again @ WtSample ''e'' # replicate n WtDeliver)
   in fed_of (wt_table t') ''c'' = fed_of (wt_table (web_telemetry_run demo_web_world demo_web_start demo_web_up)) ''c'' @ [''d'', ''e'']"
proof -
  have "web_created demo_web_again = [''d'']" "ww_clientId demo_web_world = ''c''"
    by (simp_all add: web_created_def demo_web_again_def demo_web_world_def)
  then show ?thesis
    using web_telemetry_recovers[OF demo_web_parses refl demo_web_run(1,2,4), of "''e''"] demo_web_run(6) by (simp add: Let_def)
qed

end
