(* ===== verification/LogLines.thy ===== *)
theory LogLines
  imports Logger "HOL-Library.Char_ord"
begin

text \<open>
  What the loggers of \<open>Logger\<close> hand to the console: the services (\<^verbatim>\<open>common/logger.ts\<close>) put a coloured tag with the
  name of the module in front of the arguments and the time since the start behind them, the web application
  (\<^verbatim>\<open>webapp/src/utils/logger.tsx\<close>) passes the arguments on. The method of the console has the name of the severity.
\<close>

section \<open>Lines\<close>

definition COLORS :: "(string \<times> string) list" where
  "COLORS =
     map (\<lambda>(name, code). (name, CHR 0x1B # ''['' @ code @ ''m''))
       [(''black'', ''30''), (''red'', ''31''), (''green'', ''32''), (''yellow'', ''33''), (''blue'', ''34''),
        (''magenta'', ''35''), (''cyan'', ''36''), (''white'', ''37''), (''default'', ''39'')]"

definition color :: "string \<Rightarrow> string" where
  "color name = the (map_of COLORS name)"

fun severity_color :: "log_level \<Rightarrow> string" where
  "severity_color Trace = ''magenta''"
| "severity_color Debug = ''cyan''"
| "severity_color Info = ''green''"
| "severity_color Warn = ''yellow''"
| "severity_color Error = ''red''"
| "severity_color Silent = ''default''"

fun severity_tag :: "log_level \<Rightarrow> string" where
  "severity_tag Trace = ''[TRACE]''"
| "severity_tag Debug = ''[DEBUG]''"
| "severity_tag Info = ''[INFO]''"
| "severity_tag Warn = ''[WARN]''"
| "severity_tag Error = ''[ERROR]''"
| "severity_tag Silent = ''''"

definition log_prefix :: "log_level \<Rightarrow> string \<Rightarrow> string" where
  "log_prefix severity moduleName =
     color (severity_color severity) @ severity_tag severity @ color ''default'' @ '' '' @ moduleName"

definition elapsed_text :: "int \<Rightarrow> int \<Rightarrow> string" where
  "elapsed_text created now = color ''magenta'' @ ''+'' @ int_string (now - created) @ ''ms'' @ color ''default''"

definition log_line :: "int \<Rightarrow> int \<Rightarrow> log_level \<Rightarrow> string \<Rightarrow> json list \<Rightarrow> json list" where
  "log_line created now severity moduleName args =
     JStr (log_prefix severity moduleName) # args @ [JStr (elapsed_text created now)]"

text \<open>
  A call of a method on a module's logger, with the default factory: nothing, or a call of the console's method of
  that name with a line.
\<close>

definition service_call ::
  "logging \<Rightarrow> int \<Rightarrow> int \<Rightarrow> string \<Rightarrow> log_level \<Rightarrow> json list \<Rightarrow> (log_level \<times> json list) option"
where
  "service_call s created now moduleName severity args =
     (case map_get (lg_loggers s) moduleName of
        None \<Rightarrow> None
      | Some w \<Rightarrow> if prints w severity then Some (severity, log_line created now severity (wl_moduleName w) args) else None)"

definition web_call :: "logging \<Rightarrow> string \<Rightarrow> log_level \<Rightarrow> json list \<Rightarrow> (log_level \<times> json list) option" where
  "web_call s moduleName severity args =
     (case map_get (lg_loggers s) moduleName of
        None \<Rightarrow> None
      | Some w \<Rightarrow> if prints w severity then Some (severity, args) else None)"

section \<open>A line tells what was logged\<close>

definition digits_value :: "string \<Rightarrow> nat" where
  "digits_value ds = foldl (\<lambda>a c. 10 * a + (of_char c - 48)) 0 ds"

lemma of_digit: "k < 10 \<Longrightarrow> of_char (char_of (48 + k :: nat)) = (48 + k :: nat)"
  by (simp add: of_char_of)

lemma digits_value: "digits_value (nat_digits n) = n"
proof (induction n rule: nat_digits.induct)
  case (1 n)
  then show ?case
    using of_digit[of n] of_digit[of "n mod 10"] by (simp add: nat_digits.simps[of n] digits_value_def)
qed

lemma digits_no_minus: "CHR ''-'' \<notin> set (nat_digits n)"
proof (induction n rule: nat_digits.induct)
  case (1 n)
  have "CHR ''-'' \<noteq> char_of (48 + k :: nat)" if "k < 10" for k
  proof
    assume "CHR ''-'' = char_of (48 + k)"
    with of_digit[OF that] have "of_char CHR ''-'' = (48 + k :: nat)"
      by simp
    then show False
      by simp
  qed
  with 1 show ?case
    by (simp add: nat_digits.simps[of n])
qed

lemma nat_digits_inj: "nat_digits m = nat_digits n \<longleftrightarrow> m = n"
  by (metis digits_value)

lemma minus_digits: "CHR ''-'' # ds \<noteq> nat_digits n"
  using digits_no_minus[of n] by (metis list.set_intros(1))

lemma int_string_inj: "int_string i = int_string j \<longleftrightarrow> i = j"
  by (auto simp: int_string_def nat_digits_inj minus_digits minus_digits[symmetric])

lemma log_prefix_inj:
  "a \<noteq> Silent \<Longrightarrow> b \<noteq> Silent \<Longrightarrow> log_prefix a m = log_prefix b n \<longleftrightarrow> a = b \<and> m = n"
  by (cases a; cases b) (simp_all add: log_prefix_def color_def COLORS_def)

text \<open>
  Nothing is lost in a line of the services: from what the console is handed one can tell the severity, the module, the
  arguments and the time, so two different messages never look the same.
\<close>

theorem log_line_injective:
  assumes "severity \<noteq> Silent" "severity' \<noteq> Silent"
  shows "log_line created now severity m args = log_line created now' severity' m' args' \<longleftrightarrow>
    now = now' \<and> severity = severity' \<and> m = m' \<and> args = args'"
proof -
  have "elapsed_text created now = elapsed_text created now' \<longleftrightarrow> now = now'"
    by (auto simp: elapsed_text_def int_string_inj)
  then show ?thesis
    using log_prefix_inj[OF assms(1,2)] by (auto simp: log_line_def)
qed

lemma log_line_injective_witness:
  "log_line 100 107 Info ''Room'' [JStr ''x''] \<noteq> log_line 100 117 Info ''Room'' [JStr ''x'']"
  using log_line_injective[of Info Info 100 107 "''Room''" "[JStr ''x'']" 117 "''Room''" "[JStr ''x'']"] by simp

text \<open>
  What a service prints is what \<^const>\<open>log_message\<close> records, with the name of the module that logs in the tag:
  loggers stand under the names they were made with.
\<close>

definition named :: "logging \<Rightarrow> bool" where
  "named s \<longleftrightarrow> (\<forall>m w. map_get (lg_loggers s) m = Some w \<longrightarrow> wl_moduleName w = m)"

lemma named_new [simp]: "named (logging_new level)"
  by (simp add: named_def logging_new_def)

lemma named_create: "named s \<Longrightarrow> named (createLogger s m level)"
  by (auto simp: named_def createLogger_def Let_def map_get_set logger_init_def wrapLogger_def split: option.split if_splits)

lemma service_call_records:
  assumes "named s"
  shows "service_call s created now m severity args =
    (if lg_out (log_message s m severity) = lg_out s then None
     else Some (severity, log_line created now severity m args))"
  using assms by (auto simp: service_call_def log_message_def named_def split: option.split)

end
