(* ===== verification/LocalMedia.thy ===== *)
theory LocalMedia
  imports MediaService
begin

text \<open>
  The box with the local camera and microphone,
  \<^verbatim>\<open>webapp/src/components/Clients/LocalClientMediaBox.tsx\<close>: it produces the first audio and video track of
  the user's devices and pauses and resumes them through the media service. Whether an object of
  the media library is paused is what the last call on it says, as the library documents.
\<close>

section \<open>State and handlers\<close>

record local_media =
  lm_service :: media_service
  lm_hasService :: bool
  lm_isMuted :: bool
  lm_isPaused :: bool
  lm_audioTrack :: "string option"
  lm_videoTrack :: "string option"

definition local_media_new :: "media_service \<Rightarrow> local_media" where
  "local_media_new ms =
     \<lparr>lm_service = ms, lm_hasService = False, lm_isMuted = False, lm_isPaused = False,
      lm_audioTrack = None, lm_videoTrack = None\<rparr>"

definition paused_by :: "ms_out list \<Rightarrow> string \<Rightarrow> bool" where
  "paused_by out i =
     (case find (\<lambda>x. x = CallPause i \<or> x = CallResume i) (rev out) of
        Some (CallPause _) \<Rightarrow> True
      | _ \<Rightarrow> False)"

definition first_track :: "string list \<Rightarrow> string option" where
  "first_track ts = (if 0 < length ts then Some (ts ! 0) else None)"

text \<open>
  \<open>getMedia\<close> starts producing what the devices gave; the tracks are stored once everything is
  produced (without a sending transport the error is caught and they are not).
\<close>

definition get_media :: "local_media \<Rightarrow> string list \<Rightarrow> string list \<Rightarrow> local_media" where
  "get_media s audio video =
     s\<lparr>lm_service := foldl (\<lambda>ms t. case t of None \<Rightarrow> ms | Some _ \<Rightarrow> produceMedia ms) (lm_service s)
        [first_track audio, first_track video]\<rparr>"

definition media_produced :: "local_media \<Rightarrow> string list \<Rightarrow> string list \<Rightarrow> local_media" where
  "media_produced s audio video = s\<lparr>lm_audioTrack := first_track audio, lm_videoTrack := first_track video\<rparr>"

definition resume_track :: "local_media \<Rightarrow> string \<Rightarrow> local_media" where
  "resume_track s t = s\<lparr>lm_service := resumeMedia (paused_by (ms_out (lm_service s))) (lm_service s) t\<rparr>"

definition pause_track :: "local_media \<Rightarrow> string \<Rightarrow> local_media" where
  "pause_track s t = s\<lparr>lm_service := pauseMedia (paused_by (ms_out (lm_service s))) (lm_service s) t\<rparr>"

definition playMic :: "local_media \<Rightarrow> local_media" where
  "playMic s =
     (if \<not> lm_hasService s then s
      else (case lm_audioTrack s of None \<Rightarrow> s | Some t \<Rightarrow> (resume_track s t)\<lparr>lm_isMuted := False\<rparr>))"

definition pauseMic :: "local_media \<Rightarrow> local_media" where
  "pauseMic s =
     (if \<not> lm_hasService s then s
      else (case lm_audioTrack s of None \<Rightarrow> s | Some t \<Rightarrow> (pause_track s t)\<lparr>lm_isMuted := True\<rparr>))"

definition playCam :: "local_media \<Rightarrow> local_media" where
  "playCam s =
     (if \<not> lm_hasService s then s
      else (case lm_videoTrack s of None \<Rightarrow> s | Some t \<Rightarrow> (resume_track s t)\<lparr>lm_isPaused := False\<rparr>))"

definition pauseCam :: "local_media \<Rightarrow> local_media" where
  "pauseCam s =
     (if \<not> lm_hasService s then s
      else (case lm_videoTrack s of None \<Rightarrow> s | Some t \<Rightarrow> (pause_track s t)\<lparr>lm_isPaused := True\<rparr>))"

text \<open>The two buttons.\<close>

datatype click = ClickMic | ClickCam

fun click_step :: "local_media \<Rightarrow> click \<Rightarrow> local_media" where
  "click_step s ClickMic = (if lm_isMuted s then playMic s else pauseMic s)"
| "click_step s ClickCam = (if lm_isPaused s then playCam s else pauseCam s)"

section \<open>The buttons tell the truth\<close>

lemma paused_by_snoc [simp]:
  "paused_by (out @ [CallPause i]) j = (i = j \<or> paused_by out j)"
  "paused_by (out @ [CallResume i]) j = (i \<noteq> j \<and> paused_by out j)"
  by (auto simp: paused_by_def)

text \<open>The box is in step with the producers \<open>x\<close> and \<open>y\<close> of its two tracks.\<close>

definition in_step :: "media_object \<Rightarrow> media_object \<Rightarrow> local_media \<Rightarrow> bool" where
  "in_step x y s \<longleftrightarrow>
     lm_hasService s \<and>
     (\<exists>a v. lm_audioTrack s = Some a \<and> lm_videoTrack s = Some v \<and>
        findMediaObjectByTrack (lm_service s) a = Some x \<and> findMediaObjectByTrack (lm_service s) v = Some y) \<and>
     (lm_isMuted s \<longleftrightarrow> paused_by (ms_out (lm_service s)) (mo_id x)) \<and>
     (lm_isPaused s \<longleftrightarrow> paused_by (ms_out (lm_service s)) (mo_id y))"

lemma find_log [simp]: "findMediaObjectByTrack (ms_log ms o') t = findMediaObjectByTrack ms t"
  by (simp add: findMediaObjectByTrack_def ms_log_def cong: option.case_cong)

lemma ms_out_log [simp]: "ms_out (ms_log ms o') = ms_out ms @ [o']"
  by (simp add: ms_log_def)

lemma in_step_click:
  assumes "in_step x y s" "mo_id x \<noteq> mo_id y"
  shows "in_step x y (click_step s c) \<and>
    lm_isMuted (click_step s c) = (lm_isMuted s \<noteq> (c = ClickMic)) \<and>
    lm_isPaused (click_step s c) = (lm_isPaused s \<noteq> (c = ClickCam))"
proof (cases c)
  case ClickMic
  then show ?thesis
    using assms
    by (auto simp: in_step_def playMic_def pauseMic_def resume_track_def pause_track_def resumeMedia_def pauseMedia_def)
next
  case ClickCam
  then show ?thesis
    using assms
    by (auto simp: in_step_def playCam_def pauseCam_def resume_track_def pause_track_def resumeMedia_def pauseMedia_def)
qed

text \<open>
  The buttons tell the truth: from a state in which the labels agree with the producers of the two
  tracks, any sequence of clicks on the two buttons leaves them in agreement, and a button has changed its
  label exactly if it was clicked an odd number of times.
\<close>

theorem buttons_tell_the_truth:
  assumes "in_step x y s" "mo_id x \<noteq> mo_id y"
  shows "let s' = foldl click_step s cs in
    (lm_isMuted s' \<longleftrightarrow> paused_by (ms_out (lm_service s')) (mo_id x)) \<and>
    (lm_isPaused s' \<longleftrightarrow> paused_by (ms_out (lm_service s')) (mo_id y)) \<and>
    (lm_isMuted s' \<longleftrightarrow> lm_isMuted s \<noteq> odd (tally (\<lambda>c. c = ClickMic) cs)) \<and>
    (lm_isPaused s' \<longleftrightarrow> lm_isPaused s \<noteq> odd (tally (\<lambda>c. c = ClickCam) cs))"
proof -
  have "in_step x y (foldl click_step s cs) \<and>
      (lm_isMuted (foldl click_step s cs) \<longleftrightarrow> lm_isMuted s \<noteq> odd (tally (\<lambda>c. c = ClickMic) cs)) \<and>
      (lm_isPaused (foldl click_step s cs) \<longleftrightarrow> lm_isPaused s \<noteq> odd (tally (\<lambda>c. c = ClickCam) cs))"
  proof (induction cs rule: rev_induct)
    case (snoc c cs)
    then show ?case
      using in_step_click[of x y "foldl click_step s cs" c] assms(2) by auto
  qed (use assms in simp)
  then show ?thesis
    unfolding Let_def in_step_def by blast
qed

definition demo_box :: local_media where
  "demo_box =
     (let p = \<lparr>mo_id = ''pa'', mo_track = Some ''mic''\<rparr>; q = \<lparr>mo_id = ''pv'', mo_track = Some ''cam''\<rparr>;
          ms = foldl (ms_step demo_uuid demo_parse) demo_service [ProduceMedia, ProduceMedia,
            Answer 20 5 (ProducerReady p), Answer 21 6 (ProducerReady q)]
      in media_produced ((local_media_new ms)\<lparr>lm_hasService := True\<rparr>) [''mic''] [''cam''])"

lemma buttons_tell_the_truth_witness:
  "let s' = foldl click_step demo_box [ClickMic, ClickCam, ClickMic, ClickMic]
   in lm_isMuted s' \<and> paused_by (ms_out (lm_service s')) ''pa''"
proof -
  have "lm_hasService demo_box" "lm_audioTrack demo_box = Some ''mic''" "lm_videoTrack demo_box = Some ''cam''"
    "findMediaObjectByTrack (lm_service demo_box) ''mic'' = Some \<lparr>mo_id = ''pa'', mo_track = Some ''mic''\<rparr>"
    "findMediaObjectByTrack (lm_service demo_box) ''cam'' = Some \<lparr>mo_id = ''pv'', mo_track = Some ''cam''\<rparr>"
    "\<not> lm_isMuted demo_box" "\<not> lm_isPaused demo_box"
    "\<not> paused_by (ms_out (lm_service demo_box)) ''pa''" "\<not> paused_by (ms_out (lm_service demo_box)) ''pv''"
    by code_simp+
  then have "in_step \<lparr>mo_id = ''pa'', mo_track = Some ''mic''\<rparr> \<lparr>mo_id = ''pv'', mo_track = Some ''cam''\<rparr> demo_box"
    by (simp add: in_step_def)
  from buttons_tell_the_truth[OF this, of "[ClickMic, ClickCam, ClickMic, ClickMic]"] show ?thesis
    using \<open>\<not> lm_isMuted demo_box\<close> by (auto simp: Let_def simp del: click_step.simps foldl.simps)
qed

end
