(* ===== verification/LocalBox.thy ===== *)
theory LocalBox
  imports LocalMedia
begin

text \<open>
  The effect of the box with the local camera and microphone,
  \<^verbatim>\<open>webapp/src/components/Clients/LocalClientMediaBox.tsx\<close>, around the buttons of \<open>LocalMedia\<close>: it asks for the devices
  when the media service is there, shows and produces what they give, and stops the shown tracks in its
  clean-up. Whether the video element is there (\<open>webcamRef.current\<close>) is part of the event.
\<close>

section \<open>State and steps\<close>

record local_box =
  lb_media :: local_media
  lb_asked :: nat
  lb_producing :: "(string list \<times> string list) list"
  lb_srcObject :: "string list option"
  lb_granted :: "string list"
  lb_stopped :: "string list"
  lb_errors :: nat

definition local_box_new :: "media_service \<Rightarrow> local_box" where
  "local_box_new ms =
     \<lparr>lb_media = local_media_new ms, lb_asked = 0, lb_producing = [], lb_srcObject = None, lb_granted = [],
      lb_stopped = [], lb_errors = 0\<rparr>"

text \<open>The effect: without a service it returns, with one it asks for the devices.\<close>

definition box_effect :: "local_box \<Rightarrow> bool \<Rightarrow> local_box" where
  "box_effect s hasService =
     (let s1 = s\<lparr>lb_media := (lb_media s)\<lparr>lm_hasService := hasService\<rparr>\<rparr>
      in if \<not> hasService then s1 else s1\<lparr>lb_asked := Suc (lb_asked s1)\<rparr>)"

text \<open>The devices gave a stream: it is shown if the element is there, and its first tracks are produced.\<close>

definition devices_granted :: "local_box \<Rightarrow> bool \<Rightarrow> string list \<Rightarrow> string list \<Rightarrow> local_box" where
  "devices_granted s element audio video =
     (if lb_asked s = 0 then s
      else s\<lparr>lb_asked := lb_asked s - 1,
             lb_granted := lb_granted s @ audio @ video,
             lb_srcObject := (if element then Some (audio @ video) else lb_srcObject s),
             lb_media := get_media (lb_media s) audio video,
             lb_producing := lb_producing s @ [(audio, video)]\<rparr>)"

definition devices_refused :: "local_box \<Rightarrow> local_box" where
  "devices_refused s =
     (if lb_asked s = 0 then s else s\<lparr>lb_asked := lb_asked s - 1, lb_errors := Suc (lb_errors s)\<rparr>)"

text \<open>\<open>Promise.all\<close> of both \<open>produceMedia\<close>: the tracks are stored, or the error is caught.\<close>

definition box_produced :: "local_box \<Rightarrow> bool \<Rightarrow> local_box" where
  "box_produced s ok =
     (case lb_producing s of
        [] \<Rightarrow> s
      | (audio, video) # rest \<Rightarrow>
          (if ok then s\<lparr>lb_producing := rest, lb_media := media_produced (lb_media s) audio video\<rparr>
           else s\<lparr>lb_producing := rest, lb_errors := Suc (lb_errors s)\<rparr>))"

definition box_cleanup :: "local_box \<Rightarrow> bool \<Rightarrow> local_box" where
  "box_cleanup s element =
     (case lb_srcObject s of
        None \<Rightarrow> s
      | Some tracks \<Rightarrow> if element then foldl (\<lambda>s t. s\<lparr>lb_stopped := lb_stopped s @ [t]\<rparr>) s tracks else s)"

datatype box_event =
    Effect bool
  | Granted bool "string list" "string list"
  | Refused
  | Produced bool
  | Click click
  | Cleanup bool

fun box_step :: "local_box \<Rightarrow> box_event \<Rightarrow> local_box" where
  "box_step s (Effect hasService) = box_effect s hasService"
| "box_step s (Granted element audio video) = devices_granted s element audio video"
| "box_step s Refused = devices_refused s"
| "box_step s (Produced ok) = box_produced s ok"
| "box_step s (Click c) = s\<lparr>lb_media := click_step (lb_media s) c\<rparr>"
| "box_step s (Cleanup element) = box_cleanup s element"

section \<open>What the box holds on to\<close>

lemma stop_tracks: "foldl (\<lambda>s t. s\<lparr>lb_stopped := lb_stopped s @ [t]\<rparr>) s ts = s\<lparr>lb_stopped := lb_stopped s @ ts\<rparr>"
  by (induction ts arbitrary: s) simp_all

lemma first_track_in: "set_option (first_track ts) \<subseteq> set ts"
  by (cases ts) (simp_all add: first_track_def)

lemma get_media_frame [simp]:
  "lm_audioTrack (get_media m a v) = lm_audioTrack m" "lm_videoTrack (get_media m a v) = lm_videoTrack m"
  "lm_isMuted (get_media m a v) = lm_isMuted m" "lm_isPaused (get_media m a v) = lm_isPaused m"
  "lm_hasService (get_media m a v) = lm_hasService m"
  by (simp_all add: get_media_def)

lemma click_frame [simp]:
  "lm_audioTrack (click_step m c) = lm_audioTrack m" "lm_videoTrack (click_step m c) = lm_videoTrack m"
  by (cases c; simp add: playMic_def pauseMic_def playCam_def pauseCam_def resume_track_def pause_track_def split: option.split)+

text \<open>A button without its track does nothing.\<close>

lemma click_without_track:
  "lm_audioTrack m = None \<Longrightarrow> lm_isMuted (click_step m c) = lm_isMuted m"
  "lm_videoTrack m = None \<Longrightarrow> lm_isPaused (click_step m c) = lm_isPaused m"
  by (cases c; simp add: playMic_def pauseMic_def playCam_def pauseCam_def resume_track_def pause_track_def split: option.split)+

definition box_inv :: "local_box \<Rightarrow> bool" where
  "box_inv s \<longleftrightarrow>
     set (lb_stopped s) \<union> \<Union> (set ` set_option (lb_srcObject s)) \<union> \<Union> ((\<lambda>p. set (fst p) \<union> set (snd p)) ` set (lb_producing s)) \<union>
       set_option (lm_audioTrack (lb_media s)) \<union> set_option (lm_videoTrack (lb_media s)) \<subseteq> set (lb_granted s)"

lemma box_inv_step: "box_inv s \<Longrightarrow> box_inv (box_step s e)"
proof (cases e)
  case (Produced ok)
  assume inv: "box_inv s"
  show ?thesis
  proof (cases "lb_producing s")
    case (Cons p rest)
    obtain a v where p: "p = (a, v)"
      by (cases p)
    show ?thesis
      using inv Produced Cons p first_track_in[of a] first_track_in[of v]
      by (auto simp: box_inv_def box_produced_def media_produced_def)
  qed (use inv Produced in \<open>simp add: box_produced_def\<close>)
qed (auto simp: box_inv_def box_effect_def devices_granted_def devices_refused_def box_cleanup_def stop_tracks Let_def
    simp del: click_step.simps split: option.split)

interpretation box: free_invariant_system box_step box_inv
  by unfold_locales (rule box_inv_step)

text \<open>
  The box touches only what the devices gave it: in every run, the tracks that it stops, shows, produces and stores for
  the buttons are tracks of the streams that it was granted.
\<close>

theorem box_uses_granted_tracks:
  "let s = foldl box_step (local_box_new ms) es in
    set (lb_stopped s) \<subseteq> set (lb_granted s) \<and> \<Union> (set ` set_option (lb_srcObject s)) \<subseteq> set (lb_granted s) \<and>
    set_option (lm_audioTrack (lb_media s)) \<union> set_option (lm_videoTrack (lb_media s)) \<subseteq> set (lb_granted s)"
proof -
  have "box_inv (local_box_new ms)"
    by (simp add: box_inv_def local_box_new_def local_media_new_def)
  from box.free_run_inv[OF this, of es] show ?thesis
    by (simp add: box_inv_def Let_def)
qed

text \<open>
  A clean-up that comes before the devices answer stops nothing, then or later: when the element has gone, the tracks
  of a stream that is granted afterwards run on in every continuation without the element.
\<close>

fun without_element :: "box_event \<Rightarrow> bool" where
  "without_element (Granted element _ _) = (\<not> element)"
| "without_element (Cleanup element) = (\<not> element)"
| "without_element _ = True"

lemma without_element_step: "without_element e \<Longrightarrow> lb_stopped (box_step s e) = lb_stopped s"
  by (cases e) (auto simp: box_effect_def devices_granted_def devices_refused_def box_produced_def box_cleanup_def Let_def
      split: option.split list.split)

theorem late_grant_runs_on:
  assumes "0 < lb_asked s" "t \<in> set audio \<union> set video" "t \<notin> set (lb_stopped s)" "list_all without_element es"
  shows "let s' = foldl box_step s (Cleanup False # Granted False audio video # es) in
    t \<in> set (lb_granted s') \<and> t \<notin> set (lb_stopped s')"
proof -
  have granted: "set (lb_granted s) \<subseteq> set (lb_granted (foldl box_step s es))" for s es
  proof (induction es arbitrary: s)
    case (Cons e es)
    have "set (lb_granted s) \<subseteq> set (lb_granted (box_step s e))"
      by (cases e) (auto simp: box_effect_def devices_granted_def devices_refused_def box_produced_def box_cleanup_def
          stop_tracks Let_def split: option.split list.split)
    then show ?case
      using Cons[of "box_step s e"] by simp
  qed simp
  have stopped: "lb_stopped (foldl box_step s es) = lb_stopped s" if "list_all without_element es" for s es
    using that by (induction es arbitrary: s) (simp_all add: without_element_step del: box_step.simps)
  let ?s = "foldl box_step s [Cleanup False, Granted False audio video]"
  have "t \<in> set (lb_granted ?s)"
    using assms(1,2) by (auto simp: box_cleanup_def devices_granted_def split: option.split)
  then have "t \<in> set (lb_granted (foldl box_step ?s es))"
    using granted by blast
  moreover have "lb_stopped (foldl box_step s (Cleanup False # Granted False audio video # es)) = lb_stopped s"
    by (rule stopped) (use assms(4) in simp)
  ultimately show ?thesis
    using assms(3) by (simp add: Let_def del: box_step.simps)
qed

lemma late_grant_runs_on_witness:
  "let s = box_step (local_box_new demo_service) (Effect True);
       s' = foldl box_step s [Cleanup False, Granted False [''mic''] [''cam''], Produced True]
   in ''cam'' \<in> set (lb_granted s') \<and> ''cam'' \<notin> set (lb_stopped s')"
proof -
  have "0 < lb_asked (box_step (local_box_new demo_service) (Effect True))"
    "''cam'' \<notin> set (lb_stopped (box_step (local_box_new demo_service) (Effect True)))"
    by (simp_all add: local_box_new_def box_effect_def Let_def)
  from late_grant_runs_on[OF this(1) _ this(2), of "[''mic'']" "[''cam'']" "[Produced True]"] show ?thesis
    by (simp add: Let_def del: box_step.simps foldl.simps)
qed

end
