(* ===== verification/RemoteClients.thy ===== *)
theory RemoteClients
  imports JsMap
begin

text \<open>
  How the web application keeps track of the remote clients: the slices of its store
  (\<^verbatim>\<open>webapp/src/store\<close>) and the two handlers of \<^verbatim>\<open>components/Clients/RemoteClients.tsx\<close>, which group the
  tracks of the media service by client. A media stream of the browser is an object (a number)
  with its list of tracks; a track is its id, and its read-only kind is the argument \<open>kind\<close>.
\<close>

section \<open>The store\<close>

record stored_client =
  st_clientId :: string
  st_userId :: "string option"
  st_mediaStreamId :: "string option"
  st_audioTrackId :: "string option"
  st_videoTrackId :: "string option"

datatype store_action =
    AddClient stored_client
  | RemoveClient string
  | SetAudioTrackId string "string option"
  | SetVideoTrackId string "string option"

text \<open>The client that \<open>find\<close> returns is a draft: changing it changes the first match in the list.\<close>

fun update_client :: "string \<Rightarrow> (stored_client \<Rightarrow> stored_client) \<Rightarrow> stored_client list \<Rightarrow> stored_client list" where
  "update_client i f [] = []"
| "update_client i f (c # cs) = (if st_clientId c = i then f c # cs else c # update_client i f cs)"

fun remote_reducer :: "stored_client list \<Rightarrow> store_action \<Rightarrow> stored_client list" where
  "remote_reducer cs (AddClient c) =
     (if find (\<lambda>c'. st_clientId c' = st_clientId c) cs \<noteq> None then cs else cs @ [c])"
| "remote_reducer cs (RemoveClient i) = filter (\<lambda>c. st_clientId c \<noteq> i) cs"
| "remote_reducer cs (SetAudioTrackId i t) = update_client i (\<lambda>c. c\<lparr>st_audioTrackId := t\<rparr>) cs"
| "remote_reducer cs (SetVideoTrackId i t) = update_client i (\<lambda>c. c\<lparr>st_videoTrackId := t\<rparr>) cs"

text \<open>The slice of the local client.\<close>

datatype local_action =
    SetLocalAudioTrackId string
  | SetLocalVideoTrackId string

fun local_reducer :: "stored_client \<Rightarrow> local_action \<Rightarrow> stored_client" where
  "local_reducer c (SetLocalAudioTrackId t) = c\<lparr>st_audioTrackId := Some t\<rparr>"
| "local_reducer c (SetLocalVideoTrackId t) = c\<lparr>st_videoTrackId := Some t\<rparr>"

section \<open>The component\<close>

record stream_info =
  si_stream :: nat
  si_userId :: "string option"

record remote_view =
  rv_clients :: "stored_client list"
  rv_info :: "(string, stream_info) jsmap"
  rv_streams :: "nat \<Rightarrow> string list"
  rv_nstreams :: nat
  rv_shown :: "stream_info list"

definition remote_view_new :: remote_view where
  "remote_view_new =
     \<lparr>rv_clients = [], rv_info = map_new, rv_streams = (\<lambda>_. []), rv_nstreams = 0, rv_shown = []\<rparr>"

definition dispatch :: "remote_view \<Rightarrow> store_action \<Rightarrow> remote_view" where
  "dispatch s a = s\<lparr>rv_clients := remote_reducer (rv_clients s) a\<rparr>"

definition show_streams :: "remote_view \<Rightarrow> remote_view" where
  "show_streams s = s\<lparr>rv_shown := map_values (rv_info s)\<rparr>"

definition addTrack :: "remote_view \<Rightarrow> nat \<Rightarrow> string \<Rightarrow> remote_view" where
  "addTrack s n t =
     s\<lparr>rv_streams := (rv_streams s)(n := if t \<in> set (rv_streams s n) then rv_streams s n else rv_streams s n @ [t])\<rparr>"

definition removeTrack :: "remote_view \<Rightarrow> nat \<Rightarrow> string \<Rightarrow> remote_view" where
  "removeTrack s n t = s\<lparr>rv_streams := (rv_streams s)(n := filter (\<lambda>t'. t' \<noteq> t) (rv_streams s n))\<rparr>"

definition set_track_id :: "(string \<Rightarrow> string) \<Rightarrow> string \<Rightarrow> string \<Rightarrow> string option \<Rightarrow> store_action" where
  "set_track_id kind i t v = (if kind t = ''audio'' then SetAudioTrackId i v else SetVideoTrackId i v)"

text \<open>
  \<open>addedMediaConsumer\<close> reads the clients that the component saw when the callback was created
  (\<open>seen\<close>), which may be older than the store.
\<close>

definition addedMediaConsumer ::
  "(string \<Rightarrow> string) \<Rightarrow> stored_client list \<Rightarrow> remote_view \<Rightarrow> string \<Rightarrow> string option \<Rightarrow> string \<Rightarrow> remote_view"
where
  "addedMediaConsumer kind seen s i userId t =
     (let s1 = (if find (\<lambda>c. st_clientId c = i) seen = None
                then dispatch s (AddClient \<lparr>st_clientId = i, st_userId = userId, st_mediaStreamId = None,
                       st_audioTrackId = None, st_videoTrackId = None\<rparr>)
                else s);
          (s2, n) = (case map_get (rv_info s) i of
                       Some info \<Rightarrow> (s1, si_stream info)
                     | None \<Rightarrow>
                         (show_streams (s1\<lparr>rv_info := map_set (rv_info s1) i
                            \<lparr>si_stream = rv_nstreams s1, si_userId = userId\<rparr>,
                            rv_streams := (rv_streams s1)(rv_nstreams s1 := []), rv_nstreams := Suc (rv_nstreams s1)\<rparr>),
                          rv_nstreams s1))
      in dispatch (addTrack s2 n t) (set_track_id kind i t (Some t)))"

fun removed_loop ::
  "(string \<Rightarrow> string) \<Rightarrow> string \<Rightarrow> remote_view \<Rightarrow> (string \<times> stream_info) list \<Rightarrow> remote_view"
where
  "removed_loop kind t s [] = s"
| "removed_loop kind t s ((i, info) # es) =
     (if t \<notin> set (rv_streams s (si_stream info)) then removed_loop kind t s es
      else
        (let s1 = removeTrack (dispatch s (set_track_id kind i t None)) (si_stream info) t in
         if 0 < length (rv_streams s1 (si_stream info)) then s1
         else removed_loop kind t
                (dispatch (show_streams (s1\<lparr>rv_info := map_delete (rv_info s1) i\<rparr>)) (RemoveClient i)) es))"

definition removedMediaConsumer :: "(string \<Rightarrow> string) \<Rightarrow> remote_view \<Rightarrow> string \<Rightarrow> remote_view" where
  "removedMediaConsumer kind s t = removed_loop kind t s (map snd (m_entries (rv_info s)))"

datatype view_event =
    Added string "string option" string
  | Removed string

fun view_step :: "(string \<Rightarrow> string) \<Rightarrow> stored_client list \<Rightarrow> remote_view \<Rightarrow> view_event \<Rightarrow> remote_view" where
  "view_step kind seen s (Added i userId t) = addedMediaConsumer kind seen s i userId t"
| "view_step kind seen s (Removed t) = removedMediaConsumer kind s t"

section \<open>The invariant\<close>

definition client_ok :: "(string \<Rightarrow> string) \<Rightarrow> remote_view \<Rightarrow> stored_client \<Rightarrow> bool" where
  "client_ok kind s c \<longleftrightarrow>
     (\<exists>info. map_get (rv_info s) (st_clientId c) = Some info \<and>
        (\<forall>t. st_audioTrackId c = Some t \<longrightarrow> t \<in> set (rv_streams s (si_stream info)) \<and> kind t = ''audio'') \<and>
        (\<forall>t. st_videoTrackId c = Some t \<longrightarrow> t \<in> set (rv_streams s (si_stream info)) \<and> kind t \<noteq> ''audio''))"

definition info_ok :: "remote_view \<Rightarrow> bool" where
  "info_ok s \<longleftrightarrow>
     map_wf (rv_info s) \<and>
     (\<forall>i info. map_get (rv_info s) i = Some info \<longrightarrow>
        si_stream info < rv_nstreams s \<and> rv_streams s (si_stream info) \<noteq> [] \<and>
        (\<forall>i' info'. map_get (rv_info s) i' = Some info' \<longrightarrow> si_stream info' = si_stream info \<longrightarrow> i' = i))"

definition view_inv :: "(string \<Rightarrow> string) \<Rightarrow> remote_view \<Rightarrow> bool" where
  "view_inv kind s \<longleftrightarrow>
     map st_clientId (rv_clients s) = map_keys (rv_info s) \<and> info_ok s \<and>
     rv_shown s = map_values (rv_info s) \<and> (\<forall>c \<in> set (rv_clients s). client_ok kind s c)"

lemma view_inv_new: "view_inv kind remote_view_new"
  by (simp add: view_inv_def info_ok_def remote_view_new_def map_keys_def map_values_def) (simp add: map_new_def)

lemma update_client_ids:
  "(\<And>c. st_clientId (f c) = st_clientId c) \<Longrightarrow> map st_clientId (update_client i f cs) = map st_clientId cs"
  by (induction cs) auto

lemma update_client_map:
  "distinct (map st_clientId cs) \<Longrightarrow> update_client i f cs = map (\<lambda>c. if st_clientId c = i then f c else c) cs"
  by (induction cs) (auto simp: image_iff intro!: map_idI[symmetric])

lemma find_client_None: "find (\<lambda>c. st_clientId c = i) cs = None \<longleftrightarrow> i \<notin> set (map st_clientId cs)"
  by (induction cs) auto

definition set_id :: "(string \<Rightarrow> string) \<Rightarrow> string \<Rightarrow> string option \<Rightarrow> stored_client \<Rightarrow> stored_client" where
  "set_id kind t v c = (if kind t = ''audio'' then c\<lparr>st_audioTrackId := v\<rparr> else c\<lparr>st_videoTrackId := v\<rparr>)"

lemma set_id_client [simp]: "st_clientId (set_id kind t v c) = st_clientId c"
  by (simp add: set_id_def)

lemma reduce_set_track:
  "distinct (map st_clientId cs) \<Longrightarrow>
   remote_reducer cs (set_track_id kind i t v) = map (\<lambda>c. if st_clientId c = i then set_id kind t v c else c) cs"
  by (simp add: set_track_id_def set_id_def update_client_map)

lemma view_distinct: "view_inv kind s \<Longrightarrow> distinct (map st_clientId (rv_clients s))"
  by (simp add: view_inv_def info_ok_def map_wf_def)

lemma view_known: "view_inv kind s \<Longrightarrow> i \<in> set (map st_clientId (rv_clients s)) \<longleftrightarrow> map_get (rv_info s) i \<noteq> None"
  by (simp add: view_inv_def map_keys_get del: not_None_eq)

section \<open>Adding a track\<close>

definition new_client :: "string \<Rightarrow> string option \<Rightarrow> stored_client" where
  "new_client i userId = \<lparr>st_clientId = i, st_userId = userId, st_mediaStreamId = None,
     st_audioTrackId = None, st_videoTrackId = None\<rparr>"

lemma added_known:
  assumes inv: "view_inv kind s" and info: "map_get (rv_info s) i = Some info"
  shows "addedMediaConsumer kind seen s i userId t =
    (addTrack s (si_stream info) t)\<lparr>rv_clients :=
       map (\<lambda>c. if st_clientId c = i then set_id kind t (Some t) c else c) (rv_clients s)\<rparr>"
proof -
  have "find (\<lambda>c. st_clientId c = i) (rv_clients s) \<noteq> None"
    using view_known[OF inv, of i] info by (simp add: find_client_None)
  then show ?thesis
    using info view_distinct[OF inv]
    by (auto simp: addedMediaConsumer_def dispatch_def addTrack_def reduce_set_track)
qed

lemma added_new:
  assumes inv: "view_inv kind s" and info: "map_get (rv_info s) i = None"
    and seen: "set (map st_clientId seen) \<subseteq> set (map st_clientId (rv_clients s))"
  shows "addedMediaConsumer kind seen s i userId t =
    (let m = map_set (rv_info s) i \<lparr>si_stream = rv_nstreams s, si_userId = userId\<rparr> in
     s\<lparr>rv_clients := rv_clients s @ [set_id kind t (Some t) (new_client i userId)], rv_info := m,
       rv_streams := (rv_streams s)(rv_nstreams s := [t]), rv_nstreams := Suc (rv_nstreams s),
       rv_shown := map_values m\<rparr>)"
proof -
  have unknown: "i \<notin> set (map st_clientId (rv_clients s))"
    using view_known[OF inv, of i] info by simp
  moreover from this have "find (\<lambda>c. st_clientId c = i) (rv_clients s) = None" "find (\<lambda>c. st_clientId c = i) seen = None"
    using seen by (auto simp: find_client_None)
  moreover have "map (\<lambda>c. if st_clientId c = i then set_id kind t (Some t) c else c) (rv_clients s) = rv_clients s"
    using unknown by (intro map_idI) auto
  ultimately show ?thesis
    using info view_distinct[OF inv]
    by (simp add: addedMediaConsumer_def dispatch_def addTrack_def show_streams_def reduce_set_track Let_def new_client_def)
qed

lemma map_values_get: "map_wf m \<Longrightarrow> map_values m = map (\<lambda>k. the (map_get m k)) (map_keys m)"
  by (auto simp: map_values_def map_keys_def entry_map_get)

lemma info_stream:
  "info_ok s \<Longrightarrow> map_get (rv_info s) i = Some info \<Longrightarrow>
   si_stream info < rv_nstreams s \<and> rv_streams s (si_stream info) \<noteq> []"
  by (simp add: info_ok_def)

lemma info_stream_other:
  "info_ok s \<Longrightarrow> map_get (rv_info s) i = Some info \<Longrightarrow> map_get (rv_info s) i' = Some info' \<Longrightarrow> i' \<noteq> i \<Longrightarrow>
   si_stream info' \<noteq> si_stream info"
  unfolding info_ok_def by metis

lemma info_okI:
  assumes "map_wf (rv_info s)"
    and "\<And>i info. map_get (rv_info s) i = Some info \<Longrightarrow>
      si_stream info < rv_nstreams s \<and> rv_streams s (si_stream info) \<noteq> []"
    and "\<And>i info i' info'. map_get (rv_info s) i = Some info \<Longrightarrow> map_get (rv_info s) i' = Some info' \<Longrightarrow>
      i' \<noteq> i \<Longrightarrow> si_stream info' \<noteq> si_stream info"
  shows "info_ok s"
  using assms unfolding info_ok_def by metis

lemma info_add_new:
  assumes ok: "info_ok s" and "map_get (rv_info s) i = None"
  shows "info_ok (s\<lparr>rv_clients := cs, rv_info := map_set (rv_info s) i \<lparr>si_stream = rv_nstreams s, si_userId = u\<rparr>,
    rv_streams := (rv_streams s)(rv_nstreams s := [t]), rv_nstreams := Suc (rv_nstreams s), rv_shown := sh\<rparr>)"
    (is "info_ok ?s")
proof (rule info_okI)
  show "map_wf (rv_info ?s)"
    using ok by (simp add: info_ok_def map_wf_set)
next
  fix k info
  assume "map_get (rv_info ?s) k = Some info"
  then show "si_stream info < rv_nstreams ?s \<and> rv_streams ?s (si_stream info) \<noteq> []"
    using info_stream[OF ok, of k info] by (auto simp: map_get_set split: if_splits)
next
  fix k info k' info'
  assume "map_get (rv_info ?s) k = Some info" "map_get (rv_info ?s) k' = Some info'" "k' \<noteq> k"
  then show "si_stream info' \<noteq> si_stream info"
    using info_stream[OF ok, of k info] info_stream[OF ok, of k' info'] info_stream_other[OF ok, of k info k' info']
    by (auto simp: map_get_set split: if_splits)
qed

lemma view_added:
  assumes inv: "view_inv kind s" and seen: "set (map st_clientId seen) \<subseteq> set (map st_clientId (rv_clients s))"
  shows "view_inv kind (addedMediaConsumer kind seen s i userId t)"
proof (cases "map_get (rv_info s) i")
  case None
  let ?s = "addedMediaConsumer kind seen s i userId t"
  have "client_ok kind ?s (set_id kind t (Some t) (new_client i userId))"
    by (simp add: added_new[OF inv None seen] Let_def client_ok_def set_id_def new_client_def map_get_set)
  moreover have "client_ok kind ?s c" if "c \<in> set (rv_clients s)" for c
  proof -
    have "client_ok kind s c"
      using inv that by (simp add: view_inv_def)
    moreover have "st_clientId c \<noteq> i"
      using view_known[OF inv, of i] None that by auto
    moreover have "si_stream info \<noteq> rv_nstreams s" if "map_get (rv_info s) (st_clientId c) = Some info" for info
      using inv that info_stream[of s "st_clientId c" info] by (simp add: view_inv_def)
    ultimately show ?thesis
      by (auto simp: added_new[OF inv None seen] Let_def client_ok_def map_get_set)
  qed
  moreover have "info_ok ?s"
    using info_add_new[of s i] inv None by (simp add: added_new[OF inv None seen] Let_def view_inv_def)
  ultimately show ?thesis
    using inv None
    by (simp add: view_inv_def added_new[OF inv None seen] Let_def map_keys_set map_has_get)
      (simp add: set_id_def new_client_def)
next
  case (Some info)
  let ?s = "addedMediaConsumer kind seen s i userId t"
  have "client_ok kind ?s (if st_clientId c = i then set_id kind t (Some t) c else c)" if "c \<in> set (rv_clients s)" for c
  proof -
    have c: "client_ok kind s c"
      using inv that by (simp add: view_inv_def)
    show ?thesis
    proof (cases "st_clientId c = i")
      case True
      then show ?thesis
        using c Some by (auto simp: added_known[OF inv Some] client_ok_def addTrack_def set_id_def)
    next
      case False
      then show ?thesis
        using c info_stream_other[of s i info] inv Some
        by (auto simp: added_known[OF inv Some] client_ok_def addTrack_def view_inv_def)
    qed
  qed
  moreover have "info_ok ?s"
    using inv unfolding added_known[OF inv Some] addTrack_def view_inv_def info_ok_def by auto
  ultimately show ?thesis
    using inv by (auto simp: view_inv_def added_known[OF inv Some] addTrack_def comp_def if_distrib cong: if_cong)
qed

section \<open>Removing a track\<close>

lemma view_map_clients:
  assumes inv: "view_inv kind s" and info: "map_get (rv_info s) i = Some info" and t: "t \<in> set (rv_streams s (si_stream info))"
    and rest: "filter (\<lambda>t'. t' \<noteq> t) (rv_streams s (si_stream info)) \<noteq> []"
  shows "view_inv kind (removeTrack (dispatch s (set_track_id kind i t None)) (si_stream info) t)" (is "view_inv kind ?s")
proof -
  have s': "?s = s\<lparr>rv_clients := map (\<lambda>c. if st_clientId c = i then set_id kind t None c else c) (rv_clients s),
      rv_streams := (rv_streams s)(si_stream info := filter (\<lambda>t'. t' \<noteq> t) (rv_streams s (si_stream info)))\<rparr>"
    using view_distinct[OF inv] by (simp add: removeTrack_def dispatch_def reduce_set_track)
  have "client_ok kind ?s (if st_clientId c = i then set_id kind t None c else c)" if "c \<in> set (rv_clients s)" for c
  proof -
    have c: "client_ok kind s c"
      using inv that by (simp add: view_inv_def)
    show ?thesis
    proof (cases "st_clientId c = i")
      case True
      then show ?thesis
        using c info by (auto simp: s' client_ok_def set_id_def)
    next
      case False
      then show ?thesis
        using c info_stream_other[of s i info] inv info by (auto simp: s' client_ok_def view_inv_def)
    qed
  qed
  moreover have "info_ok ?s"
    using inv rest unfolding s' view_inv_def info_ok_def by auto
  ultimately show ?thesis
    using inv by (auto simp: view_inv_def s' comp_def if_distrib cong: if_cong)
qed

lemma map_values_delete: "map_values (map_delete m k) = map (\<lambda>e. snd (snd e)) (filter (\<lambda>e. fst (snd e) \<noteq> k) (m_entries m))"
  by (simp add: map_values_def map_delete_entries)

lemma filter_update_other:
  "filter (\<lambda>c. st_clientId c \<noteq> i) (map (\<lambda>c. if st_clientId c = i then f c else c) cs) =
   filter (\<lambda>c. st_clientId c \<noteq> i) cs" if "\<And>c. st_clientId (f c) = st_clientId c"
  by (induction cs) (auto simp: that)

lemma view_delete_client:
  assumes inv: "view_inv kind s" and info: "map_get (rv_info s) i = Some info"
  shows "view_inv kind (dispatch (show_streams ((removeTrack (dispatch s (set_track_id kind i t None)) (si_stream info) t)
      \<lparr>rv_info := map_delete (rv_info s) i\<rparr>)) (RemoveClient i))" (is "view_inv kind ?s")
proof -
  have s': "?s = s\<lparr>rv_clients := filter (\<lambda>c. st_clientId c \<noteq> i) (rv_clients s), rv_info := map_delete (rv_info s) i,
      rv_streams := (rv_streams s)(si_stream info := filter (\<lambda>t'. t' \<noteq> t) (rv_streams s (si_stream info))),
      rv_shown := map_values (map_delete (rv_info s) i)\<rparr>"
    using view_distinct[OF inv]
    by (simp add: removeTrack_def dispatch_def show_streams_def reduce_set_track filter_update_other)
  have ok: "info_ok s"
    using inv by (simp add: view_inv_def)
  have "client_ok kind ?s c" if "c \<in> set (rv_clients s)" "st_clientId c \<noteq> i" for c
  proof -
    have "client_ok kind s c"
      using inv that by (simp add: view_inv_def)
    then show ?thesis
      using that info_stream_other[OF ok info] by (auto simp: s' client_ok_def map_get_delete)
  qed
  moreover have "info_ok ?s"
  proof (rule info_okI)
    show "map_wf (rv_info ?s)"
      using ok by (simp add: s' info_ok_def map_wf_delete)
    show "si_stream x < rv_nstreams ?s \<and> rv_streams ?s (si_stream x) \<noteq> []" if "map_get (rv_info ?s) k = Some x" for k x
      using that info_stream[OF ok, of k x] info_stream_other[OF ok info, of k x]
      by (auto simp: s' map_get_delete split: if_splits)
    show "si_stream y \<noteq> si_stream x" if "map_get (rv_info ?s) k = Some x" "map_get (rv_info ?s) k' = Some y" "k' \<noteq> k" for k x k' y
      using that info_stream_other[OF ok, of k x k' y] by (auto simp: s' map_get_delete split: if_splits)
  qed
  moreover have "map st_clientId (filter (\<lambda>c. st_clientId c \<noteq> i) (rv_clients s)) = map_keys (map_delete (rv_info s) i)"
    using inv filter_map[of "\<lambda>k. k \<noteq> i" st_clientId "rv_clients s"] by (simp add: view_inv_def map_keys_delete comp_def)
  ultimately show ?thesis
    by (simp add: view_inv_def s')
qed

lemma view_removed_loop:
  assumes "view_inv kind s" "distinct (map fst es)" "\<forall>(i, info) \<in> set es. map_get (rv_info s) i = Some info"
  shows "view_inv kind (removed_loop kind t s es)"
  using assms
proof (induction es arbitrary: s)
  case (Cons e es)
  obtain i info where e: "e = (i, info)"
    by (cases e)
  then have info: "map_get (rv_info s) i = Some info"
    using Cons.prems by auto
  show ?case
  proof (cases "t \<in> set (rv_streams s (si_stream info))")
    case False
    then show ?thesis
      using Cons e by simp
  next
    case True
    have rest: "rv_streams (removeTrack (dispatch s a) (si_stream info) t) (si_stream info) =
        filter (\<lambda>t'. t' \<noteq> t) (rv_streams s (si_stream info))" for a
      by (simp add: removeTrack_def dispatch_def)
    have inf: "rv_info (removeTrack (dispatch s a) (si_stream info) t) = rv_info s" for a
      by (simp add: removeTrack_def dispatch_def)
    have keep: "rv_info (dispatch (show_streams (s'\<lparr>rv_info := m\<rparr>)) a) = m" for s' m a
      by (simp add: dispatch_def show_streams_def)
    show ?thesis
    proof (cases "filter (\<lambda>t'. t' \<noteq> t) (rv_streams s (si_stream info)) = []")
      case False
      then show ?thesis
        using view_map_clients[OF Cons.prems(1) info True False] True e by (simp add: rest Let_def)
    next
      case empty: True
      have "\<forall>(k, x) \<in> set es. map_get (map_delete (rv_info s) i) k = Some x"
        using Cons.prems e by (fastforce simp: map_get_delete image_iff)
      then show ?thesis
        using Cons.IH[OF view_delete_client[OF Cons.prems(1) info]] Cons.prems(2) True e empty
        by (simp add: rest inf keep Let_def)
    qed
  qed
qed simp

lemma view_removed: "view_inv kind s \<Longrightarrow> view_inv kind (removedMediaConsumer kind s t)"
proof -
  assume inv: "view_inv kind s"
  then have wf: "map_wf (rv_info s)"
    by (simp add: view_inv_def info_ok_def)
  have "distinct (map fst (map snd (m_entries (rv_info s))))"
    using wf by (simp add: map_wf_def map_keys_def comp_def)
  moreover have "\<forall>(i, info) \<in> set (map snd (m_entries (rv_info s))). map_get (rv_info s) i = Some info"
    using entry_map_get[OF wf] by auto
  ultimately show ?thesis
    unfolding removedMediaConsumer_def by (rule view_removed_loop[OF inv])
qed

interpretation view: free_invariant_system "view_step kind []" "view_inv kind" for kind
proof
  show "view_inv kind s \<Longrightarrow> view_inv kind (view_step kind [] s e)" for s e
    by (cases e) (simp_all add: view_added view_removed)
qed

text \<open>
  C23. The store follows the streams: whatever tracks are added and removed, in any order, the store
  lists exactly the clients that have a media stream, each once and in the same order; the shown
  streams are those of these clients, no shown stream is empty, and every track id in the store
  names a track of that client's stream of the right kind. The callbacks see the empty list of
  clients of the first rendering throughout, which does no harm.
\<close>

theorem store_follows_streams:
  assumes "s = foldl (view_step kind []) remote_view_new es"
  shows "map st_clientId (rv_clients s) = map_keys (rv_info s) \<and> distinct (map st_clientId (rv_clients s)) \<and>
    rv_shown s = map_values (rv_info s) \<and>
    (\<forall>info \<in> set (rv_shown s). rv_streams s (si_stream info) \<noteq> []) \<and>
    (\<forall>c \<in> set (rv_clients s). \<exists>info. map_get (rv_info s) (st_clientId c) = Some info \<and>
       (\<forall>t. st_audioTrackId c = Some t \<longrightarrow> t \<in> set (rv_streams s (si_stream info)) \<and> kind t = ''audio'') \<and>
       (\<forall>t. st_videoTrackId c = Some t \<longrightarrow> t \<in> set (rv_streams s (si_stream info)) \<and> kind t \<noteq> ''audio''))"
proof -
  have inv: "view_inv kind s"
    unfolding assms by (rule view.free_run_inv[OF view_inv_new])
  then have ok: "info_ok s"
    by (simp add: view_inv_def)
  have "rv_streams s (si_stream info) \<noteq> []" if shown: "info \<in> set (map_values (rv_info s))" for info
  proof -
    obtain e where "e \<in> set (m_entries (rv_info s))" "info = snd (snd e)"
      using shown by (auto simp: map_values_def)
    then have "map_get (rv_info s) (fst (snd e)) = Some info"
      using ok entry_map_get[of "rv_info s" "fst e" "fst (snd e)" info] by (simp add: info_ok_def)
    then show ?thesis
      using info_stream[OF ok] by blast
  qed
  with inv view_distinct[OF inv] show ?thesis
    by (simp add: view_inv_def client_ok_def)
qed

definition demo_kind :: "string \<Rightarrow> string" where
  "demo_kind t = (if t = ''mic'' then ''audio'' else ''video'')"

lemma store_follows_streams_witness:
  "let s = foldl (view_step demo_kind []) remote_view_new
       [Added ''a'' None ''mic'', Added ''b'' None ''cam'', Added ''a'' None ''screen'', Removed ''cam'']
   in map st_clientId (rv_clients s) = map_keys (rv_info s) \<and> map_keys (rv_info s) = [''a'']"
proof -
  let ?s = "foldl (view_step demo_kind []) remote_view_new
       [Added ''a'' None ''mic'', Added ''b'' None ''cam'', Added ''a'' None ''screen'', Removed ''cam'']"
  have "map_keys (rv_info ?s) = [''a'']"
    by code_simp
  then show ?thesis
    using store_follows_streams[OF refl, where kind = demo_kind and
        es = "[Added ''a'' None ''mic'', Added ''b'' None ''cam'', Added ''a'' None ''screen'', Removed ''cam'']"]
    by (simp only: Let_def)
qed

lemma removed_last:
  assumes "rv_streams s (si_stream x) = [t]" and "distinct (map st_clientId (rv_clients s))"
  shows "rv_clients (removed_loop kind t s [(i, x)]) = filter (\<lambda>c. st_clientId c \<noteq> i) (rv_clients s)"
    and "rv_info (removed_loop kind t s [(i, x)]) = map_delete (rv_info s) i"
    and "rv_shown (removed_loop kind t s [(i, x)]) = map_values (map_delete (rv_info s) i)"
  using assms
  by (simp_all add: removeTrack_def dispatch_def show_streams_def reduce_set_track filter_update_other)

text \<open>
  Removing the only track of a client undoes adding it: after any run, when a track that is in no
  stream is added for a client that is not in the store and then removed, the store, the table
  of streams and what is shown are as before.
\<close>

theorem remove_undoes_add:
  assumes "s = foldl (view_step kind []) remote_view_new es"
    and "i \<notin> set (map st_clientId (rv_clients s))" and "\<forall>n. t \<notin> set (rv_streams s n)"
  shows "let s' = removedMediaConsumer kind (addedMediaConsumer kind [] s i userId t) t
    in rv_clients s' = rv_clients s \<and> m_entries (rv_info s') = m_entries (rv_info s) \<and> rv_shown s' = rv_shown s"
proof -
  let ?x = "\<lparr>si_stream = rv_nstreams s, si_userId = userId\<rparr>"
  let ?m = "map_set (rv_info s) i ?x"
  let ?cs = "rv_clients s @ [set_id kind t (Some t) (new_client i userId)]"
  let ?s = "s\<lparr>rv_clients := ?cs, rv_info := ?m, rv_streams := (rv_streams s)(rv_nstreams s := [t]),
    rv_nstreams := Suc (rv_nstreams s), rv_shown := map_values ?m\<rparr>"
  have inv: "view_inv kind s"
    unfolding assms(1) by (rule view.free_run_inv[OF view_inv_new])
  have new: "map_get (rv_info s) i = None"
    using view_known[OF inv, of i] assms(2) by simp
  then have fresh: "m_entries ?m = m_entries (rv_info s) @ [(m_next (rv_info s), i, ?x)]"
    "filter (\<lambda>e. fst (snd e) \<noteq> i) (m_entries (rv_info s)) = m_entries (rv_info s)"
    using map_has_get[of "rv_info s" i] by (auto simp: map_set_def map_has_def filter_id_conv)
  have skip: "removed_loop kind t ?s (es @ fs) = removed_loop kind t ?s fs"
    if "\<forall>(k, y) \<in> set es. si_stream y \<noteq> rv_nstreams s" for es fs
    using that assms(3) by (induction es) auto
  have ok: "info_ok s"
    using inv by (simp add: view_inv_def)
  have "si_stream y \<noteq> rv_nstreams s" if "(n, k, y) \<in> set (m_entries (rv_info s))" for n k y
  proof -
    have "map_get (rv_info s) k = Some y"
      using entry_map_get[OF _ that] ok by (simp add: info_ok_def)
    from info_stream[OF ok this] show ?thesis
      by simp
  qed
  then have "\<forall>(k, y) \<in> set (map snd (m_entries (rv_info s))). si_stream y \<noteq> rv_nstreams s"
    by auto
  then have "removedMediaConsumer kind ?s t = removed_loop kind t ?s [(i, ?x)]"
    using skip[of "map snd (m_entries (rv_info s))" "[(i, ?x)]"] by (simp add: removedMediaConsumer_def fresh(1))
  moreover have "distinct (map st_clientId ?cs)"
    using view_distinct[OF inv] assms(2) by (simp add: new_client_def)
  ultimately have "rv_clients (removedMediaConsumer kind ?s t) = filter (\<lambda>c. st_clientId c \<noteq> i) ?cs"
    "rv_info (removedMediaConsumer kind ?s t) = map_delete ?m i"
    "rv_shown (removedMediaConsumer kind ?s t) = map_values (map_delete ?m i)"
    using removed_last[of ?s ?x t kind i] by simp_all
  moreover have "filter (\<lambda>c. st_clientId c \<noteq> i) ?cs = rv_clients s"
    using assms(2) by (auto simp: new_client_def filter_id_conv)
  moreover have "m_entries (map_delete ?m i) = m_entries (rv_info s)"
    by (simp add: map_delete_entries fresh)
  moreover from this have "map_values (map_delete ?m i) = rv_shown s"
    using inv by (simp add: map_values_def view_inv_def)
  ultimately show ?thesis
    using added_new[OF inv new, of "[]" userId t] by (simp add: Let_def)
qed

lemma remove_undoes_add_witness:
  "let s = foldl (view_step demo_kind []) remote_view_new [Added ''b'' None ''cam''];
       s' = removedMediaConsumer demo_kind (addedMediaConsumer demo_kind [] s ''a'' None ''mic'') ''mic''
   in rv_clients s' = rv_clients s"
proof -
  let ?s = "foldl (view_step demo_kind []) remote_view_new [Added ''b'' None ''cam'']"
  have "rv_streams ?s n = (if n = 0 then [''cam''] else [])" for n
    by (simp add: remote_view_new_def addedMediaConsumer_def Let_def dispatch_def addTrack_def show_streams_def)
  moreover have "map st_clientId (rv_clients ?s) = [''b'']"
    by code_simp
  ultimately show ?thesis
    using remove_undoes_add[OF refl, of "''a''" demo_kind "[Added ''b'' None ''cam'']" "''mic''" None]
    by (simp only: Let_def) simp
qed

end
