(* ===== verification/WebApp.thy ===== *)
theory WebApp
  imports MediaWire RemoteClients
begin

text \<open>
  The web application from the socket to the store: the media service and the component that keeps
  track of the remote clients. The component registers its listeners with the service only after
  \<open>connect\<close> has returned and the provider (\<^verbatim>\<open>webapp/src/contexts/MediaServiceContext.tsx\<close>) has set
  the service, in an effect of the next rendering; what the service emits before is lost.
\<close>

section \<open>State and steps\<close>

record web_app =
  wa_service :: media_service
  wa_listening :: bool
  wa_view :: remote_view

definition web_app_new :: "connection_config \<Rightarrow> web_app" where
  "web_app_new config = \<lparr>wa_service = ms_new config, wa_listening = False, wa_view = remote_view_new\<rparr>"

text \<open>The query of the SFU's address.\<close>

definition sfu_query_string :: "string \<Rightarrow> string option \<Rightarrow> string \<Rightarrow> string" where
  "sfu_query_string clientId userId roomId =
     query_string [(''clientId'', clientId), (''userId'', undefined_or (map_option JStr userId)), (''roomId'', roomId)]"

text \<open>The configuration of the provider; the intervals of the timers do not appear in the model.\<close>

definition provider_config :: "string \<Rightarrow> string \<Rightarrow> connection_config" where
  "provider_config clientId roomId =
     \<lparr>cf_maxRetry = -1, cf_maxBufferTimeInMs = -1, cf_maxBufferSize = -1,
      cf_clientId = clientId, cf_roomId = roomId\<rparr>"

text \<open>The events of the service as the component sees them, for messages of the declared types.\<close>

fun view_events :: "ms_out \<Rightarrow> view_event list" where
  "view_events (EmitAdded (Some (JStr i)) userId (Some t)) =
     [Added i (case userId of Some (JStr u) \<Rightarrow> Some u | _ \<Rightarrow> None) t]"
| "view_events (EmitRemoved (Some t)) = [Removed t]"
| "view_events _ = []"

text \<open>\<open>connect\<close> returns after it has started the client of the observer.\<close>

fun is_connected :: "ms_out \<Rightarrow> bool" where
  "is_connected (ConnectObserver _) = True"
| "is_connected _ = False"

datatype web_event =
    Service ms_event
  | Rendered

fun web_app_step ::
  "(nat \<Rightarrow> string) \<Rightarrow> (string \<Rightarrow> json option) \<Rightarrow> (string \<Rightarrow> string) \<Rightarrow> web_app \<Rightarrow> web_event \<Rightarrow> web_app"
where
  "web_app_step uuid parse kind s (Service e) =
     (let ms = ms_step uuid parse (wa_service s) e;
          emitted = concat (map view_events (drop (length (ms_out (wa_service s))) (ms_out ms)))
      in s\<lparr>wa_service := ms,
           wa_view := (if wa_listening s then foldl (view_step kind []) (wa_view s) emitted else wa_view s)\<rparr>)"
| "web_app_step uuid parse kind s Rendered =
     s\<lparr>wa_listening := (wa_listening s \<or> list_ex is_connected (ms_out (wa_service s)))\<rparr>"

section \<open>Composition\<close>

text \<open>A run of the application is a run of the service.\<close>

fun service_events :: "web_event list \<Rightarrow> ms_event list" where
  "service_events [] = []"
| "service_events (Service e # es) = e # service_events es"
| "service_events (Rendered # es) = service_events es"

lemma service_of_run:
  "wa_service (foldl (web_app_step uuid parse kind) s es) = foldl (ms_step uuid parse) (wa_service s) (service_events es)"
  by (induction es arbitrary: s rule: service_events.induct) (simp_all add: Let_def)

interpretation app_view: free_invariant_system "web_app_step uuid parse kind" "\<lambda>s. view_inv kind (wa_view s)"
  for uuid parse kind
proof
  show "view_inv kind (wa_view s) \<Longrightarrow> view_inv kind (wa_view (web_app_step uuid parse kind s e))" for s e
    by (cases e) (simp_all add: Let_def view.free_run_inv)
qed

text \<open>What adding a track leaves behind.\<close>

lemma added_shows:
  assumes "view_inv kind v"
  shows "let v' = view_step kind [] v (Added i u t) in
    \<exists>info. map_get (rv_info v') i = Some info \<and> info \<in> set (rv_shown v') \<and> t \<in> set (rv_streams v' (si_stream info)) \<and>
      (\<exists>c \<in> set (rv_clients v'). st_clientId c = i \<and>
         (if kind t = ''audio'' then st_audioTrackId c = Some t else st_videoTrackId c = Some t))"
proof -
  let ?v = "view_step kind [] v (Added i u t)"
  have inv: "view_inv kind ?v"
    using assms by (simp add: view_added)
  have shown: "x \<in> set (rv_shown ?v)" if "map_get (rv_info ?v) i = Some x" for x
    using inv map_get_entry[OF that] by (force simp: view_inv_def map_values_def)
  show ?thesis
  proof (cases "map_get (rv_info v) i")
    case None
    then show ?thesis
      using shown by (auto simp: added_new[OF assms None] Let_def map_get_set set_id_def new_client_def)
  next
    case (Some x)
    then obtain c where c: "c \<in> set (rv_clients v)" "st_clientId c = i"
      using view_known[OF assms, of i] by auto
    then have "set_id kind t (Some t) c \<in> set (rv_clients ?v)"
      by (auto simp: added_known[OF assms Some] addTrack_def image_iff intro!: bexI[of _ c])
    then have "\<exists>c \<in> set (rv_clients ?v). st_clientId c = i \<and>
        (if kind t = ''audio'' then st_audioTrackId c = Some t else st_videoTrackId c = Some t)"
      using c by (intro bexI[of _ "set_id kind t (Some t) c"]) (simp_all add: set_id_def)
    moreover have "map_get (rv_info ?v) i = Some x" "t \<in> set (rv_streams ?v (si_stream x))"
      by (simp_all add: added_known[OF assms Some] addTrack_def Some)
    ultimately show ?thesis
      using shown by (auto simp: Let_def simp del: view_step.simps)
  qed
qed

text \<open>
  C18. Remote media is shown: in any run of the application, once its component listens, a frame with a
  \<open>ConsumerCreatedNotification\<close> and the creation of its consumer by the library leave the
  producing client in the store and its stream among those shown, with the consumer's track in
  that stream and in the client's entry under the track's kind.
\<close>

theorem remote_media_is_shown:
  assumes "s = foldl (web_app_step uuid parse kind) (web_app_new config) es"
    and "Submit (Wire (Req (JoinCallRequest i))) \<in> set (ms_out (wa_service s))" and "wa_listening s"
    and "parse data = Some (message_json (Ntf (ConsumerCreatedNotification c p k rtp rc)))"
    and "mo_track co = Some t"
  shows "let s1 = web_app_step uuid parse kind s (Service (FrameReceived now data));
             v = wa_view (web_app_step uuid parse kind s1
               (Service (Answer now' (ms_next (wa_service s)) (ConsumerReady co))))
    in \<exists>info. map_get (rv_info v) (rc_clientId rc) = Some info \<and> info \<in> set (rv_shown v) \<and>
      t \<in> set (rv_streams v (si_stream info)) \<and>
      (\<exists>x \<in> set (rv_clients v). st_clientId x = rc_clientId rc \<and>
         (if kind t = ''audio'' then st_audioTrackId x = Some t else st_videoTrackId x = Some t))"
proof -
  let ?ms = "wa_service s" and ?j = "message_json (Ntf (ConsumerCreatedNotification c p k rtp rc))"
  let ?s1 = "web_app_step uuid parse kind s (Service (FrameReceived now data))"
  let ?s2 = "web_app_step uuid parse kind ?s1 (Service (Answer now' (ms_next ?ms) (ConsumerReady co)))"
  have ms: "?ms = foldl (ms_step uuid parse) (ms_new config) (service_events es)"
    unfolding assms(1) by (simp add: service_of_run web_app_new_def)
  note out = consumed_run[OF ms assms(2,4), of now now' co]
  have "view_inv kind (wa_view s)"
    unfolding assms(1) by (rule app_view.free_run_inv) (simp add: web_app_new_def view_inv_new)
  then have inv: "view_inv kind (wa_view ?s1)"
    by (rule app_view.free_step_inv)
  have "wa_view ?s2 = view_step kind [] (wa_view ?s1) (Added (rc_clientId rc) (rc_userId rc) t)"
    using out assms(3,5) by (simp add: Let_def del: ms_step.simps view_step.simps split: option.split)
  with added_shows[OF inv, of "rc_clientId rc" "rc_userId rc" t] show ?thesis
    by (simp only: Let_def)
qed

definition demo_app :: "web_event list \<Rightarrow> web_app" where
  "demo_app es = foldl (web_app_step demo_uuid demo_parse (\<lambda>_. ''audio'')) (web_app_new web_config)
     (map Service demo_conversation @ es)"

lemma remote_media_is_shown_witness:
  "let v = wa_view (demo_app [Rendered, Service (FrameReceived 8 ''created''),
       Service (Answer 9 5 (ConsumerReady \<lparr>mo_id = ''k'', mo_track = Some ''mic''\<rparr>))])
   in \<exists>x \<in> set (rv_clients v). st_clientId x = ''c2'' \<and> st_audioTrackId x = Some ''mic''"
proof -
  have run: "demo_app [Rendered] = foldl (web_app_step demo_uuid demo_parse (\<lambda>_. ''audio'')) (web_app_new web_config)
      (map Service demo_conversation @ [Rendered])"
    by (simp add: demo_app_def)
  have *: "Submit (Wire (Req (JoinCallRequest ''iii''))) \<in> set (ms_out (wa_service (demo_app [Rendered])))"
    "wa_listening (demo_app [Rendered])" "ms_next (wa_service (demo_app [Rendered])) = 5"
    by code_simp+
  have "demo_parse ''created'' = Some (message_json (Ntf (ConsumerCreatedNotification ''k'' ''p'' ''audio'' JNull
      \<lparr>rc_userId = Some ''u'', rc_clientId = ''c2''\<rparr>)))"
    by (simp add: demo_parse_def)
  note shown = remote_media_is_shown[OF run *(1,2) this, of "\<lparr>mo_id = ''k'', mo_track = Some ''mic''\<rparr>" "''mic''" 8 9]
  have "demo_app [Rendered, e, e'] = web_app_step demo_uuid demo_parse (\<lambda>_. ''audio'')
      (web_app_step demo_uuid demo_parse (\<lambda>_. ''audio'') (demo_app [Rendered]) e) e'" for e e'
    by (simp add: demo_app_def del: web_app_step.simps)
  with shown *(3) show ?thesis
    by (auto simp: Let_def simp del: web_app_step.simps)
qed

section \<open>What is emitted too early\<close>

lemma step_out: "prefix (ms_out s) (ms_out (ms_step uuid parse s e))"
proof -
  have "prefix (ms_out s) (ms_out (ms_react uuid now s x))" for s now x
    using continue_extends[of "ms_drop s k" uuid now t p j for k t p j]
    by (cases x) (auto simp: on_consumer_created_def on_consumer_closed_def ms_settle_def ms_log_def ms_wait_def ms_drop_def
        extends_def split: option.split json.split)
  then have frame: "prefix (ms_out s) (ms_out (foldl (ms_react uuid now) s xs))" for s now xs
    by (induction xs arbitrary: s) (simp, metis foldl_Cons prefix_order.order_trans)
  have "prefix (ms_out s) (ms_out (ms_frame uuid parse now s data))" for now data
    using frame[of "s\<lparr>ms_conn := sc_receive parse (ms_conn s) data\<rparr>"] by (simp add: ms_frame_def Let_def)
  moreover have "prefix (ms_out s) (ms_out (ms_step uuid parse s e))" if "is_local e"
    using steady_extends[OF steady_step[OF that]] by (simp add: extends_def)
  ultimately show ?thesis
    using opened_extends(1)[of s uuid] by (cases e) (auto simp: extends_def)
qed

text \<open>What the service emitted since a state, as the component sees it.\<close>

definition emitted_since :: "web_app \<Rightarrow> web_app \<Rightarrow> view_event list" where
  "emitted_since s s' = concat (map view_events (drop (length (ms_out (wa_service s))) (ms_out (wa_service s'))))"

lemma emitted_since_step:
  assumes "prefix (ms_out (wa_service s)) (ms_out (wa_service s'))"
  shows "emitted_since s (web_app_step uuid parse kind s' e) =
    emitted_since s s' @ emitted_since s' (web_app_step uuid parse kind s' e)"
proof (cases e)
  case (Service x)
  obtain xs ys where "ms_out (wa_service s') = ms_out (wa_service s) @ xs"
      "ms_out (ms_step uuid parse (wa_service s') x) = ms_out (wa_service s') @ ys"
    using assms step_out[of "wa_service s'" uuid parse x] by (auto simp: prefix_def)
  then show ?thesis
    using Service by (simp add: emitted_since_def Let_def del: ms_step.simps)
qed (simp add: emitted_since_def)

text \<open>The tracks and clients of a view come from the events that it saw.\<close>

definition tracks_from :: "view_event list \<Rightarrow> remote_view \<Rightarrow> bool" where
  "tracks_from es v \<longleftrightarrow> (\<forall>n. \<forall>t \<in> set (rv_streams v n). \<exists>i u. Added i u t \<in> set es) \<and>
     (\<forall>c \<in> set (rv_clients v). \<exists>u t. Added (st_clientId c) u t \<in> set es)"

lemma reducer_ids: "st_clientId ` set (remote_reducer cs (set_track_id kind i t x)) = st_clientId ` set cs"
proof -
  have "map st_clientId (remote_reducer cs (set_track_id kind i t x)) = map st_clientId cs"
    by (simp add: set_track_id_def update_client_ids)
  then show ?thesis
    by (metis set_map)
qed

lemma tracks_from_cong:
  assumes "tracks_from es v" "\<And>n. set (rv_streams v' n) \<subseteq> set (rv_streams v n)"
    and "st_clientId ` set (rv_clients v') \<subseteq> st_clientId ` set (rv_clients v)"
  shows "tracks_from es v'"
  using assms unfolding tracks_from_def by (fastforce simp: subset_eq image_iff)

lemma tracks_removed: "tracks_from es v \<Longrightarrow> tracks_from es (removed_loop kind t v xs)"
proof (induction kind t v xs rule: removed_loop.induct)
  case (2 kind t v i info xs)
  let ?v1 = "removeTrack (dispatch v (set_track_id kind i t None)) (si_stream info) t"
  let ?v2 = "dispatch (show_streams (?v1\<lparr>rv_info := map_delete (rv_info ?v1) i\<rparr>)) (RemoveClient i)"
  have v1: "tracks_from es ?v1"
    by (rule tracks_from_cong[OF 2(3)]) (auto simp: removeTrack_def dispatch_def reducer_ids simp del: remote_reducer.simps)
  have "tracks_from es ?v2"
    by (rule tracks_from_cong[OF v1]) (auto simp: show_streams_def dispatch_def)
  then show ?case
    using 2 v1 by (auto simp: Let_def)
qed simp

lemma tracks_added:
  assumes "tracks_from es v"
  shows "tracks_from (es @ [Added i u t]) (addedMediaConsumer kind [] v i u t)"
proof -
  let ?new = "\<lparr>st_clientId = i, st_userId = u, st_mediaStreamId = None, st_audioTrackId = None, st_videoTrackId = None\<rparr>"
  let ?v = "addedMediaConsumer kind [] v i u t"
  have "set (rv_streams ?v n) \<subseteq> insert t (set (rv_streams v n))" for n
    by (auto simp: addedMediaConsumer_def Let_def dispatch_def addTrack_def show_streams_def split: option.splits)
  moreover have "rv_clients ?v = remote_reducer (remote_reducer (rv_clients v) (AddClient ?new)) (set_track_id kind i t (Some t))"
    by (simp add: addedMediaConsumer_def Let_def dispatch_def addTrack_def show_streams_def split: option.split)
  then have "st_clientId ` set (rv_clients ?v) \<subseteq> insert i (st_clientId ` set (rv_clients v))"
    by (auto simp: reducer_ids image_iff simp del: remote_reducer.simps) (auto split: if_splits)
  ultimately show ?thesis
    using assms unfolding tracks_from_def by (fastforce simp: subset_eq image_iff)
qed

lemma tracks_run: "tracks_from es v \<Longrightarrow> tracks_from (es @ fs) (foldl (view_step kind []) v fs)"
proof (induction fs arbitrary: es v)
  case (Cons f fs)
  have "tracks_from (es @ [f]) (view_step kind [] v f)"
  proof (cases f)
    case (Removed t)
    have "tracks_from (es @ [f]) v"
      using Cons.prems unfolding tracks_from_def by fastforce
    then show ?thesis
      using Removed by (simp add: removedMediaConsumer_def tracks_removed)
  qed (use tracks_added[OF Cons.prems] in simp)
  from Cons.IH[OF this] show ?case
    by simp
qed simp

lemma early_run:
  assumes "tracks_from (emitted_since s s') (wa_view s')" "prefix (ms_out (wa_service s)) (ms_out (wa_service s'))"
  shows "tracks_from (emitted_since s (foldl (web_app_step uuid parse kind) s' es)) (wa_view (foldl (web_app_step uuid parse kind) s' es))"
  using assms
proof (induction es arbitrary: s')
  case (Cons e es)
  let ?t = "web_app_step uuid parse kind s' e"
  have "tracks_from (emitted_since s ?t) (wa_view ?t)"
  proof (cases e)
    case (Service x)
    have "wa_view ?t = (if wa_listening s' then foldl (view_step kind []) (wa_view s') (emitted_since s' ?t) else wa_view s')"
      using Service by (simp add: Let_def emitted_since_def)
    moreover have "tracks_from (emitted_since s s' @ emitted_since s' ?t) (wa_view s')"
      using Cons.prems(1) unfolding tracks_from_def by fastforce
    ultimately show ?thesis
      unfolding emitted_since_step[OF Cons.prems(2)] using tracks_run[OF Cons.prems(1)] by simp
  qed (use Cons.prems(1) in \<open>simp add: emitted_since_def\<close>)
  moreover have "prefix (ms_out (wa_service s)) (ms_out (wa_service ?t))"
    using Cons.prems(2) prefix_order.order_trans[OF _ step_out[of "wa_service s'"]]
    by (cases e) (auto simp: Let_def simp del: ms_step.simps)
  ultimately show ?case
    using Cons.IH by simp
qed simp

lemma silent_view: "\<not> wa_listening (foldl (web_app_step uuid parse kind) s es) \<Longrightarrow>
  wa_view (foldl (web_app_step uuid parse kind) s es) = wa_view s"
proof (induction es rule: rev_induct)
  case (snoc e es)
  then show ?case
    by (cases e) (auto simp: Let_def)
qed simp

text \<open>
  C39. What is emitted before the component listens is not shown: in any run of the application, while the component does not
  listen yet, its view is the empty one, whatever consumers the service has created and announced; and in every continuation each
  track in a stream of the view, and each client in the store, is one that the service announced after that. A consumer that is
  created before the answer to the join request has come and \<open>connect\<close> has returned is therefore never shown, unless its
  track is announced again.
\<close>

theorem early_consumer_is_not_shown:
  assumes "s = foldl (web_app_step uuid parse kind) (web_app_new config) es" and "\<not> wa_listening s"
    and "s' = foldl (web_app_step uuid parse kind) s fs"
  shows "wa_view s = remote_view_new \<and>
    (\<forall>n. \<forall>t \<in> set (rv_streams (wa_view s') n). \<exists>i u. Added i u t \<in> set (emitted_since s s')) \<and>
    (\<forall>c \<in> set (rv_clients (wa_view s')). \<exists>u t. Added (st_clientId c) u t \<in> set (emitted_since s s'))"
proof -
  have v: "wa_view s = remote_view_new"
    using silent_view[of uuid parse kind "web_app_new config" es] assms(1,2) by (simp add: web_app_new_def)
  then have "tracks_from (emitted_since s s) (wa_view s)"
    by (simp add: tracks_from_def remote_view_new_def)
  from early_run[OF this, of uuid parse kind fs] show ?thesis
    using v unfolding assms(3)[symmetric] by (simp add: tracks_from_def)
qed

text \<open>A consumer is created before the answer to the join request; then the component listens.\<close>

definition early_app :: web_app where
  "early_app = foldl (web_app_step demo_uuid demo_parse (\<lambda>_. ''audio'')) (web_app_new web_config)
     (map Service (butlast demo_conversation @ [FrameReceived 7 ''created'',
        Answer 8 5 (ConsumerReady \<lparr>mo_id = ''k'', mo_track = Some ''mic''\<rparr>)]))"

lemma early_consumer_is_not_shown_witness:
  "let s' = foldl (web_app_step demo_uuid demo_parse (\<lambda>_. ''audio'')) early_app [Service (FrameReceived 9 ''joined''), Rendered]
   in EmitAdded (Some (JStr ''c2'')) (Some (JStr ''u'')) (Some ''mic'') \<in> set (ms_out (wa_service early_app)) \<and>
      wa_listening s' \<and> rv_clients (wa_view s') = []"
proof -
  let ?s' = "foldl (web_app_step demo_uuid demo_parse (\<lambda>_. ''audio'')) early_app [Service (FrameReceived 9 ''joined''), Rendered]"
  have e: "\<not> wa_listening early_app" "emitted_since early_app ?s' = []" "wa_listening ?s'"
    "EmitAdded (Some (JStr ''c2'')) (Some (JStr ''u'')) (Some ''mic'') \<in> set (ms_out (wa_service early_app))"
    by code_simp+
  note shown = early_consumer_is_not_shown[OF early_app_def e(1) refl, of "[Service (FrameReceived 9 ''joined''), Rendered]"]
  have "rv_clients (wa_view ?s') = []"
    using shown unfolding e(2) by (cases "rv_clients (wa_view ?s')") auto
  then show ?thesis
    using e(3,4) unfolding Let_def by blast
qed

end
