(* ===== verification/WebSamples.thy ===== *)
theory WebSamples
  imports MediaService ObserverClients
begin

text \<open>
  Where the samples of the web application's monitor go. The provider
  (\<^verbatim>\<open>webapp/src/contexts/MediaServiceContext.tsx\<close>) makes a client of the observer and listens for samples when it
  is mounted; the media service (\<^verbatim>\<open>webapp/src/contexts/MediasoupService.tsx\<close>) makes another one when \<open>connect\<close> has the
  response to its request to join, connects it and listens too. The listeners run in the order in which they were
  registered, and one that throws keeps the later ones from running.
\<close>

section \<open>State and steps\<close>

record web_sampling =
  wg_service :: media_service
  wg_provider :: observer_client
  wg_clients :: "observer_client list"

definition web_sampling_new :: "connection_config \<Rightarrow> web_sampling" where
  "web_sampling_new config = \<lparr>wg_service = ms_new config, wg_provider = oc_new True, wg_clients = []\<rparr>"

text \<open>What \<open>connect\<close> does after the join.\<close>

fun started_client :: "ms_out \<Rightarrow> observer_client list" where
  "started_client (ConnectObserver q) = [oc_connect (oc_new True) q]"
| "started_client _ = []"

definition wg_service_acts ::
  "(nat \<Rightarrow> string) \<Rightarrow> (string \<Rightarrow> json option) \<Rightarrow> web_sampling \<Rightarrow> ms_event \<Rightarrow> web_sampling"
where
  "wg_service_acts uuid parse s e =
     (let ms = ms_step uuid parse (wg_service s) e;
          new = drop (length (ms_out (wg_service s))) (ms_out ms)
      in s\<lparr>wg_service := ms, wg_clients := wg_clients s @ concat (map started_client new)\<rparr>)"

text \<open>The listeners of \<open>sample-created\<close>.\<close>

fun sample_listeners :: "observer_client list \<Rightarrow> string \<Rightarrow> observer_client list" where
  "sample_listeners [] x = []"
| "sample_listeners (c # cs) x =
     (if oc_closed c then oc_send c x # cs else oc_send c x # sample_listeners cs x)"

definition sample_created :: "web_sampling \<Rightarrow> string \<Rightarrow> web_sampling" where
  "sample_created s x =
     (case sample_listeners (wg_provider s # wg_clients s) x of
        [] \<Rightarrow> s
      | p # cs \<Rightarrow> s\<lparr>wg_provider := p, wg_clients := cs\<rparr>)"

text \<open>Events of the sockets and timers; nobody calls \<open>connect\<close>, \<open>disconnect\<close> or \<open>close\<close> again.\<close>

fun from_socket :: "oc_event \<Rightarrow> bool" where
  "from_socket (OcOpened _) = True"
| "from_socket (OcError _) = True"
| "from_socket (OcClosed _ _) = True"
| "from_socket OcTimer = True"
| "from_socket _ = False"

datatype web_sampling_event =
    WgService ms_event
  | WgSample string
  | WgProviderSocket oc_event
  | WgSocket nat oc_event

fun wg_step ::
  "(nat \<Rightarrow> string) \<Rightarrow> (string \<Rightarrow> json option) \<Rightarrow> web_sampling \<Rightarrow> web_sampling_event \<Rightarrow> web_sampling"
where
  "wg_step uuid parse s (WgService e) = wg_service_acts uuid parse s e"
| "wg_step uuid parse s (WgSample x) = sample_created s x"
| "wg_step uuid parse s (WgProviderSocket e) =
     (if from_socket e then s\<lparr>wg_provider := web_observer_step (wg_provider s) e\<rparr> else s)"
| "wg_step uuid parse s (WgSocket k e) =
     (if from_socket e \<and> k < length (wg_clients s)
      then s\<lparr>wg_clients := (wg_clients s)[k := web_observer_step (wg_clients s ! k) e]\<rparr> else s)"

definition wg_run ::
  "(nat \<Rightarrow> string) \<Rightarrow> (string \<Rightarrow> json option) \<Rightarrow> connection_config \<Rightarrow> web_sampling_event list \<Rightarrow> web_sampling"
where
  "wg_run uuid parse config es = foldl (wg_step uuid parse) (web_sampling_new config) es"

fun sampled :: "web_sampling_event \<Rightarrow> string list" where
  "sampled (WgSample x) = [x]"
| "sampled _ = []"

definition all_samples :: "web_sampling_event list \<Rightarrow> string list" where
  "all_samples es = concat (map sampled es)"

section \<open>The provider's client\<close>

text \<open>A client that was never connected: it keeps everything.\<close>

definition unconnected :: "observer_client \<Rightarrow> string list \<Rightarrow> bool" where
  "unconnected c xs \<longleftrightarrow> c = (oc_new True)\<lparr>oc_buffer := xs\<rparr>"

lemma unconnected_send: "unconnected c xs \<Longrightarrow> unconnected (oc_send c x) (xs @ [x])"
  by (simp add: unconnected_def oc_send_def oc_new_def)

lemma unconnected_socket: "unconnected c xs \<Longrightarrow> from_socket e \<Longrightarrow> web_observer_step c e = c"
  by (cases e) (simp_all add: unconnected_def web_observer_defs oc_new_def)

lemma provider_step:
  "unconnected (wg_provider s) xs \<Longrightarrow> unconnected (wg_provider (wg_step uuid parse s e)) (xs @ sampled e)"
proof (cases e)
  case (WgSample x)
  assume u: "unconnected (wg_provider s) xs"
  then have "\<not> oc_closed (wg_provider s)"
    by (simp add: unconnected_def oc_new_def)
  then show ?thesis
    using WgSample unconnected_send[OF u] by (simp add: sample_created_def)
qed (auto simp: wg_service_acts_def Let_def unconnected_socket)

text \<open>
  C33. The provider's client only collects: in every run of the web application it opens no socket and sends nothing,
  and its buffer holds all samples that the monitor ever created.
\<close>

theorem provider_keeps_every_sample:
  "let c = wg_provider (wg_run uuid parse config es) in
     oc_out c = [] \<and> oc_nsockets c = 0 \<and> oc_buffer c = all_samples es"
proof -
  have "unconnected (wg_provider (wg_run uuid parse config es)) (all_samples es)"
    unfolding wg_run_def
  proof (induction es rule: rev_induct)
    case (snoc e es)
    then show ?case
      using provider_step[OF snoc] by (simp add: all_samples_def)
  qed (simp add: web_sampling_new_def unconnected_def all_samples_def oc_new_def)
  then show ?thesis
    by (simp add: unconnected_def oc_new_def Let_def)
qed

section \<open>The connected client\<close>

definition first_client :: "web_sampling \<Rightarrow> observer_client" where
  "first_client s = hd (wg_clients s)"

lemma closed_is_final:
  assumes "oc_closed c"
  shows "oc_closed (web_observer_step c e)"
proof -
  have w: "oc_closed (foldl oc_run_waiter c ws) = oc_closed c" for c :: observer_client and ws
  proof (induction ws arbitrary: c)
    case (Cons x ws)
    then show ?case
      by (cases x) (simp_all add: oc_close_ws_def split: option.split)
  qed simp
  show ?thesis
    using assms by (cases e)
      (auto simp: web_observer_defs oc_connect_def oc_disconnect_def oc_close_def oc_send_def oc_open_def oc_log_def w
        Let_def split: option.split)
qed

text \<open>
  One step: the first client is there to stay, and while it is open it takes every sample. The provider's client
  cannot throw, so it does not keep the sample from it.
\<close>

lemma first_client_step:
  assumes u: "unconnected (wg_provider s) xs" and c: "wg_clients s = c # cs"
  shows "\<exists>c' cs'. wg_clients (wg_step uuid parse s e) = c' # cs' \<and> (oc_closed c \<longrightarrow> oc_closed c') \<and>
    (\<not> oc_closed c \<longrightarrow> samples c' = samples c @ sampled e)"
proof (cases e)
  case (WgSample x)
  have "\<not> oc_closed (wg_provider s)"
    using u by (simp add: unconnected_def oc_new_def)
  then show ?thesis
    using WgSample c samples_send[of c x] closed_is_final[of c "OcSend x"] by (simp add: sample_created_def)
next
  case (WgSocket k f)
  show ?thesis
  proof (cases "from_socket f \<and> k = 0")
    case True
    then have "samples (web_observer_step c f) = samples c"
      using web_samples.step_samples[of c f] by (cases f) simp_all
    then show ?thesis
      using WgSocket True c closed_is_final[of c f] by simp
  next
    case False
    then show ?thesis
      using WgSocket c by (cases k) auto
  qed
qed (use c in \<open>auto simp: wg_service_acts_def Let_def\<close>)

lemma first_client_run:
  assumes "wg_clients s = c # cs" "unconnected (wg_provider s) xs"
  shows "let s' = foldl (wg_step uuid parse) s fs in
    wg_clients s' \<noteq> [] \<and> (\<not> oc_closed (first_client s') \<longrightarrow> \<not> oc_closed c \<and> samples (first_client s') = samples c @ all_samples fs)"
  using assms
proof (induction fs arbitrary: s c cs xs)
  case (Cons e fs)
  obtain c' cs' where c': "wg_clients (wg_step uuid parse s e) = c' # cs'" "oc_closed c \<longrightarrow> oc_closed c'"
      "\<not> oc_closed c \<longrightarrow> samples c' = samples c @ sampled e"
    using first_client_step[OF Cons.prems(2,1)] by blast
  from Cons.IH[OF c'(1) provider_step[OF Cons.prems(2)]] c'(2,3) show ?case
    by (auto simp: Let_def all_samples_def simp del: wg_step.simps)
qed (simp add: first_client_def all_samples_def Let_def)

lemma started_samples: "c \<in> set (concat (map started_client outs)) \<Longrightarrow> samples c = []"
proof -
  have "samples d = []" if "d \<in> set (started_client x)" for x d
    using that by (cases x) (auto simp: samples_def oc_connect_def oc_open_def oc_log_def oc_new_def)
  then show "c \<in> set (concat (map started_client outs)) \<Longrightarrow> samples c = []"
    by auto
qed

lemma provider_unconnected: "\<exists>xs. unconnected (wg_provider (wg_run uuid parse config es)) xs"
proof (induction es rule: rev_induct)
  case (snoc e es)
  then show ?case
    using provider_step unfolding wg_run_def by fastforce
qed (auto simp: wg_run_def web_sampling_new_def unconnected_def oc_new_def)

text \<open>
  C24. The service's client takes every sample from the join on: in every run, until it is closed (by a code from 4000
  on), what the client sent and what it keeps is the sequence of the samples that the monitor created since
  \<open>connect\<close> had the response to its request to join; earlier ones it never gets.
\<close>

theorem samples_since_join:
  assumes "wg_clients (wg_run uuid parse config es) = []" "wg_clients (wg_run uuid parse config (es @ [e])) \<noteq> []"
    and "\<not> oc_closed (first_client (wg_run uuid parse config (es @ e # fs)))"
  shows "let c = first_client (wg_run uuid parse config (es @ e # fs)) in
    concat (map sample_of (oc_out c)) @ oc_buffer c = all_samples fs"
proof -
  let ?s = "wg_run uuid parse config es"
  let ?s1 = "wg_step uuid parse ?s e"
  have run: "wg_run uuid parse config (es @ e # fs) = foldl (wg_step uuid parse) ?s1 fs" "wg_run uuid parse config (es @ [e]) = ?s1"
    by (simp_all add: wg_run_def)
  obtain c cs where c: "wg_clients ?s1 = c # cs"
    using assms(2) unfolding run by (cases "wg_clients ?s1") simp_all
  obtain xs where u: "unconnected (wg_provider ?s) xs"
    using provider_unconnected by blast
  have "\<not> oc_closed (wg_provider ?s)"
    using u by (simp add: unconnected_def oc_new_def)
  then obtain m where "e = WgService m"
    using c assms(1) by (cases e) (auto simp: sample_created_def split: if_splits)
  then have "c \<in> set (concat (map started_client (drop (length (ms_out (wg_service ?s))) (ms_out (ms_step uuid parse (wg_service ?s) m)))))"
    using c assms(1) by (simp add: wg_service_acts_def Let_def)
  then have "samples c = []"
    by (rule started_samples)
  then show ?thesis
    using first_client_run[OF c provider_step[OF u], of uuid parse fs] assms(3) unfolding run
    by (simp add: Let_def samples_def)
qed

text \<open>A whole conversation with one sample before the join and two after it.\<close>

definition demo_before :: "web_sampling_event list" where
  "demo_before = WgSample ''a'' # map WgService (take 7 demo_conversation)"

definition demo_after :: "web_sampling_event list" where
  "demo_after = [WgSample ''b'', WgSocket 0 (OcOpened 0), WgSample ''c'']"

definition demo_join :: web_sampling_event where
  "demo_join = WgService (demo_conversation ! 7)"

lemma demo_sampling:
  "wg_clients (wg_run demo_uuid demo_parse web_config demo_before) = []"
  "length (wg_clients (wg_run demo_uuid demo_parse web_config (demo_before @ [demo_join]))) = 1"
  "oc_out (first_client (wg_run demo_uuid demo_parse web_config (demo_before @ demo_join # demo_after))) =
     [OpenSocket 0 ''&clientId=c1&callId=call&roomId=r1'', SendSample 0 ''b'', SendSample 0 ''c'']"
  "oc_closed (first_client (wg_run demo_uuid demo_parse web_config (demo_before @ demo_join # demo_after))) = False"
  by code_simp+

lemma samples_since_join_witness:
  "let c = first_client (wg_run demo_uuid demo_parse web_config (demo_before @ demo_join # demo_after))
   in [''b'', ''c''] @ oc_buffer c = [''b'', ''c'']"
proof -
  have "wg_clients (wg_run demo_uuid demo_parse web_config (demo_before @ [demo_join])) \<noteq> []"
    using demo_sampling(2) by auto
  from samples_since_join[OF demo_sampling(1) this, of demo_after] show ?thesis
    using demo_sampling(3,4) by (simp add: Let_def all_samples_def demo_after_def)
qed

end
