(* ===== verification/AppShell.thy ===== *)
theory AppShell
  imports RemoteClients
begin

text \<open>
  The parts of the web application around the components that have a logic: the store with its two slices and the
  logging middleware (\<^verbatim>\<open>webapp/src/store/store.tsx\<close>, \<^verbatim>\<open>webapp/src/middlewares/loggerMiddleware.tsx\<close>), and the tabs of
  the statistics (\<^verbatim>\<open>webapp/src/components/StatsTabs.tsx\<close>), which are made from the store. A tab container of the
  library shows the panes whose key is the active key.
\<close>

section \<open>The store\<close>

record root_state =
  rs_localClient :: stored_client
  rs_remoteClients :: "stored_client list"

datatype root_action =
    LocalAction local_action
  | RemoteAction store_action

text \<open>An action has the name of its slice in its type, so only the reducer of that slice knows it.\<close>

fun root_reducer :: "root_state \<Rightarrow> root_action \<Rightarrow> root_state" where
  "root_reducer s (LocalAction a) = s\<lparr>rs_localClient := local_reducer (rs_localClient s) a\<rparr>"
| "root_reducer s (RemoteAction a) = s\<lparr>rs_remoteClients := remote_reducer (rs_remoteClients s) a\<rparr>"

datatype console_line =
    Dispatching root_action
  | NextState root_state

definition logged_dispatch :: "root_state \<times> console_line list \<Rightarrow> root_action \<Rightarrow> root_state \<times> console_line list" where
  "logged_dispatch s a =
     (let out = snd s @ [Dispatching a]; s' = root_reducer (fst s) a in (s', out @ [NextState s']))"

section \<open>The tabs\<close>

datatype tab_pane =
    PeerConnectionStatsPane
  | IceStatsPane
  | LocalClientStatsPane
  | RemoteClientStatsPane string
  | MySandboxPane

definition tab_label :: "stored_client \<Rightarrow> string" where
  "tab_label c = the (nullish (st_userId c) (Some (st_clientId c)))"

definition tab_items :: "root_state \<Rightarrow> (string \<times> string) list" where
  "tab_items s =
     [(''pc-stats'', ''PeerConnections''), (''ice-stats'', ''ICE''),
      (st_clientId (rs_localClient s), tab_label (rs_localClient s))] @
     map (\<lambda>c. (st_clientId c, tab_label c)) (rs_remoteClients s) @ [(''my-sandbox'', ''My Sandbox'')]"

definition tab_panes :: "root_state \<Rightarrow> (string \<times> tab_pane) list" where
  "tab_panes s =
     [(''pc-stats'', PeerConnectionStatsPane), (''ice-stats'', IceStatsPane),
      (st_clientId (rs_localClient s), LocalClientStatsPane)] @
     map (\<lambda>c. (st_clientId c, RemoteClientStatsPane (st_clientId c))) (rs_remoteClients s) @ [(''my-sandbox'', MySandboxPane)]"

definition default_tab :: string where
  "default_tab = ''first''"

definition shown_panes :: "string \<Rightarrow> root_state \<Rightarrow> tab_pane list" where
  "shown_panes key s = map snd (filter (\<lambda>p. fst p = key) (tab_panes s))"

section \<open>Facts\<close>

text \<open>The ids of the remote clients in the store are different after any actions.\<close>

lemma update_ids [simp]:
  "map st_clientId (update_client i (\<lambda>c. c\<lparr>st_audioTrackId := t\<rparr>) cs) = map st_clientId cs"
  "map st_clientId (update_client i (\<lambda>c. c\<lparr>st_videoTrackId := t\<rparr>) cs) = map st_clientId cs"
  by (simp_all add: update_client_ids)

lemma distinct_step: "distinct (map st_clientId cs) \<Longrightarrow> distinct (map st_clientId (remote_reducer cs a))"
proof (cases a)
  case (AddClient c)
  assume d: "distinct (map st_clientId cs)"
  show ?thesis
  proof (cases "find (\<lambda>c'. st_clientId c' = st_clientId c) cs")
    case None
    then show ?thesis
      using d AddClient by (auto simp: find_None_iff)
  qed (use d AddClient in simp)
qed (simp_all add: distinct_map_filter)

lemma root_distinct:
  "distinct (map st_clientId (rs_remoteClients s)) \<Longrightarrow> distinct (map st_clientId (rs_remoteClients (root_reducer s a)))"
  by (cases a) (simp_all add: distinct_step)

interpretation root: free_invariant_system root_reducer "\<lambda>s. distinct (map st_clientId (rs_remoteClients s))"
  by unfold_locales (rule root_distinct)

lemma reducer_local_id: "st_clientId (rs_localClient (root_reducer s a)) = st_clientId (rs_localClient s)"
proof (cases a)
  case (LocalAction x)
  then show ?thesis
    by (cases x) simp_all
qed simp

lemma logged_pair: "logged_dispatch (s, out) a = (root_reducer s a, out @ [Dispatching a, NextState (root_reducer s a)])"
  by (simp add: logged_dispatch_def Let_def)

text \<open>The middleware reports every action and every state and changes nothing.\<close>

theorem logging_is_transparent:
  "fst (foldl logged_dispatch (s, []) as) = foldl root_reducer s as \<and>
   snd (foldl logged_dispatch (s, []) as) =
     concat (map (\<lambda>k. [Dispatching (as ! k), NextState (foldl root_reducer s (take (Suc k) as))]) [0..<length as])"
proof (induction as rule: rev_induct)
  case (snoc a as)
  let ?lines = "\<lambda>bs. map (\<lambda>k. [Dispatching (bs ! k), NextState (foldl root_reducer s (take (Suc k) bs))])"
  have p: "foldl logged_dispatch (s, []) as = (foldl root_reducer s as, concat (?lines as [0..<length as]))"
    using snoc by (simp add: prod_eq_iff)
  have "?lines (as @ [a]) [0..<length (as @ [a])] =
      ?lines (as @ [a]) [0..<length as] @ [[Dispatching a, NextState (foldl root_reducer s (as @ [a]))]]"
    by simp
  also have "?lines (as @ [a]) [0..<length as] = ?lines as [0..<length as]"
    by (rule map_cong) (simp_all add: nth_append)
  finally show ?case
    unfolding foldl_append p by (simp only: concat_append) (simp add: logged_pair)
qed simp

lemma filter_one: "distinct (map st_clientId cs) \<Longrightarrow> c \<in> set cs \<Longrightarrow> filter (\<lambda>x. st_clientId x = st_clientId c) cs = [c]"
proof (induction cs)
  case (Cons x cs)
  then show ?case
    by (cases "x = c") (auto simp: filter_empty_conv image_iff)
qed simp

text \<open>
  The tabs follow the store: after any actions every item has a pane with its key, in the same order; selecting the item
  of a remote client shows the statistics of this client and nothing else, unless its id is the id of the local client or
  the key of a fixed tab; and at the start no pane is shown, as no tab has the key that is active by default.
\<close>

theorem tabs_follow_store:
  assumes "s = foldl root_reducer \<lparr>rs_localClient = me, rs_remoteClients = []\<rparr> as"
    and "c \<in> set (rs_remoteClients s)"
    and "st_clientId c \<notin> {''pc-stats'', ''ice-stats'', ''my-sandbox'', st_clientId me}" "st_clientId me \<noteq> default_tab"
  shows "map fst (tab_items s) = map fst (tab_panes s) \<and>
    shown_panes (st_clientId c) s = [RemoteClientStatsPane (st_clientId c)] \<and>
    shown_panes default_tab \<lparr>rs_localClient = me, rs_remoteClients = []\<rparr> = []"
proof -
  have d: "distinct (map st_clientId (rs_remoteClients s))"
    unfolding assms(1) by (rule root.free_run_inv) simp
  have me: "st_clientId (rs_localClient s) = st_clientId me"
    unfolding assms(1) by (induction as rule: rev_induct) (simp_all add: reducer_local_id)
  have f: "filter (\<lambda>p. fst p = st_clientId c) (map (\<lambda>c. (st_clientId c, RemoteClientStatsPane (st_clientId c))) (rs_remoteClients s)) =
      [(st_clientId c, RemoteClientStatsPane (st_clientId c))]"
    using filter_one[OF d assms(2)] by (simp add: filter_map comp_def)
  show ?thesis
    using assms(3,4) me f by (auto simp: tab_items_def tab_panes_def shown_panes_def default_tab_def)
qed

lemma tabs_follow_store_witness:
  "let me = \<lparr>st_clientId = ''me'', st_userId = None, st_mediaStreamId = None, st_audioTrackId = None, st_videoTrackId = None\<rparr>;
       s = foldl root_reducer \<lparr>rs_localClient = me, rs_remoteClients = []\<rparr> [RemoteAction (AddClient (me\<lparr>st_clientId := ''you''\<rparr>))]
   in shown_panes ''you'' s = [RemoteClientStatsPane ''you'']"
proof -
  let ?me = "\<lparr>st_clientId = ''me'', st_userId = None, st_mediaStreamId = None, st_audioTrackId = None, st_videoTrackId = None\<rparr>"
  show ?thesis
    using tabs_follow_store[OF refl, of "?me\<lparr>st_clientId := ''you''\<rparr>" ?me "[RemoteAction (AddClient (?me\<lparr>st_clientId := ''you''\<rparr>))]"]
    by (simp add: default_tab_def)
qed

end
