(* ===== verification/Stats.thy ===== *)
theory Stats
  imports Complex_Main ClientEvents
begin

text \<open>
  What the statistics pages of the web application compute (\<^verbatim>\<open>webapp/src/components/Stats\<close>,
  \<^verbatim>\<open>utils/common.tsx\<close>, \<^verbatim>\<open>utils/randomUserIds.tsx\<close>) from the records of the monitor library. An object is the
  list of its own properties in order, a property can hold undefined (\<open>None\<close>); keys that look like
  array indices, which JavaScript would order first, do not occur.
\<close>

section \<open>Objects\<close>

type_synonym js_object = "(string \<times> json option) list"

text \<open>Setting a property that exists keeps its place.\<close>

definition obj_set :: "js_object \<Rightarrow> string \<Rightarrow> json option \<Rightarrow> js_object" where
  "obj_set ob k v =
     (if k \<in> fst ` set ob then map (\<lambda>(k', v'). (k', if k' = k then v else v')) ob else ob @ [(k, v)])"

definition spread :: "js_object \<Rightarrow> js_object \<Rightarrow> js_object" where
  "spread ob es = foldl (\<lambda>ob (k, v). obj_set ob k v) ob es"

text \<open>An absent prefix ends up as the text \<open>undefined\<close>; \<open>toUpperCase\<close> is an argument.\<close>

definition makePrefixedObj :: "(string \<Rightarrow> string) \<Rightarrow> js_object \<Rightarrow> string option \<Rightarrow> bool \<Rightarrow> js_object" where
  "makePrefixedObj toUpperCase ob prefix camelCase =
     foldl (\<lambda>result (key, value).
         obj_set result
           ((case prefix of None \<Rightarrow> ''undefined'' | Some p \<Rightarrow> p) @
            (if camelCase then toUpperCase (take 1 key) @ drop 1 key else key)) value)
       [] ob"

section \<open>The listeners of the pages\<close>

record monitored_pc =
  mp_id :: string
  mp_label :: "string option"
  mp_stats :: "js_object option"
  mp_updates :: js_object
  mp_transports :: "js_object list"
  mp_mediaSources :: "js_object list"
  mp_audioPlayouts :: "js_object list"
  mp_senders :: "js_object list"
  mp_receivers :: "js_object list"

record pc_page =
  pp_pcs :: "js_object list"
  pp_transports :: "js_object list"
  pp_audioSources :: "js_object list"
  pp_videoSources :: "js_object list"
  pp_audioPlayouts :: "js_object list"
  pp_senders :: "js_object list"
  pp_receivers :: "js_object list"

definition pc_label :: "monitored_pc \<Rightarrow> json option" where
  "pc_label pc = map_option JStr (nullish (mp_label pc) (Some (mp_id pc)))"

definition is_audio :: "js_object \<Rightarrow> bool" where
  "is_audio stats \<longleftrightarrow> map_of stats ''kind'' = Some (Some (JStr ''audio''))"

definition pc_stats_listener :: "monitored_pc list \<Rightarrow> pc_page" where
  "pc_stats_listener pcs =
     \<lparr>pp_pcs = concat (map (\<lambda>pc. case mp_stats pc of None \<Rightarrow> []
         | Some st \<Rightarrow> [obj_set (spread st (makePrefixedObj id (mp_updates pc) (Some ''updates-'') False)) ''id'' (pc_label pc)]) pcs),
      pp_transports = concat (map (\<lambda>pc. concat (map (\<lambda>t. if mp_stats pc = None then []
         else [obj_set t ''id'' (pc_label pc)]) (mp_transports pc))) pcs),
      pp_audioSources = concat (map (\<lambda>pc. filter is_audio (mp_mediaSources pc)) pcs),
      pp_videoSources = concat (map (\<lambda>pc. filter (\<lambda>m. \<not> is_audio m) (mp_mediaSources pc)) pcs),
      pp_audioPlayouts = concat (map mp_audioPlayouts pcs),
      pp_senders = concat (map mp_senders pcs), pp_receivers = concat (map mp_receivers pcs)\<rparr>"

text \<open>\<open>Object.entries(v ?? {})\<close>: numbers and booleans have no entries.\<close>

definition indexed :: "json list \<Rightarrow> (string \<times> json) list" where
  "indexed xs = map (\<lambda>i. (int_string (int i), xs ! i)) [0..<length xs]"

fun entries_of :: "json option \<Rightarrow> (string \<times> json) list" where
  "entries_of (Some (JObj fs)) = fs"
| "entries_of (Some (JArr xs)) = indexed xs"
| "entries_of (Some (JStr s)) = indexed (map (\<lambda>c. JStr [c]) s)"
| "entries_of _ = []"

definition property_of :: "js_object \<Rightarrow> string \<Rightarrow> json option" where
  "property_of ob k = (case map_of ob k of None \<Rightarrow> None | Some v \<Rightarrow> v)"

definition flatten :: "string \<Rightarrow> js_object \<Rightarrow> json option \<Rightarrow> js_object" where
  "flatten name ob v = foldl (\<lambda>ob (k, x). obj_set ob (name @ ''-'' @ k) (Some x)) ob (entries_of v)"

record outbound_rtp =
  or_stats :: js_object
  or_updates :: js_object

definition outbound_row :: "outbound_rtp \<Rightarrow> js_object" where
  "outbound_row rtp =
     (let ob1 = flatten ''qualityLimitationDurations'' [] (property_of (or_stats rtp) ''qualityLimitationDurations'');
          ob = flatten ''qualityLimitationResolutionChanges'' ob1
                 (property_of (or_stats rtp) ''qualityLimitationResolutionChanges'')
      in spread
           (obj_set
             (obj_set (spread (or_stats rtp) (makePrefixedObj id (or_updates rtp) (Some ''updates-'') False))
               ''qualityLimitationResolutionChanges'' None)
             ''qualityLimitationDurations'' None)
           ob)"

definition local_stats_listener :: "outbound_rtp list \<Rightarrow> js_object list \<Rightarrow> js_object list \<times> js_object list" where
  "local_stats_listener outbounds remoteInbounds = (map outbound_row outbounds, remoteInbounds)"

record inbound_rtp =
  ir_trackId :: "string option"
  ir_stats :: js_object
  ir_updates :: js_object
  ir_remoteOutbound :: "js_object option"

text \<open>The remote client of the page with its two track ids; absent for a client that is not in the store.\<close>

definition shows_rtp :: "(string option \<times> string option) option \<Rightarrow> inbound_rtp \<Rightarrow> bool" where
  "shows_rtp client rtp \<longleftrightarrow>
     (case client of None \<Rightarrow> None | Some c \<Rightarrow> fst c) = ir_trackId rtp \<or>
     (case client of None \<Rightarrow> None | Some c \<Rightarrow> snd c) = ir_trackId rtp"

definition remote_stats_listener ::
  "(string option \<times> string option) option \<Rightarrow> inbound_rtp list \<Rightarrow> js_object list \<times> js_object list"
where
  "remote_stats_listener client inbounds =
     (map (\<lambda>rtp. spread (ir_stats rtp) (makePrefixedObj id (ir_updates rtp) (Some ''updates-'') False))
        (filter (shows_rtp client) inbounds),
      concat (map (\<lambda>rtp. case ir_remoteOutbound rtp of None \<Rightarrow> [] | Some st \<Rightarrow> [st]) (filter (shows_rtp client) inbounds)))"

definition ice_stats_listener ::
  "js_object option list \<Rightarrow> js_object option list \<Rightarrow> js_object option list \<Rightarrow>
   js_object list \<times> js_object list \<times> js_object list"
where
  "ice_stats_listener pairs locals remotes =
     (let all = map (\<lambda>st. case st of None \<Rightarrow> [] | Some ob \<Rightarrow> ob) in (all pairs, all locals, all remotes))"

section \<open>The card\<close>

definition is_update_key :: "string \<Rightarrow> bool" where
  "is_update_key k \<longleftrightarrow> take 8 k = ''updates-''"

text \<open>
  A value that is longer than 30 characters as text is cut off. React renders booleans and \<open>null\<close>
  as nothing; objects, which it refuses, are not among the values of the records.
\<close>

fun rendered :: "json \<Rightarrow> string" where
  "rendered JNull = []"
| "rendered (JBool b) = []"
| "rendered j = js_key j"

definition shown_value :: "json option \<Rightarrow> string" where
  "shown_value v =
     (case v of
        None \<Rightarrow> ''N/A''
      | Some j \<Rightarrow> if 30 < length (js_key j) then take 30 (js_key j) @ ''...'' else rendered j)"

text \<open>\<open>replace\<close> takes away the first occurrence of the prefix, which is at the front here.\<close>

definition card_rows :: "js_object \<Rightarrow> (string \<times> string) list \<times> (string \<times> string) list" where
  "card_rows item =
     (map (\<lambda>(k, v). (k, shown_value v)) (filter (\<lambda>(k, v). \<not> is_update_key k) item),
      map (\<lambda>(k, v). (drop 8 k, shown_value v)) (filter (\<lambda>(k, v). is_update_key k) item))"

section \<open>The name of a user\<close>

definition userIds :: "string list" where
  "userIds =
     [''Harry Potter'', ''Hedwig'', ''Voldemort'', ''Hermione'', ''Viktor Krum'', ''Ron Weasely'', ''Ginny'',
      ''Seamus Finnigan'', ''Nagini'', ''Dobby'', ''Nymphadora Tonks'', ''Sirius Black'', ''Luna Lovegood'',
      ''Peter Pettigrew'', ''Moaning Myrtle'', ''Kreacher'', ''Crookshanks'', ''Dumbledore'', ''Snape'', ''Draco'',
      ''Lucius Malfoy'', ''Bellatrix Lestrange'', ''Anthony Goldstein'', ''Neville Longbottom'', ''Peeves'',
      ''McGonagall'', ''Fleur Delacour'', ''James Potter'', ''Newt Scamander'', ''Lily Potter'',
      ''Professor Flitwick'', ''Alastor Moody'', ''Argus Filch'', ''Trelawney'', ''Rita Skeeter'', ''Cornelius Fudge'']"

text \<open>\<open>random\<close> is the result of \<open>Math.random()\<close>.\<close>

definition display_name_index :: "rat \<Rightarrow> int" where
  "display_name_index random = \<lceil>random * of_int (int (length userIds) - 1)\<rceil>"

definition getRandomDisplayName :: "rat \<Rightarrow> string option" where
  "getRandomDisplayName random =
     (let i = display_name_index random in
      if 0 \<le> i \<and> i < int (length userIds) then Some (userIds ! nat i) else None)"

section \<open>Properties\<close>

lemma obj_set_keys: "map fst (obj_set ob k v) = (if k \<in> fst ` set ob then map fst ob else map fst ob @ [k])"
  by (auto simp: obj_set_def)

lemma obj_set_fresh: "k \<notin> fst ` set ob \<Longrightarrow> obj_set ob k v = ob @ [(k, v)]"
  by (simp add: obj_set_def)

lemma foldl_obj_set_fresh:
  "distinct (map f es) \<Longrightarrow> f ` set es \<inter> fst ` set ob = {} \<Longrightarrow>
   foldl (\<lambda>ob x. obj_set ob (f x) (g x)) ob es = ob @ map (\<lambda>x. (f x, g x)) es"
  by (induction es arbitrary: ob) (auto simp: obj_set_fresh)

lemma prefixed_obj:
  assumes "distinct (map fst ob)"
  shows "makePrefixedObj toUpperCase ob (Some p) False = map (\<lambda>(k, v). (p @ k, v)) ob"
proof -
  have "distinct (map (\<lambda>x. p @ fst x) ob)"
    using assms by (simp add: distinct_map inj_on_def)
  from foldl_obj_set_fresh[OF this, of "[]" snd] show ?thesis
    by (simp add: makePrefixedObj_def case_prod_unfold)
qed

lemma spread_fresh:
  "distinct (map fst es) \<Longrightarrow> fst ` set es \<inter> fst ` set ob = {} \<Longrightarrow> spread ob es = ob @ es"
  using foldl_obj_set_fresh[of fst es ob snd] by (simp add: spread_def case_prod_unfold)

text \<open>
  The card shows a row as it was made: for a record whose own keys have no \<open>updates-\<close> prefix, the
  main table of its card has exactly the record's properties and the second table exactly the
  monitor's updates, under their original names.
\<close>

theorem card_splits_row:
  assumes "distinct (map fst stats)" "distinct (map fst updates)" "\<forall>(k, v) \<in> set stats. \<not> is_update_key k"
  shows "card_rows (spread stats (makePrefixedObj toUpperCase updates (Some ''updates-'') False)) =
    (map (\<lambda>(k, v). (k, shown_value v)) stats, map (\<lambda>(k, v). (k, shown_value v)) updates)"
proof -
  let ?u = "map (\<lambda>(k, v). (''updates-'' @ k, v)) updates"
  have "distinct (map fst ?u)"
    using assms(2) by (simp add: distinct_map comp_def split_beta inj_on_def)
  moreover have "is_update_key k" if "k \<in> fst ` set ?u" for k
    using that by (auto simp: is_update_key_def)
  moreover have "\<not> is_update_key k" if "k \<in> fst ` set stats" for k
    using assms(3) that by auto
  ultimately have row: "spread stats (makePrefixedObj toUpperCase updates (Some ''updates-'') False) = stats @ ?u"
    unfolding prefixed_obj[OF assms(2)] by (intro spread_fresh) blast+
  have "filter (\<lambda>(k, v). \<not> is_update_key k) stats = stats" "filter (\<lambda>(k, v). is_update_key k) stats = []"
    using assms(3) by (auto simp: filter_id_conv filter_empty_conv)
  moreover have "filter (\<lambda>(k, v). is_update_key k) ?u = ?u" "filter (\<lambda>(k, v). \<not> is_update_key k) ?u = []"
    by (auto simp: filter_id_conv filter_empty_conv is_update_key_def)
  ultimately show ?thesis
    unfolding row card_rows_def by (simp add: comp_def split_beta)
qed

lemma card_splits_row_witness:
  "card_rows (spread [(''bytes'', Some (JStr ''7'')), (''lost'', None)]
      (makePrefixedObj id [(''bitrate'', Some (JStr ''3''))] (Some ''updates-'') False)) =
   ([(''bytes'', ''7''), (''lost'', ''N/A'')], [(''bitrate'', ''3'')])"
  using card_splits_row[of "[(''bytes'', Some (JStr ''7'')), (''lost'', None)]" "[(''bitrate'', Some (JStr ''3''))]" id]
  by (simp add: is_update_key_def shown_value_def int_string_def nat_digits.simps)

text \<open>
  Every display name is in the list, but the first one is drawn only by the number 0: \<open>ceil\<close>
  where \<open>floor\<close> is meant shifts the range by one.
\<close>

theorem display_name_in_list:
  assumes "0 \<le> random" "random < 1"
  shows "0 \<le> display_name_index random \<and> display_name_index random < int (length userIds) \<and>
    (\<exists>name \<in> set userIds. getRandomDisplayName random = Some name) \<and>
    (display_name_index random = 0 \<longleftrightarrow> random = 0)"
proof -
  have len: "int (length userIds) - 1 = 35"
    by (simp add: userIds_def)
  have "\<lceil>random * 35\<rceil> \<le> 35"
    using assms(2) by (simp add: ceiling_le_iff)
  moreover have "0 \<le> \<lceil>random * 35\<rceil>" "\<lceil>random * 35\<rceil> = 0 \<longleftrightarrow> random = 0"
    using assms(1) by (simp_all add: ceiling_eq_iff zero_le_ceiling)
  ultimately have *: "0 \<le> display_name_index random" "display_name_index random < int (length userIds)"
    "display_name_index random = 0 \<longleftrightarrow> random = 0"
    using len by (simp_all add: display_name_index_def)
  moreover from this have "userIds ! nat (display_name_index random) \<in> set userIds"
    by (intro nth_mem) simp
  ultimately show ?thesis
    by (simp add: getRandomDisplayName_def)
qed

lemma display_name_in_list_witness:
  "0 \<le> display_name_index (1 / 2) \<and> display_name_index (1 / 2) < int (length userIds)"
  using display_name_in_list[of "1 / 2"] by simp

end
