(* ===== verification/SfuFrames.thy ===== *)
theory SfuFrames
  imports SfuMain RoomTransport
begin

text \<open>
  Where the frames of a socket go in the SFU: from the accepted web socket (\<^verbatim>\<open>sfu/src/main.ts\<close>) through the wrapper and the
  listeners of a client (\<^verbatim>\<open>sfu/src/media/ClientEvents.ts\<close>, \<^verbatim>\<open>sfu/src/media/Room.ts\<close>). Each frame is accounted for.
\<close>

section \<open>What a client object has received\<close>

fun received_by :: "nat \<Rightarrow> obs \<Rightarrow> message list" where
  "received_by ref (ORecv v m) = (if v = ref then [m] else [])"
| "received_by ref _ = []"

definition inbox :: "room \<Rightarrow> nat \<Rightarrow> message list" where
  "inbox r ref = concat (map (received_by ref) (r_trace r))"

lemma inbox_log [simp]: "inbox (r_log r x) ref = inbox r ref @ received_by ref x"
  by (simp add: inbox_def)

lemma inbox_frame [simp]:
  "inbox (r\<lparr>r_closed := b\<rparr>) ref = inbox r ref" "inbox (r\<lparr>r_clients := t\<rparr>) ref = inbox r ref"
  "inbox (r_upd r v f) ref = inbox r ref" "inbox (r_add_task r t') ref = inbox r ref" "inbox (r_del_task r k) ref = inbox r ref"
  "inbox (room_add r cid uid) ref = inbox r ref" "inbox (r_send r v m) ref = inbox r ref"
  by (simp_all add: inbox_def r_send_trace)

lemma inbox_calm: "calm r r' \<Longrightarrow> inbox r' ref = inbox r ref"
proof (induction rule: calm.induct)
  case (calm_log x r)
  then show ?case
    by (cases x) simp_all
qed (simp_all add: announce_def del: r_upd_simps)

lemma inbox_calms: "calms r r' \<Longrightarrow> inbox r' ref = inbox r ref"
  by (induction rule: rtranclp_induct) (simp_all add: inbox_calm)

lemma inbox_close [simp]:
  "inbox (room_close r cbs) ref = inbox r ref" "inbox (on_close r v c snds rcvs routers) ref = inbox r ref"
  by (simp_all add: room_close_def on_close_def Let_def inbox_calms[OF calms_close_transport] inbox_calms[OF calms_run_callbacks])

lemma inbox_receive:
  assumes wf: "room_wf r"
  shows "inbox (room_receive jwt now r v m) ref = inbox r ref @ (if v = ref \<and> is_open r ref then [m] else [])"
proof (cases "is_open r v")
  case False
  then show ?thesis
    by (auto simp: room_receive_def is_open_def split: option.splits)
next
  case True
  let ?r1 = "r_log r (ORecv v m)"
  obtain c where e: "room_receive jwt now r v m = room_handle jwt now ?r1 v c m"
    using True by (auto simp: room_receive_def is_open_def split: option.splits)
  have "room_wf ?r1"
    by (rule micro_wf[OF micro_recv[OF True] wf])
  then have "inbox (room_handle jwt now ?r1 v c m) ref = inbox ?r1 ref"
    using inbox_calms[OF calms_room_handle, of ?r1 m jwt now v c ref]
    by (cases "\<exists>caps. m = Ntf (ClientRtpCapabilitiesNotification caps)")
      (auto simp: on_client_rtp_capabilities_def simp del: r_upd_simps)
  then show ?thesis
    using True by (auto simp: e)
qed

lemma inbox_step:
  assumes wf: "room_wf r"
  shows "inbox (room_step jwt r e) ref = inbox r ref @
    (case e of Receive now v m \<Rightarrow> if v = ref \<and> is_open r ref then [m] else [] | _ \<Rightarrow> [])"
proof (cases e)
  case (Receive now v m)
  then show ?thesis
    using inbox_receive[OF wf] by simp
next
  case (Resume now k a)
  then show ?thesis
    using inbox_calms[OF calms_room_resume[OF wf]] by simp
next
  case (Callback cb)
  then show ?thesis
    using inbox_calms[OF calms_run_callback] by simp
qed (auto simp: socket_closed_def close_frame_def router_closed_def Let_def inbox_calms[OF calms_run_callbacks]
    simp del: r_upd_simps split: option.split)

lemma inbox_fresh: "heard_wf r \<Longrightarrow> r_objs r ref = None \<Longrightarrow> inbox r ref = []"
proof -
  have "received_by ref x = []" if "heard_wf r" "r_objs r ref = None" "x \<in> set (r_trace r)" for x
    using that by (cases x) (auto simp: heard_wf_def room_heard_def)
  then show "heard_wf r \<Longrightarrow> r_objs r ref = None \<Longrightarrow> inbox r ref = []"
    by (simp add: inbox_def)
qed

section \<open>A client object in a step of the rooms\<close>

definition delivered :: "nat \<times> nat \<Rightarrow> sfu_event \<Rightarrow> message list" where
  "delivered x e = (case e of RoomEvent n (Receive now v m) \<Rightarrow> if (n, v) = x then [m] else [] | _ \<Rightarrow> [])"

definition keeps_client :: "sfu \<Rightarrow> sfu \<Rightarrow> nat \<times> nat \<Rightarrow> message list \<Rightarrow> bool" where
  "keeps_client s s' x ms \<longleftrightarrow> (\<forall>r c. s_objs s (fst x) = Some r \<longrightarrow> r_objs r (snd x) = Some c \<longrightarrow>
     (\<exists>r' c'. s_objs s' (fst x) = Some r' \<and> r_objs r' (snd x) = Some c' \<and> (c_closed c \<longrightarrow> c_closed c') \<and>
        inbox r' (snd x) = inbox r (snd x) @ (if c_closed c then [] else ms)))"

lemma keeps_client_same: "s_objs s' (fst x) = s_objs s (fst x) \<Longrightarrow> keeps_client s s' x []"
  by (simp add: keeps_client_def)

lemma keeps_add:
  assumes "sfu_inv s"
  shows "keeps_client s (add_client s n cid uid) x []"
  unfolding keeps_client_def
proof (intro allI impI)
  fix r c
  assume r: "s_objs s (fst x) = Some r" "r_objs r (snd x) = Some c"
  then have "snd x \<noteq> r_nobjs r"
    using sfu_invD(5)[OF assms r(1)] room_wf_fresh[of r] by (auto simp: room_inv_def)
  then show "\<exists>r' c'. s_objs (add_client s n cid uid) (fst x) = Some r' \<and> r_objs r' (snd x) = Some c' \<and>
      (c_closed c \<longrightarrow> c_closed c') \<and> inbox r' (snd x) = inbox r (snd x) @ (if c_closed c then [] else [])"
    using r by (auto simp: add_client_def)
qed

lemma keeps_room_event:
  assumes inv: "sfu_inv s"
  shows "keeps_client s (room_event jwt s n e) x (delivered x (RoomEvent n e))"
  unfolding keeps_client_def
proof (intro allI impI)
  fix r c
  assume r: "s_objs s (fst x) = Some r" "r_objs r (snd x) = Some c"
  show "\<exists>r' c'. s_objs (room_event jwt s n e) (fst x) = Some r' \<and> r_objs r' (snd x) = Some c' \<and>
      (c_closed c \<longrightarrow> c_closed c') \<and>
      inbox r' (snd x) = inbox r (snd x) @ (if c_closed c then [] else delivered x (RoomEvent n e))"
  proof (cases "n = fst x \<and> (\<nexists>a b. e = Add a b)")
    case True
    let ?r' = "room_step jwt r e"
    have wf: "room_wf r" "close_wf r"
      using sfu_invD(5)[OF inv r(1)] by (simp_all add: room_inv_def)
    note m = micros_room_step[OF wf, of jwt e]
    obtain c' where c': "r_objs ?r' (snd x) = Some c'"
      using micros_objs[OF m wf(1) r(2)] by blast
    have "c_closed c \<longrightarrow> c_closed c'"
      using micros_silent[OF m wf(1), of "snd x"] r(2) c' by (auto simp: is_closed_def)
    moreover have "s_objs (room_event jwt s n e) (fst x) = Some ?r'"
      using r(1) True by (cases e) (simp_all add: room_event_def Let_def del: room_step.simps)
    moreover have "inbox ?r' (snd x) = inbox r (snd x) @ (if c_closed c then [] else delivered x (RoomEvent n e))"
      using inbox_step[OF wf(1)] r(2) True by (cases x; cases e) (auto simp: delivered_def is_open_def simp del: room_step.simps)
    ultimately show ?thesis
      using c' by blast
  next
    case False
    have "s_objs (room_event jwt s n e) (fst x) = s_objs s (fst x)"
      using False by (cases e) (auto simp: room_event_def Let_def split: option.split)
    moreover have "delivered x (RoomEvent n e) = []"
      using False by (cases e) (auto simp: delivered_def)
    ultimately show ?thesis
      using r by simp
  qed
qed

lemma add_all_others: "k \<noteq> n \<Longrightarrow> s_objs (foldl (\<lambda>s w. add_client s n (w_clientId w) (w_userId w)) s ws) k = s_objs s k"
  by (induction ws arbitrary: s) (simp_all add: add_client_def)

lemma keeps_created:
  assumes inv: "sfu_inv s"
  shows "keeps_client s (router_created s p k caps) x []"
proof (cases "fst x = s_nobjs s")
  case True
  then have "s_objs s (fst x) = None"
    using sfu_invD(4)[OF inv, of "fst x"] by (cases "s_objs s (fst x)") auto
  then show ?thesis
    by (simp add: keeps_client_def)
next
  case False
  then show ?thesis
    by (intro keeps_client_same) (simp add: router_created_def Let_def add_all_others settle_promise_def split: option.split)
qed

lemma keeps_connection:
  assumes inv: "sfu_inv s"
  shows "keeps_client s (websocket_connection s ws ri ci u) x []"
proof -
  obtain s' y where y: "getOrCreateRoom s (the ri) = (s', y)"
    by (cases "getOrCreateRoom s (the ri)")
  have s': "sfu_inv s'" "s_objs s' = s_objs s"
    using sfu_inv_getOrCreate[OF inv, of "the ri"] getOrCreate_objs[of s "the ri"] y by simp_all
  then have "keeps_client s (add_client s' n (the ci) u) x []" for n
    using keeps_add[OF s'(1), of n "the ci" u x] by (simp add: keeps_client_def)
  then show ?thesis
    using y s'(2) by (cases y) (simp_all add: websocket_connection_def keeps_client_same)
qed

lemma keeps_step: "sfu_inv s \<Longrightarrow> keeps_client s (sfu_step jwt s e) x (delivered x e)"
proof (cases e)
  case (RouterFailed p)
  then show ?thesis
    by (auto simp: delivered_def router_failed_def settle_promise_def intro: keeps_client_same split: option.split)
qed (simp_all add: keeps_connection keeps_created keeps_room_event, simp_all add: delivered_def keeps_connection keeps_created)

section \<open>The slots that are not taken\<close>

text \<open>A client object that is still to be made has received nothing.\<close>

definition heard_rooms :: "sfu \<Rightarrow> bool" where
  "heard_rooms s \<longleftrightarrow> (\<forall>n r. s_objs s n = Some r \<longrightarrow> heard_wf r)"

lemma heard_add: "room_inv r \<Longrightarrow> heard_wf r \<Longrightarrow> heard_wf (room_add r cid uid)"
  using heard_step[of r undefined "Add cid uid"] by simp

lemma heard_rooms_add: "sfu_inv s \<Longrightarrow> heard_rooms s \<Longrightarrow> heard_rooms (add_client s n cid uid)"
  using heard_add sfu_invD(5) by (auto simp: heard_rooms_def add_client_def)

lemma heard_rooms_add_all:
  "sfu_inv s \<Longrightarrow> heard_rooms s \<Longrightarrow> heard_rooms (foldl (\<lambda>s w. add_client s n (w_clientId w) (w_userId w)) s ws)"
  by (induction ws arbitrary: s) (simp_all add: heard_rooms_add sfu_inv_add)

lemma heard_rooms_connection:
  assumes inv: "sfu_inv s" and h: "heard_rooms s"
  shows "heard_rooms (websocket_connection s ws ri ci u)"
proof -
  obtain s' y where y: "getOrCreateRoom s (the ri) = (s', y)"
    by (cases "getOrCreateRoom s (the ri)")
  have s': "sfu_inv s'" "s_objs s' = s_objs s"
    using sfu_inv_getOrCreate[OF inv, of "the ri"] getOrCreate_objs[of s "the ri"] y by simp_all
  then have "heard_rooms (add_client s' n (the ci) u)" "s_objs (add_client s' n (the ci) u) = s_objs (add_client s n (the ci) u)" for n
    using heard_rooms_add[OF s'(1)] h by (simp_all add: heard_rooms_def add_client_def)
  then show ?thesis
    using y s'(2) h by (cases y) (simp_all add: websocket_connection_def heard_rooms_def)
qed

lemma heard_rooms_created:
  assumes inv: "sfu_inv s" and h: "heard_rooms s"
  shows "heard_rooms (router_created s p k caps)"
proof (cases "map_of (s_promises s) p")
  case (Some i)
  obtain s1 where s1: "sfu_inv s1" "s_objs s1 = (s_objs s)(s_nobjs s \<mapsto> room_new i k caps (s_ip s) (s_announcedIp s))"
    "router_created s p k caps = foldl (\<lambda>s w. add_client s (s_nobjs s1 - 1) (w_clientId w) (w_userId w)) s1
       (filter (\<lambda>w. w_promise w = p) (s_waiting s))"
    by (rule router_created_split[OF inv Some, of k caps])
  have "heard_rooms s1"
    using h by (simp add: heard_rooms_def s1(2) heard_new)
  then show ?thesis
    unfolding s1(3) by (rule heard_rooms_add_all[OF s1(1)])
qed (use h in \<open>simp add: router_created_def\<close>)

lemma heard_rooms_room_event:
  assumes inv: "sfu_inv s" and h: "heard_rooms s"
  shows "heard_rooms (room_event jwt s n e)"
proof (cases "s_objs s n")
  case (Some r)
  have "heard_wf (room_step jwt r e)"
    using heard_step[OF sfu_invD(5)[OF inv Some]] h Some by (simp add: heard_rooms_def)
  moreover have "s_objs (room_event jwt s n e) m = s_objs s m \<or> s_objs (room_event jwt s n e) m = Some (room_step jwt r e)" for m
    using Some by (cases e) (auto simp: room_event_def Let_def simp del: room_step.simps)
  ultimately show ?thesis
    using h unfolding heard_rooms_def by (metis option.inject)
qed (use h in \<open>simp add: room_event_def\<close>)

lemma heard_rooms_step: "sfu_inv s \<Longrightarrow> heard_rooms s \<Longrightarrow> heard_rooms (sfu_step jwt s e)"
proof (cases e)
  case (RouterFailed p)
  assume "heard_rooms s"
  with RouterFailed show ?thesis
    by (auto simp: router_failed_def settle_promise_def heard_rooms_def split: option.split)
qed (simp_all add: heard_rooms_connection heard_rooms_created heard_rooms_room_event)

lemma empty_slot: "heard_rooms s \<Longrightarrow> s_objs s n = Some r \<Longrightarrow> r_objs r ref = None \<Longrightarrow> inbox r ref = []"
  by (simp add: heard_rooms_def inbox_fresh)

section \<open>The frames of a socket\<close>

definition frame_of :: "nat \<Rightarrow> sfu_main_event \<Rightarrow> message list" where
  "frame_of ws e = (case e of Frame now ws' m \<Rightarrow> if ws' = ws then [m] else [] | _ \<Rightarrow> [])"

definition frames_of :: "nat \<Rightarrow> sfu_main_event list \<Rightarrow> message list" where
  "frames_of ws es = concat (map (frame_of ws) es)"

definition unheard :: "sfu_main \<Rightarrow> nat \<Rightarrow> message list" where
  "unheard s ws = map snd (filter (\<lambda>x. fst x = ws) (sm_lost s))"

fun connects :: "nat \<Rightarrow> sfu_main_event \<Rightarrow> bool" where
  "connects ws (Serve (WsConnection ws' u)) = (ws' = ws)"
| "connects ws _ = False"

lemma sfu_router_created_seat:
  "sm_lost (sfu_router_created s p k caps) = sm_lost s" "sm_lost (sfu_router_failed s p) = sm_lost s"
  "sm_sockets (sfu_router_failed s p) = sm_sockets s"
  by (simp_all add: sfu_router_created_def sfu_router_failed_def split: option.split)

lemma unheard_step:
  "unheard (sfu_main_step jwt url pq s e) ws = unheard s ws @ (if sm_sockets s ws = None then frame_of ws e else [])"
  by (cases e) (auto simp: unheard_def frame_of_def sfu_server_event_cases(3) sfu_router_created_seat sfu_frame_def
      sfu_socket_event_def Let_def split: option.split)

lemma rooms_input_cases: "rooms_input pq s e = [] \<or> (\<exists>x. rooms_input pq s e = [x])"
proof (cases e)
  case (Serve x)
  then show ?thesis
    by (cases x) (simp_all add: Let_def)
qed (auto simp: to_client_of_def split: option.split)

lemma delivered_input:
  assumes s: "seating_inv s" and ws: "sm_sockets s ws = Some x" and y: "rooms_input pq s e = [y]"
  shows "delivered x y = frame_of ws e"
proof (cases e)
  case (Serve z)
  then show ?thesis
    using y by (cases z) (auto simp: delivered_def frame_of_def Let_def)
next
  case (Frame now ws' m)
  then obtain n ref where n: "sm_sockets s ws' = Some (n, ref)" "y = RoomEvent n (Receive now ref m)"
    using y by (auto simp: to_client_of_def split: option.splits)
  have "(n, ref) = x \<longleftrightarrow> ws' = ws"
    using seating_invD(3)[OF s] ws n(1) by auto
  then show ?thesis
    using Frame n(2) by (auto simp: delivered_def frame_of_def)
next
  case (Activity n z)
  then show ?thesis
    using y by (cases z) (auto simp: delivered_def frame_of_def)
qed (use y in \<open>auto simp: delivered_def frame_of_def to_client_of_def split: option.splits if_splits\<close>)

lemma main_keeps:
  assumes s: "seating_inv s" and ws: "sm_sockets s ws = Some x"
  shows "keeps_client (sm_rooms s) (sm_rooms (sfu_main_step jwt url pq s e)) x (frame_of ws e)"
proof (cases "rooms_input pq s e")
  case Nil
  have "frame_of ws e = []"
    using Nil ws by (cases e) (auto simp: frame_of_def to_client_of_def split: option.splits)
  then show ?thesis
    using Nil by (simp add: rooms_of_step keeps_client_same del: sfu_main_step.simps)
next
  case (Cons y ys)
  then have y: "rooms_input pq s e = [y]"
    using rooms_input_cases[of pq s e] by auto
  then show ?thesis
    using keeps_step[OF seating_invD(1)[OF s], of jwt y x] delivered_input[OF s ws y]
    by (simp add: rooms_of_step del: sfu_main_step.simps)
qed

section \<open>How a socket gets its client\<close>

definition waits :: "sfu_main \<Rightarrow> nat \<Rightarrow> nat" where
  "waits s ws = tally (\<lambda>x. snd x = ws) (sm_waiting s)"

definition places :: "sfu_main \<Rightarrow> nat \<Rightarrow> nat" where
  "places s ws = waits s ws + (if sm_sockets s ws = None then 0 else 1)"

text \<open>A client object that listens and has received nothing.\<close>

definition newly_seated :: "sfu_main \<Rightarrow> nat \<Rightarrow> bool" where
  "newly_seated s ws \<longleftrightarrow> (\<exists>n ref r c. sm_sockets s ws = Some (n, ref) \<and> s_objs (sm_rooms s) n = Some r \<and>
     r_objs r ref = Some c \<and> inbox r ref = [])"

lemma inbox_adds [simp]: "inbox (foldl (\<lambda>r w. room_add r (w_clientId w) (w_userId w)) r ws) ref = inbox r ref"
  by (simp add: inbox_def room_adds_ids)

lemma connection_seat:
  fixes s ws q
  defines "s' \<equiv> sfu_connection s ws q"
  assumes s: "seating_inv s" "heard_rooms (sm_rooms s)"
  shows "(sm_sockets s' ws = sm_sockets s ws \<or> newly_seated s' ws) \<and> places s' ws \<le> places s ws + 1 \<and>
    (ws' \<noteq> ws \<longrightarrow> sm_sockets s' ws' = sm_sockets s ws' \<and> waits s' ws' = waits s ws')"
proof (cases "str_truthy (q ''roomId'') \<and> str_truthy (q ''clientId'')")
  case False
  then show ?thesis
    by (auto simp: s'_def sfu_connection_def Let_def places_def waits_def)
next
  case True
  obtain t y where y: "getOrCreateRoom (sm_rooms s) (the (q ''roomId'')) = (t, y)"
    by (cases "getOrCreateRoom (sm_rooms s) (the (q ''roomId''))")
  show ?thesis
  proof (cases y)
    case (Existing n)
    have e: "t = sm_rooms s" "map_get (s_rooms (sm_rooms s)) (the (q ''roomId'')) = Some n"
      using getOrCreate_existing[of "sm_rooms s" _ t n] y Existing by auto
    then obtain r where r: "s_objs (sm_rooms s) n = Some r"
      using sfu_invD(6)[OF seating_invD(1)[OF s(1)]] by blast
    have "r_objs r (r_nobjs r) = None"
      using sfu_invD(5)[OF seating_invD(1)[OF s(1)] r] room_wf_fresh[of r] by (simp add: room_inv_def)
    then have "inbox r (r_nobjs r) = []"
      by (rule empty_slot[OF s(2) r])
    then show ?thesis
      using True y Existing e r
      by (auto simp: s'_def sfu_connection_def websocket_connection_def Let_def newly_seated_def add_client_def places_def waits_def
          room_add_def inbox_def)
  next
    case (Promised p)
    then show ?thesis
      using True y by (auto simp: s'_def sfu_connection_def Let_def places_def waits_def)
  qed
qed

lemma seats_None: "ws \<notin> set wss \<Longrightarrow> seats n wss ws = None"
  using seats_Some[of n wss ws] by (cases "seats n wss ws") auto

lemma tally_filter: "tally P (filter Q xs) + tally P (filter (\<lambda>x. \<not> Q x) xs) = tally P xs"
  by (induction xs) auto

lemma router_seat:
  fixes s p k caps
  defines "s' \<equiv> sfu_router_created s p k caps"
  assumes s: "seating_inv s"
  shows "(sm_sockets s' ws = sm_sockets s ws \<or> newly_seated s' ws \<and> 0 < waits s ws) \<and> places s' ws \<le> places s ws"
proof (cases "map_of (s_promises (sm_rooms s)) p")
  case None
  then show ?thesis
    by (simp add: s'_def sfu_router_created_def)
next
  case (Some i)
  let ?n = "s_nobjs (sm_rooms s)"
  let ?mine = "filter (\<lambda>x. fst x = p) (sm_waiting s)"
  let ?ws = "filter (\<lambda>w. w_promise w = p) (s_waiting (sm_rooms s))"
  have s': "s' = s\<lparr>sm_rooms := router_created (sm_rooms s) p k caps, sm_sockets := sm_sockets s ++ seats ?n (map snd ?mine),
      sm_waiting := filter (\<lambda>x. fst x \<noteq> p) (sm_waiting s)\<rparr>"
    using Some by (simp add: s'_def sfu_router_created_def)
  have sum: "tally (\<lambda>x. snd x = ws) ?mine + waits s' ws = waits s ws"
    unfolding waits_def s' by (simp add: tally_filter)
  show ?thesis
  proof (cases "seats ?n (map snd ?mine) ws")
    case None
    then have "sm_sockets s' ws = sm_sockets s ws"
      by (simp add: s' map_add_def)
    then show ?thesis
      using sum by (simp add: places_def)
  next
    case (Some x)
    then obtain j where j: "j < length ?mine" "snd (?mine ! j) = ws" "x = (?n, j)"
      using seats_Some[of ?n "map snd ?mine" ws x] by auto
    have "0 < tally (\<lambda>x. snd x = ws) ?mine"
      unfolding tally_pos using j(1,2) nth_mem by blast
    moreover have "sm_sockets s' ws = Some (?n, j)"
      using Some j(3) by (simp add: s' map_add_def)
    moreover have "newly_seated s' ws"
    proof -
      have "length ?mine = length ?ws"
        using list_all2_lengthD[OF list_all2_filter[OF seating_invD(4)[OF s] awaited_promise]] by simp
      then obtain c where "r_objs (foldl (\<lambda>r w. room_add r (w_clientId w) (w_userId w))
          (room_new i k caps (s_ip (sm_rooms s)) (s_announcedIp (sm_rooms s))) ?ws) j = Some c"
        using room_adds_at[of j ?ws "room_new i k caps (s_ip (sm_rooms s)) (s_announcedIp (sm_rooms s))"] j(1)
        by (auto simp: room_new_def)
      moreover have "inbox (room_new i k caps (s_ip (sm_rooms s)) (s_announcedIp (sm_rooms s))) j = []"
        by (simp add: inbox_def room_new_def)
      ultimately show ?thesis
        using \<open>sm_sockets s' ws = Some (?n, j)\<close> router_created_room(1)[OF seating_invD(1)[OF s] \<open>map_of _ p = Some i\<close>, of k caps]
        by (auto simp: newly_seated_def s')
    qed
    ultimately show ?thesis
      using sum by (simp add: places_def)
  qed
qed

lemma seat_step:
  fixes s e jwt url pq
  defines "s' \<equiv> sfu_main_step jwt url pq s e"
  assumes s: "seating_inv s" "heard_rooms (sm_rooms s)"
  shows "(sm_sockets s' ws = sm_sockets s ws \<or> newly_seated s' ws \<and> (connects ws e \<or> 0 < waits s ws)) \<and>
    places s' ws \<le> places s ws + (if connects ws e then 1 else 0)"
proof (cases e)
  case (Serve x)
  let ?t = "s\<lparr>sm_server := server_step pq (sm_server s) x\<rparr>"
  have t: "seating_inv ?t" "heard_rooms (sm_rooms ?t)" "waits ?t = waits s" "places ?t = places s" "sm_sockets ?t = sm_sockets s"
    using seating_server_step[OF s(1)] s(2) by (simp_all add: waits_def places_def fun_eq_iff)
  show ?thesis
  proof (cases x)
    case (WsConnection u v)
    then obtain q where q: "connections_out pq x = [Connection u q]"
      by (simp add: connections_out_def)
    have "s' = sfu_connection ?t u q"
      using sfu_server_event_cases(5)[OF q] Serve by (simp add: s'_def)
    then show ?thesis
      using connection_seat[OF t(1,2), of u q ws] t(3-5) Serve WsConnection by (auto simp: places_def)
  qed (use Serve sfu_server_event_cases(4)[of pq x url s] in \<open>simp_all add: s'_def connections_out_def places_def waits_def\<close>)
next
  case (RouterMade p k caps)
  then show ?thesis
    using router_seat[OF s(1), of p k caps ws] by (auto simp: s'_def)
next
  case (RouterRefused p)
  then show ?thesis
    using tally_filter_le by (auto simp: s'_def places_def waits_def sfu_router_created_seat(3) sfu_router_failed_def split: option.split)
qed (auto simp: s'_def places_def waits_def sfu_frame_def sfu_socket_event_def Let_def split: option.split)

section \<open>Every frame is accounted for\<close>

definition accounts :: "sfu_main \<Rightarrow> nat \<Rightarrow> message list \<Rightarrow> bool" where
  "accounts s ws ms \<longleftrightarrow>
     (case sm_sockets s ws of
        None \<Rightarrow> unheard s ws = ms
      | Some (n, ref) \<Rightarrow> (\<exists>r c rest. s_objs (sm_rooms s) n = Some r \<and> r_objs r ref = Some c \<and>
          ms = unheard s ws @ inbox r ref @ rest \<and> (rest \<noteq> [] \<longrightarrow> c_closed c)))"

lemma accounts_step:
  assumes s: "seating_inv s" "heard_rooms (sm_rooms s)" and a: "accounts s ws ms"
    and once: "places s ws + (if connects ws e then 1 else 0) \<le> 1"
  shows "accounts (sfu_main_step jwt url pq s e) ws (ms @ frame_of ws e)"
proof (cases "sm_sockets s ws")
  case None
  let ?s' = "sfu_main_step jwt url pq s e"
  have lost: "unheard ?s' ws = ms @ frame_of ws e"
    using a None by (simp add: accounts_def unheard_step del: sfu_main_step.simps)
  show ?thesis
    using seat_step[OF s, of jwt url pq e ws] None lost
    by (auto simp: accounts_def newly_seated_def simp del: sfu_main_step.simps)
next
  case (Some x)
  let ?s' = "sfu_main_step jwt url pq s e"
  obtain n ref r c rest where x: "x = (n, ref)" "s_objs (sm_rooms s) n = Some r" "r_objs r ref = Some c"
      "ms = unheard s ws @ inbox r ref @ rest" "rest \<noteq> [] \<longrightarrow> c_closed c"
    using a Some by (cases x) (auto simp: accounts_def)
  have "waits s ws = 0" "\<not> connects ws e"
    using once Some by (auto simp: places_def split: if_splits)
  then have same: "sm_sockets ?s' ws = Some x"
    using seat_step[OF s, of jwt url pq e ws] Some by auto
  obtain r' c' where r': "s_objs (sm_rooms ?s') n = Some r'" "r_objs r' ref = Some c'" "c_closed c \<longrightarrow> c_closed c'"
      "inbox r' ref = inbox r ref @ (if c_closed c then [] else frame_of ws e)"
    using main_keeps[OF s(1) Some[unfolded x(1)], of jwt url pq e] x(2,3) unfolding keeps_client_def fst_conv snd_conv by blast
  show ?thesis
    using same Some x r' by (auto simp: accounts_def unheard_step simp del: sfu_main_step.simps)
qed

lemma accounts_run:
  assumes "seating_inv s" "heard_rooms (sm_rooms s)" "accounts s ws ms" "places s ws + tally (connects ws) es \<le> 1"
  shows "accounts (foldl (sfu_main_step jwt url pq) s es) ws (ms @ frames_of ws es)"
  using assms
proof (induction es arbitrary: s ms)
  case (Cons e es)
  let ?s' = "sfu_main_step jwt url pq s e"
  have "heard_rooms (sm_rooms ?s')"
    using rooms_input_cases[of pq s e] heard_rooms_step[OF seating_invD(1)[OF Cons.prems(1)] Cons.prems(2)] Cons.prems(2)
    by (auto simp: rooms_of_step simp del: sfu_main_step.simps)
  moreover have "accounts ?s' ws (ms @ frame_of ws e)"
    by (rule accounts_step[OF Cons.prems(1-3)]) (use Cons.prems(4) in \<open>simp split: if_splits\<close>)
  moreover have "places ?s' ws + tally (connects ws) es \<le> 1"
    using seat_step[OF Cons.prems(1,2), of jwt url pq e ws, THEN conjunct2] Cons.prems(4) by (simp split: if_splits del: sfu_main_step.simps)
  ultimately show ?case
    using Cons.IH[of ?s' "ms @ frame_of ws e"] seating_step[OF Cons.prems(1), of jwt url pq e]
    by (simp add: frames_of_def del: sfu_main_step.simps)
qed (simp add: frames_of_def)

text \<open>
  C37. Every frame of a web socket is accounted for: in any run of the SFU in which the server announces the socket at most once,
  whatever the other sockets, the rooms, the workers and the observer do meanwhile, a socket that no client listens on has
  lost all its frames; once one does, the frames are those that came before (they are lost), then, in the order in which
  they came and each once, exactly those that the room of the client received from it, and what is missing at the end came
  after the client was closed.
\<close>

theorem frames_accounted_for:
  assumes "s = sfu_main_run jwt url pq port ip announcedIp sfuId es" and "tally (connects ws) es \<le> 1"
  shows "case sm_sockets s ws of
      None \<Rightarrow> unheard s ws = frames_of ws es
    | Some (n, ref) \<Rightarrow> (\<exists>r c rest. s_objs (sm_rooms s) n = Some r \<and> r_objs r ref = Some c \<and>
        frames_of ws es = unheard s ws @ inbox r ref @ rest \<and> (rest \<noteq> [] \<longrightarrow> c_closed c))"
proof -
  let ?s = "sfu_main_start port ip announcedIp sfuId"
  have "seating_inv ?s"
    using seating_run[of jwt url pq port ip announcedIp sfuId "[]"] by (simp add: sfu_main_run_def)
  moreover have "heard_rooms (sm_rooms ?s)" "accounts ?s ws []" "places ?s ws = 0"
    by (simp_all add: sfu_main_start_def sfu_main_from_def heard_rooms_def sfu_new_def accounts_def unheard_def places_def waits_def)
  ultimately have "accounts s ws ([] @ frames_of ws es)"
    unfolding assms(1) sfu_main_run_def by (intro accounts_run) (use assms(2) in simp_all)
  then show ?thesis
    by (simp add: accounts_def)
qed

text \<open>A frame that comes too early, then one that is received.\<close>

definition two_frames :: "sfu_main_event list" where
  "two_frames = [Serve (WsConnection 8 (Some ''b'')), Frame 0 8 (Req (GetRouterCapabilitiesRequest ''1'')),
     RouterMade 0 ''call'' JNull, Frame 1 8 (Req (GetRouterCapabilitiesRequest ''2''))]"

lemma frames_accounted_for_witness:
  "let s = sfu_main_run (\<lambda>_ _. ''token'') (\<lambda>_. None) socket_query 8080 ''ip'' ''aip'' ''sfu'' two_frames
   in sm_sockets s 8 = Some (0, 0) \<and> unheard s 8 = [Req (GetRouterCapabilitiesRequest ''1'')] \<and>
      (\<exists>r c. s_objs (sm_rooms s) 0 = Some r \<and> r_objs r 0 = Some c \<and>
        (inbox r 0 = [Req (GetRouterCapabilitiesRequest ''2'')] \<or> c_closed c))"
proof -
  let ?s = "sfu_main_run (\<lambda>_ _. ''token'') (\<lambda>_. None) socket_query 8080 ''ip'' ''aip'' ''sfu'' two_frames"
  have e: "sm_sockets ?s 8 = Some (0, 0) \<and> sm_lost ?s = [(8, Req (GetRouterCapabilitiesRequest ''1''))]"
    unfolding two_frames_def sfu_main_run_def by (simp add: witness_defs sfu_frame_def)
  have f: "frames_of 8 two_frames = [Req (GetRouterCapabilitiesRequest ''1''), Req (GetRouterCapabilitiesRequest ''2'')]"
      "tally (connects 8) two_frames \<le> 1"
    by (simp_all add: frames_of_def frame_of_def two_frames_def)
  have u: "unheard ?s 8 = [Req (GetRouterCapabilitiesRequest ''1'')]"
    using e by (simp add: unheard_def)
  show ?thesis
    using frames_accounted_for[OF refl f(2), of "\<lambda>_ _. ''token''" "\<lambda>_. None" socket_query 8080 "''ip''" "''aip''" "''sfu''"] e u f(1)
    by (auto simp: Let_def append_eq_Cons_conv Cons_eq_append_conv)
qed

end
