(* ===== verification/Spec2Isabelle.thy ===== *)
theory Spec2Isabelle
  imports RoomTypes EarlyMedia WebTelemetry LogLines LocalBox WebApp WebSamples AppShell Stats SfuFrames
begin

text \<open>
  A verification library of the ObserveRTC demo application. The application is three programs in
  TypeScript:

  \<^item> the SFU (\<^verbatim>\<open>src/sfu\<close>), a video conference server: it accepts web sockets, keeps one room per
    room id, and lets the clients of a room consume each other's media with the mediasoup library;
  \<^item> the web application (\<^verbatim>\<open>src/webapp\<close>), which talks to the SFU over a web socket, produces the local
    tracks, shows the remote ones and hands samples of its monitors to the observer;
  \<^item> the observer (\<^verbatim>\<open>src/observer\<close>), which receives samples of clients and SFUs over web sockets,
    keeps a source of the observer library for each, and evaluates them.

  The three share the message classes (SFU and web application), the server, the middleware and the
  logger (SFU and observer have the same files; each is modelled once, and the lines of the
  observer's copy are cited).

  \<^bold>\<open>Shared theories.\<close>
  \<open>Prelude\<close>: JSON values, truthiness, the locales \<open>invariant_system\<close>, \<open>free_invariant_system\<close>
  (a step function that keeps an invariant, with and without a guard) and \<open>logging_system\<close> (a step
  function that only extends its trace). Each component below interprets one of them on its own
  step function, and its properties rest on the interpreted facts.
  \<open>JsMap\<close>: the ECMAScript \<open>Map\<close>, with the order of insertion and live iterators, and the interface
  \<open>keyed_store\<close> of its operations.

  \<^bold>\<open>The SFU.\<close>
  \<^item> \<open>Protocol\<close> is \<^verbatim>\<open>sfu/src/media/MessageProtocol.ts\<close>: the message classes, their tags and the
    JSON object of each; different messages have different JSON.
  \<^item> \<open>ClientEvents\<close> is \<^verbatim>\<open>sfu/src/media/ClientEvents.ts\<close>: the wrapper of a socket; its parsing,
    dispatch and closing.
  \<^item> \<open>Room\<close> is \<^verbatim>\<open>sfu/src/media/Room.ts\<close>: \<open>_clients\<close> is \<open>r_clients\<close> (ids to object numbers),
    the client objects are \<open>r_objs\<close>, the suspended handlers are \<open>r_tasks\<close>, and \<open>r_trace\<close> records what
    is sent, received and asked of the library. An event of \<open>room_step\<close> is a frame from a client, the
    settling of an awaited promise, or the closing of a socket or a library object.
    \<open>RoomInv\<close> decomposes every handler into primitive moves and proves the structural invariants;
    \<open>RoomSafety\<close> has the safety properties; \<open>RoomReply\<close> counts requests and responses;
    \<open>RoomMesh\<close> and \<open>RoomDelivery\<close> prove that every joined client is told of every other client's
    producers, whatever the interleaving of the loops; \<open>RoomProgress\<close> proves by a measure on what the
    iterators have in front of them that the handlers finish, so that the media do reach everyone once
    the library has answered; \<open>RoomTypes\<close> proves the state well-typed (no number stands for a
    missing object); \<open>RoomTransport\<close> ties the response to \<open>create-transport-request\<close> to what the client
    object has; \<open>RoomTold\<close> proves that a producer is not announced again to a client for which the room keeps a
    consumer of it; \<open>RoomEdge\<close> has the end of a room and the
    corners in which the code does something else than its surroundings suggest.
  \<^item> \<open>Rooms\<close> is \<^verbatim>\<open>sfu/src/media/Rooms.ts\<close> with the \<open>websocket-connection\<close> listener of
    \<^verbatim>\<open>sfu/src/main.ts\<close>: rooms under creation, the clients that wait for them, and the table.
  \<^item> \<open>SfuMain\<close> puts the SFU together as \<^verbatim>\<open>sfu/src/main.ts\<close> does from where it has its worker: server, rooms
    and the observer's client, with the sockets and the client objects that listen on them. Each component is in the
    state of its own run of what the process hands it (the functions \<open>server_input\<close>, \<open>observer_input\<close>, \<open>rooms_input\<close> say what that is), and
    every socket has a client object of its own. What nobody catches is recorded (\<open>sm_faults\<close>). \<open>SfuFrames\<close>
    follows the frames of a socket to the client object that listens there and accounts for each.
    \<open>SfuProcess\<close> is the same file from its first line to its exit: help text, configuration with the DNS
    lookup, the server object, worker, service, \<open>SIGINT\<close>, and the end by an exception or, where Node ends on them
    (\<open>w_rejections_end\<close>), an unhandled rejection.

  \<^bold>\<open>The observer.\<close>
  \<^item> \<open>Sources\<close>, \<open>ObservedClients\<close> and \<open>ObservedSfus\<close> are \<^verbatim>\<open>observer/src/sources\<close>: what an operation
    may do to a table is the interface \<open>source_table\<close>; the second table is the first one read as a table of SFUs
    (\<open>as_sfu\<close>), step for step.
  \<^item> \<open>Server\<close> and \<open>Middleware\<close> are \<^verbatim>\<open>Server.ts\<close>, \<^verbatim>\<open>common/Middleware.ts\<close> and the controllers;
    \<open>ObserverMain\<close> puts them together as \<^verbatim>\<open>observer/src/main.ts\<close> does, and \<open>ObserverProcess\<close> is that file
    from its first line to its exit, with the evaluators.
  \<^item> \<open>Evaluators\<close> is \<^verbatim>\<open>observer/src/evaluators\<close>; \<open>Logger\<close> (levels and the registry), \<open>LogLines\<close> (what the
    console is handed) and \<open>AppConfig\<close> are the loggers and the configuration of both services, \<open>Startup\<close> is what
    both mains do first.

  \<^bold>\<open>The web application.\<close>
  \<^item> \<open>ServerConnection\<close> is \<^verbatim>\<open>webapp/src/contexts/ServerConnection.tsx\<close>: connecting, buffering,
    resending and the promises of requests; \<open>MediaService\<close> is
    \<^verbatim>\<open>webapp/src/contexts/MediasoupService.tsx\<close> on top of it (the field \<open>ms_conn\<close>; a suspended function is a task, with
    one constructor per \<open>await\<close>). \<open>MediaWire\<close> has the order of what the service writes to its socket
    and what each kind of frame makes it do.
  \<^item> \<open>RemoteClients\<close> has the store and the two handlers that group tracks by client, \<open>LocalMedia\<close> the
    mute and pause buttons, \<open>LocalBox\<close> the effect around them that gets and stops the tracks, \<open>Stats\<close> the
    computations of the statistics pages, \<open>AppShell\<close> the whole store and the tabs that are made from it,
    \<open>WebApp\<close> the flow from the socket to the store, and \<open>WebSamples\<close> the flow of the monitor's samples to the two
    clients of the observer.
  \<^item> \<open>ObserverClients\<close> has both copies of \<^verbatim>\<open>ObserverServiceClient.ts\<close> (web application and SFU) as
    implementations of one abstract queue of samples, the locale \<open>sample_queue\<close>.

  \<^bold>\<open>The programs together.\<close> \<open>Conference\<close> composes a room with any number of web applications over sockets
  that deliver in order; the frames in flight are what one side has sent and the other has not taken. It
  shows that the applications are the clients that \<open>RoomDelivery\<close> assumes (the guard \<open>mesh_ok\<close> on messages is
  discharged) and follows media from the producer to the \<open>consume\<close> of every other application. \<open>EarlyMedia\<close> shows that an
  announcement that comes too early is dropped and, while the room keeps its consumer, lost for good. The room is taken to exist when the applications connect;
  what happens to frames before that is in \<open>SfuMain\<close>. \<open>Telemetry\<close> composes the SFU with the observer over
  the web socket of the SFU's samples, and \<open>SfuFeed\<close> is what that SFU sees of the observer's table: the
  samples arrive in order, and after a cut nothing arrives any more. \<open>WebTelemetry\<close> composes a web application
  with the observer in the same way (\<open>ClientFeed\<close> transfers the facts on the table of SFUs to the table of clients): its client connects again, and only what was on the wire at a cut is lost. This theory has the remaining property that spans
  programs: the SFU's responses are those the web connection resolves.

  \<^bold>\<open>Conventions.\<close> Code between two \<open>await\<close>s runs without interruption, so it is one function; a run
  is a fold of the step function over any list of events, and a property of every run quantifies over
  that list. Rejected promises, sockets that close and libraries that fail are events. No model
  uses fuel: loops of the source are recursion over finite lists, the live loops of the room
  advance by one event at a time, and the mutual recursion of the middlewares has a measure (those
  not yet visited). Time is a natural number or integer given with the event. There is no machine
  arithmetic in the source; its numbers are counters and time stamps, far below the range in which
  JavaScript's numbers are exact.

  \<^bold>\<open>Parameters.\<close> Code that is not in the repository is an argument: \<open>parse\<close> for \<open>JSON.parse\<close>,
  \<open>jwt\<close> for the signing of tokens, \<open>uuid\<close> for the generated ids, \<open>parse_query\<close> for the query string of
  a URL, the environment and the command line, the DNS lookup, the browser's \<open>kind\<close> of a track; the answers of mediasoup are events.

  \<^bold>\<open>Not modelled.\<close> The markup and the React wiring of the web application, its rendering of the
  statistics, the video elements, the sandbox page (it shows one number of the monitor), \<^verbatim>\<open>sfu/src/media/constants.ts\<close> (data for the library), \<^verbatim>\<open>observer/src/sinks/mySink.ts\<close>
  (it only logs), the monitors and encoders of the ObserveRTC libraries, the crash of the observer by an uncaught
  exception (that of the SFU is modelled), and when the other modules log: these are calls of libraries with no decision of their own.
\<close>

section \<open>Properties that span the programs\<close>

text \<open>The types by which the room answers are those the web connection resolves.\<close>

lemma answer_type_resolved: "answer_type q = Some ty \<Longrightarrow> ty \<in> set resolved_types"
  by (cases q) (auto simp: resolved_types_def)

lemma response_has_request:
  assumes "OSend ref (Rsp p) \<in> set (r_trace (room_run jwt (room_new roomId key caps ip a) es))"
  shows "\<exists>q. ORecv ref (Req q) \<in> set (r_trace (room_run jwt (room_new roomId key caps ip a) es)) \<and>
    request_id q = response_id p \<and> answer_type q = Some (response_type p)"
proof -
  have "reply_inv (room_run jwt (room_new roomId key caps ip a) es)"
    unfolding room_run_def using reply.free_run_inv[OF conjI[OF room_inv_new reply_inv_new]] by (rule conjunct2)
  from reply_has_request[OF this assms] show ?thesis
    unfolding room_heard_def by blast
qed

text \<open>
  C13. The two ends of a request meet: every response that a room sends to a connection belongs to a
  request it received there, and when that request was made by a web connection, in any run, the frame with the
  response resolves exactly the promise of that request, once. In particular the room sends no
  response of a type for which the web connection registers no resolver.
\<close>

theorem room_responses_are_resolved:
  assumes "OSend ref (Rsp p) \<in> set (r_trace (room_run jwt (room_new roomId key caps ip a) es))"
    and "parse data = Some (message_json (Rsp p))"
    and "\<forall>e \<in> set later. \<not> requests_id (response_id p) e"
  shows "\<exists>q. ORecv ref (Req q) \<in> set (r_trace (room_run jwt (room_new roomId key caps ip a) es)) \<and>
    request_id q = response_id p \<and>
    (let s = foldl (sc_step parse) (connection_new config) earlier;
         s' = foldl (sc_step parse) (sc_step parse s (ServerConnection.Request now q)) later
     in filter is_resolve (sc_out (sc_step parse s' (ReceiveFrame data))) =
        filter is_resolve (sc_out s') @ [Resolve (sc_npromises s) (message_json (Rsp p))])"
proof -
  obtain q where q: "ORecv ref (Req q) \<in> set (r_trace (room_run jwt (room_new roomId key caps ip a) es))"
    "request_id q = response_id p" "answer_type q = Some (response_type p)"
    using response_has_request[OF assms(1)] by blast
  have "\<forall>e \<in> set later. \<not> requests_id (request_id q) e"
    using assms(3) q(2) by simp
  from request_resolved[of parse data p, OF assms(2) answer_type_resolved[OF q(3)] q(2)[symmetric] this]
  show ?thesis
    using q(1,2) by blast
qed

text \<open>The response to the joining client of \<^const>\<open>two_client_room\<close>.\<close>

lemma room_responses_are_resolved_witness:
  "\<exists>q. ORecv 1 (Req q) \<in> set (r_trace two_client_room) \<and> request_id q = ''3'' \<and>
    (let parse = (\<lambda>_. Some (message_json (Rsp (JoinCallResponse ''3'' ''call'' ''token''))));
         s' = sc_step parse (connection_new web_config) (ServerConnection.Request 0 q)
     in filter is_resolve (sc_out (sc_step parse s' (ReceiveFrame ''frame''))) =
        filter is_resolve (sc_out s') @ [Resolve 0 (message_json (Rsp (JoinCallResponse ''3'' ''call'' ''token'')))])"
proof -
  have sent: "OSend 1 (Rsp (JoinCallResponse ''3'' ''call'' ''token'')) \<in> set (r_trace two_client_room)"
    by code_simp
  have "sc_npromises (connection_new web_config) = 0"
    by (simp add: connection_new_def)
  then show ?thesis
    using room_responses_are_resolved[OF sent[unfolded two_client_room_def],
        of "\<lambda>_. Some (message_json (Rsp (JoinCallResponse ''3'' ''call'' ''token'')))" "''frame''" "[]" web_config "[]" 0]
    by (simp add: two_client_room_def Let_def del: sc_step.simps)
qed

end
